(* ===== verification/Prelude.thy ===== *)
theory Prelude
  imports Main "HOL-Library.AList"
begin

text \<open>
  Shared vocabulary of the development: identifiers, time stamps, Python exceptions as values of
  a sum type, dictionaries with Python's insertion order, trimmed strings, and the transition
  systems on which the state machines of the other theories are built.  The collections
  \<open>result_simps\<close> and \<open>dict_simps\<close> hold the rewrite rules that carry most proofs.
\<close>

named_theorems result_simps
named_theorems dict_simps

section \<open>Identifiers and time\<close>

text \<open>
  A UUID is its 128-bit number.  The code orders identifiers by \<open>UUID.hex\<close>, a fixed-width
  hexadecimal numeral, and by \<open>UUID.__lt__\<close>; both are the order of the numbers.
\<close>

type_synonym uuid = nat

text \<open>
  A \<open>datetime\<close> is naive, or aware of a time zone.  The number is the instant in microseconds;
  comparisons of aware values compare instants.  The zone records only whether \<open>tzinfo\<close>
  equals \<open>datetime.UTC\<close>, which is all the code asks.
\<close>

datatype tzinfo = UTC | OtherZone

datatype datetime = Naive int | Aware tzinfo int

fun instant :: "datetime \<Rightarrow> int" where
  "instant (Naive t) = t"
| "instant (Aware z t) = t"

fun is_aware :: "datetime \<Rightarrow> bool" where
  "is_aware (Naive t) = False"
| "is_aware (Aware z t) = True"

section \<open>Python exceptions as values\<close>

text \<open>
  An exception is its class and the name of the message constant it is raised with (a member of
  the classes under \<open>common/error_messages\<close>, or a tag for a message written in place).
\<close>

type_synonym message = String.literal

datatype py_error =
    InvalidModelError message
  | ValueError message
  | KeyError message
  | LookupError message
  | PermissionError message
  | RuntimeError message
  | ConnectionError message
  | TypeError message
  | AssertionError
  | ConcurrentWatchProgressUpdateError message
  | AgentJobIdempotencyConflictError message
  | AgentJobTransitionError message
  | AgentJobUnavailableError
  | EmailAlreadyRegisteredError
  | InvalidCredentialsError
  | AccountDisabledError
  | SessionInvalidError
  | AccountRequiredError

type_synonym 'a result = "py_error + 'a"

definition bindE :: "'e + 'a \<Rightarrow> ('a \<Rightarrow> 'e + 'b) \<Rightarrow> 'e + 'b" where
  "bindE m f = (case m of Inl e \<Rightarrow> Inl e | Inr x \<Rightarrow> f x)"

lemma bindE_Inl [simp]: "bindE (Inl e) f = Inl e"
  by (simp add: bindE_def)

lemma bindE_Inr [simp]: "bindE (Inr x) f = f x"
  by (simp add: bindE_def)

lemma bindE_eq_Inr [result_simps]: "bindE m f = Inr y \<longleftrightarrow> (\<exists>x. m = Inr x \<and> f x = Inr y)"
  by (cases m) auto

lemma bindE_eq_Inl [result_simps]:
  "bindE m f = Inl e \<longleftrightarrow> m = Inl e \<or> (\<exists>x. m = Inr x \<and> f x = Inl e)"
  by (cases m) auto

lemma bindE_assoc: "bindE (bindE m f) g = bindE m (\<lambda>x. bindE (f x) g)"
  by (cases m) auto

lemma if_Inl_eq_Inr [result_simps]: "(if c then Inl e else m) = Inr y \<longleftrightarrow> \<not> c \<and> m = Inr y"
  by simp

lemma if_Inr_eq_Inr [result_simps]:
  "(if c then Inr x else m) = Inr y \<longleftrightarrow> (c \<and> x = y) \<or> (\<not> c \<and> m = Inr y)"
  by auto

text \<open>\<open>self\<close> returned unchanged (the same object) or a new object: the code tests identity.\<close>

datatype 'a updated = Same | Fresh 'a

fun current :: "'a \<Rightarrow> 'a updated \<Rightarrow> 'a" where
  "current s Same = s"
| "current s (Fresh t) = t"

fun fresh :: "'a updated \<Rightarrow> bool" where
  "fresh Same = False"
| "fresh (Fresh t) = True"

section \<open>Strings\<close>

text \<open>
  A \<open>str\<close> is a list of characters, read as Latin-1 code points.  \<open>str.strip\<close> removes the
  characters for which \<open>str.isspace\<close> holds; these are their code points below 256.
\<close>

definition is_space :: "char \<Rightarrow> bool" where
  "is_space c = (of_char c \<in> {9, 10, 11, 12, 13, 28, 29, 30, 31, 32, 133, 160 :: nat})"

definition lstrip :: "string \<Rightarrow> string" where
  "lstrip s = dropWhile is_space s"

definition strip :: "string \<Rightarrow> string" where
  "strip s = rev (lstrip (rev (lstrip s)))"

text \<open>The check \<open>not s or s.strip() != s\<close>, which rejects empty and padded strings.\<close>

definition untrimmed :: "string \<Rightarrow> bool" where
  "untrimmed s = (s = [] \<or> strip s \<noteq> s)"

lemma untrimmed_iff:
  "\<not> untrimmed s \<longleftrightarrow> s \<noteq> [] \<and> \<not> is_space (hd s) \<and> \<not> is_space (last s)"
proof (cases s)
  case Nil
  then show ?thesis by (simp add: untrimmed_def)
next
  case (Cons c cs)
  show ?thesis
  proof (cases "is_space c")
    case True
    have "length (strip s) \<le> length cs"
      using length_dropWhile_le [of is_space "rev (dropWhile is_space cs)"]
        length_dropWhile_le [of is_space cs] Cons True
      by (simp add: strip_def lstrip_def)
    with Cons True show ?thesis by (auto simp: untrimmed_def)
  next
    case False
    with Cons have l: "lstrip s = s" by (simp add: lstrip_def)
    have r: "rev s = last s # rev (butlast s)"
      using Cons by (metis append_butlast_last_id list.distinct(1) rev_eq_Cons_iff rev_rev_ident)
    have e: "strip s = rev (dropWhile is_space (last s # rev (butlast s)))"
      by (simp only: strip_def l) (simp only: lstrip_def r)
    have "length (dropWhile is_space (rev (butlast s))) < length s"
      by (rule le_less_trans [OF length_dropWhile_le]) (simp add: Cons)
    then have "is_space (last s) \<Longrightarrow> strip s \<noteq> s"
      using e by (metis dropWhile.simps(2) length_rev less_irrefl)
    moreover have "\<not> is_space (last s) \<Longrightarrow> strip s = s"
      by (metis e r dropWhile.simps(2) rev_rev_ident)
    ultimately have "strip s = s \<longleftrightarrow> \<not> is_space (last s)" by blast
    with Cons False show ?thesis by (simp add: untrimmed_def)
  qed
qed

text \<open>\<open>re.fullmatch\<close> of a first-character class followed by a bounded run of another class.\<close>

definition char_in :: "char \<Rightarrow> string \<Rightarrow> bool" where
  "char_in c s = (c \<in> set s)"

definition lower_chars :: string where
  "lower_chars = ''abcdefghijklmnopqrstuvwxyz''"

definition upper_chars :: string where
  "upper_chars = ''ABCDEFGHIJKLMNOPQRSTUVWXYZ''"

definition digit_chars :: string where
  "digit_chars = ''0123456789''"

definition alnum_chars :: string where
  "alnum_chars = upper_chars @ lower_chars @ digit_chars"

section \<open>Dictionaries\<close>

text \<open>
  A \<open>dict\<close> is an association list in insertion order: \<open>d[k] = v\<close> replaces the value where
  the key stands and appends a new key at the end, which is \<open>AList.update\<close>.
\<close>

type_synonym ('k, 'v) dict = "('k \<times> 'v) list"

definition dict_get :: "('k, 'v) dict \<Rightarrow> 'k \<Rightarrow> 'v option" where
  "dict_get d k = map_of d k"

definition dict_set :: "('k, 'v) dict \<Rightarrow> 'k \<Rightarrow> 'v \<Rightarrow> ('k, 'v) dict" where
  "dict_set d k v = AList.update k v d"

definition dict_del :: "('k, 'v) dict \<Rightarrow> 'k \<Rightarrow> ('k, 'v) dict" where
  "dict_del d k = filter (\<lambda>p. fst p \<noteq> k) d"

definition dict_values :: "('k, 'v) dict \<Rightarrow> 'v list" where
  "dict_values d = map snd d"

definition dict_ok :: "('k, 'v) dict \<Rightarrow> bool" where
  "dict_ok d = distinct (map fst d)"

lemma dict_get_Nil [dict_simps]: "dict_get [] k = None"
  by (simp add: dict_get_def)

lemma dict_ok_Nil [dict_simps]: "dict_ok []"
  by (simp add: dict_ok_def)

lemma dict_get_set [dict_simps]:
  "dict_get (dict_set d k v) k' = (if k' = k then Some v else dict_get d k')"
  by (simp add: dict_get_def dict_set_def AList.update_conv')

lemma dict_ok_set [dict_simps]: "dict_ok d \<Longrightarrow> dict_ok (dict_set d k v)"
  by (simp add: dict_ok_def dict_set_def AList.distinct_update)

lemma dict_get_del [dict_simps]:
  "dict_get (dict_del d k) k' = (if k' = k then None else dict_get d k')"
  by (induction d) (auto simp: dict_get_def dict_del_def)

lemma dict_ok_del [dict_simps]: "dict_ok d \<Longrightarrow> dict_ok (dict_del d k)"
  by (auto simp: dict_ok_def dict_del_def distinct_map inj_on_def)

lemma dict_get_in_values: "dict_get d k = Some v \<Longrightarrow> v \<in> set (dict_values d)"
  by (force simp: dict_values_def dict_get_def dest: map_of_SomeD)

lemma dict_values_get: "dict_ok d \<Longrightarrow> v \<in> set (dict_values d) \<Longrightarrow> \<exists>k. dict_get d k = Some v"
  by (fastforce simp: dict_values_def dict_get_def dict_ok_def)

lemma length_filter_values:
  assumes "dict_ok d"
  shows "length (filter P (dict_values d)) = card {k. \<exists>v. dict_get d k = Some v \<and> P v}"
proof -
  have "distinct (map fst (filter (\<lambda>p. P (snd p)) d))"
    using assms by (auto simp: dict_ok_def distinct_map intro: inj_on_subset)
  then have "length (map fst (filter (\<lambda>p. P (snd p)) d)) = card (set (map fst (filter (\<lambda>p. P (snd p)) d)))"
    by (metis distinct_card)
  moreover have "set (map fst (filter (\<lambda>p. P (snd p)) d)) = {k. \<exists>v. dict_get d k = Some v \<and> P v}"
    using assms by (force simp: dict_get_def dict_ok_def)
  ultimately show ?thesis by (simp add: dict_values_def filter_map comp_def)
qed

lemma dict_values_set_subset:
  "set (dict_values (dict_set d k v)) \<subseteq> insert v (set (dict_values d))"
  by (induction d) (auto simp: dict_values_def dict_set_def)

text \<open>\<open>next((x for x in xs if p(x)), None)\<close> is \<open>List.find\<close>.\<close>

lemma find_Some_mem: "List.find P xs = Some x \<Longrightarrow> x \<in> set xs \<and> P x"
  by (induction xs) (auto split: if_splits)

lemma find_None: "List.find P xs = None \<longleftrightarrow> (\<forall>x \<in> set xs. \<not> P x)"
  by (induction xs) auto

lemma find_unique:
  "x \<in> set xs \<Longrightarrow> P x \<Longrightarrow> \<forall>y \<in> set xs. P y \<longrightarrow> y = x \<Longrightarrow> List.find P xs = Some x"
proof (induction xs)
  case (Cons a xs)
  then show ?case by (cases "P a") fastforce+
qed simp

text \<open>\<open>len(set(xs)) != len(xs)\<close> holds iff \<open>xs\<close> repeats an element.\<close>

definition has_duplicates :: "'a list \<Rightarrow> bool" where
  "has_duplicates xs = (card (set xs) \<noteq> length xs)"

lemma has_duplicates_iff [simp]: "has_duplicates xs \<longleftrightarrow> \<not> distinct xs"
  by (metis has_duplicates_def card_distinct distinct_card)

section \<open>Effects\<close>

text \<open>
  A method that reads and changes shared state and may raise: it returns its outcome together with
  the state as it stands at the end, also when it raised, so what an operation changed before it
  raised stays visible.
\<close>

type_synonym ('s, 'a) prog = "'s \<Rightarrow> 'a result \<times> 's"

definition ret :: "'a \<Rightarrow> ('s, 'a) prog" where
  "ret x = (\<lambda>s. (Inr x, s))"

definition raise :: "py_error \<Rightarrow> ('s, 'a) prog" where
  "raise e = (\<lambda>s. (Inl e, s))"

definition lift :: "'a result \<Rightarrow> ('s, 'a) prog" where
  "lift r = (\<lambda>s. (r, s))"

definition gets :: "('s \<Rightarrow> 'a) \<Rightarrow> ('s, 'a) prog" where
  "gets f = (\<lambda>s. (Inr (f s), s))"

definition asks :: "('s \<Rightarrow> 'a result) \<Rightarrow> ('s, 'a) prog" where
  "asks f = (\<lambda>s. (f s, s))"

definition put :: "('s \<Rightarrow> 's) \<Rightarrow> ('s, unit) prog" where
  "put f = (\<lambda>s. (Inr (), f s))"

definition andThen :: "('s, 'a) prog \<Rightarrow> ('a \<Rightarrow> ('s, 'b) prog) \<Rightarrow> ('s, 'b) prog" where
  "andThen m f = (\<lambda>s. case m s of (r, s') \<Rightarrow> (case r of Inl e \<Rightarrow> (Inl e, s') | Inr x \<Rightarrow> f x s'))"

text \<open>A fallible update of the state alone, and one that also returns a value.\<close>

definition updE :: "('s \<Rightarrow> 's result) \<Rightarrow> ('s, unit) prog" where
  "updE f = (\<lambda>s. case f s of Inl e \<Rightarrow> (Inl e, s) | Inr s' \<Rightarrow> (Inr (), s'))"

definition runE :: "('s \<Rightarrow> ('a \<times> 's) result) \<Rightarrow> ('s, 'a) prog" where
  "runE f = (\<lambda>s. case f s of Inl e \<Rightarrow> (Inl e, s) | Inr (x, s') \<Rightarrow> (Inr x, s'))"

named_theorems prog_simps

lemma ret_apply [prog_simps]: "ret x s = (Inr x, s)"
  by (simp add: ret_def)

lemma raise_apply [prog_simps]: "raise e s = (Inl e, s)"
  by (simp add: raise_def)

lemma lift_apply [prog_simps]: "lift r s = (r, s)"
  by (simp add: lift_def)

lemma gets_apply [prog_simps]: "gets f s = (Inr (f s), s)"
  by (simp add: gets_def)

lemma put_apply [prog_simps]: "put f s = (Inr (), f s)"
  by (simp add: put_def)

lemma andThen_Inl [prog_simps]: "m s = (Inl e, s') \<Longrightarrow> andThen m f s = (Inl e, s')"
  by (simp add: andThen_def)

lemma andThen_Inr [prog_simps]: "m s = (Inr x, s') \<Longrightarrow> andThen m f s = f x s'"
  by (simp add: andThen_def)

lemma andThen_gets [prog_simps]: "andThen (gets g) f s = f (g s) s"
  by (simp add: andThen_def gets_def)

lemma andThen_lift [prog_simps]:
  "andThen (lift r) f s = (case r of Inl e \<Rightarrow> (Inl e, s) | Inr x \<Rightarrow> f x s)"
  by (simp add: andThen_def lift_def)

lemma asks_apply [prog_simps]: "asks f s = (f s, s)"
  by (simp add: asks_def)

lemma andThen_asks [prog_simps]:
  "andThen (asks g) f s = (case g s of Inl e \<Rightarrow> (Inl e, s) | Inr x \<Rightarrow> f x s)"
  by (simp add: andThen_def asks_def)

lemma andThen_put [prog_simps]: "andThen (put g) f s = f () (g s)"
  by (simp add: andThen_def put_def)

lemma andThen_updE [prog_simps]:
  "andThen (updE g) f s = (case g s of Inl e \<Rightarrow> (Inl e, s) | Inr s' \<Rightarrow> f () s')"
  by (cases "g s") (simp_all add: andThen_def updE_def)

lemma andThen_runE [prog_simps]:
  "andThen (runE g) f s = (case g s of Inl e \<Rightarrow> (Inl e, s) | Inr (x, s') \<Rightarrow> f x s')"
  by (cases "g s") (auto simp: andThen_def runE_def)

lemma andThen_eq_Inr:
  "andThen m f s = (Inr y, t) \<longleftrightarrow> (\<exists>x s'. m s = (Inr x, s') \<and> f x s' = (Inr y, t))"
  by (auto simp: andThen_def split: prod.splits sum.splits)

lemma andThen_assoc: "andThen (andThen m f) g = andThen m (\<lambda>x. andThen (f x) g)"
  by (rule ext) (auto simp: andThen_def split: prod.splits sum.splits)

section \<open>Transition systems\<close>

text \<open>The states reachable from an initial state by steps.\<close>

inductive reach :: "('s \<Rightarrow> bool) \<Rightarrow> ('s \<Rightarrow> 's \<Rightarrow> bool) \<Rightarrow> 's \<Rightarrow> bool" for init step where
  reach_init: "init s \<Longrightarrow> reach init step s"
| reach_step: "reach init step s \<Longrightarrow> step s t \<Longrightarrow> reach init step t"

text \<open>
  The contract of an inductive invariant: it holds initially and every step keeps it.  Each state
  machine of the development interprets this locale on its own steps.
\<close>

locale invariant_system =
  fixes init :: "'s \<Rightarrow> bool"
    and step :: "'s \<Rightarrow> 's \<Rightarrow> bool"
    and inv :: "'s \<Rightarrow> bool"
  assumes init_inv: "init s \<Longrightarrow> inv s"
    and step_inv: "step s t \<Longrightarrow> inv s \<Longrightarrow> inv t"
begin

lemma reach_inv: "reach init step s \<Longrightarrow> inv s"
  by (induction rule: reach.induct) (auto intro: init_inv step_inv)

lemma reach_pair_inv: "reach init step s \<Longrightarrow> step s t \<Longrightarrow> inv s \<and> inv t"
  using reach_inv step_inv by blast

end

text \<open>
  The contract of an append-only log kept under keys: a step only adds at the end of each log.
  A reader that remembers how far it has read then misses nothing and reads nothing twice.
\<close>

locale append_only_log =
  fixes move :: "'s \<Rightarrow> 's \<Rightarrow> bool"
    and log :: "'s \<Rightarrow> 'k \<Rightarrow> 'e list"
  assumes move_appends: "move s t \<Longrightarrow> \<exists>es. log t k = log s k @ es"
begin

lemma moves_append: "move\<^sup>*\<^sup>* s t \<Longrightarrow> \<exists>es. log t k = log s k @ es"
proof (induction rule: rtranclp_induct)
  case (step t u)
  then obtain es where "log t k = log s k @ es" by blast
  moreover obtain es' where "log u k = log t k @ es'" using move_appends step.hyps(2) by blast
  ultimately have "log u k = log s k @ (es @ es')" by simp
  then show ?case by blast
qed simp

lemma reader_catches_up: "move\<^sup>*\<^sup>* s t \<Longrightarrow> log s k @ drop (length (log s k)) (log t k) = log t k"
  using moves_append [of s t k] by auto

end

end
