(* ===== verification/Enums.thy ===== *)
theory Enums
  imports Prelude
begin

text \<open>
  The enumerations of \<open>domain/enums/enum.py\<close> that the modelled components use.  Members that
  share a name across enumerations carry a prefix of their enumeration.
\<close>

datatype spoiler_mode = STRICT | SEQUENTIAL | RELAXED

datatype corpus_access_mode = Corpus_GUEST | Corpus_AUTHENTICATED

datatype account_status = Account_ACTIVE | Account_DISABLED

datatype principal_kind = Principal_GUEST | Principal_AUTHENTICATED

datatype media_command_kind = MARK_WATCHED | SET_FAVORITE | CREATE_PLAYLIST | REQUEST_PLAYBACK

datatype media_command_risk = REVERSIBLE_LOW_RISK | REVERSIBLE_MULTI_ITEM

datatype approval_status =
  Approval_PENDING | Approval_APPROVED | Approval_REJECTED | Approval_EXECUTED | Approval_VERIFIED

datatype media_action_audit_stage =
  Stage_PROPOSED | Stage_APPROVED | Stage_REJECTED | Stage_EXECUTED | Stage_VERIFIED

datatype watch_event_kind = EPISODE_MARKED_WATCHED | EPISODE_MARKED_UNWATCHED

datatype watch_event_source = Source_MANUAL | Source_JELLYFIN | Source_NETFLIX_CSV

datatype ingestion_job_kind =
    SPEAKER_REVIEW | TRANSCRIPT_INGESTION | VECTOR_INDEX | EPISODE_SUMMARY | SERIES_METADATA
  | SUBTITLE_ALIGNMENT | GRAPH_CLAIM_EXTRACTION

datatype ingestion_job_status = Job_PENDING | Job_RUNNING | Job_SUCCEEDED | Job_FAILED | Job_CANCELLED

datatype ingestion_job_event_kind =
    Event_ENQUEUED | Event_CLAIMED | Event_HEARTBEAT | Event_RETRIED | Event_SUCCEEDED
  | Event_FAILED | Event_CANCELLED | Event_RECLAIMED

datatype corpus_readiness_status =
  REVIEWED_READY | AWAITING_AUTOMATED_REVIEW | AWAITING_ALIGNMENT | Corpus_MISSING | Corpus_INVALID

datatype language = ENGLISH

datatype rights_status = Rights_ALLOWED | Rights_RESTRICTED | Rights_UNKNOWN

datatype source_review_status =
  Review_PENDING | Review_AUTOMATED | Review_HYBRID | Review_REVIEWED | Review_REJECTED

datatype source_version_status = Version_ACTIVE | Version_RETIRED

datatype source_kind = Kind_SUBTITLE | Kind_EPISODE_PLOT | Kind_METADATA

datatype source_acquisition_method =
    Acquired_USER_UPLOAD | Acquired_LOCAL_FILESYSTEM | Acquired_EMBEDDED_SUBTITLE_TRACK
  | Acquired_MEDIAWIKI_API | Acquired_TVMAZE_API | Acquired_SYNTHETIC_FIXTURE

datatype graph_entity_kind =
  Entity_CHARACTER | Entity_PERSON | Entity_LOCATION | Entity_ORGANIZATION | Entity_OBJECT | Entity_EVENT | Entity_CONCEPT

datatype graph_claim_polarity = Claim_ASSERTED | Claim_NEGATED | Claim_UNCERTAIN

end
