(* ===== verification/Watch_State.thy ===== *)
theory Watch_State
  imports Enums
begin

text \<open>
  The watch state of a viewer profile: \<open>domain/models/watch_state\<close> (episode positions, episode
  references, progress records, the state of a series and of a profile) with every operation.
  A constructor is the function that runs \<open>__post_init__\<close>; \<open>dataclasses.replace\<close> runs it
  again, so each operation ends in it.
\<close>

section \<open>Episodes and progress\<close>

datatype episode_position = EpisodePosition (season_number: int) (episode_number: int)

text \<open>\<open>order=True\<close>: positions are compared as tuples.\<close>

instantiation episode_position :: linorder
begin

definition less_eq_episode_position :: "episode_position \<Rightarrow> episode_position \<Rightarrow> bool" where
  "less_eq_episode_position p q \<longleftrightarrow>
     season_number p < season_number q
     \<or> season_number p = season_number q \<and> episode_number p \<le> episode_number q"

definition less_episode_position :: "episode_position \<Rightarrow> episode_position \<Rightarrow> bool" where
  "less_episode_position p q \<longleftrightarrow>
     season_number p < season_number q
     \<or> season_number p = season_number q \<and> episode_number p < episode_number q"

instance
  by standard
    (auto simp: less_eq_episode_position_def less_episode_position_def episode_position.expand)

end

definition mk_episode_position :: "int \<Rightarrow> int \<Rightarrow> episode_position result" where
  "mk_episode_position s e =
     (if s < 1 then Inl (InvalidModelError STR ''EPISODE_POSITION_SEASON_MUST_BE_POSITIVE'')
      else if e < 1 then Inl (InvalidModelError STR ''EPISODE_POSITION_EPISODE_MUST_BE_POSITIVE'')
      else Inr (EpisodePosition s e))"

record episode_ref =
  ref_series_id :: uuid
  ref_season_id :: uuid
  ref_episode_id :: uuid
  ref_position :: episode_position

record episode_watch_progress =
  prog_episode :: episode_ref
  prog_is_completed :: bool
  prog_safe_until_ms :: "int option"

definition mk_progress :: "episode_ref \<Rightarrow> bool \<Rightarrow> int option \<Rightarrow> episode_watch_progress result" where
  "mk_progress e completed safe_until =
     (if safe_until \<noteq> None \<and> the safe_until < 0
        then Inl (InvalidModelError STR ''SAFE_UNTIL_MS_MUST_BE_NON_NEGATIVE'')
      else if completed \<and> safe_until \<noteq> None
        then Inl (InvalidModelError STR ''COMPLETED_EPISODE_CANNOT_HAVE_SAFE_UNTIL_MS'')
      else if \<not> completed \<and> safe_until = None
        then Inl (InvalidModelError STR ''PARTIAL_EPISODE_REQUIRES_SAFE_UNTIL_MS'')
      else Inr \<lparr>prog_episode = e, prog_is_completed = completed, prog_safe_until_ms = safe_until\<rparr>)"

abbreviation completed :: "episode_ref \<Rightarrow> episode_watch_progress" where
  "completed e \<equiv> \<lparr>prog_episode = e, prog_is_completed = True, prog_safe_until_ms = None\<rparr>"

definition valid_progress :: "episode_watch_progress \<Rightarrow> bool" where
  "valid_progress p =
     (mk_progress (prog_episode p) (prog_is_completed p) (prog_safe_until_ms p) = Inr p)"

lemma mk_progress_completed [simp]: "mk_progress e True None = Inr (completed e)"
  by (simp add: mk_progress_def)

lemma valid_progress_completed [simp]: "valid_progress (completed e)"
  by (simp add: valid_progress_def)

lemma valid_progress_iff:
  "valid_progress p \<longleftrightarrow>
     (if prog_is_completed p then prog_safe_until_ms p = None
      else \<exists>ms \<ge> 0. prog_safe_until_ms p = Some ms)"
  by (cases p; cases "prog_safe_until_ms p")
    (auto simp: valid_progress_def mk_progress_def)

section \<open>The state of one series\<close>

record series_watch_state =
  sws_series_id :: uuid
  sws_progress :: "episode_watch_progress list"
  sws_allowed :: "episode_ref set"
  sws_boundary :: "episode_ref option"

definition series_post_init :: "series_watch_state \<Rightarrow> series_watch_state result" where
  "series_post_init s =
     (let episode_refs = prog_episode ` set (sws_progress s) \<union> set_option (sws_boundary s)
            \<union> sws_allowed s
      in if \<exists>r \<in> episode_refs. ref_series_id r \<noteq> sws_series_id s
           then Inl (InvalidModelError STR ''SERIES_WATCH_STATE_EPISODES_MUST_MATCH_SERIES'')
         else if has_duplicates (map (ref_episode_id \<circ> prog_episode) (sws_progress s))
           then Inl (InvalidModelError STR ''SERIES_WATCH_STATE_CANNOT_HAVE_DUPLICATE_PROGRESS'')
         else Inr s)"

definition new_series :: "uuid \<Rightarrow> series_watch_state result" where
  "new_series sid = series_post_init
     \<lparr>sws_series_id = sid, sws_progress = [], sws_allowed = {}, sws_boundary = None\<rparr>"

definition progress_for :: "series_watch_state \<Rightarrow> episode_ref \<Rightarrow> episode_watch_progress option" where
  "progress_for s e = List.find (\<lambda>p. prog_episode p = e) (sws_progress s)"

definition series_is_fully_watched :: "series_watch_state \<Rightarrow> episode_ref \<Rightarrow> bool" where
  "series_is_fully_watched s e =
     (case progress_for s e of None \<Rightarrow> False | Some p \<Rightarrow> prog_is_completed p)"

definition has_progress_for :: "series_watch_state \<Rightarrow> episode_ref \<Rightarrow> bool" where
  "has_progress_for s e = (progress_for s e \<noteq> None)"

definition safe_until_ms_for :: "series_watch_state \<Rightarrow> episode_ref \<Rightarrow> int option" where
  "safe_until_ms_for s e =
     (case progress_for s e of
        None \<Rightarrow> None
      | Some p \<Rightarrow> if prog_is_completed p then None else prog_safe_until_ms p)"

definition validate_episode_series :: "series_watch_state \<Rightarrow> episode_ref \<Rightarrow> unit result" where
  "validate_episode_series s e =
     (if ref_series_id e \<noteq> sws_series_id s
        then Inl (InvalidModelError STR ''EPISODE_MUST_MATCH_SERIES_WATCH_STATE'')
      else Inr ())"

text \<open>
  \<open>Same\<close> is \<open>return self\<close>.  The profile tests with \<open>is\<close> whether it got the same object
  back, so the model keeps that information rather than comparing values.
\<close>

definition series_mark_watched ::
    "series_watch_state \<Rightarrow> episode_ref \<Rightarrow> series_watch_state updated result" where
  "series_mark_watched s e =
     bindE (validate_episode_series s e) (\<lambda>_.
       if series_is_fully_watched s e then Inr Same
       else bindE (mk_progress e True None) (\<lambda>p.
         bindE (series_post_init (s\<lparr>sws_progress :=
             filter (\<lambda>q. ref_episode_id (prog_episode q) \<noteq> ref_episode_id e) (sws_progress s)
             @ [p]\<rparr>)) (\<lambda>s'. Inr (Fresh s'))))"

definition series_mark_unwatched ::
    "series_watch_state \<Rightarrow> episode_ref \<Rightarrow> series_watch_state updated result" where
  "series_mark_unwatched s e =
     bindE (validate_episode_series s e) (\<lambda>_.
       if \<not> has_progress_for s e then Inr Same
       else bindE (series_post_init (s\<lparr>sws_progress :=
             filter (\<lambda>q. ref_episode_id (prog_episode q) \<noteq> ref_episode_id e) (sws_progress s)\<rparr>))
         (\<lambda>s'. Inr (Fresh s')))"

fun validate_all :: "series_watch_state \<Rightarrow> episode_ref list \<Rightarrow> unit result" where
  "validate_all s [] = Inr ()"
| "validate_all s (e # es) = bindE (validate_episode_series s e) (\<lambda>_. validate_all s es)"

fun series_mark_each ::
    "series_watch_state \<Rightarrow> episode_ref list \<Rightarrow> series_watch_state updated result" where
  "series_mark_each s [] = Inr Same"
| "series_mark_each s (e # es) =
     bindE (series_mark_watched s e) (\<lambda>u.
       bindE (series_mark_each (current s u) es) (\<lambda>u'.
         Inr (if fresh u \<or> fresh u' then Fresh (current (current s u) u') else Same)))"

definition series_mark_all_watched ::
    "series_watch_state \<Rightarrow> episode_ref list \<Rightarrow> series_watch_state updated result" where
  "series_mark_all_watched s es = bindE (validate_all s es) (\<lambda>_. series_mark_each s es)"

definition series_mark_all_unwatched ::
    "series_watch_state \<Rightarrow> episode_ref list \<Rightarrow> series_watch_state updated result" where
  "series_mark_all_unwatched s es =
     bindE (validate_all s es) (\<lambda>_.
       let updated = filter (\<lambda>q. ref_episode_id (prog_episode q) \<notin> set (map ref_episode_id es))
             (sws_progress s)
       in if updated = sws_progress s then Inr Same
          else bindE (series_post_init (s\<lparr>sws_progress := updated\<rparr>)) (\<lambda>s'. Inr (Fresh s')))"

section \<open>The state of one profile\<close>

record profile_watch_state =
  pws_profile_id :: uuid
  pws_profile_name :: string
  pws_series :: "series_watch_state list"
  pws_spoiler_mode :: spoiler_mode
  pws_version :: int

definition profile_post_init :: "profile_watch_state \<Rightarrow> profile_watch_state result" where
  "profile_post_init p =
     (if untrimmed (pws_profile_name p)
        then Inl (InvalidModelError STR ''PROFILE_NAME_MUST_BE_TRIMMED'')
      else if has_duplicates (map sws_series_id (pws_series p))
        then Inl (InvalidModelError STR ''PROFILE_CANNOT_HAVE_DUPLICATE_SERIES_WATCH_STATES'')
      else if pws_version p < 0
        then Inl (InvalidModelError STR ''PROFILE_WATCH_STATE_VERSION_CANNOT_BE_NEGATIVE'')
      else Inr p)"

definition series_watch_state_for ::
    "profile_watch_state \<Rightarrow> uuid \<Rightarrow> series_watch_state option" where
  "series_watch_state_for p sid = List.find (\<lambda>s. sws_series_id s = sid) (pws_series p)"

definition is_episode_fully_watched :: "profile_watch_state \<Rightarrow> episode_ref \<Rightarrow> bool" where
  "is_episode_fully_watched p e =
     (case series_watch_state_for p (ref_series_id e) of
        None \<Rightarrow> False | Some s \<Rightarrow> series_is_fully_watched s e)"

definition has_episode_progress :: "profile_watch_state \<Rightarrow> episode_ref \<Rightarrow> bool" where
  "has_episode_progress p e =
     (case series_watch_state_for p (ref_series_id e) of
        None \<Rightarrow> False | Some s \<Rightarrow> has_progress_for s e)"

text \<open>\<open>replace(self, series_watch_states=..., version=self.version + 1)\<close>\<close>

definition bump_series ::
    "profile_watch_state \<Rightarrow> series_watch_state list \<Rightarrow> profile_watch_state updated result" where
  "bump_series p ss =
     bindE (profile_post_init (p\<lparr>pws_series := ss, pws_version := pws_version p + 1\<rparr>))
       (\<lambda>p'. Inr (Fresh p'))"

definition replace_series :: "profile_watch_state \<Rightarrow> series_watch_state \<Rightarrow> uuid \<Rightarrow>
    series_watch_state list" where
  "replace_series p s' sid = map (\<lambda>s. if sws_series_id s = sid then s' else s) (pws_series p)"

definition profile_mark_watched ::
    "profile_watch_state \<Rightarrow> episode_ref \<Rightarrow> profile_watch_state updated result" where
  "profile_mark_watched p e =
     (case series_watch_state_for p (ref_series_id e) of
        None \<Rightarrow>
          bindE (new_series (ref_series_id e)) (\<lambda>s.
            bindE (series_mark_watched s e) (\<lambda>u. bump_series p (pws_series p @ [current s u])))
      | Some s \<Rightarrow>
          bindE (series_mark_watched s e) (\<lambda>u.
            case u of
              Same \<Rightarrow> Inr Same
            | Fresh s' \<Rightarrow> bump_series p (replace_series p s' (ref_series_id e))))"

definition profile_mark_unwatched ::
    "profile_watch_state \<Rightarrow> episode_ref \<Rightarrow> profile_watch_state updated result" where
  "profile_mark_unwatched p e =
     (case series_watch_state_for p (ref_series_id e) of
        None \<Rightarrow> Inr Same
      | Some s \<Rightarrow>
          bindE (series_mark_unwatched s e) (\<lambda>u.
            case u of
              Same \<Rightarrow> Inr Same
            | Fresh s' \<Rightarrow> bump_series p (replace_series p s' (ref_series_id e))))"

definition validate_season_episodes :: "episode_ref list \<Rightarrow> uuid result" where
  "validate_season_episodes es =
     (case es of
        [] \<Rightarrow> Inl (InvalidModelError STR ''SEASON_OPERATION_REQUIRES_EPISODES'')
      | e # _ \<Rightarrow>
          if card (set (map ref_series_id es)) \<noteq> 1
            then Inl (InvalidModelError STR ''SEASON_OPERATION_EPISODES_MUST_SHARE_SERIES'')
          else if card (set (map ref_season_id es)) \<noteq> 1
            then Inl (InvalidModelError STR ''SEASON_OPERATION_EPISODES_MUST_SHARE_SEASON'')
          else Inr (ref_series_id e))"

definition profile_mark_season_watched ::
    "profile_watch_state \<Rightarrow> episode_ref list \<Rightarrow> profile_watch_state updated result" where
  "profile_mark_season_watched p es =
     bindE (validate_season_episodes es) (\<lambda>sid.
       case series_watch_state_for p sid of
         None \<Rightarrow>
           bindE (new_series sid) (\<lambda>s.
             bindE (series_mark_all_watched s es) (\<lambda>u. bump_series p (pws_series p @ [current s u])))
       | Some s \<Rightarrow>
           bindE (series_mark_all_watched s es) (\<lambda>u.
             case u of
               Same \<Rightarrow> Inr Same
             | Fresh s' \<Rightarrow> bump_series p (replace_series p s' sid)))"

definition profile_mark_season_unwatched ::
    "profile_watch_state \<Rightarrow> episode_ref list \<Rightarrow> profile_watch_state updated result" where
  "profile_mark_season_unwatched p es =
     bindE (validate_season_episodes es) (\<lambda>sid.
       case series_watch_state_for p sid of
         None \<Rightarrow> Inr Same
       | Some s \<Rightarrow>
           bindE (series_mark_all_unwatched s es) (\<lambda>u.
             case u of
               Same \<Rightarrow> Inr Same
             | Fresh s' \<Rightarrow> bump_series p (replace_series p s' sid)))"

section \<open>Invariants\<close>

definition series_ok :: "series_watch_state \<Rightarrow> bool" where
  "series_ok s \<longleftrightarrow> series_post_init s = Inr s \<and> (\<forall>p \<in> set (sws_progress s). valid_progress p)"

definition profile_ok :: "profile_watch_state \<Rightarrow> bool" where
  "profile_ok p \<longleftrightarrow> profile_post_init p = Inr p \<and> (\<forall>s \<in> set (pws_series p). series_ok s)"

text \<open>
  The abstract state of a series: a map from episode references to progress records.  Marking
  writes it at one reference and forgets every other reference with the same identifier.
\<close>

definition spec_mark :: "episode_ref \<Rightarrow> episode_watch_progress option \<Rightarrow>
    (episode_ref \<rightharpoonup> episode_watch_progress) \<Rightarrow> (episode_ref \<rightharpoonup> episode_watch_progress)" where
  "spec_mark e v m = (\<lambda>e'. if e' = e then v
     else if ref_episode_id e' = ref_episode_id e then None else m e')"

lemma series_post_init_iff:
  "series_post_init s = Inr s' \<longleftrightarrow> s' = s
     \<and> (\<forall>p \<in> set (sws_progress s). ref_series_id (prog_episode p) = sws_series_id s)
     \<and> (\<forall>r \<in> sws_allowed s. ref_series_id r = sws_series_id s)
     \<and> (\<forall>r. sws_boundary s = Some r \<longrightarrow> ref_series_id r = sws_series_id s)
     \<and> distinct (map (ref_episode_id \<circ> prog_episode) (sws_progress s))"
  unfolding series_post_init_def Let_def if_Inl_eq_Inr has_duplicates_iff not_not
  by (cases "sws_boundary s") (simp_all add: ball_Un, blast+)

lemma series_ok_new: "\<exists>s. new_series sid = Inr s \<and> series_ok s \<and> sws_series_id s = sid
    \<and> progress_for s = Map.empty \<and> sws_allowed s = {} \<and> sws_boundary s = None"
  by (auto simp: new_series_def series_post_init_iff series_ok_def progress_for_def)

lemma progress_for_mem:
  "progress_for s e = Some p \<Longrightarrow> p \<in> set (sws_progress s) \<and> prog_episode p = e"
  by (auto simp: progress_for_def dest: find_Some_mem)

lemma progress_for_iff:
  assumes "distinct (map (ref_episode_id \<circ> prog_episode) (sws_progress s))"
  shows "progress_for s e = Some p \<longleftrightarrow> p \<in> set (sws_progress s) \<and> prog_episode p = e"
proof
  assume "p \<in> set (sws_progress s) \<and> prog_episode p = e"
  moreover have "inj_on (ref_episode_id \<circ> prog_episode) (set (sws_progress s))"
    using assms by (simp add: distinct_map)
  ultimately show "progress_for s e = Some p"
    unfolding progress_for_def by (intro find_unique) (auto simp: inj_on_def)
qed (rule progress_for_mem)

lemma series_ok_distinct:
  "series_ok s \<Longrightarrow> distinct (map (ref_episode_id \<circ> prog_episode) (sws_progress s))"
  by (simp add: series_ok_def series_post_init_iff)

lemma progress_for_series: "series_ok s \<Longrightarrow> progress_for s e = Some p \<Longrightarrow>
    ref_series_id e = sws_series_id s"
  by (auto simp: series_ok_def series_post_init_iff dest: progress_for_mem)

lemma progress_for_valid:
  "series_ok s \<Longrightarrow> progress_for s e = Some p \<Longrightarrow> valid_progress p \<and> prog_episode p = e"
  by (auto simp: series_ok_def dest: progress_for_mem)

lemma progress_for_same_id:
  assumes "series_ok s" "progress_for s e = Some p" "progress_for s e' = Some p'"
    and "ref_episode_id e = ref_episode_id e'"
  shows "e = e'"
  using series_ok_distinct [OF assms(1)] progress_for_mem [OF assms(2)]
    progress_for_mem [OF assms(3)] assms(4)
  by (auto simp: distinct_map inj_on_def)

lemma fully_watched_iff:
  "series_ok s \<Longrightarrow> series_is_fully_watched s e \<longleftrightarrow> progress_for s e = Some (completed e)"
  by (auto simp: series_is_fully_watched_def valid_progress_iff split: option.splits
      dest: progress_for_valid intro!: episode_watch_progress.equality)

section \<open>The operations on a series\<close>

text \<open>Dropping every record with some identifiers, and perhaps appending a completed record.\<close>

lemma find_append: "List.find P (xs @ ys) =
    (case List.find P xs of None \<Rightarrow> List.find P ys | Some x \<Rightarrow> Some x)"
  by (induction xs) auto

lemma progress_for_filter:
  "progress_for (s\<lparr>sws_progress := filter (\<lambda>q. ref_episode_id (prog_episode q) \<notin> I) (sws_progress s)\<rparr>) e
   = (if ref_episode_id e \<in> I then None else progress_for s e)"
proof -
  have "List.find (\<lambda>p. prog_episode p = e)
      (filter (\<lambda>q. ref_episode_id (prog_episode q) \<notin> I) xs)
    = (if ref_episode_id e \<in> I then None else List.find (\<lambda>p. prog_episode p = e) xs)"
    for xs :: "episode_watch_progress list"
    by (induction xs) auto
  then show ?thesis by (simp add: progress_for_def)
qed

lemma series_ok_filter:
  "series_ok s \<Longrightarrow> series_ok (s\<lparr>sws_progress := filter P (sws_progress s)\<rparr>)"
  by (auto simp: series_ok_def series_post_init_iff distinct_map_filter)

lemma series_ok_append:
  assumes "series_ok s" "ref_series_id e = sws_series_id s"
    and "\<forall>q \<in> set (sws_progress s). ref_episode_id (prog_episode q) \<noteq> ref_episode_id e"
  shows "series_ok (s\<lparr>sws_progress := sws_progress s @ [completed e]\<rparr>)"
  using assms by (auto simp: series_ok_def series_post_init_iff)

lemma series_post_init_ok: "series_ok s \<Longrightarrow> series_post_init s = Inr s"
  by (simp add: series_ok_def)

lemma validate_episode_series_iff [simp]:
  "validate_episode_series s e = Inr u \<longleftrightarrow> ref_series_id e = sws_series_id s"
  by (cases u) (auto simp: validate_episode_series_def)

lemma validate_all_iff:
  "validate_all s es = Inr u \<longleftrightarrow> (\<forall>e \<in> set es. ref_series_id e = sws_series_id s)"
  by (induction es) (auto simp: bindE_eq_Inr)

text \<open>What marking a series watched returns: never an exception for an episode of the series.\<close>

lemma series_mark_watched_spec:
  assumes ok: "series_ok s" and own: "ref_series_id e = sws_series_id s"
  shows "\<exists>u. series_mark_watched s e = Inr u \<and> series_ok (current s u)
    \<and> sws_series_id (current s u) = sws_series_id s
    \<and> sws_allowed (current s u) = sws_allowed s \<and> sws_boundary (current s u) = sws_boundary s
    \<and> (fresh u \<longleftrightarrow> \<not> series_is_fully_watched s e)
    \<and> progress_for (current s u) = spec_mark e (Some (completed e)) (progress_for s)"
proof (cases "series_is_fully_watched s e")
  case True
  then have p: "progress_for s e = Some (completed e)" using ok by (simp add: fully_watched_iff)
  have "progress_for s = spec_mark e (Some (completed e)) (progress_for s)"
    using p by (auto simp: spec_mark_def fun_eq_iff dest: progress_for_same_id [OF ok _ p])
      (metis not_None_eq ok p progress_for_same_id)
  with True ok own show ?thesis by (auto simp: series_mark_watched_def bindE_def validate_episode_series_def)
next
  case False
  let ?rest = "filter (\<lambda>q. ref_episode_id (prog_episode q) \<noteq> ref_episode_id e) (sws_progress s)"
  let ?f = "s\<lparr>sws_progress := ?rest\<rparr>"
  let ?t = "s\<lparr>sws_progress := ?rest @ [completed e]\<rparr>"
  have "series_ok (?f\<lparr>sws_progress := sws_progress ?f @ [completed e]\<rparr>)"
    using own series_ok_filter [OF ok] by (intro series_ok_append) auto
  then have t: "series_ok ?t" by simp
  have f: "progress_for ?f e' = (if ref_episode_id e' = ref_episode_id e then None
      else progress_for s e')" for e'
    using progress_for_filter [where I = "{ref_episode_id e}" and s = s and e = e'] by simp
  have "progress_for ?t e' = (case progress_for ?f e' of None \<Rightarrow>
      if completed e = completed e' then Some (completed e) else None | Some p \<Rightarrow> Some p)" for e'
    by (auto simp: progress_for_def find_append split: option.split)
  then have "progress_for ?t = spec_mark e (Some (completed e)) (progress_for s)"
    by (auto simp: f spec_mark_def fun_eq_iff split: option.splits)
  moreover have "series_mark_watched s e = Inr (Fresh ?t)"
    using False own series_post_init_ok [OF t]
    by (simp add: series_mark_watched_def validate_episode_series_def)
  ultimately show ?thesis using False t by simp
qed

lemma series_mark_unwatched_spec:
  assumes ok: "series_ok s" and own: "ref_series_id e = sws_series_id s"
  shows "\<exists>u. series_mark_unwatched s e = Inr u \<and> series_ok (current s u)
    \<and> sws_series_id (current s u) = sws_series_id s
    \<and> sws_allowed (current s u) = sws_allowed s \<and> sws_boundary (current s u) = sws_boundary s
    \<and> (fresh u \<longleftrightarrow> has_progress_for s e)
    \<and> progress_for (current s u) =
        (if has_progress_for s e then spec_mark e None (progress_for s) else progress_for s)"
proof (cases "has_progress_for s e")
  case False
  with ok own show ?thesis by (auto simp: series_mark_unwatched_def validate_episode_series_def)
next
  case True
  let ?t = "s\<lparr>sws_progress :=
    filter (\<lambda>q. ref_episode_id (prog_episode q) \<noteq> ref_episode_id e) (sws_progress s)\<rparr>"
  have t: "series_ok ?t" by (rule series_ok_filter [OF ok])
  have "progress_for ?t = spec_mark e None (progress_for s)"
    using progress_for_filter [where I = "{ref_episode_id e}" and s = s] by (auto simp: spec_mark_def fun_eq_iff)
  moreover have "series_mark_unwatched s e = Inr (Fresh ?t)"
    using True own series_post_init_ok [OF t]
    by (simp add: series_mark_unwatched_def validate_episode_series_def)
  ultimately show ?thesis using True t by simp
qed

text \<open>Marking several episodes: the abstract updates in order.\<close>

abbreviation spec_mark_each :: "episode_ref list \<Rightarrow> (episode_ref \<rightharpoonup> episode_watch_progress) \<Rightarrow>
    (episode_ref \<rightharpoonup> episode_watch_progress)" where
  "spec_mark_each es m \<equiv> fold (\<lambda>e. spec_mark e (Some (completed e))) es m"

lemma spec_mark_each_distinct:
  "distinct (map ref_episode_id es) \<Longrightarrow> spec_mark_each es m e' =
     (if e' \<in> set es then Some (completed e')
      else if ref_episode_id e' \<in> ref_episode_id ` set es then None else m e')"
proof (induction es arbitrary: m)
  case (Cons e es)
  then show ?case by (auto simp: spec_mark_def image_iff)
qed simp

lemma series_mark_each_spec:
  assumes "series_ok s" "\<forall>e \<in> set es. ref_series_id e = sws_series_id s"
  shows "\<exists>u. series_mark_each s es = Inr u \<and> series_ok (current s u)
    \<and> sws_series_id (current s u) = sws_series_id s
    \<and> sws_allowed (current s u) = sws_allowed s \<and> sws_boundary (current s u) = sws_boundary s
    \<and> (fresh u \<longleftrightarrow> (\<exists>e \<in> set es. \<not> series_is_fully_watched s e))
    \<and> progress_for (current s u) = spec_mark_each es (progress_for s)"
  using assms
proof (induction es arbitrary: s)
  case Nil
  then show ?case by simp
next
  case (Cons e es)
  obtain u where u: "series_mark_watched s e = Inr u" "series_ok (current s u)"
      "sws_series_id (current s u) = sws_series_id s" "sws_allowed (current s u) = sws_allowed s"
      "sws_boundary (current s u) = sws_boundary s"
      "fresh u \<longleftrightarrow> \<not> series_is_fully_watched s e"
      "progress_for (current s u) = spec_mark e (Some (completed e)) (progress_for s)"
    using series_mark_watched_spec [of s e] Cons.prems by auto
  obtain u' where u': "series_mark_each (current s u) es = Inr u'"
      "series_ok (current (current s u) u')"
      "sws_series_id (current (current s u) u') = sws_series_id (current s u)"
      "sws_allowed (current (current s u) u') = sws_allowed (current s u)"
      "sws_boundary (current (current s u) u') = sws_boundary (current s u)"
      "fresh u' \<longleftrightarrow> (\<exists>e \<in> set es. \<not> series_is_fully_watched (current s u) e)"
      "progress_for (current (current s u) u') = spec_mark_each es (progress_for (current s u))"
    using Cons.IH [of "current s u"] Cons.prems u(2,3) by auto
  let ?v = "if fresh u \<or> fresh u' then Fresh (current (current s u) u') else Same"
  have "current s ?v = current (current s u) u'"
    by (cases u; cases u') auto
  moreover have "fresh ?v \<longleftrightarrow> (\<exists>e' \<in> set (e # es). \<not> series_is_fully_watched s e')"
    using u(6) u'(6) by (cases u) auto
  ultimately show ?case using u u' by (intro exI [of _ ?v]) simp
qed

lemma series_mark_all_watched_spec:
  assumes "series_ok s" "\<forall>e \<in> set es. ref_series_id e = sws_series_id s"
  shows "\<exists>u. series_mark_all_watched s es = Inr u \<and> series_ok (current s u)
    \<and> sws_series_id (current s u) = sws_series_id s
    \<and> sws_allowed (current s u) = sws_allowed s \<and> sws_boundary (current s u) = sws_boundary s
    \<and> (fresh u \<longleftrightarrow> (\<exists>e \<in> set es. \<not> series_is_fully_watched s e))
    \<and> progress_for (current s u) = spec_mark_each es (progress_for s)"
proof -
  have "validate_all s es = Inr ()" using assms(2) by (simp add: validate_all_iff)
  then show ?thesis
    using series_mark_each_spec [OF assms] by (simp add: series_mark_all_watched_def)
qed

lemma series_mark_all_unwatched_spec:
  assumes "series_ok s" "\<forall>e \<in> set es. ref_series_id e = sws_series_id s"
  shows "\<exists>u. series_mark_all_unwatched s es = Inr u \<and> series_ok (current s u)
    \<and> sws_series_id (current s u) = sws_series_id s
    \<and> sws_allowed (current s u) = sws_allowed s \<and> sws_boundary (current s u) = sws_boundary s
    \<and> (fresh u \<longleftrightarrow> (\<exists>p \<in> set (sws_progress s).
          ref_episode_id (prog_episode p) \<in> ref_episode_id ` set es))
    \<and> progress_for (current s u) =
        (\<lambda>e. if ref_episode_id e \<in> ref_episode_id ` set es then None else progress_for s e)"
proof -
  let ?I = "ref_episode_id ` set es"
  let ?ps = "filter (\<lambda>q. ref_episode_id (prog_episode q) \<notin> ?I) (sws_progress s)"
  let ?u = "if ?ps = sws_progress s then Same else Fresh (s\<lparr>sws_progress := ?ps\<rparr>)"
  have ok: "series_ok (s\<lparr>sws_progress := ?ps\<rparr>)" by (rule series_ok_filter [OF assms(1)])
  have "validate_all s es = Inr ()" using assms(2) by (simp add: validate_all_iff)
  then have "series_mark_all_unwatched s es = Inr ?u"
    using series_post_init_ok [OF ok]
    by (simp add: series_mark_all_unwatched_def Let_def)
  moreover have "current s ?u = s\<lparr>sws_progress := ?ps\<rparr>" by simp
  moreover have "?ps = sws_progress s \<longleftrightarrow>
      (\<forall>p \<in> set (sws_progress s). ref_episode_id (prog_episode p) \<notin> ?I)"
    by (simp add: filter_id_conv)
  ultimately show ?thesis
    using ok progress_for_filter [where I = ?I and s = s] by (intro exI [of _ ?u]) auto
qed

section \<open>The operations on a profile\<close>

definition profile_progress :: "profile_watch_state \<Rightarrow> (episode_ref \<rightharpoonup> episode_watch_progress)" where
  "profile_progress p e =
     (case series_watch_state_for p (ref_series_id e) of None \<Rightarrow> None | Some s \<Rightarrow> progress_for s e)"

text \<open>\<open>p'\<close> is \<open>p\<close> with the state of one series written and the version advanced by one.\<close>

definition profile_put :: "profile_watch_state \<Rightarrow> uuid \<Rightarrow> series_watch_state \<Rightarrow>
    profile_watch_state \<Rightarrow> bool" where
  "profile_put p sid s p' \<longleftrightarrow> profile_ok p'
     \<and> series_watch_state_for p' = (series_watch_state_for p)(sid \<mapsto> s)
     \<and> pws_version p' = pws_version p + 1 \<and> pws_profile_id p' = pws_profile_id p
     \<and> pws_profile_name p' = pws_profile_name p \<and> pws_spoiler_mode p' = pws_spoiler_mode p"

lemma profile_post_init_iff:
  "profile_post_init p = Inr p' \<longleftrightarrow> p' = p \<and> \<not> untrimmed (pws_profile_name p)
     \<and> distinct (map sws_series_id (pws_series p)) \<and> 0 \<le> pws_version p"
  by (auto simp: profile_post_init_def)

lemma series_watch_state_for_mem:
  "series_watch_state_for p sid = Some s \<Longrightarrow> s \<in> set (pws_series p) \<and> sws_series_id s = sid"
  by (auto simp: series_watch_state_for_def dest: find_Some_mem)

lemma series_watch_state_for_ok:
  "profile_ok p \<Longrightarrow> series_watch_state_for p sid = Some s \<Longrightarrow> series_ok s \<and> sws_series_id s = sid"
  by (auto simp: profile_ok_def dest: series_watch_state_for_mem)

lemma bump_series_replace:
  assumes "profile_ok p" "series_watch_state_for p sid = Some s0"
    and "series_ok s" "sws_series_id s = sid"
  shows "\<exists>p'. bump_series p (replace_series p s sid) = Inr (Fresh p') \<and> profile_put p sid s p'"
proof -
  let ?p' = "p\<lparr>pws_series := replace_series p s sid, pws_version := pws_version p + 1\<rparr>"
  have ids: "map sws_series_id (replace_series p s sid) = map sws_series_id (pws_series p)"
    using assms(4) by (auto simp: replace_series_def)
  have "List.find (\<lambda>t. sws_series_id t = sid') (map (\<lambda>t. if sws_series_id t = sid then s else t) ss)
    = (if sid' = sid then if sid \<in> sws_series_id ` set ss then Some s else None
       else List.find (\<lambda>t. sws_series_id t = sid') ss)" for sid' and ss :: "series_watch_state list"
    using assms(4) by (induction ss) auto
  then have "series_watch_state_for ?p' = (series_watch_state_for p)(sid \<mapsto> s)"
    using series_watch_state_for_mem [OF assms(2)]
    by (auto simp: series_watch_state_for_def replace_series_def fun_eq_iff)
  moreover have "profile_post_init ?p' = Inr ?p'"
    using assms(1) ids by (simp add: profile_post_init_iff profile_ok_def)
  moreover from this have "profile_ok ?p'"
    using assms(1,3) by (auto simp: profile_ok_def replace_series_def)
  ultimately show ?thesis by (simp add: bump_series_def profile_put_def)
qed

lemma bump_series_append:
  assumes "profile_ok p" "series_watch_state_for p sid = None"
    and "series_ok s" "sws_series_id s = sid"
  shows "\<exists>p'. bump_series p (pws_series p @ [s]) = Inr (Fresh p') \<and> profile_put p sid s p'"
proof -
  let ?p' = "p\<lparr>pws_series := pws_series p @ [s], pws_version := pws_version p + 1\<rparr>"
  have new: "\<forall>t \<in> set (pws_series p). sws_series_id t \<noteq> sid"
    using assms(2) by (simp add: series_watch_state_for_def find_None)
  have "series_watch_state_for ?p' = (series_watch_state_for p)(sid \<mapsto> s)"
    using assms(2,4)
    by (auto simp: series_watch_state_for_def find_append fun_eq_iff split: option.split)
  moreover have "profile_post_init ?p' = Inr ?p'"
    using assms(1,4) new by (auto simp: profile_post_init_iff profile_ok_def)
  moreover from this have "profile_ok ?p'"
    using assms(1,3) by (auto simp: profile_ok_def)
  ultimately show ?thesis by (simp add: bump_series_def profile_put_def)
qed

lemma is_episode_fully_watched_iff:
  "profile_ok p \<Longrightarrow> is_episode_fully_watched p e \<longleftrightarrow> profile_progress p e = Some (completed e)"
  by (auto simp: is_episode_fully_watched_def profile_progress_def fully_watched_iff
      dest: series_watch_state_for_ok split: option.split)

lemma has_episode_progress_iff: "has_episode_progress p e \<longleftrightarrow> profile_progress p e \<noteq> None"
  by (auto simp: has_episode_progress_def profile_progress_def has_progress_for_def
      split: option.split)

text \<open>What the spoiler policy reads of a series beside its progress.\<close>

definition profile_static :: "profile_watch_state \<Rightarrow> uuid \<Rightarrow> episode_ref set \<times> episode_ref option" where
  "profile_static p sid =
     (case series_watch_state_for p sid of None \<Rightarrow> ({}, None)
      | Some s \<Rightarrow> (sws_allowed s, sws_boundary s))"

text \<open>
  \<open>u\<close> is the outcome of an operation on \<open>p\<close> that leaves the progress map \<open>m\<close>: a valid
  profile, the version advanced by one exactly when a new object was made, all else unchanged.
\<close>

definition profile_result :: "profile_watch_state \<Rightarrow> profile_watch_state updated \<Rightarrow>
    (episode_ref \<rightharpoonup> episode_watch_progress) \<Rightarrow> bool" where
  "profile_result p u m \<longleftrightarrow> profile_ok (current p u)
     \<and> pws_version (current p u) = pws_version p + (if fresh u then 1 else 0)
     \<and> pws_profile_id (current p u) = pws_profile_id p
     \<and> pws_profile_name (current p u) = pws_profile_name p
     \<and> pws_spoiler_mode (current p u) = pws_spoiler_mode p
     \<and> profile_static (current p u) = profile_static p
     \<and> profile_progress (current p u) = m"

abbreviation on_series :: "uuid \<Rightarrow> (episode_ref \<rightharpoonup> episode_watch_progress) \<Rightarrow>
    (episode_ref \<rightharpoonup> episode_watch_progress) \<Rightarrow> (episode_ref \<rightharpoonup> episode_watch_progress)" where
  "on_series sid m m0 \<equiv> (\<lambda>e. if ref_series_id e = sid then m e else m0 e)"

lemma profile_result_Same:
  "profile_ok p \<Longrightarrow> profile_result p Same (profile_progress p)"
  by (simp add: profile_result_def)

lemma profile_result_put:
  assumes "profile_put p sid s p'" "(sws_allowed s, sws_boundary s) = profile_static p sid"
  shows "profile_result p (Fresh p') (on_series sid (progress_for s) (profile_progress p))"
proof -
  have "profile_static p' = profile_static p"
    using assms by (auto simp: profile_put_def profile_static_def fun_eq_iff)
  moreover have "profile_progress p' = on_series sid (progress_for s) (profile_progress p)"
    using assms(1) by (auto simp: profile_put_def profile_progress_def fun_eq_iff)
  ultimately show ?thesis using assms(1) by (simp add: profile_put_def profile_result_def)
qed

text \<open>
  Lifting an operation on a series to the profile that holds it, in the two shapes of the code:
  the series exists (and may come back unchanged), or it is created first.
\<close>

lemma lift_existing:
  assumes "profile_ok p" "series_watch_state_for p sid = Some s"
    and "series_ok (current s u)" "sws_series_id (current s u) = sws_series_id s"
    and "sws_allowed (current s u) = sws_allowed s" "sws_boundary (current s u) = sws_boundary s"
  shows "\<exists>v. (case u of Same \<Rightarrow> Inr Same | Fresh s' \<Rightarrow> bump_series p (replace_series p s' sid)) = Inr v
    \<and> (fresh v \<longleftrightarrow> fresh u)
    \<and> profile_result p v (on_series sid (progress_for (current s u)) (profile_progress p))"
proof (cases u)
  case Same
  have "on_series sid (progress_for s) (profile_progress p) = profile_progress p"
    using assms(2) by (auto simp: profile_progress_def fun_eq_iff)
  with Same profile_result_Same [OF assms(1)] show ?thesis
    by (intro exI [of _ Same]) (simp cong: if_cong)
next
  case (Fresh s')
  with assms have "sws_series_id s' = sid" by (auto dest: series_watch_state_for_mem)
  with bump_series_replace [OF assms(1,2), of s'] Fresh assms obtain p' where
    "bump_series p (replace_series p s' sid) = Inr (Fresh p')" "profile_put p sid s' p'" by auto
  with Fresh assms show ?thesis
    by (intro exI [of _ "Fresh p'"]) (auto intro: profile_result_put simp: profile_static_def)
qed

lemma lift_new:
  assumes "profile_ok p" "series_watch_state_for p sid = None"
    and "series_ok s'" "sws_series_id s' = sid" "sws_allowed s' = {}" "sws_boundary s' = None"
  shows "\<exists>p'. bump_series p (pws_series p @ [s']) = Inr (Fresh p')
    \<and> profile_result p (Fresh p') (on_series sid (progress_for s') (profile_progress p))"
  using bump_series_append [OF assms(1-4)] assms(2,5,6)
  by (fastforce intro: profile_result_put simp: profile_static_def)

lemma on_series_spec_mark:
  assumes "\<forall>e \<in> set es. ref_series_id e = sid"
    and "\<forall>e'. ref_series_id e' = sid \<longrightarrow> m e' = m0 e'"
  shows "on_series sid (spec_mark_each es m) m0 = on_series sid (spec_mark_each es m0) m0"
proof -
  have "\<forall>e'. ref_series_id e' = sid \<longrightarrow> spec_mark_each es m e' = spec_mark_each es m0 e'"
    using assms by (induction es arbitrary: m m0) (simp, auto simp: spec_mark_def)
  then show ?thesis by auto
qed

lemma profile_mark_watched_spec:
  assumes "profile_ok p"
  shows "\<exists>u. profile_mark_watched p e = Inr u
    \<and> (fresh u \<longleftrightarrow> \<not> is_episode_fully_watched p e)
    \<and> profile_result p u (on_series (ref_series_id e)
        (spec_mark e (Some (completed e)) (profile_progress p)) (profile_progress p))"
proof (cases "series_watch_state_for p (ref_series_id e)")
  case None
  obtain s where s: "new_series (ref_series_id e) = Inr s" "series_ok s"
      "sws_series_id s = ref_series_id e" "progress_for s = Map.empty" "sws_allowed s = {}"
      "sws_boundary s = None"
    using series_ok_new by blast
  obtain u where u: "series_mark_watched s e = Inr u" "series_ok (current s u)"
      "sws_series_id (current s u) = sws_series_id s" "sws_allowed (current s u) = {}"
      "sws_boundary (current s u) = None"
      "progress_for (current s u) = spec_mark e (Some (completed e)) (progress_for s)"
    using series_mark_watched_spec [OF s(2), of e] s by auto
  have "on_series (ref_series_id e) (progress_for (current s u)) (profile_progress p)
      = on_series (ref_series_id e) (spec_mark e (Some (completed e)) (profile_progress p))
          (profile_progress p)"
    using None by (auto simp: u(6) s(4) spec_mark_def profile_progress_def fun_eq_iff)
  then show ?thesis
    using lift_new [OF assms None u(2) _ u(4,5)] None s u
    by (auto simp: profile_mark_watched_def is_episode_fully_watched_def)
next
  case (Some s)
  then have s: "series_ok s" "ref_series_id e = sws_series_id s"
    using series_watch_state_for_ok [OF assms] by auto
  obtain u where u: "series_mark_watched s e = Inr u" "series_ok (current s u)"
      "sws_series_id (current s u) = sws_series_id s" "sws_allowed (current s u) = sws_allowed s"
      "sws_boundary (current s u) = sws_boundary s"
      "fresh u \<longleftrightarrow> \<not> series_is_fully_watched s e"
      "progress_for (current s u) = spec_mark e (Some (completed e)) (progress_for s)"
    using series_mark_watched_spec [OF s] by auto
  have "on_series (ref_series_id e) (progress_for (current s u)) (profile_progress p)
      = on_series (ref_series_id e) (spec_mark e (Some (completed e)) (profile_progress p))
          (profile_progress p)"
    using Some by (auto simp: u(7) spec_mark_def profile_progress_def fun_eq_iff)
  then show ?thesis
    using lift_existing [OF assms Some u(2-5)] Some u(1,6)
    by (auto simp: profile_mark_watched_def is_episode_fully_watched_def)
qed

lemma profile_mark_unwatched_spec:
  assumes "profile_ok p"
  shows "\<exists>u. profile_mark_unwatched p e = Inr u
    \<and> (fresh u \<longleftrightarrow> has_episode_progress p e)
    \<and> profile_result p u (if has_episode_progress p e
        then on_series (ref_series_id e) (spec_mark e None (profile_progress p)) (profile_progress p)
        else profile_progress p)"
proof (cases "series_watch_state_for p (ref_series_id e)")
  case None
  then show ?thesis
    using profile_result_Same [OF assms]
    by (simp add: profile_mark_unwatched_def has_episode_progress_def)
next
  case (Some s)
  then have s: "series_ok s" "ref_series_id e = sws_series_id s"
    using series_watch_state_for_ok [OF assms] by auto
  obtain u where u: "series_mark_unwatched s e = Inr u" "series_ok (current s u)"
      "sws_series_id (current s u) = sws_series_id s" "sws_allowed (current s u) = sws_allowed s"
      "sws_boundary (current s u) = sws_boundary s" "fresh u \<longleftrightarrow> has_progress_for s e"
      "progress_for (current s u) =
        (if has_progress_for s e then spec_mark e None (progress_for s) else progress_for s)"
    using series_mark_unwatched_spec [OF s] by auto
  have "on_series (ref_series_id e) (progress_for (current s u)) (profile_progress p) =
     (if has_episode_progress p e
      then on_series (ref_series_id e) (spec_mark e None (profile_progress p)) (profile_progress p)
      else profile_progress p)"
    using Some
    by (auto simp: u(7) spec_mark_def profile_progress_def has_episode_progress_def fun_eq_iff)
  then show ?thesis
    using lift_existing [OF assms Some u(2-5)] Some u(1,6)
    by (auto simp: profile_mark_unwatched_def has_episode_progress_def)
qed

text \<open>What \<open>_validate_season_episodes\<close> accepts: some episodes of one season of one series.\<close>

definition one_season :: "uuid \<Rightarrow> episode_ref list \<Rightarrow> bool" where
  "one_season sid es \<longleftrightarrow> es \<noteq> [] \<and> (\<forall>e \<in> set es. ref_series_id e = sid)
     \<and> (\<exists>season. \<forall>e \<in> set es. ref_season_id e = season)"

lemma card_image_eq_1: "xs \<noteq> [] \<Longrightarrow> card (f ` set xs) = 1 \<longleftrightarrow> (\<exists>y. \<forall>x \<in> set xs. f x = y)"
proof
  assume "card (f ` set xs) = 1"
  then obtain y where "f ` set xs = {y}" by (rule card_1_singletonE)
  then show "\<exists>y. \<forall>x \<in> set xs. f x = y" by blast
next
  assume "xs \<noteq> []" "\<exists>y. \<forall>x \<in> set xs. f x = y"
  then obtain y where "\<forall>x \<in> set xs. f x = y" "set xs \<noteq> {}" by auto
  then have "f ` set xs = {y}" by (metis image_cong image_constant_conv)
  then show "card (f ` set xs) = 1" by simp
qed

lemma validate_season_episodes_iff: "validate_season_episodes es = Inr sid \<longleftrightarrow> one_season sid es"
proof (cases "es = []")
  case False
  then have "validate_season_episodes es = Inr sid \<longleftrightarrow>
     card (ref_series_id ` set es) = 1 \<and> card (ref_season_id ` set es) = 1
     \<and> ref_series_id (hd es) = sid"
    by (cases es) (simp_all add: validate_season_episodes_def)
  moreover have "(\<exists>y. \<forall>x \<in> set es. ref_series_id x = y) \<and> ref_series_id (hd es) = sid
      \<longleftrightarrow> (\<forall>x \<in> set es. ref_series_id x = sid)"
    using hd_in_set [OF False] by metis
  ultimately show ?thesis
    unfolding card_image_eq_1 [OF False] one_season_def using False by metis
qed (simp add: validate_season_episodes_def one_season_def)

lemma profile_mark_season_watched_spec:
  assumes "profile_ok p" "one_season sid es"
  shows "\<exists>u. profile_mark_season_watched p es = Inr u
    \<and> (fresh u \<longleftrightarrow> (\<exists>e \<in> set es. \<not> is_episode_fully_watched p e))
    \<and> profile_result p u (on_series (sid)
        (spec_mark_each es (profile_progress p)) (profile_progress p))"
proof -
  have v: "validate_season_episodes es = Inr sid"
    using assms(2) by (simp add: validate_season_episodes_iff)
  have own: "\<forall>e \<in> set es. ref_series_id e = sid" and ne: "es \<noteq> []"
    using assms(2) unfolding one_season_def by blast+
  show ?thesis
  proof (cases "series_watch_state_for p sid")
    case None
    obtain s where s: "new_series sid = Inr s" "series_ok s" "sws_series_id s = sid"
        "progress_for s = Map.empty" "sws_allowed s = {}" "sws_boundary s = None"
      using series_ok_new by blast
    obtain u where u: "series_mark_all_watched s es = Inr u" "series_ok (current s u)"
        "sws_series_id (current s u) = sid" "sws_allowed (current s u) = {}"
        "sws_boundary (current s u) = None"
        "progress_for (current s u) = spec_mark_each es (progress_for s)"
      using series_mark_all_watched_spec [OF s(2), of es] s own by auto
    have "on_series sid (progress_for (current s u)) (profile_progress p)
        = on_series sid (spec_mark_each es (profile_progress p)) (profile_progress p)"
      unfolding u(6) using None own
      by (intro on_series_spec_mark) (auto simp: s(4) profile_progress_def)
    moreover have "\<exists>e \<in> set es. \<not> is_episode_fully_watched p e"
      using None ne own by (intro bexI [of _ "hd es"]) (simp_all add: is_episode_fully_watched_def)
    ultimately show ?thesis
      using lift_new [OF assms(1) None u(2,3,4,5)] None s(1) u(1) v
      by (auto simp: profile_mark_season_watched_def)
  next
    case (Some s)
    then have s: "series_ok s" "sws_series_id s = sid"
      using series_watch_state_for_ok [OF assms(1)] by auto
    obtain u where u: "series_mark_all_watched s es = Inr u" "series_ok (current s u)"
        "sws_series_id (current s u) = sws_series_id s" "sws_allowed (current s u) = sws_allowed s"
        "sws_boundary (current s u) = sws_boundary s"
        "fresh u \<longleftrightarrow> (\<exists>e \<in> set es. \<not> series_is_fully_watched s e)"
        "progress_for (current s u) = spec_mark_each es (progress_for s)"
      using series_mark_all_watched_spec [OF s(1), of es] s(2) own by auto
    have "on_series sid (progress_for (current s u)) (profile_progress p)
        = on_series sid (spec_mark_each es (profile_progress p)) (profile_progress p)"
      unfolding u(7) using Some own
      by (intro on_series_spec_mark) (auto simp: profile_progress_def)
    moreover have "(\<exists>e \<in> set es. \<not> series_is_fully_watched s e)
        \<longleftrightarrow> (\<exists>e \<in> set es. \<not> is_episode_fully_watched p e)"
      using Some own by (auto simp: is_episode_fully_watched_def)
    ultimately show ?thesis
      using lift_existing [OF assms(1) Some u(2-5)] Some u(1,6) v
      by (auto simp: profile_mark_season_watched_def)
  qed
qed

lemma profile_mark_season_unwatched_spec:
  assumes "profile_ok p" "one_season sid es"
  shows "\<exists>u. profile_mark_season_unwatched p es = Inr u
    \<and> ((\<exists>e \<in> set es. has_episode_progress p e) \<longrightarrow> fresh u)
    \<and> profile_result p u (\<lambda>e. if ref_series_id e = sid
          \<and> ref_episode_id e \<in> ref_episode_id ` set es then None else profile_progress p e)"
proof -
  let ?m = "\<lambda>e. if ref_series_id e = sid \<and> ref_episode_id e \<in> ref_episode_id ` set es then None
      else profile_progress p e"
  have v: "validate_season_episodes es = Inr sid"
    using assms(2) by (simp add: validate_season_episodes_iff)
  have own: "\<forall>e \<in> set es. ref_series_id e = sid"
    using assms(2) unfolding one_season_def by blast+
  show ?thesis
  proof (cases "series_watch_state_for p sid")
    case None
    then have "?m = profile_progress p" by (auto simp: profile_progress_def fun_eq_iff)
    with None own v profile_result_Same [OF assms(1)] show ?thesis
      by (auto simp: profile_mark_season_unwatched_def has_episode_progress_def cong: if_cong)
  next
    case (Some s)
    then have s: "series_ok s" "sws_series_id s = sid"
      using series_watch_state_for_ok [OF assms(1)] by auto
    obtain u where u: "series_mark_all_unwatched s es = Inr u" "series_ok (current s u)"
        "sws_series_id (current s u) = sws_series_id s" "sws_allowed (current s u) = sws_allowed s"
        "sws_boundary (current s u) = sws_boundary s"
        "fresh u \<longleftrightarrow> (\<exists>p \<in> set (sws_progress s).
            ref_episode_id (prog_episode p) \<in> ref_episode_id ` set es)"
        "progress_for (current s u) =
          (\<lambda>e. if ref_episode_id e \<in> ref_episode_id ` set es then None else progress_for s e)"
      using series_mark_all_unwatched_spec [OF s(1), of es] s(2) own by auto
    have m: "on_series sid (progress_for (current s u)) (profile_progress p) = ?m"
      using Some by (auto simp: u(7) profile_progress_def fun_eq_iff)
    have "(\<exists>e \<in> set es. has_episode_progress p e) \<longrightarrow> fresh u"
      using Some own by (fastforce simp: u(6) has_episode_progress_def has_progress_for_def
          dest: progress_for_mem)
    with m show ?thesis
      using lift_existing [OF assms(1) Some u(2-5)] Some u(1) v
      by (auto simp: profile_mark_season_unwatched_def)
  qed
qed

section \<open>Properties\<close>

text \<open>A viewer half-way through episode 2 of a season, used by the witnesses.\<close>

definition demo_ref :: "nat \<Rightarrow> episode_ref" where
  "demo_ref n = \<lparr>ref_series_id = 1, ref_season_id = 10, ref_episode_id = 100 + n,
     ref_position = EpisodePosition 1 (int n)\<rparr>"

definition demo_series :: series_watch_state where
  "demo_series = \<lparr>sws_series_id = 1,
     sws_progress = [completed (demo_ref 1),
       \<lparr>prog_episode = demo_ref 2, prog_is_completed = False, prog_safe_until_ms = Some 60000\<rparr>],
     sws_allowed = {}, sws_boundary = Some (demo_ref 2)\<rparr>"

definition demo_profile :: "spoiler_mode \<Rightarrow> profile_watch_state" where
  "demo_profile mode = \<lparr>pws_profile_id = 7, pws_profile_name = ''Ann'', pws_series = [demo_series],
     pws_spoiler_mode = mode, pws_version = 4\<rparr>"

lemma demo_series_ok: "series_ok demo_series"
  by (auto simp: series_ok_def series_post_init_iff demo_series_def demo_ref_def valid_progress_iff)

lemma demo_profile_ok: "profile_ok (demo_profile mode)"
  by (simp add: profile_ok_def profile_post_init_iff demo_profile_def demo_series_ok untrimmed_iff
      is_space_def)

text \<open>
  C1: marking an episode watched on a valid profile never raises.  The result is a valid profile
  in which the episode is fully watched, its version is one higher unless the episode was already
  watched (then the profile itself is returned), and the progress of every episode of another
  series or with another identifier is untouched.
\<close>

theorem mark_episode_watched_correct:
  assumes "profile_ok p"
  shows "\<exists>u. profile_mark_watched p e = Inr u \<and> profile_ok (current p u)
    \<and> is_episode_fully_watched (current p u) e
    \<and> pws_version (current p u) = pws_version p + (if is_episode_fully_watched p e then 0 else 1)
    \<and> (is_episode_fully_watched p e \<longrightarrow> current p u = p)
    \<and> (\<forall>e'. ref_series_id e' \<noteq> ref_series_id e \<or> ref_episode_id e' \<noteq> ref_episode_id e \<longrightarrow>
         profile_progress (current p u) e' = profile_progress p e')"
proof -
  obtain u where u: "profile_mark_watched p e = Inr u"
      "fresh u \<longleftrightarrow> \<not> is_episode_fully_watched p e"
      "profile_result p u (on_series (ref_series_id e)
        (spec_mark e (Some (completed e)) (profile_progress p)) (profile_progress p))"
    using profile_mark_watched_spec [OF assms] by blast
  have "profile_progress (current p u) e = Some (completed e)"
    using u(3) by (simp add: profile_result_def spec_mark_def)
  then have "is_episode_fully_watched (current p u) e"
    using u(3) by (simp add: profile_result_def is_episode_fully_watched_iff)
  moreover have "\<not> fresh u \<longrightarrow> current p u = p" by (cases u) auto
  ultimately show ?thesis
    using u by (intro exI [of _ u]) (auto simp: profile_result_def spec_mark_def)
qed

theorem mark_episode_watched_correct_witness:
  "\<exists>u. profile_mark_watched (demo_profile STRICT) (demo_ref 2) = Inr u
    \<and> is_episode_fully_watched (current (demo_profile STRICT) u) (demo_ref 2)
    \<and> pws_version (current (demo_profile STRICT) u) = 5"
proof -
  have "\<not> is_episode_fully_watched (demo_profile STRICT) (demo_ref 2)" by code_simp
  moreover have "pws_version (demo_profile STRICT) = 4" by (simp add: demo_profile_def)
  ultimately show ?thesis
    using mark_episode_watched_correct [OF demo_profile_ok, of STRICT "demo_ref 2"] by auto
qed



end
