(* ===== verification/Access_Policy.thy ===== *)
theory Access_Policy
  imports Watch_State
begin

text \<open>
  Who may see what: the corpus entitlement (\<open>domain/models/access/corpus_access_scope.py\<close>), the
  spoiler policy (\<open>domain/policy/spoiler_policy.py\<close>), the request-scoped watch state
  (\<open>domain/policy/watch_state_builder.py\<close>) and the compilation of both into a retrieval scope
  (\<open>domain/retrieval\<close>).
\<close>

section \<open>Corpus entitlement\<close>

record corpus_season_access =
  csa_series_id :: uuid
  csa_season_number :: int

definition mk_season_access :: "uuid \<Rightarrow> int \<Rightarrow> corpus_season_access result" where
  "mk_season_access sid n =
     (if n < 1 then Inl (InvalidModelError STR ''CORPUS_SEASON_NUMBER_MUST_BE_POSITIVE'')
      else Inr \<lparr>csa_series_id = sid, csa_season_number = n\<rparr>)"

record corpus_access_scope =
  cas_mode :: corpus_access_mode
  cas_revision :: string
  cas_allowed_seasons :: "corpus_season_access set"
  cas_unrestricted :: bool

definition scope_post_init :: "corpus_access_scope \<Rightarrow> corpus_access_scope result" where
  "scope_post_init s =
     (if untrimmed (cas_revision s)
        then Inl (InvalidModelError STR ''CORPUS_SCOPE_REVISION_MUST_BE_NONEMPTY'')
      else if cas_mode s = Corpus_GUEST \<and> cas_unrestricted s
        then Inl (InvalidModelError STR ''GUEST_CORPUS_SCOPE_CANNOT_BE_UNRESTRICTED'')
      else if cas_mode s = Corpus_GUEST \<and> cas_allowed_seasons s = {}
        then Inl (InvalidModelError STR ''GUEST_CORPUS_SCOPE_REQUIRES_ALLOWED_SEASONS'')
      else Inr s)"

definition allows_episode :: "corpus_access_scope \<Rightarrow> episode_ref \<Rightarrow> bool result" where
  "allows_episode s e =
     (if cas_unrestricted s then Inr True
      else bindE (mk_season_access (ref_series_id e) (season_number (ref_position e))) (\<lambda>a.
        Inr (a \<in> cas_allowed_seasons s)))"

text \<open>\<open>all(...)\<close> stops at the first episode that is not allowed.\<close>

fun all_allowed :: "corpus_access_scope \<Rightarrow> episode_ref list \<Rightarrow> bool result" where
  "all_allowed s [] = Inr True"
| "all_allowed s (e # es) =
     bindE (allows_episode s e) (\<lambda>b. if b then all_allowed s es else Inr False)"

definition allows_all :: "corpus_access_scope \<Rightarrow> episode_ref list \<Rightarrow> bool result" where
  "allows_all s es = (if es = [] then Inr False else all_allowed s es)"

section \<open>Spoiler policy\<close>

definition can_access_episode :: "episode_ref \<Rightarrow> profile_watch_state \<Rightarrow> bool" where
  "can_access_episode e p =
     (if pws_spoiler_mode p = RELAXED then True
      else case series_watch_state_for p (ref_series_id e) of
        None \<Rightarrow> False
      | Some s \<Rightarrow>
          if series_is_fully_watched s e then True
          else if e \<in> sws_allowed s then True
          else if pws_spoiler_mode p = STRICT then False
          else case sws_boundary s of
            None \<Rightarrow> False
          | Some b \<Rightarrow> ref_position e \<le> ref_position b)"

definition accessible_episode_refs ::
    "episode_ref list \<Rightarrow> profile_watch_state option \<Rightarrow> episode_ref set" where
  "accessible_episode_refs es w =
     (case w of None \<Rightarrow> {} | Some p \<Rightarrow> set (filter (\<lambda>e. can_access_episode e p) es))"

definition can_access :: "episode_ref list \<Rightarrow> profile_watch_state option \<Rightarrow> bool" where
  "can_access es w = (if es = [] then False else set es = accessible_episode_refs es w)"

definition partial_safe_until_ms_for ::
    "episode_ref \<Rightarrow> profile_watch_state option \<Rightarrow> int option" where
  "partial_safe_until_ms_for e w =
     (case w of
        None \<Rightarrow> None
      | Some p \<Rightarrow>
          if can_access_episode e p then None
          else case series_watch_state_for p (ref_series_id e) of
            None \<Rightarrow> None
          | Some s \<Rightarrow> safe_until_ms_for s e)"

section \<open>The bounded watch state of a request\<close>

definition build_bounded_watch_state :: "uuid \<Rightarrow> string \<Rightarrow> uuid \<Rightarrow> episode_ref list \<Rightarrow>
    spoiler_mode \<Rightarrow> uuid option \<Rightarrow> profile_watch_state result" where
  "build_bounded_watch_state profile name sid episodes mode safe_through =
     (if mode = RELAXED then
        if safe_through \<noteq> None then Inl (ValueError STR ''SPOILER_BOUNDARY_INVALID'')
        else profile_post_init
          \<lparr>pws_profile_id = profile, pws_profile_name = name, pws_series = [],
           pws_spoiler_mode = RELAXED, pws_version = 0\<rparr>
      else case List.find (\<lambda>e. Some (ref_episode_id e) = safe_through) episodes of
        None \<Rightarrow> Inl (ValueError STR ''SPOILER_BOUNDARY_INVALID'')
      | Some boundary \<Rightarrow>
          bindE (series_post_init
            \<lparr>sws_series_id = sid, sws_progress = [],
             sws_allowed = (if mode = STRICT
               then set (filter (\<lambda>e. ref_position e \<le> ref_position boundary) episodes) else {}),
             sws_boundary = (if mode = SEQUENTIAL then Some boundary else None)\<rparr>) (\<lambda>s.
          profile_post_init
            \<lparr>pws_profile_id = profile, pws_profile_name = name, pws_series = [s],
             pws_spoiler_mode = mode, pws_version = 0\<rparr>))"

section \<open>Retrieval scope\<close>

record episode_visibility_scope =
  evs_episode :: episode_ref
  evs_safe_until_ms :: "int option"

definition mk_visibility :: "episode_ref \<Rightarrow> int option \<Rightarrow> episode_visibility_scope result" where
  "mk_visibility e ms =
     (if ms \<noteq> None \<and> the ms < 0
        then Inl (InvalidModelError
               STR ''EPISODE_VISIBILITY_SCOPE_SAFE_UNTIL_MS_MUST_BE_NON_NEGATIVE'')
      else Inr \<lparr>evs_episode = e, evs_safe_until_ms = ms\<rparr>)"

record retrieval_scope =
  rs_series_id :: uuid
  rs_episode_scopes :: "episode_visibility_scope list"

fun check_episode_scopes :: "uuid \<Rightarrow> uuid set \<Rightarrow> episode_visibility_scope list \<Rightarrow> unit result" where
  "check_episode_scopes sid seen [] = Inr ()"
| "check_episode_scopes sid seen (v # vs) =
     (if ref_series_id (evs_episode v) \<noteq> sid
        then Inl (InvalidModelError STR ''RETRIEVAL_SCOPE_EPISODES_MUST_MATCH_SERIES'')
      else if ref_episode_id (evs_episode v) \<in> seen
        then Inl (InvalidModelError STR ''RETRIEVAL_SCOPE_CANNOT_HAVE_DUPLICATE_EPISODES'')
      else check_episode_scopes sid (insert (ref_episode_id (evs_episode v)) seen) vs)"

definition mk_retrieval_scope ::
    "uuid \<Rightarrow> episode_visibility_scope list \<Rightarrow> retrieval_scope result" where
  "mk_retrieval_scope sid vs =
     bindE (check_episode_scopes sid {} vs) (\<lambda>_.
       Inr \<lparr>rs_series_id = sid, rs_episode_scopes = vs\<rparr>)"

fun check_candidates :: "uuid \<Rightarrow> episode_ref list \<Rightarrow> unit result" where
  "check_candidates sid [] = Inr ()"
| "check_candidates sid (e # es) =
     (if ref_series_id e \<noteq> sid then Inl (ValueError STR ''CANDIDATE_EPISODES_MUST_MATCH_SERIES'')
      else check_candidates sid es)"

fun compile_episodes :: "profile_watch_state option \<Rightarrow> corpus_access_scope \<Rightarrow> episode_ref list \<Rightarrow>
    episode_visibility_scope list result" where
  "compile_episodes w scope [] = Inr []"
| "compile_episodes w scope (e # es) =
     bindE (allows_episode scope e) (\<lambda>allowed.
       if \<not> allowed then compile_episodes w scope es
       else if can_access [e] w then
         bindE (mk_visibility e None) (\<lambda>v.
           bindE (compile_episodes w scope es) (\<lambda>vs. Inr (v # vs)))
       else case partial_safe_until_ms_for e w of
         None \<Rightarrow> compile_episodes w scope es
       | Some ms \<Rightarrow>
           bindE (mk_visibility e (Some ms)) (\<lambda>v.
             bindE (compile_episodes w scope es) (\<lambda>vs. Inr (v # vs))))"

definition compile_scope :: "uuid \<Rightarrow> episode_ref list \<Rightarrow> profile_watch_state option \<Rightarrow>
    corpus_access_scope \<Rightarrow> retrieval_scope result" where
  "compile_scope sid candidates w scope =
     bindE (check_candidates sid candidates) (\<lambda>_.
       bindE (compile_episodes w scope candidates) (\<lambda>vs. mk_retrieval_scope sid vs))"

section \<open>Lemmas on entitlement\<close>

text \<open>The entitlement as a predicate: what the grants say of an episode at a valid position.\<close>

definition entitled :: "corpus_access_scope \<Rightarrow> episode_ref \<Rightarrow> bool" where
  "entitled s e \<longleftrightarrow> cas_unrestricted s \<or>
     \<lparr>csa_series_id = ref_series_id e, csa_season_number = season_number (ref_position e)\<rparr>
       \<in> cas_allowed_seasons s"

definition valid_ref :: "episode_ref \<Rightarrow> bool" where
  "valid_ref e \<longleftrightarrow> 1 \<le> season_number (ref_position e) \<and> 1 \<le> episode_number (ref_position e)"

lemma allows_episode_entitled: "valid_ref e \<Longrightarrow> allows_episode s e = Inr (entitled s e)"
  by (simp add: allows_episode_def mk_season_access_def entitled_def valid_ref_def)

lemma all_allowed_entitled:
  "\<forall>e \<in> set es. valid_ref e \<Longrightarrow> all_allowed s es = Inr (\<forall>e \<in> set es. entitled s e)"
  by (induction es) (auto simp: allows_episode_entitled)

lemma allows_all_entitled:
  "\<forall>e \<in> set es. valid_ref e \<Longrightarrow> allows_all s es = Inr (es \<noteq> [] \<and> (\<forall>e \<in> set es. entitled s e))"
  by (auto simp: allows_all_def all_allowed_entitled)

section \<open>Lemmas on the spoiler policy\<close>

text \<open>The policy in terms of the abstract state: progress map, allowances and boundary.\<close>

lemma can_access_episode_iff:
  assumes "profile_ok p"
  shows "can_access_episode e p \<longleftrightarrow> pws_spoiler_mode p = RELAXED
    \<or> profile_progress p e = Some (completed e)
    \<or> e \<in> fst (profile_static p (ref_series_id e))
    \<or> pws_spoiler_mode p = SEQUENTIAL
       \<and> (\<exists>b. snd (profile_static p (ref_series_id e)) = Some b \<and> ref_position e \<le> ref_position b)"
proof (cases "series_watch_state_for p (ref_series_id e)")
  case None
  then show ?thesis by (simp add: can_access_episode_def profile_progress_def profile_static_def)
next
  case (Some s)
  then have "series_ok s" using series_watch_state_for_ok [OF assms] by blast
  with Some show ?thesis
    by (cases "pws_spoiler_mode p")
      (auto simp: can_access_episode_def profile_progress_def profile_static_def fully_watched_iff
        split: option.splits)
qed

lemma can_access_single: "can_access [e] (Some p) \<longleftrightarrow> can_access_episode e p"
  by (auto simp: can_access_def accessible_episode_refs_def)

lemma can_access_iff:
  "can_access es (Some p) \<longleftrightarrow> es \<noteq> [] \<and> (\<forall>e \<in> set es. can_access_episode e p)"
  by (auto simp: can_access_def accessible_episode_refs_def)

lemma partial_safe_until_iff:
  assumes "profile_ok p"
  shows "partial_safe_until_ms_for e (Some p) = Some ms \<longleftrightarrow> \<not> can_access_episode e p
    \<and> (\<exists>q. profile_progress p e = Some q \<and> \<not> prog_is_completed q \<and> prog_safe_until_ms q = Some ms)"
  by (auto simp: partial_safe_until_ms_for_def profile_progress_def safe_until_ms_for_def
      split: option.splits if_splits)

lemma partial_safe_until_nonneg:
  assumes "profile_ok p" "partial_safe_until_ms_for e (Some p) = Some ms"
  shows "0 \<le> ms"
proof -
  obtain q where q: "profile_progress p e = Some q" "\<not> prog_is_completed q"
      "prog_safe_until_ms q = Some ms"
    using assms(2) unfolding partial_safe_until_iff [OF assms(1)] by blast
  obtain s where "series_watch_state_for p (ref_series_id e) = Some s" "progress_for s e = Some q"
    using q(1) by (auto simp: profile_progress_def split: option.splits)
  then have "valid_progress q"
    using series_watch_state_for_ok [OF assms(1)] progress_for_valid by blast
  then show ?thesis using q(2,3) by (simp add: valid_progress_iff)
qed

section \<open>Lemmas on the compiled scope\<close>

text \<open>What the compiler grants for one candidate: nothing, everything, or a prefix.\<close>

definition visibility_of :: "profile_watch_state option \<Rightarrow> corpus_access_scope \<Rightarrow> episode_ref \<Rightarrow>
    episode_visibility_scope option" where
  "visibility_of w scope e =
     (if \<not> entitled scope e then None
      else if can_access [e] w then Some \<lparr>evs_episode = e, evs_safe_until_ms = None\<rparr>
      else map_option (\<lambda>ms. \<lparr>evs_episode = e, evs_safe_until_ms = Some ms\<rparr>)
        (partial_safe_until_ms_for e w))"

lemma check_candidates_iff: "check_candidates sid es = Inr u \<longleftrightarrow> (\<forall>e \<in> set es. ref_series_id e = sid)"
  by (induction es) auto

lemma check_episode_scopes_iff:
  "check_episode_scopes sid seen vs = Inr () \<longleftrightarrow>
     (\<forall>v \<in> set vs. ref_series_id (evs_episode v) = sid)
     \<and> distinct (map (ref_episode_id \<circ> evs_episode) vs)
     \<and> (\<forall>v \<in> set vs. ref_episode_id (evs_episode v) \<notin> seen)"
proof (induction vs arbitrary: seen)
  case (Cons v vs)
  have "(\<forall>w \<in> set vs. ref_episode_id (evs_episode w) \<noteq> ref_episode_id (evs_episode v))
      \<longleftrightarrow> ref_episode_id (evs_episode v) \<notin> (\<lambda>w. ref_episode_id (evs_episode w)) ` set vs"
    by (metis (no_types) image_iff)
  then show ?case by (simp add: Cons.IH comp_def ball_conj_distrib conj_ac)
qed simp

lemma compile_episodes_eq:
  assumes "\<forall>p. w = Some p \<longrightarrow> profile_ok p" "\<forall>e \<in> set es. valid_ref e"
  shows "compile_episodes w scope es = Inr (List.map_filter (visibility_of w scope) es)"
  using assms(2)
proof (induction es)
  case (Cons e es)
  have "0 \<le> ms" if "partial_safe_until_ms_for e w = Some ms" for ms
  proof (cases w)
    case None
    with that show ?thesis by (simp add: partial_safe_until_ms_for_def)
  next
    case (Some p)
    with assms(1) have "profile_ok p" by blast
    with that Some show ?thesis by (auto intro: partial_safe_until_nonneg)
  qed
  then have "mk_visibility e (Some ms) = Inr \<lparr>evs_episode = e, evs_safe_until_ms = Some ms\<rparr>"
    if "partial_safe_until_ms_for e w = Some ms" for ms
    using that by (force simp: mk_visibility_def)
  with Cons show ?case
    by (auto simp: allows_episode_entitled visibility_of_def mk_visibility_def map_filter_simps
        split: option.split)
qed (simp add: map_filter_simps)

lemma set_map_filter: "set (List.map_filter f xs) = {y. \<exists>x \<in> set xs. f x = Some y}"
  by (induction xs) (auto simp: map_filter_simps split: option.splits)

lemma visibility_of_episode: "visibility_of w scope e = Some v \<Longrightarrow> evs_episode v = e"
  by (auto simp: visibility_of_def split: if_splits)

lemma map_filter_visibility_ids:
  "set (map (ref_episode_id \<circ> evs_episode) (List.map_filter (visibility_of w scope) es))
     \<subseteq> ref_episode_id ` set es"
  by (auto simp: set_map_filter dest!: visibility_of_episode)

lemma distinct_map_filter_visibility:
  "distinct (map ref_episode_id es) \<Longrightarrow>
     distinct (map (ref_episode_id \<circ> evs_episode) (List.map_filter (visibility_of w scope) es))"
proof (induction es)
  case (Cons e es)
  then show ?case
    using map_filter_visibility_ids [of w scope es]
    by (auto simp: map_filter_simps split: option.split dest!: visibility_of_episode)
qed (simp add: map_filter_simps)

lemma compile_scope_eq:
  assumes "\<forall>p. w = Some p \<longrightarrow> profile_ok p" "\<forall>e \<in> set es. valid_ref e \<and> ref_series_id e = sid"
    and "distinct (map ref_episode_id es)"
  shows "compile_scope sid es w scope = Inr \<lparr>rs_series_id = sid,
    rs_episode_scopes = List.map_filter (visibility_of w scope) es\<rparr>"
proof -
  let ?vs = "List.map_filter (visibility_of w scope) es"
  have "check_candidates sid es = Inr ()" using assms(2) by (simp add: check_candidates_iff)
  moreover have "compile_episodes w scope es = Inr ?vs"
    using assms(1,2) by (intro compile_episodes_eq) auto
  moreover have "\<forall>v \<in> set ?vs. ref_series_id (evs_episode v) = sid"
    using assms(2) by (auto simp: set_map_filter dest!: visibility_of_episode)
  then have "check_episode_scopes sid {} ?vs = Inr ()"
    using distinct_map_filter_visibility [OF assms(3)] by (simp add: check_episode_scopes_iff)
  ultimately show ?thesis by (simp add: compile_scope_def mk_retrieval_scope_def)
qed

section \<open>Properties\<close>

definition demo_scope :: corpus_access_scope where
  "demo_scope = \<lparr>cas_mode = Corpus_GUEST, cas_revision = ''v1'',
     cas_allowed_seasons = {\<lparr>csa_series_id = 1, csa_season_number = 1\<rparr>}, cas_unrestricted = False\<rparr>"

text \<open>
  C3: compiling a retrieval scope for distinct candidates of one series never raises, and grants
  exactly what entitlement and spoiler policy allow: an episode is in the scope without a cut-off
  iff the corpus scope entitles it and the policy gives access to it; it is in the scope with a
  cut-off iff it is entitled, not accessible, and partially watched up to that (non-negative)
  position; nothing else is in the scope, and the order of the candidates is kept.
\<close>

theorem compile_scope_exact:
  assumes "profile_ok p" "\<forall>e \<in> set es. valid_ref e \<and> ref_series_id e = sid"
    and "distinct (map ref_episode_id es)"
  shows "\<exists>vs. compile_scope sid es (Some p) scope
        = Inr \<lparr>rs_series_id = sid, rs_episode_scopes = vs\<rparr>
    \<and> (\<forall>e. \<lparr>evs_episode = e, evs_safe_until_ms = None\<rparr> \<in> set vs
         \<longleftrightarrow> e \<in> set es \<and> entitled scope e \<and> can_access_episode e p)
    \<and> (\<forall>e ms. \<lparr>evs_episode = e, evs_safe_until_ms = Some ms\<rparr> \<in> set vs
         \<longleftrightarrow> e \<in> set es \<and> entitled scope e \<and> \<not> can_access_episode e p \<and> 0 \<le> ms
           \<and> (\<exists>q. profile_progress p e = Some q \<and> \<not> prog_is_completed q
                \<and> prog_safe_until_ms q = Some ms))
    \<and> map evs_episode vs = filter (\<lambda>e. visibility_of (Some p) scope e \<noteq> None) es"
proof -
  let ?vs = "List.map_filter (visibility_of (Some p) scope) es"
  have full: "\<lparr>evs_episode = e, evs_safe_until_ms = None\<rparr> \<in> set ?vs
      \<longleftrightarrow> e \<in> set es \<and> entitled scope e \<and> can_access_episode e p" for e
    by (auto simp: set_map_filter visibility_of_def can_access_single split: if_splits)
  have part: "\<lparr>evs_episode = e, evs_safe_until_ms = Some ms\<rparr> \<in> set ?vs
      \<longleftrightarrow> e \<in> set es \<and> entitled scope e \<and> \<not> can_access_episode e p
        \<and> partial_safe_until_ms_for e (Some p) = Some ms" for e ms
    by (auto simp: set_map_filter visibility_of_def can_access_single split: if_splits)
  have "map evs_episode ?vs = filter (\<lambda>e. visibility_of (Some p) scope e \<noteq> None) es"
    by (induction es)
      (auto simp: map_filter_simps split: option.split dest: visibility_of_episode)
  moreover have "compile_scope sid es (Some p) scope
      = Inr \<lparr>rs_series_id = sid, rs_episode_scopes = ?vs\<rparr>"
    using assms by (intro compile_scope_eq) auto
  ultimately show ?thesis
    using full part partial_safe_until_iff [OF assms(1)] partial_safe_until_nonneg [OF assms(1)]
    by (intro exI [of _ ?vs]) blast
qed

theorem compile_scope_exact_witness:
  "\<exists>vs. compile_scope 1 [demo_ref 1, demo_ref 2, demo_ref 3] (Some (demo_profile STRICT)) demo_scope
      = Inr \<lparr>rs_series_id = 1, rs_episode_scopes = vs\<rparr>
    \<and> \<lparr>evs_episode = demo_ref 1, evs_safe_until_ms = None\<rparr> \<in> set vs
    \<and> \<lparr>evs_episode = demo_ref 2, evs_safe_until_ms = Some 60000\<rparr> \<in> set vs"
proof -
  let ?es = "[demo_ref 1, demo_ref 2, demo_ref 3]"
  have "\<forall>e \<in> set ?es. valid_ref e \<and> ref_series_id e = 1" "distinct (map ref_episode_id ?es)"
    by (simp_all add: valid_ref_def demo_ref_def)
  note c = compile_scope_exact [OF demo_profile_ok this, of STRICT demo_scope]
  have "entitled demo_scope (demo_ref 1)" "entitled demo_scope (demo_ref 2)"
      "can_access_episode (demo_ref 1) (demo_profile STRICT)"
      "\<not> can_access_episode (demo_ref 2) (demo_profile STRICT)"
      "profile_progress (demo_profile STRICT) (demo_ref 2) = Some \<lparr>prog_episode = demo_ref 2,
         prog_is_completed = False, prog_safe_until_ms = Some 60000\<rparr>"
    by code_simp+
  with c show ?thesis by auto
qed

text \<open>
  C4: marking an episode watched makes it accessible and reveals no other episode; what was
  accessible stays so, unless it is another reference with the same identifier in the series.
  Marking an episode unwatched reveals nothing.
\<close>

theorem marking_reveals_only_the_episode:
  assumes "profile_ok p" "profile_mark_watched p e = Inr u" "profile_mark_unwatched p e = Inr v"
  shows "can_access_episode e (current p u)
    \<and> (\<forall>e'. can_access_episode e' (current p u) \<longrightarrow> e' = e \<or> can_access_episode e' p)
    \<and> (\<forall>e'. can_access_episode e' p
         \<and> (ref_series_id e' \<noteq> ref_series_id e \<or> ref_episode_id e' \<noteq> ref_episode_id e)
         \<longrightarrow> can_access_episode e' (current p u))
    \<and> (\<forall>e'. can_access_episode e' (current p v) \<longrightarrow> can_access_episode e' p)"
proof -
  have u: "profile_result p u (on_series (ref_series_id e)
      (spec_mark e (Some (completed e)) (profile_progress p)) (profile_progress p))"
    using profile_mark_watched_spec [OF assms(1), of e] assms(2) by auto
  have v: "profile_result p v (if has_episode_progress p e
      then on_series (ref_series_id e) (spec_mark e None (profile_progress p)) (profile_progress p)
      else profile_progress p)"
    using profile_mark_unwatched_spec [OF assms(1), of e] assms(3) by auto
  have "profile_ok (current p u)" "profile_ok (current p v)"
    using u v by (simp_all add: profile_result_def)
  note iff = can_access_episode_iff [OF assms(1)] can_access_episode_iff [OF this(1)]
    can_access_episode_iff [OF this(2)]
  show ?thesis
    using u v unfolding iff by (auto simp: profile_result_def spec_mark_def split: if_splits)
qed

theorem marking_reveals_only_the_episode_witness:
  "\<exists>u. profile_mark_watched (demo_profile STRICT) (demo_ref 2) = Inr u
    \<and> can_access_episode (demo_ref 2) (current (demo_profile STRICT) u)
    \<and> \<not> can_access_episode (demo_ref 3) (current (demo_profile STRICT) u)"
proof -
  let ?p = "demo_profile STRICT"
  obtain u v where u: "profile_mark_watched ?p (demo_ref 2) = Inr u"
      "profile_mark_unwatched ?p (demo_ref 2) = Inr v"
    using profile_mark_watched_spec [OF demo_profile_ok]
      profile_mark_unwatched_spec [OF demo_profile_ok] by metis
  have "\<not> can_access_episode (demo_ref 3) ?p" by code_simp
  moreover have "demo_ref 3 \<noteq> demo_ref 2" by (simp add: demo_ref_def)
  ultimately show ?thesis
    using marking_reveals_only_the_episode [OF demo_profile_ok u] u(1) by blast
qed

lemma find_by_id:
  assumes "distinct (map ref_episode_id es)" "b \<in> set es"
  shows "List.find (\<lambda>e. Some (ref_episode_id e) = Some (ref_episode_id b)) es = Some b"
  using assms by (intro find_unique) (auto simp: distinct_map inj_on_def)

text \<open>
  C5: the watch state built for one request in a protected mode is valid and reveals, of the
  request's series, exactly the episodes up to the chosen boundary: the strict state lists those
  of the candidates, the sequential state compares positions, and both agree on the candidates.
  A boundary that is missing or is not a candidate is refused.
\<close>

theorem bounded_watch_state_reveals_prefix:
  assumes "\<not> untrimmed name" "\<forall>e \<in> set es. ref_series_id e = sid"
    and "distinct (map ref_episode_id es)" "b \<in> set es" "mode \<noteq> RELAXED"
  shows "(\<exists>p. build_bounded_watch_state profile name sid es mode (Some (ref_episode_id b)) = Inr p
      \<and> profile_ok p
      \<and> (\<forall>e. can_access_episode e p \<longleftrightarrow> ref_series_id e = sid \<and> ref_position e \<le> ref_position b
            \<and> (mode = STRICT \<longrightarrow> e \<in> set es)))
    \<and> (\<forall>x. x \<notin> Some ` ref_episode_id ` set es \<longrightarrow>
        build_bounded_watch_state profile name sid es mode x
          = Inl (ValueError STR ''SPOILER_BOUNDARY_INVALID''))"
proof -
  let ?s = "\<lparr>sws_series_id = sid, sws_progress = [],
     sws_allowed = (if mode = STRICT
       then set (filter (\<lambda>e. ref_position e \<le> ref_position b) es) else {}),
     sws_boundary = (if mode = SEQUENTIAL then Some b else None)\<rparr>"
  let ?p = "\<lparr>pws_profile_id = profile, pws_profile_name = name, pws_series = [?s],
     pws_spoiler_mode = mode, pws_version = 0\<rparr>"
  have s: "series_post_init ?s = Inr ?s"
    using assms(2,4) by (auto simp: series_post_init_iff)
  have p: "profile_post_init ?p = Inr ?p"
    using assms(1) by (simp add: profile_post_init_iff)
  have ok: "profile_ok ?p" using s p by (simp add: profile_ok_def series_ok_def)
  have build: "build_bounded_watch_state profile name sid es mode (Some (ref_episode_id b)) = Inr ?p"
    using assms(5) s p find_by_id [OF assms(3,4)] by (simp add: build_bounded_watch_state_def)
  have "can_access_episode e ?p \<longleftrightarrow> ref_series_id e = sid \<and> ref_position e \<le> ref_position b
      \<and> (mode = STRICT \<longrightarrow> e \<in> set es)" for e
    unfolding can_access_episode_iff [OF ok] using assms(2,5)
    by (cases mode) (auto simp: profile_progress_def profile_static_def series_watch_state_for_def
        progress_for_def split: if_splits)
  moreover have "build_bounded_watch_state profile name sid es mode x
      = Inl (ValueError STR ''SPOILER_BOUNDARY_INVALID'')" if "x \<notin> Some ` ref_episode_id ` set es" for x
  proof -
    have "List.find (\<lambda>e. Some (ref_episode_id e) = x) es = None"
      using that by (auto simp: find_None)
    then show ?thesis using assms(5) by (simp add: build_bounded_watch_state_def)
  qed
  ultimately show ?thesis using build ok by blast
qed

theorem bounded_watch_state_reveals_prefix_witness:
  "(\<exists>p. build_bounded_watch_state 7 ''Ann'' 1 [demo_ref 1, demo_ref 2] STRICT (Some 101) = Inr p
      \<and> can_access_episode (demo_ref 1) p \<and> \<not> can_access_episode (demo_ref 2) p)
    \<and> build_bounded_watch_state 7 ''Ann'' 1 [demo_ref 1, demo_ref 2] STRICT (Some 103)
        = Inl (ValueError STR ''SPOILER_BOUNDARY_INVALID'')"
proof -
  let ?es = "[demo_ref 1, demo_ref 2]"
  have "\<not> untrimmed ''Ann''" by (simp add: untrimmed_iff is_space_def)
  moreover have "\<forall>e \<in> set ?es. ref_series_id e = 1" "distinct (map ref_episode_id ?es)"
    by (simp_all add: demo_ref_def)
  ultimately show ?thesis
    using bounded_watch_state_reveals_prefix [of "''Ann''" ?es 1 "demo_ref 1" STRICT 7]
    by (auto simp: demo_ref_def less_eq_episode_position_def)
qed

end
