(* ===== verification/Watch_Progress.thy ===== *)
theory Watch_Progress
  imports Watch_State
begin

text \<open>
  Persistent watch progress: the port \<open>WatchProgressRepository\<close> and its in-memory adapter with
  optimistic concurrency, the season catalogue, and the four services that mark episodes and
  seasons.  A service takes the operations of its ports as arguments, as the code injects them.
  The locale \<open>watch_progress_repository\<close> is the contract the services rely on; the in-memory
  adapter interprets it.
\<close>

section \<open>Events, commands and results\<close>

record watch_event =
  we_event_id :: uuid
  we_profile_id :: uuid
  we_episode :: episode_ref
  we_kind :: watch_event_kind
  we_source :: watch_event_source
  we_occurred_at :: datetime

definition watch_event_post_init :: "watch_event \<Rightarrow> watch_event result" where
  "watch_event_post_init ev =
     (if \<not> is_aware (we_occurred_at ev)
        then Inl (InvalidModelError STR ''WATCH_EVENT_TIMESTAMP_MUST_BE_TIMEZONE_AWARE'')
      else Inr ev)"

text \<open>\<open>new_id i\<close> is the \<open>i\<close>-th random identifier drawn (\<open>uuid4\<close>).\<close>

fun create_watch_events :: "uuid \<Rightarrow> watch_event_kind \<Rightarrow> watch_event_source \<Rightarrow> datetime \<Rightarrow>
    (nat \<Rightarrow> uuid) \<Rightarrow> nat \<Rightarrow> episode_ref list \<Rightarrow> watch_event list result" where
  "create_watch_events pid kind src now new_id i [] = Inr []"
| "create_watch_events pid kind src now new_id i (e # es) =
     bindE (watch_event_post_init \<lparr>we_event_id = new_id i, we_profile_id = pid, we_episode = e,
         we_kind = kind, we_source = src, we_occurred_at = now\<rparr>) (\<lambda>ev.
       bindE (create_watch_events pid kind src now new_id (Suc i) es) (\<lambda>evs. Inr (ev # evs)))"

record mark_episode_command =
  mec_profile_id :: uuid
  mec_episode :: episode_ref
  mec_source :: watch_event_source

record mark_season_command =
  msc_profile_id :: uuid
  msc_series_id :: uuid
  msc_season_id :: uuid
  msc_source :: watch_event_source

record mark_result =
  mr_watch_state :: profile_watch_state
  mr_watch_events :: "watch_event list"
  mr_was_already :: bool

section \<open>The services\<close>

text \<open>
  The single-episode results carry \<open>watch_event: WatchEvent | None\<close>; the model keeps the list
  of at most one event that the service persisted.
\<close>

definition mark_episode_watched_service ::
    "('s \<Rightarrow> uuid \<Rightarrow> profile_watch_state option) \<Rightarrow>
     ('s \<Rightarrow> profile_watch_state \<Rightarrow> watch_event list \<Rightarrow> int \<Rightarrow> 's result) \<Rightarrow>
     datetime \<Rightarrow> (nat \<Rightarrow> uuid) \<Rightarrow> mark_episode_command \<Rightarrow> 's \<Rightarrow> (mark_result \<times> 's) result" where
  "mark_episode_watched_service get persist now new_id c s =
     (case get s (mec_profile_id c) of
        None \<Rightarrow> Inl (LookupError STR ''NO_WATCH_STATE_FOUND_FOR_PROFILE_ID'')
      | Some p \<Rightarrow>
          if is_episode_fully_watched p (mec_episode c) then
            Inr (\<lparr>mr_watch_state = p, mr_watch_events = [], mr_was_already = True\<rparr>, s)
          else
            bindE (profile_mark_watched p (mec_episode c)) (\<lambda>u.
            bindE (create_watch_events (mec_profile_id c) EPISODE_MARKED_WATCHED (mec_source c)
              now new_id 0 [mec_episode c]) (\<lambda>evs.
            bindE (persist s (current p u) evs (pws_version p)) (\<lambda>s'.
              Inr (\<lparr>mr_watch_state = current p u, mr_watch_events = evs,
                mr_was_already = False\<rparr>, s')))))"

definition mark_episode_unwatched_service ::
    "('s \<Rightarrow> uuid \<Rightarrow> profile_watch_state option) \<Rightarrow>
     ('s \<Rightarrow> profile_watch_state \<Rightarrow> watch_event list \<Rightarrow> int \<Rightarrow> 's result) \<Rightarrow>
     datetime \<Rightarrow> (nat \<Rightarrow> uuid) \<Rightarrow> mark_episode_command \<Rightarrow> 's \<Rightarrow> (mark_result \<times> 's) result" where
  "mark_episode_unwatched_service get persist now new_id c s =
     (case get s (mec_profile_id c) of
        None \<Rightarrow> Inl (LookupError STR ''NO_WATCH_STATE_FOUND_FOR_PROFILE_ID'')
      | Some p \<Rightarrow>
          if \<not> has_episode_progress p (mec_episode c) then
            Inr (\<lparr>mr_watch_state = p, mr_watch_events = [], mr_was_already = True\<rparr>, s)
          else
            bindE (profile_mark_unwatched p (mec_episode c)) (\<lambda>u.
            bindE (create_watch_events (mec_profile_id c) EPISODE_MARKED_UNWATCHED (mec_source c)
              now new_id 0 [mec_episode c]) (\<lambda>evs.
            bindE (persist s (current p u) evs (pws_version p)) (\<lambda>s'.
              Inr (\<lparr>mr_watch_state = current p u, mr_watch_events = evs,
                mr_was_already = False\<rparr>, s')))))"

definition mark_season_watched_service ::
    "('s \<Rightarrow> uuid \<Rightarrow> profile_watch_state option) \<Rightarrow>
     ('s \<Rightarrow> profile_watch_state \<Rightarrow> watch_event list \<Rightarrow> int \<Rightarrow> 's result) \<Rightarrow>
     (uuid \<Rightarrow> uuid \<Rightarrow> episode_ref list option) \<Rightarrow>
     datetime \<Rightarrow> (nat \<Rightarrow> uuid) \<Rightarrow> mark_season_command \<Rightarrow> 's \<Rightarrow> (mark_result \<times> 's) result" where
  "mark_season_watched_service get persist catalog now new_id c s =
     (case get s (msc_profile_id c) of
        None \<Rightarrow> Inl (LookupError STR ''NO_WATCH_STATE_FOUND_FOR_PROFILE_ID'')
      | Some p \<Rightarrow>
        (case catalog (msc_series_id c) (msc_season_id c) of
           None \<Rightarrow> Inl (LookupError STR ''NO_SEASON_FOUND_FOR_SERIES_ID'')
         | Some season \<Rightarrow>
             let es = filter (\<lambda>e. \<not> is_episode_fully_watched p e) season
             in if es = [] then
                  Inr (\<lparr>mr_watch_state = p, mr_watch_events = [], mr_was_already = True\<rparr>, s)
                else
                  bindE (profile_mark_season_watched p es) (\<lambda>u.
                  bindE (create_watch_events (msc_profile_id c) EPISODE_MARKED_WATCHED
                    (msc_source c) now new_id 0 es) (\<lambda>evs.
                  bindE (persist s (current p u) evs (pws_version p)) (\<lambda>s'.
                    Inr (\<lparr>mr_watch_state = current p u, mr_watch_events = evs,
                      mr_was_already = False\<rparr>, s'))))))"

definition mark_season_unwatched_service ::
    "('s \<Rightarrow> uuid \<Rightarrow> profile_watch_state option) \<Rightarrow>
     ('s \<Rightarrow> profile_watch_state \<Rightarrow> watch_event list \<Rightarrow> int \<Rightarrow> 's result) \<Rightarrow>
     (uuid \<Rightarrow> uuid \<Rightarrow> episode_ref list option) \<Rightarrow>
     datetime \<Rightarrow> (nat \<Rightarrow> uuid) \<Rightarrow> mark_season_command \<Rightarrow> 's \<Rightarrow> (mark_result \<times> 's) result" where
  "mark_season_unwatched_service get persist catalog now new_id c s =
     (case get s (msc_profile_id c) of
        None \<Rightarrow> Inl (LookupError STR ''NO_WATCH_STATE_FOUND_FOR_PROFILE_ID'')
      | Some p \<Rightarrow>
        (case catalog (msc_series_id c) (msc_season_id c) of
           None \<Rightarrow> Inl (LookupError STR ''NO_SEASON_FOUND_FOR_SERIES_ID'')
         | Some season \<Rightarrow>
             let es = filter (has_episode_progress p) season
             in if es = [] then
                  Inr (\<lparr>mr_watch_state = p, mr_watch_events = [], mr_was_already = True\<rparr>, s)
                else
                  bindE (profile_mark_season_unwatched p es) (\<lambda>u.
                  bindE (create_watch_events (msc_profile_id c) EPISODE_MARKED_UNWATCHED
                    (msc_source c) now new_id 0 es) (\<lambda>evs.
                  bindE (persist s (current p u) evs (pws_version p)) (\<lambda>s'.
                    Inr (\<lparr>mr_watch_state = current p u, mr_watch_events = evs,
                      mr_was_already = False\<rparr>, s'))))))"

section \<open>The in-memory adapters\<close>

record watch_store =
  wst_states :: "(uuid, profile_watch_state) dict"
  wst_events :: "watch_event list"

fun seed_states :: "profile_watch_state list \<Rightarrow> (uuid, profile_watch_state) dict \<Rightarrow>
    (uuid, profile_watch_state) dict" where
  "seed_states [] d = d"
| "seed_states (p # ps) d = seed_states ps (dict_set d (pws_profile_id p) p)"

definition new_watch_store :: "profile_watch_state list \<Rightarrow> watch_store result" where
  "new_watch_store ps =
     (let d = seed_states ps []
      in if length d \<noteq> length ps
           then Inl (ValueError STR ''INITIAL_WATCH_STATES_MUST_HAVE_UNIQUE_PROFILE_IDS'')
         else Inr \<lparr>wst_states = d, wst_events = []\<rparr>)"

definition store_get :: "watch_store \<Rightarrow> uuid \<Rightarrow> profile_watch_state option" where
  "store_get s pid = dict_get (wst_states s) pid"

fun check_watch_events :: "profile_watch_state \<Rightarrow> watch_event list \<Rightarrow> unit result" where
  "check_watch_events p [] = Inr ()"
| "check_watch_events p (ev # evs) =
     (if we_profile_id ev \<noteq> pws_profile_id p then Inl (ValueError STR ''WATCH_EVENT_PROFILE_MISMATCH'')
      else if we_kind ev = EPISODE_MARKED_WATCHED \<and> \<not> is_episode_fully_watched p (we_episode ev)
        then Inl (ValueError STR ''WATCH_EVENT_NOT_FULLY_WATCHED'')
      else if we_kind ev = EPISODE_MARKED_UNWATCHED \<and> has_episode_progress p (we_episode ev)
        then Inl (ValueError STR ''UNWATCHED_EVENT_REQUIRES_NO_PROGRESS'')
      else check_watch_events p evs)"

definition persist_state_change ::
    "watch_store \<Rightarrow> profile_watch_state \<Rightarrow> watch_event list \<Rightarrow> int \<Rightarrow> watch_store result" where
  "persist_state_change s p evs expected =
     (case dict_get (wst_states s) (pws_profile_id p) of
        None \<Rightarrow> Inl (KeyError STR ''NO_WATCH_STATE_FOUND_FOR_PROFILE_ID'')
      | Some cur \<Rightarrow>
          if pws_version cur \<noteq> expected
            then Inl (ConcurrentWatchProgressUpdateError STR ''CONCURRENT_WATCH_PROGRESS'')
          else if pws_version p \<noteq> expected + 1 then Inl (ValueError STR ''EXPECTED_VERSION_MISMATCH'')
          else bindE (check_watch_events p evs) (\<lambda>_.
            Inr (s\<lparr>wst_states := dict_set (wst_states s) (pws_profile_id p) p,
                   wst_events := wst_events s @ evs\<rparr>)))"

type_synonym season_catalog = "(uuid \<times> uuid, episode_ref list) dict"

fun group_by_season :: "episode_ref list \<Rightarrow> season_catalog \<Rightarrow> season_catalog" where
  "group_by_season [] d = d"
| "group_by_season (e # es) d =
     (let key = (ref_series_id e, ref_season_id e)
      in group_by_season es (dict_set d key
           ((case dict_get d key of None \<Rightarrow> [] | Some xs \<Rightarrow> xs) @ [e])))"

fun index_seasons :: "season_catalog \<Rightarrow> season_catalog \<Rightarrow> season_catalog result" where
  "index_seasons [] acc = Inr acc"
| "index_seasons ((key, es) # rest) acc =
     (if has_duplicates (map ref_episode_id es)
        then Inl (ValueError STR ''SEASON_CATALOG_CANNOT_HAVE_DUPLICATE_EPISODE_IDS'')
      else index_seasons rest (dict_set acc key (sort_key ref_position es)))"

definition new_season_catalog :: "episode_ref list \<Rightarrow> season_catalog result" where
  "new_season_catalog es = index_seasons (group_by_season es []) []"

definition get_episode_refs :: "season_catalog \<Rightarrow> uuid \<Rightarrow> uuid \<Rightarrow> episode_ref list option" where
  "get_episode_refs d series season = dict_get d (series, season)"

text \<open>The adapter the API uses for anonymous sessions: a fixed relaxed state that cannot change.\<close>

definition server_owned_get :: "unit \<Rightarrow> uuid \<Rightarrow> profile_watch_state option" where
  "server_owned_get s pid = Some \<lparr>pws_profile_id = pid, pws_profile_name = ''API session'',
     pws_series = [], pws_spoiler_mode = RELAXED, pws_version = 0\<rparr>"

definition server_owned_persist ::
    "unit \<Rightarrow> profile_watch_state \<Rightarrow> watch_event list \<Rightarrow> int \<Rightarrow> unit result" where
  "server_owned_persist s p evs expected = Inl (RuntimeError STR ''WATCH_STATE_READ_ONLY'')"

section \<open>The contracts of the ports\<close>

text \<open>What an event must say of the state it is stored with.\<close>

definition event_fits :: "profile_watch_state \<Rightarrow> watch_event \<Rightarrow> bool" where
  "event_fits p ev \<longleftrightarrow> we_profile_id ev = pws_profile_id p
     \<and> (we_kind ev = EPISODE_MARKED_WATCHED \<longrightarrow> is_episode_fully_watched p (we_episode ev))
     \<and> (we_kind ev = EPISODE_MARKED_UNWATCHED \<longrightarrow> \<not> has_episode_progress p (we_episode ev))"

locale watch_progress_port =
  fixes get :: "'s \<Rightarrow> uuid \<Rightarrow> profile_watch_state option"
    and persist :: "'s \<Rightarrow> profile_watch_state \<Rightarrow> watch_event list \<Rightarrow> int \<Rightarrow> 's result"
    and events :: "'s \<Rightarrow> watch_event list"
    and ok :: "'s \<Rightarrow> bool"
  assumes get_valid: "ok s \<Longrightarrow> get s i = Some p \<Longrightarrow> profile_ok p \<and> pws_profile_id p = i"
    and persist_effect: "ok s \<Longrightarrow> profile_ok p \<Longrightarrow> persist s p evs v = Inr s' \<Longrightarrow>
      ok s' \<and> get s' = (get s)(pws_profile_id p \<mapsto> p) \<and> events s' = events s @ evs
      \<and> (\<forall>ev \<in> set evs. event_fits p ev)
      \<and> (\<exists>q. get s (pws_profile_id p) = Some q \<and> pws_version q = v \<and> pws_version p = v + 1)"
begin

text \<open>Of two writers that read the same version, at most one succeeds.\<close>

lemma no_lost_update:
  assumes "ok s" "profile_ok p" "profile_ok p'" "pws_profile_id p' = pws_profile_id p"
    and "persist s p evs v = Inr s'"
  shows "\<exists>e. persist s' p' evs' v = Inl e"
proof (cases "persist s' p' evs' v")
  case (Inr s'')
  then show ?thesis using persist_effect [OF assms(1,2,5)] persist_effect [of s' p'] assms(3,4) by auto
qed simp

end

text \<open>A repository that accepts every update the services make.\<close>

locale watch_progress_repository = watch_progress_port get persist events ok
  for get :: "'s \<Rightarrow> uuid \<Rightarrow> profile_watch_state option"
    and persist :: "'s \<Rightarrow> profile_watch_state \<Rightarrow> watch_event list \<Rightarrow> int \<Rightarrow> 's result"
    and events :: "'s \<Rightarrow> watch_event list"
    and ok :: "'s \<Rightarrow> bool" +
  assumes persist_accepts: "ok s \<Longrightarrow> get s (pws_profile_id p) = Some q \<Longrightarrow>
    pws_version p = pws_version q + 1 \<Longrightarrow> \<forall>ev \<in> set evs. event_fits p ev \<Longrightarrow>
    \<exists>s'. persist s p evs (pws_version q) = Inr s'"

locale season_episode_catalog =
  fixes catalog :: "uuid \<Rightarrow> uuid \<Rightarrow> episode_ref list option"
  assumes catalog_season: "catalog series season = Some es \<Longrightarrow>
    (\<forall>e \<in> set es. ref_series_id e = series \<and> ref_season_id e = season)
    \<and> distinct (map ref_episode_id es)"

lemma create_watch_events_ok:
  "is_aware now \<Longrightarrow> \<exists>evs. create_watch_events pid kind src now new_id i es = Inr evs
    \<and> map we_episode evs = es
    \<and> (\<forall>ev \<in> set evs. we_profile_id ev = pid \<and> we_kind ev = kind \<and> we_source ev = src
         \<and> we_occurred_at ev = now)"
proof (induction es arbitrary: i)
  case (Cons e es)
  then obtain evs where "create_watch_events pid kind src now new_id (Suc i) es = Inr evs"
    "map we_episode evs = es" "\<forall>ev \<in> set evs. we_profile_id ev = pid \<and> we_kind ev = kind
       \<and> we_source ev = src \<and> we_occurred_at ev = now" by blast
  with Cons.prems show ?case by (auto simp: watch_event_post_init_def)
qed simp

text \<open>
  The shared last steps of every service: an updated profile \<open>current p u\<close>, one event per
  episode of \<open>es\<close>, and the write.
\<close>

context watch_progress_repository
begin

lemma save_update:
  assumes "ok s" "get s pid = Some p" "is_aware now" "fresh u" "profile_result p u m"
    and "\<forall>e \<in> set es. event_fits (current p u) \<lparr>we_event_id = 0, we_profile_id = pid,
      we_episode = e, we_kind = kind, we_source = src, we_occurred_at = now\<rparr>"
  shows "\<exists>evs s'. create_watch_events pid kind src now new_id 0 es = Inr evs
    \<and> map we_episode evs = es \<and> (\<forall>ev \<in> set evs. we_kind ev = kind)
    \<and> persist s (current p u) evs (pws_version p) = Inr s'
    \<and> ok s' \<and> get s' = (get s)(pid \<mapsto> current p u) \<and> events s' = events s @ evs"
proof -
  obtain evs where evs: "create_watch_events pid kind src now new_id 0 es = Inr evs"
      "map we_episode evs = es"
      "\<forall>ev \<in> set evs. we_profile_id ev = pid \<and> we_kind ev = kind \<and> we_source ev = src
         \<and> we_occurred_at ev = now"
    using create_watch_events_ok [OF assms(3)] by blast
  have p: "profile_ok p" "pws_profile_id p = pid" using get_valid [OF assms(1,2)] by auto
  have q: "profile_ok (current p u)" "pws_profile_id (current p u) = pid"
      "pws_version (current p u) = pws_version p + 1"
    using assms(4,5) p(2) by (auto simp: profile_result_def)
  have "event_fits (current p u) ev" if "ev \<in> set evs" for ev
  proof -
    have "we_episode ev \<in> set es" using that evs(2) by auto
    then show ?thesis using assms(6) evs(3) that by (auto simp: event_fits_def)
  qed
  then obtain s' where s': "persist s (current p u) evs (pws_version p) = Inr s'"
    using persist_accepts [of s "current p u" p evs] assms(1,2) q by auto
  then show ?thesis using evs persist_effect [OF assms(1) q(1) s'] q(2) by auto
qed

end

locale watch_services = watch_progress_repository get persist events ok + season_episode_catalog catalog
  for get :: "'s \<Rightarrow> uuid \<Rightarrow> profile_watch_state option"
    and persist :: "'s \<Rightarrow> profile_watch_state \<Rightarrow> watch_event list \<Rightarrow> int \<Rightarrow> 's result"
    and events :: "'s \<Rightarrow> watch_event list"
    and ok :: "'s \<Rightarrow> bool"
    and catalog :: "uuid \<Rightarrow> uuid \<Rightarrow> episode_ref list option"

text \<open>
  The shared statement about a service: it succeeds, the store holds the returned state, the log
  grew by the returned events, which are about \<open>changed\<close>, and nothing happens when there is
  nothing to change.
\<close>

definition service_outcome :: "('s \<Rightarrow> uuid \<Rightarrow> profile_watch_state option) \<Rightarrow> ('s \<Rightarrow> watch_event list) \<Rightarrow>
    's \<Rightarrow> uuid \<Rightarrow> watch_event_kind \<Rightarrow> episode_ref list \<Rightarrow> profile_watch_state \<Rightarrow>
    mark_result \<Rightarrow> 's \<Rightarrow> bool" where
  "service_outcome get events s pid kind changed p r s' \<longleftrightarrow>
     get s' = (get s)(pid \<mapsto> mr_watch_state r) \<and> events s' = events s @ mr_watch_events r
     \<and> map we_episode (mr_watch_events r) = changed
     \<and> (\<forall>ev \<in> set (mr_watch_events r). we_kind ev = kind)
     \<and> (mr_was_already r \<longleftrightarrow> changed = []) \<and> (changed = [] \<longrightarrow> s' = s \<and> mr_watch_state r = p)
     \<and> pws_version (mr_watch_state r) = pws_version p + (if changed = [] then 0 else 1)"

context watch_services
begin

lemma mark_episode_watched_outcome:
  assumes "ok s" "get s (mec_profile_id c) = Some p" "is_aware now"
  shows "\<exists>r s'. mark_episode_watched_service get persist now new_id c s = Inr (r, s') \<and> ok s'
    \<and> service_outcome get events s (mec_profile_id c) EPISODE_MARKED_WATCHED
        (if is_episode_fully_watched p (mec_episode c) then [] else [mec_episode c]) p r s'
    \<and> is_episode_fully_watched (mr_watch_state r) (mec_episode c)"
proof (cases "is_episode_fully_watched p (mec_episode c)")
  case True
  with assms show ?thesis
    by (auto simp: mark_episode_watched_service_def service_outcome_def map_upd_triv)
next
  case False
  let ?e = "mec_episode c"
  have p: "profile_ok p" "pws_profile_id p = mec_profile_id c" using get_valid assms(1,2) by auto
  let ?m = "on_series (ref_series_id ?e) (spec_mark ?e (Some (completed ?e)) (profile_progress p))
      (profile_progress p)"
  obtain u where u: "profile_mark_watched p ?e = Inr u" "fresh u" "profile_result p u ?m"
    using profile_mark_watched_spec [OF p(1), of ?e] False by auto
  then have w: "is_episode_fully_watched (current p u) ?e"
    by (auto simp: profile_result_def is_episode_fully_watched_iff spec_mark_def)
  then have "\<forall>e \<in> set [?e]. event_fits (current p u) \<lparr>we_event_id = 0,
      we_profile_id = mec_profile_id c, we_episode = e, we_kind = EPISODE_MARKED_WATCHED,
      we_source = mec_source c, we_occurred_at = now\<rparr>"
    using u p by (auto simp: event_fits_def profile_result_def)
  note sv = save_update [OF assms u(2,3) this, of new_id]
  then show ?thesis
    using False assms(2) u w
    by (fastforce simp: mark_episode_watched_service_def service_outcome_def profile_result_def)
qed

lemma mark_episode_unwatched_outcome:
  assumes "ok s" "get s (mec_profile_id c) = Some p" "is_aware now"
  shows "\<exists>r s'. mark_episode_unwatched_service get persist now new_id c s = Inr (r, s') \<and> ok s'
    \<and> service_outcome get events s (mec_profile_id c) EPISODE_MARKED_UNWATCHED
        (if has_episode_progress p (mec_episode c) then [mec_episode c] else []) p r s'
    \<and> \<not> has_episode_progress (mr_watch_state r) (mec_episode c)"
proof (cases "has_episode_progress p (mec_episode c)")
  case False
  with assms show ?thesis
    by (auto simp: mark_episode_unwatched_service_def service_outcome_def map_upd_triv)
next
  case True
  let ?e = "mec_episode c"
  have p: "profile_ok p" "pws_profile_id p = mec_profile_id c" using get_valid assms(1,2) by auto
  obtain u where u: "profile_mark_unwatched p ?e = Inr u" "fresh u" "profile_result p u
      (on_series (ref_series_id ?e) (spec_mark ?e None (profile_progress p)) (profile_progress p))"
    using profile_mark_unwatched_spec [OF p(1), of ?e] True by auto
  then have w: "\<not> has_episode_progress (current p u) ?e"
    by (auto simp: profile_result_def has_episode_progress_iff spec_mark_def)
  then have "\<forall>e \<in> set [?e]. event_fits (current p u) \<lparr>we_event_id = 0,
      we_profile_id = mec_profile_id c, we_episode = e, we_kind = EPISODE_MARKED_UNWATCHED,
      we_source = mec_source c, we_occurred_at = now\<rparr>"
    using u p by (auto simp: event_fits_def profile_result_def)
  note sv = save_update [OF assms u(2,3) this, of new_id]
  then show ?thesis
    using True assms(2) u w
    by (fastforce simp: mark_episode_unwatched_service_def service_outcome_def profile_result_def)
qed

lemma mark_season_watched_outcome:
  assumes "ok s" "get s (msc_profile_id c) = Some p" "is_aware now"
    and "catalog (msc_series_id c) (msc_season_id c) = Some season"
  shows "\<exists>r s'. mark_season_watched_service get persist catalog now new_id c s = Inr (r, s') \<and> ok s'
    \<and> service_outcome get events s (msc_profile_id c) EPISODE_MARKED_WATCHED
        (filter (\<lambda>e. \<not> is_episode_fully_watched p e) season) p r s'
    \<and> (\<forall>e \<in> set season. is_episode_fully_watched (mr_watch_state r) e)"
proof -
  let ?es = "filter (\<lambda>e. \<not> is_episode_fully_watched p e) season" and ?sid = "msc_series_id c"
  have p: "profile_ok p" "pws_profile_id p = msc_profile_id c" using get_valid assms(1,2) by auto
  have season: "\<forall>e \<in> set season. ref_series_id e = ?sid" "distinct (map ref_episode_id season)"
      "\<forall>e \<in> set season. ref_season_id e = msc_season_id c"
    using catalog_season [OF assms(4)] by auto
  show ?thesis
  proof (cases "?es = []")
    case True
    with assms show ?thesis
      by (auto simp: mark_season_watched_service_def service_outcome_def map_upd_triv
          filter_empty_conv)
  next
    case False
    then have "one_season ?sid ?es" using season by (auto simp: one_season_def)
    then obtain u where u: "profile_mark_season_watched p ?es = Inr u"
        "fresh u \<longleftrightarrow> (\<exists>e \<in> set ?es. \<not> is_episode_fully_watched p e)"
        "profile_result p u (on_series ?sid (spec_mark_each ?es (profile_progress p)) (profile_progress p))"
      using profile_mark_season_watched_spec [OF p(1)] by blast
    have fr: "fresh u" using False u(2) by (auto simp: filter_empty_conv)
    have d: "distinct (map ref_episode_id ?es)" using season(2) by (rule distinct_map_filter)
    have inj: "e = e'" if "e \<in> set season" "e' \<in> set season" "ref_episode_id e = ref_episode_id e'"
      for e e' using season(2) that by (auto simp: distinct_map inj_on_def)
    have w: "is_episode_fully_watched (current p u) e" if "e \<in> set season" for e
    proof -
      have "profile_progress (current p u) e = (if e \<in> set ?es then Some (completed e)
          else if ref_episode_id e \<in> ref_episode_id ` set ?es then None else profile_progress p e)"
        using u(3) that season(1) by (simp add: profile_result_def spec_mark_each_distinct [OF d])
      moreover have "ref_episode_id e \<in> ref_episode_id ` set ?es \<longrightarrow> e \<in> set ?es"
        using inj that by auto
      ultimately show ?thesis
        using u(3) that p(1) by (auto simp: profile_result_def is_episode_fully_watched_iff)
    qed
    then have "\<forall>e \<in> set ?es. event_fits (current p u) \<lparr>we_event_id = 0,
        we_profile_id = msc_profile_id c, we_episode = e, we_kind = EPISODE_MARKED_WATCHED,
        we_source = msc_source c, we_occurred_at = now\<rparr>"
      using u p by (auto simp: event_fits_def profile_result_def)
    note sv = save_update [OF assms(1-3) fr u(3) this, of new_id]
    then show ?thesis
      using False assms(2,4) u fr w
      by (fastforce simp: mark_season_watched_service_def service_outcome_def profile_result_def)
  qed
qed

lemma mark_season_unwatched_outcome:
  assumes "ok s" "get s (msc_profile_id c) = Some p" "is_aware now"
    and "catalog (msc_series_id c) (msc_season_id c) = Some season"
  shows "\<exists>r s'. mark_season_unwatched_service get persist catalog now new_id c s = Inr (r, s') \<and> ok s'
    \<and> service_outcome get events s (msc_profile_id c) EPISODE_MARKED_UNWATCHED
        (filter (has_episode_progress p) season) p r s'
    \<and> (\<forall>e \<in> set season. \<not> has_episode_progress (mr_watch_state r) e)"
proof -
  let ?es = "filter (has_episode_progress p) season" and ?sid = "msc_series_id c"
  have p: "profile_ok p" "pws_profile_id p = msc_profile_id c" using get_valid assms(1,2) by auto
  have season: "\<forall>e \<in> set season. ref_series_id e = ?sid"
      "\<forall>e \<in> set season. ref_season_id e = msc_season_id c"
    using catalog_season [OF assms(4)] by auto
  show ?thesis
  proof (cases "?es = []")
    case True
    with assms show ?thesis
      by (auto simp: mark_season_unwatched_service_def service_outcome_def map_upd_triv
          filter_empty_conv)
  next
    case False
    then have "one_season ?sid ?es" using season by (auto simp: one_season_def)
    then obtain u where u: "profile_mark_season_unwatched p ?es = Inr u"
        "(\<exists>e \<in> set ?es. has_episode_progress p e) \<longrightarrow> fresh u"
        "profile_result p u (\<lambda>e. if ref_series_id e = ?sid
          \<and> ref_episode_id e \<in> ref_episode_id ` set ?es then None else profile_progress p e)"
      using profile_mark_season_unwatched_spec [OF p(1)] by blast
    have fr: "fresh u" using False u(2) by (auto simp: filter_empty_conv)
    have w: "\<not> has_episode_progress (current p u) e" if "e \<in> set season" for e
      using u(3) that season(1) by (auto simp: profile_result_def has_episode_progress_iff)
    then have "\<forall>e \<in> set ?es. event_fits (current p u) \<lparr>we_event_id = 0,
        we_profile_id = msc_profile_id c, we_episode = e, we_kind = EPISODE_MARKED_UNWATCHED,
        we_source = msc_source c, we_occurred_at = now\<rparr>"
      using u p by (auto simp: event_fits_def profile_result_def)
    note sv = save_update [OF assms(1-3) fr u(3) this, of new_id]
    then show ?thesis
      using False assms(2,4) u fr w
      by (fastforce simp: mark_season_unwatched_service_def service_outcome_def profile_result_def)
  qed
qed

end

section \<open>The in-memory adapters satisfy the contracts\<close>

definition store_ok :: "watch_store \<Rightarrow> bool" where
  "store_ok s \<longleftrightarrow> dict_ok (wst_states s)
     \<and> (\<forall>i p. dict_get (wst_states s) i = Some p \<longrightarrow> profile_ok p \<and> pws_profile_id p = i)"

lemma check_watch_events_iff: "check_watch_events p evs = Inr u \<longleftrightarrow> (\<forall>ev \<in> set evs. event_fits p ev)"
  by (induction evs) (auto simp: event_fits_def)

lemma persist_state_change_iff:
  "persist_state_change s p evs v = Inr s' \<longleftrightarrow>
     (\<exists>q. dict_get (wst_states s) (pws_profile_id p) = Some q \<and> pws_version q = v)
     \<and> pws_version p = v + 1 \<and> (\<forall>ev \<in> set evs. event_fits p ev)
     \<and> s' = s\<lparr>wst_states := dict_set (wst_states s) (pws_profile_id p) p,
              wst_events := wst_events s @ evs\<rparr>"
  by (auto simp: persist_state_change_def check_watch_events_iff result_simps split: option.splits)

interpretation store: watch_progress_repository store_get persist_state_change wst_events store_ok
proof unfold_locales
  fix s p evs v s'
  assume "store_ok s" "profile_ok p" "persist_state_change s p evs v = Inr s'"
  then show "store_ok s' \<and> store_get s' = (store_get s)(pws_profile_id p \<mapsto> p)
    \<and> wst_events s' = wst_events s @ evs \<and> (\<forall>ev \<in> set evs. event_fits p ev)
    \<and> (\<exists>q. store_get s (pws_profile_id p) = Some q \<and> pws_version q = v \<and> pws_version p = v + 1)"
    by (auto simp: persist_state_change_iff store_ok_def store_get_def fun_eq_iff dict_simps)
qed (auto simp: store_ok_def store_get_def persist_state_change_iff)

lemma server_owned_profile_ok:
  "server_owned_get s i = Some p \<Longrightarrow> profile_ok p \<and> pws_profile_id p = i"
  by (auto simp: server_owned_get_def profile_ok_def profile_post_init_iff untrimmed_iff is_space_def)

interpretation server_owned: watch_progress_port server_owned_get server_owned_persist
    "\<lambda>_. []" "\<lambda>_. True"
  by unfold_locales (auto simp: server_owned_profile_ok server_owned_persist_def)

text \<open>Grouping keeps, per season, the references in order.\<close>

abbreviation in_season :: "uuid \<times> uuid \<Rightarrow> episode_ref \<Rightarrow> bool" where
  "in_season key e \<equiv> (ref_series_id e, ref_season_id e) = key"

lemma group_by_season_get:
  "dict_get (group_by_season es d) key =
     (case dict_get d key of
        None \<Rightarrow> if filter (in_season key) es = [] then None else Some (filter (in_season key) es)
      | Some xs \<Rightarrow> Some (xs @ filter (in_season key) es))"
proof (induction es arbitrary: d)
  case (Cons e es)
  show ?case by (auto simp: Let_def Cons.IH dict_simps split: option.splits)
qed (simp split: option.split)

lemma group_by_season_ok: "dict_ok d \<Longrightarrow> dict_ok (group_by_season es d)"
  by (induction es arbitrary: d) (auto simp: Let_def dict_simps)

lemma index_seasons_Inr:
  assumes "index_seasons g acc = Inr d" "dict_ok g"
  shows "(\<forall>key es. dict_get g key = Some es \<longrightarrow> distinct (map ref_episode_id es))
    \<and> dict_get d key = (case dict_get g key of None \<Rightarrow> dict_get acc key
        | Some es \<Rightarrow> Some (sort_key ref_position es))"
  using assms
proof (induction g acc rule: index_seasons.induct)
  case (2 k es rest acc)
  have r: "dict_ok rest" "dict_get rest k = None"
    using "2.prems"(2) by (auto simp: dict_ok_def dict_get_def map_of_eq_None_iff)
  have i: "distinct (map ref_episode_id es)"
      "index_seasons rest (dict_set acc k (sort_key ref_position es)) = Inr d"
    using "2.prems"(1) by (auto split: if_splits)
  have g: "dict_get ((k, es) # rest) k' = (if k' = k then Some es else dict_get rest k')" for k'
    by (auto simp: dict_get_def)
  show ?case
    using "2.IH" [OF _ i(2) r(1)] i(1) r(2) by (auto simp: g dict_simps split: option.splits)
qed (simp add: dict_get_def)

lemma index_seasons_ok:
  assumes "dict_ok g" "\<forall>key es. dict_get g key = Some es \<longrightarrow> distinct (map ref_episode_id es)"
  shows "\<exists>d. index_seasons g acc = Inr d"
  using assms
proof (induction g acc rule: index_seasons.induct)
  case (2 k es rest acc)
  have g: "dict_get ((k, es) # rest) k' = (if k' = k then Some es else dict_get rest k')" for k'
    by (auto simp: dict_get_def)
  have r: "dict_ok rest" "dict_get rest k = None"
    using "2.prems"(1) by (auto simp: dict_ok_def dict_get_def map_of_eq_None_iff)
  have d: "distinct (map ref_episode_id es)" using "2.prems"(2) g [of k] by metis
  have "distinct (map ref_episode_id es')" if "dict_get rest key = Some es'" for key es'
    using "2.prems"(2) g [of key] r(2) that by (metis option.distinct(1))
  then have "\<exists>d. index_seasons rest (dict_set acc k (sort_key ref_position es)) = Inr d"
    using d r(1) by (intro "2.IH") auto
  with d show ?case by simp
qed simp

text \<open>The catalogue built from a list of references: what a lookup returns.\<close>

definition catalog_of :: "episode_ref list \<Rightarrow> uuid \<Rightarrow> uuid \<Rightarrow> episode_ref list option" where
  "catalog_of es series season =
     (case new_season_catalog es of Inl e \<Rightarrow> None | Inr d \<Rightarrow> get_episode_refs d series season)"

lemma new_season_catalog_Inr:
  assumes "new_season_catalog es = Inr d"
  shows "get_episode_refs d series season =
      (if filter (in_season (series, season)) es = [] then None
       else Some (sort_key ref_position (filter (in_season (series, season)) es)))
    \<and> distinct (map ref_episode_id (filter (in_season (series, season)) es))"
proof -
  let ?g = "group_by_season es []"
  have g: "dict_ok ?g" by (simp add: group_by_season_ok dict_simps)
  have get: "dict_get ?g key = (if filter (in_season key) es = [] then None
      else Some (filter (in_season key) es))" for key
    by (simp add: group_by_season_get dict_simps)
  from assms have i: "index_seasons ?g [] = Inr d" by (simp add: new_season_catalog_def)
  have "distinct (map ref_episode_id (filter (in_season (series, season)) es))"
    using index_seasons_Inr [OF i g] get [of "(series, season)"]
    by (cases "filter (in_season (series, season)) es = []") auto
  then show ?thesis
    using index_seasons_Inr [OF i g] get [of "(series, season)"]
    by (auto simp: get_episode_refs_def dict_simps)
qed

interpretation season_catalog: season_episode_catalog "catalog_of es" for es
proof unfold_locales
  fix series season xs
  assume "catalog_of es series season = Some xs"
  then obtain d where d: "new_season_catalog es = Inr d" "get_episode_refs d series season = Some xs"
    by (auto simp: catalog_of_def split: sum.splits)
  let ?f = "filter (in_season (series, season)) es"
  have xs: "xs = sort_key ref_position ?f" "distinct (map ref_episode_id ?f)"
    using new_season_catalog_Inr [OF d(1), of series season] d(2) by (auto split: if_splits)
  then have "distinct (map ref_episode_id xs)" by (simp add: distinct_map)
  then show "(\<forall>e \<in> set xs. ref_series_id e = series \<and> ref_season_id e = season)
      \<and> distinct (map ref_episode_id xs)"
    using xs(1) by auto
qed

interpretation watch: watch_services store_get persist_state_change wst_events store_ok "catalog_of es"
  for es
  by unfold_locales

section \<open>Properties\<close>

definition demo_store :: watch_store where
  "demo_store = \<lparr>wst_states = [(7, demo_profile STRICT)], wst_events = []\<rparr>"

lemma demo_store_ok: "store_ok demo_store"
  using demo_profile_ok [of STRICT]
  by (auto simp: store_ok_def demo_store_def dict_ok_def dict_get_def demo_profile_def
      split: if_splits)

lemma demo_store_get: "store_get demo_store 7 = Some (demo_profile STRICT)"
  by (simp add: demo_store_def store_get_def dict_get_def)

abbreviation demo_season_command :: mark_season_command where
  "demo_season_command \<equiv> \<lparr>msc_profile_id = 7, msc_series_id = 1, msc_season_id = 10,
     msc_source = Source_MANUAL\<rparr>"

text \<open>
  C6: marking a catalogued season watched, on the in-memory store and catalogue, always succeeds
  for a stored profile: every episode of the season is then fully watched, the log grows by
  exactly one watched-event per episode that was not (in catalogue order), the version advances by
  one, other profiles are untouched; and running the command again changes nothing.
\<close>

theorem mark_season_watched_end_to_end:
  assumes "store_ok s" "store_get s (msc_profile_id c) = Some p" "is_aware now"
    and "catalog_of refs (msc_series_id c) (msc_season_id c) = Some season"
  shows "\<exists>r s'. mark_season_watched_service store_get persist_state_change (catalog_of refs)
        now new_id c s = Inr (r, s') \<and> store_ok s'
    \<and> store_get s' = (store_get s)(msc_profile_id c \<mapsto> mr_watch_state r)
    \<and> (\<forall>e \<in> set season. is_episode_fully_watched (mr_watch_state r) e)
    \<and> wst_events s' = wst_events s @ mr_watch_events r
    \<and> map we_episode (mr_watch_events r) = filter (\<lambda>e. \<not> is_episode_fully_watched p e) season
    \<and> pws_version (mr_watch_state r)
        = pws_version p + (if \<forall>e \<in> set season. is_episode_fully_watched p e then 0 else 1)
    \<and> mark_season_watched_service store_get persist_state_change (catalog_of refs) now new_id c s'
        = Inr (\<lparr>mr_watch_state = mr_watch_state r, mr_watch_events = [], mr_was_already = True\<rparr>, s')"
proof -
  obtain r s' where r: "mark_season_watched_service store_get persist_state_change (catalog_of refs)
        now new_id c s = Inr (r, s')" "store_ok s'"
      "service_outcome store_get wst_events s (msc_profile_id c) EPISODE_MARKED_WATCHED
        (filter (\<lambda>e. \<not> is_episode_fully_watched p e) season) p r s'"
      "\<forall>e \<in> set season. is_episode_fully_watched (mr_watch_state r) e"
    using watch.mark_season_watched_outcome [OF assms] by blast
  have "mark_season_watched_service store_get persist_state_change (catalog_of refs) now new_id c s'
        = Inr (\<lparr>mr_watch_state = mr_watch_state r, mr_watch_events = [], mr_was_already = True\<rparr>, s')"
    using r(3,4) assms(4)
    by (simp add: mark_season_watched_service_def service_outcome_def Let_def filter_empty_conv)
  with r show ?thesis
    by (intro exI [of _ r] exI [of _ s']) (auto simp: service_outcome_def filter_empty_conv)
qed

lemma demo_catalog: "catalog_of [demo_ref 2, demo_ref 1] 1 10 = Some [demo_ref 1, demo_ref 2]"
  by code_simp

theorem mark_season_watched_end_to_end_witness:
  "\<exists>r s'. mark_season_watched_service store_get persist_state_change
      (catalog_of [demo_ref 2, demo_ref 1]) (Aware UTC 0) (\<lambda>i. i) demo_season_command demo_store
      = Inr (r, s') \<and> is_episode_fully_watched (mr_watch_state r) (demo_ref 2)"
proof -
  have "store_get demo_store (msc_profile_id demo_season_command) = Some (demo_profile STRICT)"
    by (simp add: demo_store_get)
  moreover have "catalog_of [demo_ref 2, demo_ref 1] (msc_series_id demo_season_command)
      (msc_season_id demo_season_command) = Some [demo_ref 1, demo_ref 2]"
    using demo_catalog by simp
  ultimately show ?thesis
    using mark_season_watched_end_to_end [OF demo_store_ok, of demo_season_command
        "demo_profile STRICT" "Aware UTC 0" "[demo_ref 2, demo_ref 1]" "[demo_ref 1, demo_ref 2]"]
    by fastforce
qed

text \<open>
  C7: optimistic concurrency loses no update: after one writer replaced a profile's state read at
  some version, a second writer that read the same version is refused, whatever it writes.
\<close>

theorem second_writer_is_refused:
  assumes "store_ok s" "profile_ok p" "profile_ok p'" "pws_profile_id p' = pws_profile_id p"
    and "persist_state_change s p evs v = Inr s'"
  shows "persist_state_change s' p' evs' v
    = Inl (ConcurrentWatchProgressUpdateError STR ''CONCURRENT_WATCH_PROGRESS'')"
proof -
  have "store_get s' (pws_profile_id p) = Some p" "pws_version p = v + 1"
    using store.persist_effect [OF assms(1,2,5)] by auto
  then show ?thesis using assms(4) by (simp add: persist_state_change_def store_get_def)
qed

theorem second_writer_is_refused_witness:
  "\<exists>s'. persist_state_change demo_store (demo_profile STRICT\<lparr>pws_version := 5\<rparr>) [] 4 = Inr s'
    \<and> persist_state_change s' (demo_profile STRICT\<lparr>pws_version := 5\<rparr>) [] 4
      = Inl (ConcurrentWatchProgressUpdateError STR ''CONCURRENT_WATCH_PROGRESS'')"
proof -
  let ?p = "demo_profile STRICT\<lparr>pws_version := 5\<rparr>"
  have p: "profile_ok ?p"
    using demo_profile_ok [of STRICT] by (simp add: profile_ok_def profile_post_init_iff)
  have "persist_state_change demo_store ?p [] 4
      = Inr \<lparr>wst_states = [(7, ?p)], wst_events = []\<rparr>"
    by (simp add: persist_state_change_def demo_store_def demo_profile_def dict_get_def dict_set_def)
  with second_writer_is_refused [OF demo_store_ok p p refl this] show ?thesis by blast
qed

text \<open>
  The season catalogue either refuses the references (some season repeats an episode
  identifier) or returns for every season exactly its references, sorted by position with ties in
  the given order, and nothing for a season without references.
\<close>

theorem season_catalog_correct:
  "case new_season_catalog refs of
     Inl e \<Rightarrow> e = ValueError STR ''SEASON_CATALOG_CANNOT_HAVE_DUPLICATE_EPISODE_IDS''
       \<and> (\<exists>key. \<not> distinct (map ref_episode_id (filter (in_season key) refs)))
   | Inr d \<Rightarrow> \<forall>series season.
       distinct (map ref_episode_id (filter (in_season (series, season)) refs))
       \<and> get_episode_refs d series season =
           (if filter (in_season (series, season)) refs = [] then None
            else Some (sort_key ref_position (filter (in_season (series, season)) refs)))"
proof (cases "new_season_catalog refs")
  case (Inl e)
  have "index_seasons g acc = Inl e \<Longrightarrow>
      e = ValueError STR ''SEASON_CATALOG_CANNOT_HAVE_DUPLICATE_EPISODE_IDS''" for g acc
    by (induction g acc rule: index_seasons.induct) (auto split: if_splits)
  moreover have "\<exists>key. \<not> distinct (map ref_episode_id (filter (in_season key) refs))"
  proof (rule ccontr)
    assume "\<not> ?thesis"
    then have "\<exists>d. index_seasons (group_by_season refs []) [] = Inr d"
      by (intro index_seasons_ok)
        (auto simp: group_by_season_ok group_by_season_get dict_simps split: if_splits)
    with Inl show False by (simp add: new_season_catalog_def)
  qed
  ultimately show ?thesis using Inl by (simp add: new_season_catalog_def)
next
  case (Inr d)
  with new_season_catalog_Inr [OF Inr] show ?thesis by simp
qed

theorem season_catalog_correct_witness:
  "new_season_catalog [demo_ref 1, demo_ref 1]
     = Inl (ValueError STR ''SEASON_CATALOG_CANNOT_HAVE_DUPLICATE_EPISODE_IDS'')
   \<and> (\<exists>d. new_season_catalog [demo_ref 2, demo_ref 1] = Inr d
        \<and> get_episode_refs d 1 10 = Some [demo_ref 1, demo_ref 2])"
proof -
  have 1: "new_season_catalog [demo_ref 1, demo_ref 1]
     = Inl (ValueError STR ''SEASON_CATALOG_CANNOT_HAVE_DUPLICATE_EPISODE_IDS'')"
    by code_simp
  obtain d where d: "new_season_catalog [demo_ref 2, demo_ref 1] = Inr d"
    using demo_catalog by (auto simp: catalog_of_def split: sum.splits)
  have "get_episode_refs d 1 10 \<noteq> None"
    using season_catalog_correct [of "[demo_ref 2, demo_ref 1]"] d by (simp add: demo_ref_def)
  with 1 d demo_catalog show ?thesis by (simp add: catalog_of_def)
qed

end
