(* ===== verification/Ingestion_Job.thy ===== *)
theory Ingestion_Job
  imports Enums
begin

text \<open>
  Governed ingestion jobs: the domain model of \<open>domain/models/ingestion_job.py\<close> (a job, its
  validation and its transitions under a worker lease) and its event record.
\<close>

section \<open>Limits and patterns (domain/models/ingestion_job_limits.py)\<close>

definition MAX_INGESTION_JOB_ATTEMPTS :: int where
  "MAX_INGESTION_JOB_ATTEMPTS = 20"

definition MAX_INGESTION_JOB_PRIORITY :: int where
  "MAX_INGESTION_JOB_PRIORITY = 100"

definition sha256_pattern :: "string \<Rightarrow> bool" where
  "sha256_pattern s = (length s = 64 \<and> list_all (\<lambda>c. char_in c (digit_chars @ ''abcdef'')) s)"

definition ident_pattern :: "string \<Rightarrow> string \<Rightarrow> bool" where
  "ident_pattern extra s =
     (case s of [] \<Rightarrow> False
      | c # cs \<Rightarrow> char_in c alnum_chars \<and> length cs \<le> 127
          \<and> list_all (\<lambda>d. char_in d (alnum_chars @ extra)) cs)"

definition revision_pattern :: "string \<Rightarrow> bool" where
  "revision_pattern s = ident_pattern ''._-'' s"

definition worker_pattern :: "string \<Rightarrow> bool" where
  "worker_pattern s = ident_pattern ''._:-'' s"

definition LEASE_EXPIRED_ERROR_CODE :: string where
  "LEASE_EXPIRED_ERROR_CODE = ''lease_expired''"

definition LEASE_EXPIRED_MAX_ATTEMPTS_ERROR_CODE :: string where
  "LEASE_EXPIRED_MAX_ATTEMPTS_ERROR_CODE = ''lease_expired_max_attempts''"

definition ALLOWED_INGESTION_ERROR_CODES :: "string list" where
  "ALLOWED_INGESTION_ERROR_CODES =
     [LEASE_EXPIRED_ERROR_CODE, LEASE_EXPIRED_MAX_ATTEMPTS_ERROR_CODE, ''source_invalid'',
      ''alignment_failed'', ''speaker_review_failed'', ''transcript_ingestion_failed'',
      ''vector_index_failed'', ''episode_summary_failed'', ''series_metadata_failed'',
      ''graph_claim_extraction_failed'', ''unknown_retryable'']"

abbreviation allowed_code :: "string \<Rightarrow> bool" where
  "allowed_code c \<equiv> c \<in> set ALLOWED_INGESTION_ERROR_CODES"

section \<open>The job and its validation\<close>

definition utc :: "datetime \<Rightarrow> datetime result" where
  "utc d = (case d of
     Naive t \<Rightarrow> Inl (InvalidModelError STR ''UTC_TIMESTAMP_REQUIRED'')
   | Aware z t \<Rightarrow> Inr (Aware UTC t))"

record ingestion_job =
  ij_job_id :: uuid
  ij_idempotency_key :: string
  ij_kind :: ingestion_job_kind
  ij_status :: ingestion_job_status
  ij_series_id :: uuid
  ij_season_number :: "int option"
  ij_episode_number :: "int option"
  ij_source_fingerprint :: string
  ij_pipeline_revision :: string
  ij_priority :: int
  ij_scheduled_at :: datetime
  ij_max_attempts :: int
  ij_created_at :: datetime
  ij_attempts :: int
  ij_lease_owner :: "string option"
  ij_lease_expires_at :: "datetime option"
  ij_started_at :: "datetime option"
  ij_finished_at :: "datetime option"
  ij_last_error_code :: "string option"
  ij_next_attempt_at :: "datetime option"

abbreviation invalid_transition :: py_error where
  "invalid_transition \<equiv> InvalidModelError STR ''INVALID_TRANSITION''"

text \<open>\<open>x is not None and p(x)\<close>\<close>

definition opt_holds :: "('a \<Rightarrow> bool) \<Rightarrow> 'a option \<Rightarrow> bool" where
  "opt_holds p x = (case x of None \<Rightarrow> False | Some v \<Rightarrow> p v)"

definition earlier :: "datetime \<Rightarrow> datetime \<Rightarrow> bool" where
  "earlier a b = (instant a < instant b)"

text \<open>
  \<open>__post_init__\<close>, check by check.  The order matters only for which message is raised; every
  comparison of time stamps stands after the checks that they are aware.
\<close>

definition job_checks :: "ingestion_job \<Rightarrow> unit result" where
  "job_checks j =
     (if \<not> sha256_pattern (ij_idempotency_key j) then Inl invalid_transition
      else if \<not> sha256_pattern (ij_source_fingerprint j)
        then Inl (InvalidModelError STR ''SOURCE_FINGERPRINT_REQUIRED'')
      else if \<not> revision_pattern (ij_pipeline_revision j)
        then Inl (InvalidModelError STR ''PIPELINE_REVISION_REQUIRED'')
      else if ij_season_number j = None \<and> ij_episode_number j \<noteq> None
        then Inl (InvalidModelError STR ''EPISODE_REQUIRES_SEASON'')
      else if opt_holds (\<lambda>n. n < 1) (ij_season_number j) then Inl invalid_transition
      else if opt_holds (\<lambda>n. n < 1) (ij_episode_number j) then Inl invalid_transition
      else if ij_priority j < 0 \<or> ij_priority j > MAX_INGESTION_JOB_PRIORITY
        then Inl invalid_transition
      else if ij_max_attempts j < 1 \<or> ij_max_attempts j > MAX_INGESTION_JOB_ATTEMPTS
        then Inl (InvalidModelError STR ''MAX_ATTEMPTS_INVALID'')
      else if ij_attempts j < 0 \<or> ij_attempts j > ij_max_attempts j
        then Inl (InvalidModelError STR ''ATTEMPTS_INVALID'')
      else if list_ex (opt_holds (\<lambda>t. \<not> is_aware t))
          [ij_started_at j, ij_finished_at j, ij_lease_expires_at j, ij_next_attempt_at j]
        then Inl (InvalidModelError STR ''UTC_TIMESTAMP_REQUIRED'')
      else if \<not> is_aware (ij_created_at j) then Inl (InvalidModelError STR ''UTC_TIMESTAMP_REQUIRED'')
      else if \<not> is_aware (ij_scheduled_at j) then Inl (InvalidModelError STR ''UTC_TIMESTAMP_REQUIRED'')
      else if opt_holds (\<lambda>t. earlier t (ij_created_at j)) (ij_started_at j)
        then Inl invalid_transition
      else if opt_holds (\<lambda>t. earlier t (ij_created_at j)) (ij_finished_at j)
        then Inl invalid_transition
      else if opt_holds (\<lambda>s. opt_holds (\<lambda>f. earlier f s) (ij_finished_at j)) (ij_started_at j)
        then Inl invalid_transition
      else if ij_next_attempt_at j \<noteq> None \<and> ij_status j \<noteq> Job_PENDING then Inl invalid_transition
      else if opt_holds (\<lambda>t. earlier t (ij_scheduled_at j)) (ij_next_attempt_at j)
        then Inl invalid_transition
      else if ij_status j = Job_RUNNING
          \<and> (ij_lease_owner j = None \<or> ij_lease_owner j = Some [] \<or> ij_lease_expires_at j = None
             \<or> ij_started_at j = None \<or> ij_attempts j < 1)
        then Inl (InvalidModelError STR ''LEASE_ONLY_RUNNING'')
      else if ij_status j \<noteq> Job_RUNNING
          \<and> (ij_lease_owner j \<noteq> None \<or> ij_lease_expires_at j \<noteq> None)
        then Inl (InvalidModelError STR ''LEASE_ONLY_RUNNING'')
      else if ij_status j \<in> {Job_SUCCEEDED, Job_FAILED, Job_CANCELLED} \<and> ij_finished_at j = None
        then Inl invalid_transition
      else if ij_status j = Job_FAILED \<and> ij_last_error_code j = None
        then Inl (InvalidModelError STR ''ERROR_CODE_NOT_ALLOWLISTED'')
      else if ij_status j = Job_SUCCEEDED \<and> ij_last_error_code j \<noteq> None then Inl invalid_transition
      else if opt_holds (\<lambda>c. \<not> allowed_code c) (ij_last_error_code j)
        then Inl (InvalidModelError STR ''ERROR_CODE_NOT_ALLOWLISTED'')
      else if ij_last_error_code j \<noteq> None \<and> ij_status j \<notin> {Job_PENDING, Job_FAILED}
        then Inl invalid_transition
      else if ij_next_attempt_at j \<noteq> None \<and> ij_status j \<noteq> Job_PENDING then Inl invalid_transition
      else if ij_status j = Job_PENDING \<and> ij_finished_at j \<noteq> None then Inl invalid_transition
      else if ij_status j = Job_PENDING
          \<and> (ij_last_error_code j = None) \<noteq> (ij_next_attempt_at j = None)
        then Inl invalid_transition
      else if ij_status j = Job_PENDING \<and> ij_attempts j = 0
          \<and> (ij_last_error_code j \<noteq> None \<or> ij_next_attempt_at j \<noteq> None)
        then Inl invalid_transition
      else if ij_status j = Job_PENDING \<and> ij_attempts j > 0
          \<and> (ij_last_error_code j = None \<or> ij_next_attempt_at j = None)
        then Inl invalid_transition
      else if ij_status j = Job_CANCELLED \<and> ij_last_error_code j \<noteq> None then Inl invalid_transition
      else if ij_status j \<in> {Job_SUCCEEDED, Job_FAILED} \<and> ij_attempts j < 1
        then Inl (InvalidModelError STR ''ATTEMPTS_INVALID'')
      else if ij_status j \<in> {Job_SUCCEEDED, Job_FAILED} \<and> ij_started_at j = None
        then Inl invalid_transition
      else if ij_status j = Job_RUNNING \<and> ij_finished_at j \<noteq> None then Inl invalid_transition
      else Inr ())"

definition job_post_init :: "ingestion_job \<Rightarrow> ingestion_job result" where
  "job_post_init j = bindE (job_checks j) (\<lambda>_. Inr j)"

section \<open>Transitions\<close>

definition assert_worker :: "string \<Rightarrow> unit result" where
  "assert_worker w =
     (if \<not> worker_pattern w then Inl (InvalidModelError STR ''WORKER_REQUIRED'') else Inr ())"

definition assert_lease :: "ingestion_job \<Rightarrow> string \<Rightarrow> datetime \<Rightarrow> unit result" where
  "assert_lease j w now =
     bindE (assert_worker w) (\<lambda>_.
       if ij_status j \<noteq> Job_RUNNING \<or> ij_lease_owner j \<noteq> Some w
         then Inl (InvalidModelError STR ''STALE_LEASE'')
       else case ij_lease_expires_at j of
         None \<Rightarrow> Inl (InvalidModelError STR ''STALE_LEASE'')
       | Some lease \<Rightarrow> bindE (utc now) (\<lambda>n.
           if instant lease \<le> instant n then Inl (InvalidModelError STR ''STALE_LEASE'')
           else Inr ()))"

definition job_claim :: "ingestion_job \<Rightarrow> string \<Rightarrow> datetime \<Rightarrow> datetime \<Rightarrow> ingestion_job result" where
  "job_claim j w now lease =
     bindE (assert_worker w) (\<lambda>_.
       if ij_status j \<noteq> Job_PENDING then Inl invalid_transition
       else bindE (utc now) (\<lambda>n. bindE (utc lease) (\<lambda>l.
         if instant l \<le> instant n then Inl invalid_transition
         else job_post_init (j\<lparr>ij_status := Job_RUNNING, ij_attempts := ij_attempts j + 1,
           ij_lease_owner := Some w, ij_lease_expires_at := Some l,
           ij_started_at := Some (case ij_started_at j of None \<Rightarrow> n | Some t \<Rightarrow> t),
           ij_next_attempt_at := None, ij_last_error_code := None\<rparr>))))"

definition job_heartbeat ::
    "ingestion_job \<Rightarrow> string \<Rightarrow> datetime \<Rightarrow> datetime \<Rightarrow> ingestion_job result" where
  "job_heartbeat j w now lease =
     bindE (assert_lease j w now) (\<lambda>_.
       case ij_lease_expires_at j of
         None \<Rightarrow> Inl (InvalidModelError STR ''STALE_LEASE'')
       | Some cur \<Rightarrow> bindE (utc lease) (\<lambda>l. bindE (utc now) (\<lambda>n.
           if instant l \<le> instant n \<or> instant l \<le> instant cur then Inl invalid_transition
           else job_post_init (j\<lparr>ij_lease_expires_at := Some l\<rparr>))))"

definition job_succeed :: "ingestion_job \<Rightarrow> string \<Rightarrow> datetime \<Rightarrow> ingestion_job result" where
  "job_succeed j w now =
     bindE (assert_lease j w now) (\<lambda>_. bindE (utc now) (\<lambda>n.
       job_post_init (j\<lparr>ij_status := Job_SUCCEEDED, ij_lease_owner := None,
         ij_lease_expires_at := None, ij_finished_at := Some n, ij_last_error_code := None\<rparr>)))"

definition job_fail :: "ingestion_job \<Rightarrow> string \<Rightarrow> datetime \<Rightarrow> string \<Rightarrow> ingestion_job result" where
  "job_fail j w now code =
     bindE (assert_lease j w now) (\<lambda>_. bindE (utc now) (\<lambda>n.
       job_post_init (j\<lparr>ij_status := Job_FAILED, ij_lease_owner := None,
         ij_lease_expires_at := None, ij_finished_at := Some n, ij_last_error_code := Some code\<rparr>)))"

definition job_retry ::
    "ingestion_job \<Rightarrow> string \<Rightarrow> datetime \<Rightarrow> datetime \<Rightarrow> string \<Rightarrow> ingestion_job result" where
  "job_retry j w now next_at code =
     bindE (assert_lease j w now) (\<lambda>_. bindE (utc next_at) (\<lambda>x. bindE (utc now) (\<lambda>n.
       if instant x \<le> instant n then Inl invalid_transition
       else if ij_attempts j \<ge> ij_max_attempts j then job_fail j w now code
       else job_post_init (j\<lparr>ij_status := Job_PENDING, ij_lease_owner := None,
         ij_lease_expires_at := None, ij_next_attempt_at := Some x,
         ij_last_error_code := Some code\<rparr>))))"

definition job_cancel :: "ingestion_job \<Rightarrow> datetime \<Rightarrow> ingestion_job result" where
  "job_cancel j now =
     (if ij_status j \<noteq> Job_PENDING then Inl invalid_transition
      else bindE (utc now) (\<lambda>n.
        job_post_init (j\<lparr>ij_status := Job_CANCELLED, ij_finished_at := Some n,
          ij_last_error_code := None, ij_next_attempt_at := None\<rparr>)))"

definition job_reclaim :: "ingestion_job \<Rightarrow> datetime \<Rightarrow> datetime \<Rightarrow> ingestion_job result" where
  "job_reclaim j now next_at =
     (if ij_status j \<noteq> Job_RUNNING then Inl invalid_transition
      else case ij_lease_expires_at j of
        None \<Rightarrow> Inl invalid_transition
      | Some lease \<Rightarrow> bindE (utc now) (\<lambda>n.
          if instant lease > instant n then Inl invalid_transition
          else bindE (utc next_at) (\<lambda>x.
            if instant x \<le> instant n \<and> ij_attempts j < ij_max_attempts j
              then Inl invalid_transition
            else if ij_attempts j \<ge> ij_max_attempts j
              then job_post_init (j\<lparr>ij_status := Job_FAILED, ij_lease_owner := None,
                ij_lease_expires_at := None, ij_finished_at := Some n,
                ij_last_error_code := Some LEASE_EXPIRED_MAX_ATTEMPTS_ERROR_CODE\<rparr>)
            else job_post_init (j\<lparr>ij_status := Job_PENDING, ij_lease_owner := None,
                ij_lease_expires_at := None, ij_next_attempt_at := Some x,
                ij_last_error_code := Some LEASE_EXPIRED_ERROR_CODE\<rparr>))))"

section \<open>Events\<close>

record ingestion_job_event =
  ie_event_id :: uuid
  ie_job_id :: uuid
  ie_sequence_number :: int
  ie_kind :: ingestion_job_event_kind
  ie_occurred_at :: datetime
  ie_attempt :: int
  ie_worker_id :: "string option"
  ie_error_code :: "string option"

definition job_event_post_init :: "ingestion_job_event \<Rightarrow> ingestion_job_event result" where
  "job_event_post_init ev =
     (if ie_sequence_number ev < 1 \<or> ie_attempt ev < 0 then Inl invalid_transition
      else if \<not> is_aware (ie_occurred_at ev)
        then Inl (InvalidModelError STR ''UTC_TIMESTAMP_REQUIRED'')
      else if opt_holds (\<lambda>w. \<not> worker_pattern w) (ie_worker_id ev)
        then Inl (InvalidModelError STR ''WORKER_REQUIRED'')
      else if opt_holds (\<lambda>c. \<not> allowed_code c) (ie_error_code ev)
        then Inl (InvalidModelError STR ''ERROR_CODE_NOT_ALLOWLISTED'')
      else if ie_kind ev \<in> {Event_CLAIMED, Event_HEARTBEAT, Event_SUCCEEDED, Event_FAILED,
            Event_RETRIED} \<and> ie_worker_id ev = None
        then Inl (InvalidModelError STR ''WORKER_REQUIRED'')
      else if ie_kind ev \<in> {Event_RETRIED, Event_FAILED, Event_RECLAIMED} \<and> ie_error_code ev = None
        then Inl (InvalidModelError STR ''ERROR_CODE_NOT_ALLOWLISTED'')
      else if ie_kind ev \<notin> {Event_RETRIED, Event_FAILED, Event_RECLAIMED} \<and> ie_error_code ev \<noteq> None
        then Inl invalid_transition
      else Inr ev)"

section \<open>What a valid job is\<close>

definition job_ok :: "ingestion_job \<Rightarrow> bool" where
  "job_ok j = (job_checks j = Inr ())"

lemma job_post_init_iff [result_simps]: "job_post_init j = Inr k \<longleftrightarrow> k = j \<and> job_ok j"
  by (auto simp: job_post_init_def job_ok_def bindE_eq_Inr)

text \<open>
  The same validity stated by status, as a reader of the state machine would: what holds of every
  job, the order of its time stamps, and what each status carries.
\<close>

definition opt_all :: "('a \<Rightarrow> bool) \<Rightarrow> 'a option \<Rightarrow> bool" where
  "opt_all p x = (case x of None \<Rightarrow> True | Some v \<Rightarrow> p v)"

lemma opt_all_simps [simp]: "opt_all p None" "opt_all p (Some v) = p v"
  by (simp_all add: opt_all_def)

lemma opt_all_True [simp]: "opt_all (\<lambda>_. True) x"
  by (cases x) simp_all

lemma opt_holds_opt_all: "opt_holds p x = (\<not> opt_all (\<lambda>v. \<not> p v) x)"
  by (cases x) (simp_all add: opt_holds_def)

definition job_static_ok :: "ingestion_job \<Rightarrow> bool" where
  "job_static_ok j =
     (sha256_pattern (ij_idempotency_key j) \<and> sha256_pattern (ij_source_fingerprint j)
      \<and> revision_pattern (ij_pipeline_revision j)
      \<and> (ij_season_number j = None \<longrightarrow> ij_episode_number j = None)
      \<and> opt_all (\<lambda>n. 1 \<le> n) (ij_season_number j) \<and> opt_all (\<lambda>n. 1 \<le> n) (ij_episode_number j)
      \<and> 0 \<le> ij_priority j \<and> ij_priority j \<le> MAX_INGESTION_JOB_PRIORITY
      \<and> 1 \<le> ij_max_attempts j \<and> ij_max_attempts j \<le> MAX_INGESTION_JOB_ATTEMPTS
      \<and> is_aware (ij_created_at j) \<and> is_aware (ij_scheduled_at j))"

definition job_times_ok :: "ingestion_job \<Rightarrow> bool" where
  "job_times_ok j =
     (0 \<le> ij_attempts j \<and> ij_attempts j \<le> ij_max_attempts j
      \<and> opt_all is_aware (ij_started_at j) \<and> opt_all is_aware (ij_finished_at j)
      \<and> opt_all is_aware (ij_lease_expires_at j) \<and> opt_all is_aware (ij_next_attempt_at j)
      \<and> opt_all (\<lambda>s. instant (ij_created_at j) \<le> instant s) (ij_started_at j)
      \<and> opt_all (\<lambda>f. instant (ij_created_at j) \<le> instant f) (ij_finished_at j)
      \<and> opt_all (\<lambda>s. opt_all (\<lambda>f. instant s \<le> instant f) (ij_finished_at j)) (ij_started_at j)
      \<and> opt_all (\<lambda>x. instant (ij_scheduled_at j) \<le> instant x) (ij_next_attempt_at j))"

definition job_status_ok :: "ingestion_job \<Rightarrow> bool" where
  "job_status_ok j =
     (case ij_status j of
        Job_PENDING \<Rightarrow> ij_lease_owner j = None \<and> ij_lease_expires_at j = None \<and> ij_finished_at j = None
          \<and> (if ij_attempts j = 0 then ij_last_error_code j = None \<and> ij_next_attempt_at j = None
             else ij_last_error_code j \<noteq> None \<and> ij_next_attempt_at j \<noteq> None)
      | Job_RUNNING \<Rightarrow> ij_lease_owner j \<noteq> None \<and> ij_lease_owner j \<noteq> Some []
          \<and> ij_lease_expires_at j \<noteq> None \<and> ij_started_at j \<noteq> None \<and> 1 \<le> ij_attempts j
          \<and> ij_finished_at j = None \<and> ij_next_attempt_at j = None \<and> ij_last_error_code j = None
      | Job_SUCCEEDED \<Rightarrow> ij_lease_owner j = None \<and> ij_lease_expires_at j = None
          \<and> ij_started_at j \<noteq> None \<and> ij_finished_at j \<noteq> None \<and> 1 \<le> ij_attempts j
          \<and> ij_next_attempt_at j = None \<and> ij_last_error_code j = None
      | Job_FAILED \<Rightarrow> ij_lease_owner j = None \<and> ij_lease_expires_at j = None
          \<and> ij_started_at j \<noteq> None \<and> ij_finished_at j \<noteq> None \<and> 1 \<le> ij_attempts j
          \<and> ij_next_attempt_at j = None \<and> ij_last_error_code j \<noteq> None
      | Job_CANCELLED \<Rightarrow> ij_lease_owner j = None \<and> ij_lease_expires_at j = None
          \<and> ij_finished_at j \<noteq> None \<and> ij_next_attempt_at j = None \<and> ij_last_error_code j = None)"

definition job_code_ok :: "ingestion_job \<Rightarrow> bool" where
  "job_code_ok j = opt_all allowed_code (ij_last_error_code j)"

lemma job_ok_parts:
  "job_ok j \<longleftrightarrow> job_static_ok j \<and> job_times_ok j \<and> job_code_ok j \<and> job_status_ok j"
  unfolding job_ok_def job_checks_def if_Inl_eq_Inr
    job_static_ok_def job_times_ok_def job_status_ok_def job_code_ok_def
  by (cases "ij_status j";
      simp add: opt_holds_opt_all earlier_def not_less not_le del: not_None_eq; safe; simp)

section \<open>When a transition succeeds\<close>

lemmas job_ok_defs =
  job_static_ok_def job_times_ok_def job_status_ok_def job_code_ok_def

lemma utc_iff [result_simps]: "utc d = Inr u \<longleftrightarrow> is_aware d \<and> u = Aware UTC (instant d)"
  by (cases d) (auto simp: utc_def)

lemma assert_worker_iff [result_simps]: "assert_worker w = Inr u \<longleftrightarrow> worker_pattern w"
  by (simp add: assert_worker_def)

lemma worker_pattern_nonempty [simp]: "worker_pattern w \<Longrightarrow> w \<noteq> []"
  by (auto simp: worker_pattern_def ident_pattern_def)

text \<open>\<open>w\<close> holds an unexpired lease on the job.\<close>

definition holds_lease :: "ingestion_job \<Rightarrow> string \<Rightarrow> datetime \<Rightarrow> bool" where
  "holds_lease j w now =
     (worker_pattern w \<and> ij_status j = Job_RUNNING \<and> ij_lease_owner j = Some w \<and> is_aware now
      \<and> opt_holds (\<lambda>l. instant now < instant l) (ij_lease_expires_at j))"

lemma assert_lease_iff [result_simps]: "assert_lease j w now = Inr u \<longleftrightarrow> holds_lease j w now"
  by (cases "ij_lease_expires_at j"; cases "is_aware now")
    (auto simp: assert_lease_def holds_lease_def result_simps opt_holds_def not_le)

definition finished_job :: "ingestion_job \<Rightarrow> ingestion_job_status \<Rightarrow> datetime \<Rightarrow> string option \<Rightarrow> ingestion_job" where
  "finished_job j st now code = j\<lparr>ij_status := st, ij_lease_owner := None,
     ij_lease_expires_at := None, ij_finished_at := Some (Aware UTC (instant now)),
     ij_last_error_code := code\<rparr>"

definition released_job :: "ingestion_job \<Rightarrow> datetime \<Rightarrow> string \<Rightarrow> ingestion_job" where
  "released_job j next_at code = j\<lparr>ij_status := Job_PENDING, ij_lease_owner := None,
     ij_lease_expires_at := None, ij_next_attempt_at := Some (Aware UTC (instant next_at)),
     ij_last_error_code := Some code\<rparr>"

definition claimed_job :: "ingestion_job \<Rightarrow> string \<Rightarrow> datetime \<Rightarrow> datetime \<Rightarrow> ingestion_job" where
  "claimed_job j w now lease = j\<lparr>ij_status := Job_RUNNING, ij_attempts := ij_attempts j + 1,
     ij_lease_owner := Some w, ij_lease_expires_at := Some (Aware UTC (instant lease)),
     ij_started_at := Some (case ij_started_at j of None \<Rightarrow> Aware UTC (instant now) | Some t \<Rightarrow> t),
     ij_next_attempt_at := None, ij_last_error_code := None\<rparr>"

definition cancelled_job :: "ingestion_job \<Rightarrow> datetime \<Rightarrow> ingestion_job" where
  "cancelled_job j now = j\<lparr>ij_status := Job_CANCELLED,
     ij_finished_at := Some (Aware UTC (instant now)), ij_last_error_code := None,
     ij_next_attempt_at := None\<rparr>"

definition not_before :: "datetime \<Rightarrow> datetime option \<Rightarrow> bool" where
  "not_before now t = opt_all (\<lambda>s. instant s \<le> instant now) t"

lemma claimed_job_ok:
  "job_ok j \<Longrightarrow> ij_status j = Job_PENDING \<Longrightarrow> worker_pattern w \<Longrightarrow>
   job_ok (claimed_job j w now lease) \<longleftrightarrow>
     ij_attempts j < ij_max_attempts j \<and>
     (ij_started_at j = None \<longrightarrow> instant (ij_created_at j) \<le> instant now)"
  by (cases "ij_started_at j"; cases "ij_finished_at j")
    (auto simp: job_ok_parts job_ok_defs claimed_job_def)

lemma heartbeat_job_ok:
  "job_ok j \<Longrightarrow> ij_status j = Job_RUNNING \<Longrightarrow>
   job_ok (j\<lparr>ij_lease_expires_at := Some (Aware z t)\<rparr>)"
  by (simp add: job_ok_parts job_ok_defs)

lemma finished_job_ok:
  "job_ok j \<Longrightarrow> ij_status j = Job_RUNNING \<Longrightarrow>
   st = Job_SUCCEEDED \<and> code = None \<or> st = Job_FAILED \<and> code = Some c \<Longrightarrow>
   job_ok (finished_job j st now code) \<longleftrightarrow> not_before now (ij_started_at j) \<and> opt_all allowed_code code"
  by (cases "ij_started_at j")
    (auto simp: job_ok_parts job_ok_defs finished_job_def not_before_def)

lemma released_job_ok:
  "job_ok j \<Longrightarrow> ij_status j = Job_RUNNING \<Longrightarrow>
   job_ok (released_job j next_at code) \<longleftrightarrow>
     instant (ij_scheduled_at j) \<le> instant next_at \<and> allowed_code code"
  by (auto simp: job_ok_parts job_ok_defs released_job_def)

lemma cancelled_job_ok:
  "job_ok j \<Longrightarrow> ij_status j = Job_PENDING \<Longrightarrow>
   job_ok (cancelled_job j now) \<longleftrightarrow>
     instant (ij_created_at j) \<le> instant now \<and> not_before now (ij_started_at j)"
  by (cases "ij_started_at j")
    (auto simp: job_ok_parts job_ok_defs cancelled_job_def not_before_def)

lemma job_claim_iff:
  assumes "job_ok j"
  shows "job_claim j w now lease = Inr k \<longleftrightarrow>
    worker_pattern w \<and> ij_status j = Job_PENDING \<and> is_aware now \<and> is_aware lease
    \<and> instant now < instant lease \<and> ij_attempts j < ij_max_attempts j
    \<and> (ij_started_at j = None \<longrightarrow> instant (ij_created_at j) \<le> instant now)
    \<and> k = claimed_job j w now lease"
  using claimed_job_ok [OF assms, of w now lease]
  by (auto simp: job_claim_def result_simps claimed_job_def)

lemma job_heartbeat_iff:
  assumes "job_ok j"
  shows "job_heartbeat j w now lease = Inr k \<longleftrightarrow>
    holds_lease j w now \<and> is_aware lease \<and> instant now < instant lease
    \<and> opt_all (\<lambda>c. instant c < instant lease) (ij_lease_expires_at j)
    \<and> k = j\<lparr>ij_lease_expires_at := Some (Aware UTC (instant lease))\<rparr>"
  using heartbeat_job_ok [OF assms]
  by (cases "ij_lease_expires_at j")
    (auto simp: job_heartbeat_def result_simps holds_lease_def opt_holds_def)

lemma job_succeed_iff:
  assumes "job_ok j"
  shows "job_succeed j w now = Inr k \<longleftrightarrow>
    holds_lease j w now \<and> not_before now (ij_started_at j)
    \<and> k = finished_job j Job_SUCCEEDED now None"
  using finished_job_ok [OF assms, of Job_SUCCEEDED None _ now]
  by (auto simp: job_succeed_def result_simps holds_lease_def finished_job_def)

lemma job_fail_iff:
  assumes "job_ok j"
  shows "job_fail j w now code = Inr k \<longleftrightarrow>
    holds_lease j w now \<and> not_before now (ij_started_at j) \<and> allowed_code code
    \<and> k = finished_job j Job_FAILED now (Some code)"
  using finished_job_ok [OF assms, of Job_FAILED "Some code" code now]
  by (auto simp: job_fail_def result_simps holds_lease_def finished_job_def)

lemma job_retry_iff:
  assumes "job_ok j"
  shows "job_retry j w now next_at code = Inr k \<longleftrightarrow>
    holds_lease j w now \<and> is_aware next_at \<and> instant now < instant next_at \<and> allowed_code code
    \<and> (if ij_attempts j < ij_max_attempts j
       then instant (ij_scheduled_at j) \<le> instant next_at \<and> k = released_job j next_at code
       else not_before now (ij_started_at j) \<and> k = finished_job j Job_FAILED now (Some code))"
  using released_job_ok [OF assms, of next_at code] job_fail_iff [OF assms]
  by (auto simp: job_retry_def result_simps holds_lease_def released_job_def not_le)

lemma job_cancel_iff:
  assumes "job_ok j"
  shows "job_cancel j now = Inr k \<longleftrightarrow>
    ij_status j = Job_PENDING \<and> is_aware now \<and> instant (ij_created_at j) \<le> instant now
    \<and> not_before now (ij_started_at j) \<and> k = cancelled_job j now"
  using cancelled_job_ok [OF assms, of now]
  by (auto simp: job_cancel_def result_simps cancelled_job_def)

lemma lease_codes_allowed [simp]:
  "allowed_code LEASE_EXPIRED_ERROR_CODE" "allowed_code LEASE_EXPIRED_MAX_ATTEMPTS_ERROR_CODE"
  by (simp_all add: ALLOWED_INGESTION_ERROR_CODES_def)

lemma job_reclaim_iff:
  assumes "job_ok j"
  shows "job_reclaim j now next_at = Inr k \<longleftrightarrow>
    ij_status j = Job_RUNNING \<and> is_aware now \<and> is_aware next_at
    \<and> opt_holds (\<lambda>l. instant l \<le> instant now) (ij_lease_expires_at j)
    \<and> (if ij_attempts j < ij_max_attempts j
       then instant now < instant next_at \<and> instant (ij_scheduled_at j) \<le> instant next_at
         \<and> k = released_job j next_at LEASE_EXPIRED_ERROR_CODE
       else not_before now (ij_started_at j)
         \<and> k = finished_job j Job_FAILED now (Some LEASE_EXPIRED_MAX_ATTEMPTS_ERROR_CODE))"
  using released_job_ok [OF assms, of next_at LEASE_EXPIRED_ERROR_CODE]
    finished_job_ok [OF assms, of Job_FAILED "Some LEASE_EXPIRED_MAX_ATTEMPTS_ERROR_CODE" _ now]
  by (cases "ij_lease_expires_at j")
    (auto simp: job_reclaim_def result_simps released_job_def finished_job_def opt_holds_def not_le
      not_less)

section \<open>The state machine\<close>

inductive job_step :: "ingestion_job \<Rightarrow> ingestion_job \<Rightarrow> bool" where
  step_claim: "job_claim j w now lease = Inr k \<Longrightarrow> job_step j k"
| step_heartbeat: "job_heartbeat j w now lease = Inr k \<Longrightarrow> job_step j k"
| step_succeed: "job_succeed j w now = Inr k \<Longrightarrow> job_step j k"
| step_fail: "job_fail j w now code = Inr k \<Longrightarrow> job_step j k"
| step_retry: "job_retry j w now next_at code = Inr k \<Longrightarrow> job_step j k"
| step_cancel: "job_cancel j now = Inr k \<Longrightarrow> job_step j k"
| step_reclaim: "job_reclaim j now next_at = Inr k \<Longrightarrow> job_step j k"

abbreviation job_fresh :: "ingestion_job \<Rightarrow> bool" where
  "job_fresh j \<equiv> job_post_init j = Inr j \<and> ij_status j = Job_PENDING \<and> ij_attempts j = 0"

text \<open>The parts of a job that name the work; no transition changes them.\<close>

definition job_identity where
  "job_identity j = (ij_job_id j, ij_idempotency_key j, ij_kind j, ij_series_id j,
     ij_season_number j, ij_episode_number j, ij_source_fingerprint j, ij_pipeline_revision j,
     ij_priority j, ij_scheduled_at j, ij_max_attempts j, ij_created_at j)"

definition job_edge :: "ingestion_job_status \<Rightarrow> ingestion_job_status \<Rightarrow> bool" where
  "job_edge a b = ((a = Job_PENDING \<and> b \<in> {Job_RUNNING, Job_CANCELLED})
     \<or> (a = Job_RUNNING \<and> b \<in> {Job_RUNNING, Job_PENDING, Job_SUCCEEDED, Job_FAILED}))"

lemmas job_transition_iffs = job_claim_iff job_heartbeat_iff job_succeed_iff job_fail_iff
  job_retry_iff job_cancel_iff job_reclaim_iff

lemmas job_updates = claimed_job_def finished_job_def released_job_def cancelled_job_def

lemma job_step_ok: "job_step j k \<Longrightarrow> job_ok k"
  by (induction rule: job_step.induct)
    (auto simp: job_claim_def job_heartbeat_def job_succeed_def job_fail_def job_retry_def
      job_cancel_def job_reclaim_def result_simps split: option.splits if_splits)

lemma job_step_edge:
  assumes "job_step j k" and ok: "job_ok j"
  shows "job_edge (ij_status j) (ij_status k) \<and> job_identity k = job_identity j
    \<and> ij_attempts k = ij_attempts j + (if ij_status j = Job_PENDING \<and> ij_status k = Job_RUNNING then 1 else 0)"
  using assms(1)
  by cases
    (auto simp: job_transition_iffs [OF ok] job_edge_def job_identity_def job_updates holds_lease_def
      split: if_splits)

text \<open>
  The invariant of every job that was created by the service and changed only by transitions: it
  is valid, and unless it is still waiting it has been started, so a waiting job can be claimed
  again.
\<close>

definition job_inv :: "ingestion_job \<Rightarrow> bool" where
  "job_inv j = (job_ok j \<and> (ij_status j = Job_PENDING \<longrightarrow> ij_attempts j < ij_max_attempts j)
     \<and> (ij_attempts j = 0 \<longleftrightarrow> ij_started_at j = None))"

lemma job_inv_fresh:
  assumes "job_ok j" "ij_status j = Job_PENDING" "ij_attempts j = 0" "ij_started_at j = None"
  shows "job_inv j"
  using assms by (auto simp: job_inv_def job_ok_parts job_ok_defs)

lemma job_inv_step:
  assumes "job_step j k" and inv: "job_inv j"
  shows "job_inv k"
proof -
  have ok: "job_ok j" using inv by (simp add: job_inv_def)
  have k: "job_ok k" using job_step_ok [OF assms(1)] .
  from assms(1) show ?thesis
    using inv k
    by cases
      (auto simp: job_transition_iffs [OF ok] job_inv_def job_updates holds_lease_def
        job_ok_parts job_ok_defs split: if_splits option.splits)
qed

interpretation job_machine: invariant_system
    "\<lambda>j. job_fresh j \<and> ij_started_at j = None" job_step job_inv
proof
  fix j assume "job_fresh j \<and> ij_started_at j = None"
  then show "job_inv j"
    using job_inv_fresh [of j] by (auto simp: result_simps)
qed (rule job_inv_step)

section \<open>Examples\<close>

definition demo_hash :: string where
  "demo_hash = replicate 64 (CHR ''a'')"

definition demo_job :: ingestion_job where
  "demo_job = \<lparr>ij_job_id = 7, ij_idempotency_key = demo_hash, ij_kind = VECTOR_INDEX,
     ij_status = Job_PENDING, ij_series_id = 1, ij_season_number = Some 1, ij_episode_number = Some 2,
     ij_source_fingerprint = demo_hash, ij_pipeline_revision = ''rev-1'', ij_priority = 5,
     ij_scheduled_at = Aware UTC 100, ij_max_attempts = 2, ij_created_at = Aware UTC 100,
     ij_attempts = 0, ij_lease_owner = None, ij_lease_expires_at = None, ij_started_at = None,
     ij_finished_at = None, ij_last_error_code = None, ij_next_attempt_at = None\<rparr>"

abbreviation demo_running :: ingestion_job where
  "demo_running \<equiv> claimed_job demo_job ''worker-1'' (Aware UTC 110) (Aware UTC 200)"

lemma demo_job_ok: "job_post_init demo_job = Inr demo_job"
  by code_simp

lemma demo_job_status:
  "ij_status demo_job = Job_PENDING" "ij_attempts demo_job = 0" "ij_started_at demo_job = None"
  by (simp_all add: demo_job_def)

lemma demo_claim: "job_claim demo_job ''worker-1'' (Aware UTC 110) (Aware UTC 200) = Inr demo_running"
  by code_simp

lemma demo_running_ok: "job_post_init demo_running = Inr demo_running"
  by code_simp

section \<open>Properties\<close>

text \<open>C9. Every job that starts as the service creates it (valid, waiting, never attempted) and
  changes only through claim, heartbeat, succeed, fail, retry, cancel and reclaim stays valid and
  within its attempts; while it waits it has an attempt left, so no job can block the queue by
  being unclaimable; each transition follows an edge of the state machine, an attempt is counted
  exactly when a waiting job becomes a running one, what identifies the work never changes, and
  succeeded, failed and cancelled jobs have no transition at all.\<close>

theorem ingestion_job_lifecycle:
  assumes "reach (\<lambda>j. job_fresh j \<and> ij_started_at j = None) job_step j"
  shows "job_post_init j = Inr j \<and> ij_attempts j \<le> ij_max_attempts j \<and> ij_max_attempts j \<le> 20
    \<and> (ij_status j = Job_PENDING \<longrightarrow> ij_attempts j < ij_max_attempts j)
    \<and> (\<forall>k. job_step j k \<longrightarrow> job_edge (ij_status j) (ij_status k) \<and> job_identity k = job_identity j
         \<and> ij_attempts k = ij_attempts j
             + (if ij_status j = Job_PENDING \<and> ij_status k = Job_RUNNING then 1 else 0))
    \<and> (ij_status j \<in> {Job_SUCCEEDED, Job_FAILED, Job_CANCELLED} \<longrightarrow> (\<forall>k. \<not> job_step j k))"
proof -
  have inv: "job_inv j" using job_machine.reach_inv [OF assms] .
  then have ok: "job_ok j" by (simp add: job_inv_def)
  have terminal: "\<not> job_step j k" if "ij_status j \<in> {Job_SUCCEEDED, Job_FAILED, Job_CANCELLED}" for k
    using job_step_edge [OF _ ok, of k] that by (auto simp: job_edge_def)
  have bounds: "ij_attempts j \<le> ij_max_attempts j \<and> ij_max_attempts j \<le> 20"
    using ok by (simp add: job_ok_parts job_ok_defs MAX_INGESTION_JOB_ATTEMPTS_def)
  have pending: "ij_status j = Job_PENDING \<longrightarrow> ij_attempts j < ij_max_attempts j"
    using inv by (simp add: job_inv_def)
  have valid: "job_post_init j = Inr j" using ok by (simp add: job_post_init_iff)
  show ?thesis using terminal bounds pending valid job_step_edge [OF _ ok] by blast
qed

theorem ingestion_job_lifecycle_witness:
  "reach (\<lambda>j. job_fresh j \<and> ij_started_at j = None) job_step demo_running
   \<and> ij_attempts demo_running \<le> ij_max_attempts demo_running"
proof -
  have "reach (\<lambda>j. job_fresh j \<and> ij_started_at j = None) job_step demo_running"
    by (rule reach_step [where s = demo_job], rule reach_init)
      (simp add: demo_job_ok demo_job_status, rule step_claim [OF demo_claim])
  then show ?thesis using ingestion_job_lifecycle [of demo_running] by blast
qed

lemma if_eq_ex: "\<exists>k. (c \<longrightarrow> k = a) \<and> (\<not> c \<longrightarrow> k = b)"
  by (cases c) auto

text \<open>C10. A lease is exclusive.  While a running job is leased to \<open>w\<close> until \<open>l\<close>, exactly
  \<open>w\<close>, and exactly before \<open>l\<close>, can complete or fail the job, and exactly from \<open>l\<close> on can
  anyone reclaim it; so at no instant can both the worker and a reclaimer move the job.\<close>

theorem ingestion_lease_exclusive:
  assumes "job_post_init j = Inr j" "ij_status j = Job_RUNNING" "ij_lease_owner j = Some w"
    and "ij_lease_expires_at j = Some l" "worker_pattern w"
    and "is_aware now" "not_before now (ij_started_at j)"
    and "code \<in> set ALLOWED_INGESTION_ERROR_CODES"
    and "is_aware next_at" "instant now < instant next_at"
    and "instant (ij_scheduled_at j) \<le> instant next_at"
  shows "((\<exists>k. job_succeed j v now = Inr k) \<longleftrightarrow> v = w \<and> instant now < instant l)
    \<and> ((\<exists>k. job_fail j v now code = Inr k) \<longleftrightarrow> v = w \<and> instant now < instant l)
    \<and> ((\<exists>k. job_retry j v now next_at code = Inr k) \<longleftrightarrow> v = w \<and> instant now < instant l)
    \<and> ((\<exists>k. job_reclaim j now next_at = Inr k) \<longleftrightarrow> instant l \<le> instant now)"
proof -
  have ok: "job_ok j" using assms(1) by (simp add: job_post_init_iff)
  have h: "holds_lease j v now \<longleftrightarrow> v = w \<and> instant now < instant l" for v
    using assms by (auto simp: holds_lease_def opt_holds_def)
  show ?thesis
    using assms
    by (simp add: job_succeed_iff [OF ok] job_fail_iff [OF ok] job_retry_iff [OF ok]
        job_reclaim_iff [OF ok] h opt_holds_def if_eq_ex)
qed

theorem ingestion_lease_exclusive_witness:
  "(\<exists>k. job_succeed demo_running ''worker-1'' (Aware UTC 150) = Inr k)
   \<and> \<not> (\<exists>k. job_succeed demo_running ''worker-2'' (Aware UTC 150) = Inr k)
   \<and> \<not> (\<exists>k. job_reclaim demo_running (Aware UTC 150) (Aware UTC 300) = Inr k)"
proof -
  have pre: "ij_status demo_running = Job_RUNNING" "ij_lease_owner demo_running = Some ''worker-1''"
      "ij_lease_expires_at demo_running = Some (Aware UTC 200)" "worker_pattern ''worker-1''"
      "is_aware (Aware UTC 150)" "not_before (Aware UTC 150) (ij_started_at demo_running)"
      "''vector_index_failed'' \<in> set ALLOWED_INGESTION_ERROR_CODES"
      "is_aware (Aware UTC 300)" "instant (Aware UTC 150) < instant (Aware UTC 300)"
      "instant (ij_scheduled_at demo_running) \<le> instant (Aware UTC 300)"
    by code_simp+
  from ingestion_lease_exclusive [OF demo_running_ok pre] show ?thesis by simp
qed

end
