(* ===== verification/Text_Format.thy ===== *)
theory Text_Format
  imports Prelude
begin

text \<open>
  The textual forms the code builds keys from: \<open>str(UUID)\<close>, \<open>str(int)\<close> and
  \<open>":".join(parts)\<close>, with the facts that make such keys identify what they were built from.
\<close>

section \<open>Numerals\<close>

text \<open>The last \<open>w\<close> digits of a number in a base, most significant first.\<close>

fun digits_fixed :: "nat \<Rightarrow> nat \<Rightarrow> nat \<Rightarrow> nat list" where
  "digits_fixed b 0 n = []"
| "digits_fixed b (Suc w) n = digits_fixed b w (n div b) @ [n mod b]"

fun digits10 :: "nat \<Rightarrow> nat list" where
  "digits10 n = (if n < 10 then [n] else digits10 (n div 10) @ [n mod 10])"

declare digits10.simps [simp del]

definition hex_chars :: string where
  "hex_chars = ''0123456789abcdef''"

definition decimal :: "nat \<Rightarrow> string" where
  "decimal n = map ((!) hex_chars) (digits10 n)"

definition int_str :: "int \<Rightarrow> string" where
  "int_str i = (if i < 0 then CHR ''-'' # decimal (nat (- i)) else decimal (nat i))"

definition uuid_hex :: "uuid \<Rightarrow> string" where
  "uuid_hex u = map ((!) hex_chars) (digits_fixed 16 32 u)"

definition uuid_str :: "uuid \<Rightarrow> string" where
  "uuid_str u = (let h = uuid_hex u in
     take 8 h @ ''-'' @ take 4 (drop 8 h) @ ''-'' @ take 4 (drop 12 h) @ ''-'' @ take 4 (drop 16 h)
     @ ''-'' @ drop 20 h)"

lemma length_digits_fixed [simp]: "length (digits_fixed b w n) = w"
  by (induction w arbitrary: n) simp_all

lemma digits_fixed_bound: "0 < b \<Longrightarrow> d \<in> set (digits_fixed b w n) \<Longrightarrow> d < b"
  by (induction w arbitrary: n) (auto simp: mod_less_divisor)

lemma digits_fixed_inj:
  "0 < b \<Longrightarrow> digits_fixed b w m = digits_fixed b w n \<Longrightarrow> m mod b ^ w = n mod b ^ w"
proof (induction w arbitrary: m n)
  case (Suc w)
  from Suc.prems(2) have "digits_fixed b w (m div b) = digits_fixed b w (n div b)"
    and e: "m mod b = n mod b" by simp_all
  then have "(m div b) mod b ^ w = (n div b) mod b ^ w" using Suc.IH Suc.prems(1) by blast
  with e show ?case by (simp only: power_Suc mod_mult2_eq)
qed simp

lemma digits10_bound: "d \<in> set (digits10 n) \<Longrightarrow> d < 10"
proof (induction n rule: digits10.induct)
  case (1 n)
  then show ?case by (cases "n < 10") (auto simp: digits10.simps [of n])
qed

definition digits_value :: "nat list \<Rightarrow> nat" where
  "digits_value ds = foldl (\<lambda>a d. a * 10 + d) 0 ds"

lemma digits_value_digits10: "digits_value (digits10 n) = n"
proof (induction n rule: digits10.induct)
  case (1 n)
  show ?case
  proof (cases "n < 10")
    case True
    then show ?thesis by (simp add: digits10.simps [of n] digits_value_def)
  next
    case False
    then show ?thesis using 1
      by (simp add: digits10.simps [of n] digits_value_def)
  qed
qed

lemma hex_chars_inj: "i < 16 \<Longrightarrow> j < 16 \<Longrightarrow> hex_chars ! i = hex_chars ! j \<Longrightarrow> i = j"
  by (auto simp: hex_chars_def nth_eq_iff_index_eq)

lemma map_hex_inj:
  assumes "map ((!) hex_chars) xs = map ((!) hex_chars) ys"
    and "\<And>x. x \<in> set xs \<Longrightarrow> x < 16" "\<And>y. y \<in> set ys \<Longrightarrow> y < 16"
  shows "xs = ys"
  using assms by (intro map_inj_on [OF assms(1)]) (auto intro!: inj_onI hex_chars_inj)

lemma decimal_inj: "decimal m = decimal n \<longleftrightarrow> m = n"
proof
  assume "decimal m = decimal n"
  then have "digits10 m = digits10 n"
    unfolding decimal_def using digits10_bound by (intro map_hex_inj) (force+)
  then show "m = n" by (metis digits_value_digits10)
qed simp

lemma hex_chars_set: "i < 16 \<Longrightarrow> hex_chars ! i \<in> set hex_chars"
  by (rule nth_mem) (simp add: hex_chars_def)

lemma decimal_chars: "c \<in> set (decimal n) \<Longrightarrow> c \<in> set hex_chars"
  using digits10_bound by (force simp: decimal_def intro: hex_chars_set)

lemma decimal_nonempty: "decimal n \<noteq> []"
  by (simp add: decimal_def digits10.simps [of n])

lemma minus_not_hex: "CHR ''-'' \<notin> set hex_chars" "CHR '':'' \<notin> set hex_chars"
  by (simp_all add: hex_chars_def)

lemma int_str_inj: "int_str i = int_str j \<longleftrightarrow> i = j"
proof
  assume *: "int_str i = int_str j"
  show "i = j"
  proof (cases "i < 0 \<longleftrightarrow> j < 0")
    case True
    then show ?thesis using * by (auto simp: int_str_def decimal_inj split: if_splits)
  next
    case False
    have minus: "CHR ''-'' # s \<noteq> decimal n" for s n
      using decimal_chars [of "CHR ''-''" n] minus_not_hex by (metis list.set_intros(1))
    show ?thesis using False * minus minus [symmetric] by (auto simp: int_str_def split: if_splits)
  qed
qed simp

lemma int_str_no_colon: "CHR '':'' \<notin> set (int_str i)"
  using decimal_chars minus_not_hex by (auto simp: int_str_def)

lemma int_str_nonempty: "int_str i \<noteq> []"
  by (simp add: int_str_def decimal_nonempty)

lemma uuid_hex_inj:
  assumes "uuid_hex u = uuid_hex v" "u < 2 ^ 128" "v < 2 ^ 128"
  shows "u = v"
proof -
  have "digits_fixed 16 32 u = digits_fixed 16 32 v"
    using assms(1) unfolding uuid_hex_def
    by (rule map_hex_inj) (auto dest: digits_fixed_bound [rotated])
  then have "u mod 16 ^ 32 = v mod 16 ^ 32" by (rule digits_fixed_inj [rotated]) simp
  with assms(2,3) show ?thesis by simp
qed

lemma uuid_hex_chars: "c \<in> set (uuid_hex u) \<Longrightarrow> c \<in> set hex_chars"
  using digits_fixed_bound [of 16 _ 32 u] by (auto simp: uuid_hex_def intro: hex_chars_set)

lemma take_drop_join: "take n h @ take m (drop n h) @ xs = take (n + m) h @ xs"
  by (simp add: take_add)

lemma uuid_hex_of_str: "filter (\<lambda>c. c \<noteq> CHR ''-'') (uuid_str u) = uuid_hex u"
proof -
  have keep: "filter (\<lambda>c. c \<noteq> CHR ''-'') xs = xs" if "set xs \<subseteq> set (uuid_hex u)" for xs
    using that uuid_hex_chars minus_not_hex by (intro filter_True) blast
  have parts: "set (take n (uuid_hex u)) \<subseteq> set (uuid_hex u)"
    "set (drop n (uuid_hex u)) \<subseteq> set (uuid_hex u)"
    "set (take n (drop m (uuid_hex u))) \<subseteq> set (uuid_hex u)" for n m
    by (meson set_take_subset set_drop_subset subset_trans)+
  show ?thesis
    by (simp add: uuid_str_def Let_def keep parts take_drop_join)
qed

lemma uuid_str_inj: "uuid_str u = uuid_str v \<Longrightarrow> u < 2 ^ 128 \<Longrightarrow> v < 2 ^ 128 \<Longrightarrow> u = v"
  by (metis uuid_hex_inj uuid_hex_of_str)

lemma uuid_str_no_colon: "CHR '':'' \<notin> set (uuid_str u)"
proof
  assume "CHR '':'' \<in> set (uuid_str u)"
  then have "CHR '':'' \<in> set (uuid_hex u)" by (simp flip: uuid_hex_of_str)
  then show False using uuid_hex_chars minus_not_hex by blast
qed

section \<open>Joined keys\<close>

text \<open>\<open>sep.join(parts)\<close> for a one-character separator.\<close>

fun join :: "char \<Rightarrow> string list \<Rightarrow> string" where
  "join sep [] = []"
| "join sep [x] = x"
| "join sep (x # y # xs) = x @ sep # join sep (y # xs)"

lemma append_sep_inj:
  "sep \<notin> set x \<Longrightarrow> sep \<notin> set y \<Longrightarrow> x @ sep # xs = y @ sep # ys \<Longrightarrow> x = y \<and> xs = ys"
proof (induction x arbitrary: y)
  case Nil
  then show ?case by (cases y) auto
next
  case (Cons a x)
  then show ?case by (cases y) auto
qed

lemma join_inj:
  assumes "join sep xs = join sep ys" "length xs = length ys"
    and "\<forall>x \<in> set xs. sep \<notin> set x" "\<forall>y \<in> set ys. sep \<notin> set y"
  shows "xs = ys"
  using assms
proof (induction sep xs arbitrary: ys rule: join.induct)
  case (2 sep x)
  then obtain y where "ys = [y]" by (metis length_Suc_conv length_0_conv)
  with 2 show ?case by simp
next
  case (3 sep x x' xs)
  from "3.prems"(2) obtain y y' zs where ys: "ys = y # y' # zs"
    by (cases ys; cases "tl ys") auto
  have e: "x @ sep # join sep (x' # xs) = y @ sep # join sep (y' # zs)"
    using "3.prems"(1) unfolding ys by (simp only: join.simps)
  have "sep \<notin> set x" "sep \<notin> set y" using "3.prems"(3,4) unfolding ys by simp_all
  from append_sep_inj [OF this e] have "x = y" "join sep (x' # xs) = join sep (y' # zs)" by simp_all
  moreover from this(2) have "x' # xs = y' # zs"
    by (rule "3.IH") (use "3.prems"(2,3,4) ys in simp_all)
  ultimately show ?case unfolding ys by (simp only:)
qed simp

end
