(* ===== verification/Unit_Of_Work.thy ===== *)
theory Unit_Of_Work
  imports Prelude
begin

text \<open>
  The contract of the transactional stores (\<open>ports/ingestion_jobs\<close>, \<open>ports/identity\<close>): how a
  \<open>with factory() as unit_of_work\<close> block relates to the committed data.
\<close>

text \<open>
  The contract the service relies on: a body that raises leaves the store as it was; a body that
  ends in \<open>commit\<close> publishes exactly what it wrote; a body that returns without \<open>commit\<close>
  publishes nothing.
\<close>

locale unit_of_work =
  fixes within :: "('u, 'a) prog \<Rightarrow> ('d, 'a) prog"
    and work :: "('d \<Rightarrow> ('b \<times> 'd) result) \<Rightarrow> ('u, 'b) prog"
    and commit :: "('u, unit) prog"
  assumes within_raise: "f d = Inl e \<Longrightarrow> within (andThen (work f) k) d = (Inl e, d)"
    and within_commit: "f d = Inr (x, d') \<Longrightarrow> k x = andThen commit (\<lambda>_. ret y) \<Longrightarrow>
      within (andThen (work f) k) d = (Inr y, d')"
    and within_return: "f d = Inr (x, d') \<Longrightarrow> k x = ret y \<Longrightarrow>
      within (andThen (work f) k) d = (Inr y, d)"
begin

lemma transaction:
  "within (andThen (work f) (\<lambda>x. andThen commit (\<lambda>_. ret (g x)))) d
   = (case f d of Inl e \<Rightarrow> (Inl e, d) | Inr (x, d') \<Rightarrow> (Inr (g x), d'))"
  by (cases "f d") (auto simp: within_raise within_commit)

lemma optional_transaction:
  "within (andThen (work f) (\<lambda>x. if c x then andThen commit (\<lambda>_. ret (g x)) else ret (g x))) d
   = (case f d of Inl e \<Rightarrow> (Inl e, d) | Inr (x, d') \<Rightarrow> (Inr (g x), if c x then d' else d))"
proof (cases "f d")
  case (Inr p)
  obtain x d' where p: "p = (x, d')" by (cases p)
  show ?thesis
    using Inr by (cases "c x") (simp_all add: p within_commit [where y = "g x"] within_return [where y = "g x"])
qed (simp add: within_raise)

end

end
