(* ===== verification/Ingestion_Service.thy ===== *)
theory Ingestion_Service
  imports Ingestion_Job Text_Format Unit_Of_Work "HOL-Library.Product_Lexorder"
begin

text \<open>
  The ingestion queue: the transactional in-memory store of
  \<open>adapters/repository/in_memory/in_memory_ingestion_job_repository.py\<close>, its configuration
  (\<open>config/ingestion_jobs.py\<close>) and the service over it
  (\<open>application/service/ingestion_job_service.py\<close>).  Durations and instants are microseconds.
  The digest \<open>sha256(..).hexdigest()\<close> and \<open>uuid5(NAMESPACE_URL, ..)\<close> are parameters
  \<open>sha256hex\<close> and \<open>uuid5\<close>.
\<close>

section \<open>Configuration\<close>

record ingestion_config =
  cfg_lease_duration :: int
  cfg_heartbeat_extension :: int
  cfg_retry_base_delay :: int
  cfg_retry_max_delay :: int
  cfg_default_max_attempts :: int
  cfg_claim_batch_size :: int

definition MAX_INGESTION_JOB_CLAIM_BATCH_SIZE :: int where
  "MAX_INGESTION_JOB_CLAIM_BATCH_SIZE = 100"

definition ingestion_config_post_init :: "ingestion_config \<Rightarrow> ingestion_config result" where
  "ingestion_config_post_init c =
     (if list_ex (\<lambda>d. d \<le> 0) [cfg_lease_duration c, cfg_heartbeat_extension c,
          cfg_retry_base_delay c, cfg_retry_max_delay c]
        then Inl (ValueError STR ''CONFIGURATION_INVALID'')
      else if cfg_retry_base_delay c > cfg_retry_max_delay c
        then Inl (ValueError STR ''CONFIGURATION_INVALID'')
      else if \<not> (1 \<le> cfg_default_max_attempts c
          \<and> cfg_default_max_attempts c \<le> MAX_INGESTION_JOB_ATTEMPTS)
        then Inl (ValueError STR ''CONFIGURATION_INVALID'')
      else if \<not> (1 \<le> cfg_claim_batch_size c
          \<and> cfg_claim_batch_size c \<le> MAX_INGESTION_JOB_CLAIM_BATCH_SIZE)
        then Inl (ValueError STR ''CONFIGURATION_INVALID'')
      else Inr c)"

definition DEFAULT_INGESTION_JOB_CONFIGURATION :: ingestion_config where
  "DEFAULT_INGESTION_JOB_CONFIGURATION =
     \<lparr>cfg_lease_duration = 600000000, cfg_heartbeat_extension = 600000000,
      cfg_retry_base_delay = 60000000, cfg_retry_max_delay = 3600000000,
      cfg_default_max_attempts = 3, cfg_claim_batch_size = 1\<rparr>"

section \<open>The transactional store\<close>

text \<open>
  The factory holds the committed jobs and events; a unit of work holds a copy of both (values are
  immutable, so a deep copy is the value) and three flags.  The lock admits one unit of work at a
  time: a session is the factory together with the unit of work it is in.
\<close>

record ingestion_data =
  idt_jobs :: "(uuid, ingestion_job) dict"
  idt_events :: "(uuid, ingestion_job_event list) dict"

record ingestion_uow =
  iu_data :: ingestion_data
  iu_active :: bool
  iu_closed :: bool
  iu_committed :: bool

type_synonym ingestion_session = "ingestion_data \<times> ingestion_uow"

definition empty_ingestion_data :: ingestion_data where
  "empty_ingestion_data = \<lparr>idt_jobs = [], idt_events = []\<rparr>"

definition new_uow :: ingestion_uow where
  "new_uow = \<lparr>iu_data = empty_ingestion_data, iu_active = False, iu_closed = False, iu_committed = False\<rparr>"

definition uow_enter :: "ingestion_session \<Rightarrow> ingestion_session result" where
  "uow_enter s = (case s of (store, u) \<Rightarrow>
     if iu_active u \<or> iu_closed u then Inl (RuntimeError STR ''uow re-entered'')
     else Inr (store, u\<lparr>iu_data := store, iu_active := True, iu_committed := False\<rparr>))"

definition uow_rollback :: "ingestion_session \<Rightarrow> ingestion_session" where
  "uow_rollback s = (case s of (store, u) \<Rightarrow>
     if iu_active u \<and> \<not> iu_committed u then (store, u\<lparr>iu_data := store\<rparr>) else (store, u))"

definition uow_exit :: "bool \<Rightarrow> ingestion_session \<Rightarrow> ingestion_session" where
  "uow_exit raised s = (case (if raised then uow_rollback s else s) of (store, u) \<Rightarrow>
     (store, u\<lparr>iu_active := False, iu_closed := True\<rparr>))"

definition uow_commit :: "(ingestion_session, unit) prog" where
  "uow_commit = updE (\<lambda>(store, u).
     if \<not> iu_active u \<or> iu_committed u then Inl (RuntimeError STR ''uow not active'')
     else Inr (iu_data u, u\<lparr>iu_committed := True\<rparr>))"

text \<open>\<open>with self._unit_of_work_factory() as unit_of_work: body\<close>\<close>

definition with_uow :: "(ingestion_session, 'a) prog \<Rightarrow> (ingestion_data, 'a) prog" where
  "with_uow body = (\<lambda>store. case uow_enter (store, new_uow) of
     Inl e \<Rightarrow> (Inl e, store)
   | Inr s \<Rightarrow> (case body s of (r, s') \<Rightarrow>
       (r, fst (uow_exit (case r of Inl e \<Rightarrow> True | Inr x \<Rightarrow> False) s'))))"

text \<open>Calls on \<open>unit_of_work.jobs\<close> read and change the working copy.\<close>

definition on_jobs :: "(ingestion_data \<Rightarrow> ('a \<times> ingestion_data) result) \<Rightarrow> (ingestion_session, 'a) prog" where
  "on_jobs f = runE (\<lambda>(store, u). case f (iu_data u) of
     Inl e \<Rightarrow> Inl e | Inr (x, d) \<Rightarrow> Inr (x, (store, u\<lparr>iu_data := d\<rparr>)))"

section \<open>The job repository\<close>

definition jobs_get :: "ingestion_data \<Rightarrow> uuid \<Rightarrow> ingestion_job option" where
  "jobs_get d jid = dict_get (idt_jobs d) jid"

definition jobs_get_by_key :: "ingestion_data \<Rightarrow> string \<Rightarrow> ingestion_job option" where
  "jobs_get_by_key d key = List.find (\<lambda>j. ij_idempotency_key j = key) (dict_values (idt_jobs d))"

definition jobs_add :: "ingestion_data \<Rightarrow> ingestion_job \<Rightarrow> ingestion_job \<times> ingestion_data" where
  "jobs_add d j = (case jobs_get_by_key d (ij_idempotency_key j) of
     Some existing \<Rightarrow> (existing, d)
   | None \<Rightarrow> (j, d\<lparr>idt_jobs := dict_set (idt_jobs d) (ij_job_id j) j,
                   idt_events := dict_set (idt_events d) (ij_job_id j) []\<rparr>))"

definition jobs_replace :: "ingestion_data \<Rightarrow> ingestion_job \<Rightarrow> ingestion_data" where
  "jobs_replace d j = d\<lparr>idt_jobs := dict_set (idt_jobs d) (ij_job_id j) j\<rparr>"

text \<open>Equality of \<open>datetime\<close> values: aware ones by instant, a naive one never equals an aware one.\<close>

fun same_time :: "datetime \<Rightarrow> datetime \<Rightarrow> bool" where
  "same_time (Naive a) (Naive b) = (a = b)"
| "same_time (Aware y a) (Aware z b) = (a = b)"
| "same_time _ _ = False"

definition jobs_save_owned ::
    "ingestion_data \<Rightarrow> ingestion_job \<Rightarrow> string \<Rightarrow> datetime \<Rightarrow> datetime \<Rightarrow> ingestion_data result" where
  "jobs_save_owned d j w now expected =
     (case jobs_get d (ij_job_id j) of
        None \<Rightarrow> Inl (ValueError STR ''lease no longer valid'')
      | Some cur \<Rightarrow> (case ij_lease_expires_at cur of
          None \<Rightarrow> Inl (ValueError STR ''lease no longer valid'')
        | Some lease \<Rightarrow>
            if ij_lease_owner cur \<noteq> Some w \<or> \<not> same_time lease expected
                \<or> instant lease \<le> instant now
              then Inl (ValueError STR ''lease no longer valid'')
            else Inr (jobs_replace d j)))"

definition jobs_save_pending :: "ingestion_data \<Rightarrow> ingestion_job \<Rightarrow> ingestion_data result" where
  "jobs_save_pending d j =
     (case jobs_get d (ij_job_id j) of
        None \<Rightarrow> Inl (ValueError STR ''pending job changed'')
      | Some cur \<Rightarrow>
          if ij_status cur \<noteq> Job_PENDING then Inl (ValueError STR ''pending job changed'')
          else Inr (jobs_replace d j))"

definition jobs_save_reclaimed ::
    "ingestion_data \<Rightarrow> ingestion_job \<Rightarrow> datetime \<Rightarrow> datetime \<Rightarrow> ingestion_data result" where
  "jobs_save_reclaimed d j now expected =
     (case jobs_get d (ij_job_id j) of
        None \<Rightarrow> Inl (ValueError STR ''lease changed before reclaim'')
      | Some cur \<Rightarrow> (case ij_lease_expires_at cur of
          None \<Rightarrow> Inl (ValueError STR ''lease changed before reclaim'')
        | Some lease \<Rightarrow>
            if ij_status cur \<noteq> Job_RUNNING \<or> \<not> same_time lease expected
                \<or> instant lease > instant now
              then Inl (ValueError STR ''lease changed before reclaim'')
            else Inr (jobs_replace d j)))"

text \<open>
  \<open>claim_next\<close> takes the first of the due waiting jobs under the key
  \<open>(-priority, scheduled_at, created_at, job_id.hex)\<close>.
\<close>

definition is_due :: "datetime \<Rightarrow> ingestion_job \<Rightarrow> bool" where
  "is_due now j = (ij_status j = Job_PENDING \<and> instant (ij_scheduled_at j) \<le> instant now
     \<and> (case ij_next_attempt_at j of None \<Rightarrow> True | Some t \<Rightarrow> instant t \<le> instant now))"

definition claim_key :: "ingestion_job \<Rightarrow> int \<times> int \<times> int \<times> nat" where
  "claim_key j = (- ij_priority j, instant (ij_scheduled_at j), instant (ij_created_at j), ij_job_id j)"

definition jobs_claim_next ::
    "ingestion_data \<Rightarrow> string \<Rightarrow> datetime \<Rightarrow> datetime \<Rightarrow> (ingestion_job option \<times> ingestion_data) result" where
  "jobs_claim_next d w now lease =
     (case sort_key claim_key (filter (is_due now) (dict_values (idt_jobs d))) of
        [] \<Rightarrow> Inr (None, d)
      | j # js \<Rightarrow> bindE (job_claim j w now lease) (\<lambda>k. Inr (Some k, jobs_replace d k)))"

definition jobs_events :: "ingestion_data \<Rightarrow> uuid \<Rightarrow> ingestion_job_event list" where
  "jobs_events d jid = (case dict_get (idt_events d) jid of None \<Rightarrow> [] | Some evs \<Rightarrow> evs)"

definition jobs_append_event :: "ingestion_data \<Rightarrow> ingestion_job_event \<Rightarrow> ingestion_data result" where
  "jobs_append_event d ev =
     (let evs = jobs_events d (ie_job_id ev)
      in if evs \<noteq> [] \<and> ie_sequence_number ev \<noteq> ie_sequence_number (last evs) + 1
           then Inl (ValueError STR ''events must be append-only'')
         else if evs = [] \<and> ie_sequence_number ev \<noteq> 1
           then Inl (ValueError STR ''first event must be 1'')
         else Inr (d\<lparr>idt_events := dict_set (idt_events d) (ie_job_id ev) (evs @ [ev])\<rparr>))"

section \<open>The service\<close>

record enqueue_command =
  eq_kind :: ingestion_job_kind
  eq_series_id :: uuid
  eq_source_fingerprint :: string
  eq_pipeline_revision :: string
  eq_season_number :: "int option"
  eq_episode_number :: "int option"
  eq_priority :: int
  eq_scheduled_at :: "datetime option"
  eq_max_attempts :: "int option"

fun kind_value :: "ingestion_job_kind \<Rightarrow> string" where
  "kind_value SPEAKER_REVIEW = ''speaker_review''"
| "kind_value TRANSCRIPT_INGESTION = ''transcript_ingestion''"
| "kind_value VECTOR_INDEX = ''vector_index''"
| "kind_value EPISODE_SUMMARY = ''episode_summary''"
| "kind_value SERIES_METADATA = ''series_metadata''"
| "kind_value SUBTITLE_ALIGNMENT = ''subtitle_alignment''"
| "kind_value GRAPH_CLAIM_EXTRACTION = ''graph_claim_extraction''"

text \<open>\<open>str(n or "")\<close>\<close>

definition str_or_empty :: "int option \<Rightarrow> string" where
  "str_or_empty n = (case n of None \<Rightarrow> [] | Some i \<Rightarrow> if i = 0 then [] else int_str i)"

definition raw_idempotency_key :: "enqueue_command \<Rightarrow> string" where
  "raw_idempotency_key c = join (CHR '':'')
     [''cinegraph-ingestion-v1'', kind_value (eq_kind c), uuid_str (eq_series_id c),
      str_or_empty (eq_season_number c), str_or_empty (eq_episode_number c),
      eq_source_fingerprint c, eq_pipeline_revision c]"

definition idempotency_key :: "(string \<Rightarrow> string) \<Rightarrow> enqueue_command \<Rightarrow> string" where
  "idempotency_key sha256hex c = sha256hex (raw_idempotency_key c)"

definition append_job_event ::
    "(string \<Rightarrow> uuid) \<Rightarrow> ingestion_data \<Rightarrow> ingestion_job \<Rightarrow> ingestion_job_event_kind \<Rightarrow> datetime \<Rightarrow>
     string option \<Rightarrow> string option \<Rightarrow> ingestion_data result" where
  "append_job_event uuid5 d j kind now w err =
     (let evs = jobs_events d (ij_job_id j)
      in bindE (job_event_post_init
           \<lparr>ie_event_id = uuid5 (''cinegraph:ingestion-event:'' @ uuid_str (ij_job_id j) @ '':''
                @ int_str (int (length evs) + 1)),
            ie_job_id = ij_job_id j, ie_sequence_number = int (length evs) + 1, ie_kind = kind,
            ie_occurred_at = now, ie_attempt = ij_attempts j, ie_worker_id = w, ie_error_code = err\<rparr>)
         (jobs_append_event d))"

definition required_job :: "ingestion_data \<Rightarrow> uuid \<Rightarrow> ingestion_job result" where
  "required_job d jid = (case jobs_get d jid of None \<Rightarrow> Inl (KeyError STR ''job_id'') | Some j \<Rightarrow> Inr j)"

definition required_lease :: "ingestion_job \<Rightarrow> datetime result" where
  "required_lease j = (case ij_lease_expires_at j of
     None \<Rightarrow> Inl (ValueError STR ''Running ingestion job has no lease.'') | Some l \<Rightarrow> Inr l)"

text \<open>
  A command body: the repository calls and the event on the working copy, then \<open>commit\<close> and
  \<open>return\<close>, or \<open>return\<close> alone where the code returns early.
\<close>

definition then_commit :: "'a \<Rightarrow> (ingestion_session, 'a) prog" where
  "then_commit x = andThen uow_commit (\<lambda>_. ret x)"

abbreviation at_utc :: "int \<Rightarrow> datetime" where
  "at_utc t \<equiv> Aware UTC t"

definition new_ingestion_job ::
    "ingestion_config \<Rightarrow> (string \<Rightarrow> string) \<Rightarrow> (string \<Rightarrow> uuid) \<Rightarrow> int \<Rightarrow> enqueue_command \<Rightarrow> ingestion_job" where
  "new_ingestion_job cfg sha256hex uuid5 now c =
     \<lparr>ij_job_id = uuid5 (''cinegraph:ingestion:'' @ idempotency_key sha256hex c),
      ij_idempotency_key = idempotency_key sha256hex c, ij_kind = eq_kind c,
      ij_status = Job_PENDING, ij_series_id = eq_series_id c, ij_season_number = eq_season_number c,
      ij_episode_number = eq_episode_number c, ij_source_fingerprint = eq_source_fingerprint c,
      ij_pipeline_revision = eq_pipeline_revision c, ij_priority = eq_priority c,
      ij_scheduled_at = (case eq_scheduled_at c of None \<Rightarrow> at_utc now | Some t \<Rightarrow> t),
      ij_max_attempts = (case eq_max_attempts c of None \<Rightarrow> cfg_default_max_attempts cfg
         | Some n \<Rightarrow> if n = 0 then cfg_default_max_attempts cfg else n),
      ij_created_at = at_utc now, ij_attempts = 0, ij_lease_owner = None,
      ij_lease_expires_at = None, ij_started_at = None, ij_finished_at = None,
      ij_last_error_code = None, ij_next_attempt_at = None\<rparr>"

text \<open>The first component of the body's value says whether the code reaches \<open>commit\<close>.\<close>

definition svc_enqueue ::
    "ingestion_config \<Rightarrow> (string \<Rightarrow> string) \<Rightarrow> (string \<Rightarrow> uuid) \<Rightarrow> int \<Rightarrow> enqueue_command \<Rightarrow>
     (ingestion_data, ingestion_job) prog" where
  "svc_enqueue cfg sha256hex uuid5 now c =
     andThen (lift (job_post_init (new_ingestion_job cfg sha256hex uuid5 now c))) (\<lambda>job.
       with_uow (andThen (on_jobs (\<lambda>d.
           case jobs_get_by_key d (ij_idempotency_key job) of
             Some existing \<Rightarrow> Inr ((False, existing), d)
           | None \<Rightarrow> (case jobs_add d job of (inserted, d1) \<Rightarrow>
               if ij_job_id inserted \<noteq> ij_job_id job then Inr ((False, inserted), d1)
               else bindE (append_job_event uuid5 d1 job Event_ENQUEUED (at_utc now) None None)
                 (\<lambda>d2. Inr ((True, job), d2)))))
         (\<lambda>(commits, j). if commits then then_commit j else ret j)))"

definition svc_claim_next ::
    "ingestion_config \<Rightarrow> (string \<Rightarrow> uuid) \<Rightarrow> int \<Rightarrow> string \<Rightarrow> (ingestion_data, ingestion_job option) prog" where
  "svc_claim_next cfg uuid5 now w =
     with_uow (andThen (on_jobs (\<lambda>d.
         bindE (jobs_claim_next d w (at_utc now) (at_utc (now + cfg_lease_duration cfg))) (\<lambda>(job, d1).
           case job of
             None \<Rightarrow> Inr (None, d1)
           | Some j \<Rightarrow> bindE (append_job_event uuid5 d1 j Event_CLAIMED (at_utc now) (Some w) None)
               (\<lambda>d2. Inr (Some j, d2)))))
       (\<lambda>job. if job = None then ret None else then_commit job))"

definition shift_time :: "datetime \<Rightarrow> int \<Rightarrow> datetime" where
  "shift_time t by = (case t of Naive s \<Rightarrow> Naive (s + by) | Aware z s \<Rightarrow> Aware z (s + by))"

definition svc_heartbeat ::
    "ingestion_config \<Rightarrow> (string \<Rightarrow> uuid) \<Rightarrow> int \<Rightarrow> uuid \<Rightarrow> string \<Rightarrow> (ingestion_data, ingestion_job) prog" where
  "svc_heartbeat cfg uuid5 now jid w =
     with_uow (andThen (on_jobs (\<lambda>d.
         bindE (required_job d jid) (\<lambda>job.
         bindE (required_lease job) (\<lambda>lease.
         bindE (job_heartbeat job w (at_utc now) (shift_time lease (cfg_heartbeat_extension cfg))) (\<lambda>upd.
         bindE (jobs_save_owned d upd w (at_utc now) lease) (\<lambda>d1.
         bindE (append_job_event uuid5 d1 upd Event_HEARTBEAT (at_utc now) (Some w) None) (\<lambda>d2.
           Inr (upd, d2))))))))
       then_commit)"

definition svc_succeed ::
    "(string \<Rightarrow> uuid) \<Rightarrow> int \<Rightarrow> uuid \<Rightarrow> string \<Rightarrow> (ingestion_data, ingestion_job) prog" where
  "svc_succeed uuid5 now jid w =
     with_uow (andThen (on_jobs (\<lambda>d.
         bindE (required_job d jid) (\<lambda>job.
         bindE (required_lease job) (\<lambda>lease.
         bindE (job_succeed job w (at_utc now)) (\<lambda>upd.
         bindE (jobs_save_owned d upd w (at_utc now) lease) (\<lambda>d1.
         bindE (append_job_event uuid5 d1 upd Event_SUCCEEDED (at_utc now) (Some w) None) (\<lambda>d2.
           Inr (upd, d2))))))))
       then_commit)"

definition retry_delay :: "ingestion_config \<Rightarrow> int \<Rightarrow> int" where
  "retry_delay cfg attempts =
     min (cfg_retry_base_delay cfg * 2 ^ nat (max (attempts - 1) 0)) (cfg_retry_max_delay cfg)"

definition svc_fail_or_retry ::
    "ingestion_config \<Rightarrow> (string \<Rightarrow> uuid) \<Rightarrow> int \<Rightarrow> uuid \<Rightarrow> string \<Rightarrow> string \<Rightarrow>
     (ingestion_data, ingestion_job) prog" where
  "svc_fail_or_retry cfg uuid5 now jid w code =
     (if code \<notin> set ALLOWED_INGESTION_ERROR_CODES
        then raise (ValueError STR ''ERROR_CODE_NOT_ALLOWLISTED'')
      else with_uow (andThen (on_jobs (\<lambda>d.
         bindE (required_job d jid) (\<lambda>job.
         bindE (required_lease job) (\<lambda>lease.
         bindE (if ij_attempts job \<ge> ij_max_attempts job
                then bindE (job_fail job w (at_utc now) code) (\<lambda>u. Inr (u, Event_FAILED))
                else bindE (job_retry job w (at_utc now)
                    (at_utc (now + retry_delay cfg (ij_attempts job))) code)
                  (\<lambda>u. Inr (u, Event_RETRIED))) (\<lambda>(upd, kind).
         bindE (jobs_save_owned d upd w (at_utc now) lease) (\<lambda>d1.
         bindE (append_job_event uuid5 d1 upd kind (at_utc now) (Some w) (Some code)) (\<lambda>d2.
           Inr (upd, d2))))))))
       then_commit))"

definition svc_cancel :: "(string \<Rightarrow> uuid) \<Rightarrow> int \<Rightarrow> uuid \<Rightarrow> (ingestion_data, ingestion_job) prog" where
  "svc_cancel uuid5 now jid =
     with_uow (andThen (on_jobs (\<lambda>d.
         bindE (required_job d jid) (\<lambda>job.
         bindE (job_cancel job (at_utc now)) (\<lambda>upd.
         bindE (jobs_save_pending d upd) (\<lambda>d1.
         bindE (append_job_event uuid5 d1 upd Event_CANCELLED (at_utc now) None None) (\<lambda>d2.
           Inr (upd, d2)))))))
       then_commit)"

definition svc_reclaim_expired ::
    "ingestion_config \<Rightarrow> (string \<Rightarrow> uuid) \<Rightarrow> int \<Rightarrow> uuid \<Rightarrow> (ingestion_data, ingestion_job) prog" where
  "svc_reclaim_expired cfg uuid5 now jid =
     with_uow (andThen (on_jobs (\<lambda>d.
         bindE (required_job d jid) (\<lambda>job.
         bindE (job_reclaim job (at_utc now) (at_utc (now + cfg_retry_base_delay cfg))) (\<lambda>upd.
         bindE (required_lease job) (\<lambda>lease.
         bindE (jobs_save_reclaimed d upd (at_utc now) lease) (\<lambda>d1.
         bindE (append_job_event uuid5 d1 upd Event_RECLAIMED (at_utc now) None
             (ij_last_error_code upd)) (\<lambda>d2.
           Inr (upd, d2))))))))
       then_commit)"

definition svc_events :: "uuid \<Rightarrow> (ingestion_data, ingestion_job_event list) prog" where
  "svc_events jid = with_uow (on_jobs (\<lambda>d. Inr (jobs_events d jid, d)))"

section \<open>Units of work are atomic\<close>

interpretation uow: unit_of_work with_uow on_jobs uow_commit
proof
  note enter = with_uow_def uow_enter_def new_uow_def on_jobs_def uow_exit_def uow_commit_def
  fix f :: "ingestion_data \<Rightarrow> ('b \<times> ingestion_data) result"
    and k :: "'b \<Rightarrow> (ingestion_session, 'a) prog" and d d' e x y
  show "f d = Inl e \<Longrightarrow> with_uow (andThen (on_jobs f) k) d = (Inl e, d)"
    by (simp add: enter andThen_runE uow_rollback_def)
  show "f d = Inr (x, d') \<Longrightarrow> k x = andThen uow_commit (\<lambda>_. ret y) \<Longrightarrow>
      with_uow (andThen (on_jobs f) k) d = (Inr y, d')"
    by (simp add: enter prog_simps)
  show "f d = Inr (x, d') \<Longrightarrow> k x = ret y \<Longrightarrow> with_uow (andThen (on_jobs f) k) d = (Inr y, d)"
    by (simp add: enter prog_simps)
qed

text \<open>Every service operation is one fallible update of the committed data.\<close>

lemma with_uow_then_commit:
  "with_uow (andThen (on_jobs f) then_commit) d
   = (case f d of Inl e \<Rightarrow> (Inl e, d) | Inr (x, d') \<Rightarrow> (Inr x, d'))"
  using uow.transaction [of f "\<lambda>x. x" d] by (simp add: then_commit_def [abs_def])

lemmas svc_defs = svc_enqueue_def svc_claim_next_def svc_heartbeat_def svc_succeed_def
  svc_fail_or_retry_def svc_cancel_def svc_reclaim_expired_def

section \<open>The state of the queue\<close>

definition kind_fits :: "ingestion_job_event_kind \<Rightarrow> ingestion_job_status \<Rightarrow> bool" where
  "kind_fits k st = (case k of
     Event_ENQUEUED \<Rightarrow> st = Job_PENDING | Event_CLAIMED \<Rightarrow> st = Job_RUNNING
   | Event_HEARTBEAT \<Rightarrow> st = Job_RUNNING | Event_RETRIED \<Rightarrow> st = Job_PENDING
   | Event_SUCCEEDED \<Rightarrow> st = Job_SUCCEEDED | Event_FAILED \<Rightarrow> st = Job_FAILED
   | Event_CANCELLED \<Rightarrow> st = Job_CANCELLED | Event_RECLAIMED \<Rightarrow> st \<in> {Job_PENDING, Job_FAILED})"

definition claims_in :: "ingestion_job_event list \<Rightarrow> int" where
  "claims_in evs = int (length (filter (\<lambda>e. ie_kind e = Event_CLAIMED) evs))"

definition history_ok :: "ingestion_job \<Rightarrow> ingestion_job_event list \<Rightarrow> bool" where
  "history_ok j evs =
     (evs \<noteq> [] \<and> map ie_sequence_number evs = map (\<lambda>i. int i + 1) [0..<length evs]
      \<and> (\<forall>e \<in> set evs. ie_job_id e = ij_job_id j)
      \<and> ie_kind (hd evs) = Event_ENQUEUED
      \<and> kind_fits (ie_kind (last evs)) (ij_status j) \<and> claims_in evs = ij_attempts j)"

definition stored_ok :: "int \<Rightarrow> uuid \<Rightarrow> ingestion_job \<Rightarrow> ingestion_job_event list \<Rightarrow> bool" where
  "stored_ok clock jid j evs =
     (ij_job_id j = jid \<and> job_inv j \<and> instant (ij_created_at j) \<le> clock
      \<and> opt_all (\<lambda>s. instant s \<le> clock) (ij_started_at j)
      \<and> (1 \<le> ij_attempts j \<longrightarrow> instant (ij_scheduled_at j) \<le> clock)
      \<and> history_ok j evs)"

definition queue_ok :: "int \<Rightarrow> ingestion_data \<Rightarrow> bool" where
  "queue_ok clock d = (dict_ok (idt_jobs d)
     \<and> (\<forall>jid j. jobs_get d jid = Some j \<longrightarrow> stored_ok clock jid j (jobs_events d jid)))"

lemma queue_okD: "queue_ok clock d \<Longrightarrow> jobs_get d jid = Some j \<Longrightarrow> stored_ok clock jid j (jobs_events d jid)"
  by (simp add: queue_ok_def)

lemma stored_ok_mono: "stored_ok c jid j evs \<Longrightarrow> c \<le> c' \<Longrightarrow> stored_ok c' jid j evs"
  by (cases "ij_started_at j") (auto simp: stored_ok_def)

lemma queue_ok_mono: "queue_ok c d \<Longrightarrow> c \<le> c' \<Longrightarrow> queue_ok c' d"
  unfolding queue_ok_def using stored_ok_mono by blast

lemma queue_ok_empty: "queue_ok c empty_ingestion_data"
  by (simp add: queue_ok_def empty_ingestion_data_def jobs_get_def dict_simps)

lemma history_last:
  assumes "history_ok j evs"
  shows "ie_sequence_number (last evs) = int (length evs)"
proof -
  have ne: "evs \<noteq> []" using assms by (simp add: history_ok_def)
  have "ie_sequence_number (last evs) = last (map ie_sequence_number evs)"
    using ne by (simp add: last_map)
  also have "\<dots> = int (length evs)"
    using assms ne by (simp add: history_ok_def last_map of_nat_diff Suc_le_eq)
  finally show ?thesis .
qed

text \<open>The event record a transition appends, and the data it leaves.\<close>

definition next_event ::
    "(string \<Rightarrow> uuid) \<Rightarrow> ingestion_data \<Rightarrow> ingestion_job \<Rightarrow> ingestion_job_event_kind \<Rightarrow> datetime \<Rightarrow>
     string option \<Rightarrow> string option \<Rightarrow> ingestion_job_event" where
  "next_event uuid5 d j kind now w err =
     \<lparr>ie_event_id = uuid5 (''cinegraph:ingestion-event:'' @ uuid_str (ij_job_id j) @ '':''
        @ int_str (int (length (jobs_events d (ij_job_id j))) + 1)),
      ie_job_id = ij_job_id j, ie_sequence_number = int (length (jobs_events d (ij_job_id j))) + 1,
      ie_kind = kind, ie_occurred_at = now, ie_attempt = ij_attempts j, ie_worker_id = w,
      ie_error_code = err\<rparr>"

definition with_event :: "ingestion_data \<Rightarrow> uuid \<Rightarrow> ingestion_job_event \<Rightarrow> ingestion_data" where
  "with_event d jid ev = d\<lparr>idt_events := dict_set (idt_events d) jid (jobs_events d jid @ [ev])\<rparr>"

definition event_fields_ok :: "ingestion_job_event_kind \<Rightarrow> string option \<Rightarrow> string option \<Rightarrow> bool" where
  "event_fields_ok kind w err =
     (opt_all worker_pattern w \<and> opt_all allowed_code err
      \<and> (kind \<in> {Event_CLAIMED, Event_HEARTBEAT, Event_SUCCEEDED, Event_FAILED, Event_RETRIED} \<longrightarrow> w \<noteq> None)
      \<and> (kind \<in> {Event_RETRIED, Event_FAILED, Event_RECLAIMED} \<longleftrightarrow> err \<noteq> None))"

lemma event_post_init_iff:
  "job_event_post_init ev = Inr ev' \<longleftrightarrow> ev' = ev \<and> 1 \<le> ie_sequence_number ev \<and> 0 \<le> ie_attempt ev
     \<and> is_aware (ie_occurred_at ev)
     \<and> event_fields_ok (ie_kind ev) (ie_worker_id ev) (ie_error_code ev)"
  unfolding job_event_post_init_def if_Inl_eq_Inr event_fields_ok_def
  by (cases "ie_worker_id ev"; cases "ie_error_code ev") (auto simp: opt_holds_def)

lemma append_job_event_iff:
  assumes "jobs_events d (ij_job_id j) = [] \<or>
    ie_sequence_number (last (jobs_events d (ij_job_id j))) = int (length (jobs_events d (ij_job_id j)))"
  shows "append_job_event uuid5 d j kind (at_utc now) w err = Inr d' \<longleftrightarrow>
    0 \<le> ij_attempts j \<and> event_fields_ok kind w err
    \<and> d' = with_event d (ij_job_id j) (next_event uuid5 d j kind (at_utc now) w err)"
  using assms
  by (auto simp: append_job_event_def Let_def bindE_eq_Inr event_post_init_iff jobs_append_event_def
      with_event_def next_event_def)

lemma get_with_event [simp]:
  "jobs_get (with_event d jid ev) i = jobs_get d i"
  "jobs_events (with_event d jid ev) i =
    (if i = jid then jobs_events d jid @ [ev] else jobs_events d i)"
  "idt_jobs (with_event d jid ev) = idt_jobs d"
  by (simp_all add: jobs_get_def jobs_events_def with_event_def dict_simps)

lemma get_replace [simp]:
  "jobs_get (jobs_replace d j) i = (if i = ij_job_id j then Some j else jobs_get d i)"
  "jobs_events (jobs_replace d j) i = jobs_events d i"
  by (simp_all add: jobs_get_def jobs_events_def jobs_replace_def dict_simps)

lemma replace_jobs_ok: "dict_ok (idt_jobs d) \<Longrightarrow> dict_ok (idt_jobs (jobs_replace d j))"
  by (simp add: jobs_replace_def dict_simps)

section \<open>Every operation keeps the queue well formed\<close>

lemma history_ok_append:
  assumes h: "history_ok j evs" and id: "ij_job_id k = ij_job_id j"
    and ev: "ie_job_id ev = ij_job_id j" "ie_sequence_number ev = int (length evs) + 1"
    and fits: "kind_fits (ie_kind ev) (ij_status k)"
    and att: "ij_attempts k = ij_attempts j + (if ie_kind ev = Event_CLAIMED then 1 else 0)"
  shows "history_ok k (evs @ [ev])"
  using assms by (auto simp: history_ok_def claims_in_def)

text \<open>
  One transition of a stored job, saved with its event: the common part of every operation but
  \<open>enqueue\<close>.
\<close>

definition recorded ::
    "(string \<Rightarrow> uuid) \<Rightarrow> ingestion_data \<Rightarrow> ingestion_job \<Rightarrow> ingestion_job_event_kind \<Rightarrow> int \<Rightarrow>
     string option \<Rightarrow> string option \<Rightarrow> ingestion_data" where
  "recorded uuid5 d k kind now w err =
     with_event (jobs_replace d k) (ij_job_id k) (next_event uuid5 (jobs_replace d k) k kind (at_utc now) w err)"

lemma jobs_get_recorded [simp]:
  "jobs_get (recorded uuid5 d k kind now w err) i = (if i = ij_job_id k then Some k else jobs_get d i)"
  by (simp add: recorded_def)

lemma jobs_events_recorded [simp]:
  "jobs_events (recorded uuid5 d k kind now w err) i =
     (if i = ij_job_id k
      then jobs_events d i @ [next_event uuid5 (jobs_replace d k) k kind (at_utc now) w err]
      else jobs_events d i)"
  by (simp add: recorded_def)

lemma queue_ok_recorded:
  assumes q: "queue_ok c d" and now: "c \<le> now"
    and j: "jobs_get d jid = Some j" and step: "job_step j k"
    and fits: "kind_fits kind (ij_status k)"
    and claim: "kind = Event_CLAIMED \<longleftrightarrow> ij_status j = Job_PENDING \<and> ij_status k = Job_RUNNING"
    and times: "opt_all (\<lambda>s. instant s \<le> now) (ij_started_at k)"
      "1 \<le> ij_attempts k \<longrightarrow> instant (ij_scheduled_at k) \<le> now"
  shows "queue_ok now (recorded uuid5 d k kind now w err)"
proof -
  have st: "stored_ok c jid j (jobs_events d jid)" using queue_okD [OF q j] .
  then have inv: "job_inv j" and jid: "ij_job_id j = jid" by (simp_all add: stored_ok_def)
  then have ok: "job_ok j" by (simp add: job_inv_def)
  have edge: "job_identity k = job_identity j"
    "ij_attempts k = ij_attempts j + (if kind = Event_CLAIMED then 1 else 0)"
    using job_step_edge [OF step ok] claim by simp_all
  then have same: "ij_job_id k = jid" "ij_created_at k = ij_created_at j"
    using jid by (simp_all add: job_identity_def)
  let ?ev = "next_event uuid5 (jobs_replace d k) k kind (at_utc now) w err"
  have "history_ok k (jobs_events d jid @ [?ev])"
    by (rule history_ok_append [where j = j])
      (use st same jid fits edge(2) in \<open>simp_all add: stored_ok_def next_event_def\<close>)
  then have "stored_ok now jid k (jobs_events d jid @ [?ev])"
    using st same times now job_inv_step [OF step inv] by (simp add: stored_ok_def)
  moreover have "dict_ok (idt_jobs (recorded uuid5 d k kind now w err))"
    using q by (simp add: recorded_def queue_ok_def replace_jobs_ok)
  moreover have "stored_ok now i i' (jobs_events d i)" if "jobs_get d i = Some i'" for i i'
    using queue_okD [OF q that] stored_ok_mono now by blast
  ultimately show ?thesis using same by (simp add: queue_ok_def)
qed

text \<open>Saving an update of a stored job and appending its event.\<close>

lemma append_after_replace:
  assumes "queue_ok c d" "jobs_get d jid = Some j" "ij_job_id k = jid" "0 \<le> ij_attempts k"
  shows "append_job_event uuid5 (jobs_replace d k) k kind (at_utc now) w err = Inr d2 \<longleftrightarrow>
    event_fields_ok kind w err \<and> d2 = recorded uuid5 d k kind now w err"
proof -
  have "ie_sequence_number (last (jobs_events d jid)) = int (length (jobs_events d jid))"
    using queue_okD [OF assms(1,2)] by (auto simp: stored_ok_def intro: history_last)
  then show ?thesis
    using assms(3,4) by (subst append_job_event_iff) (auto simp: recorded_def)
qed

lemma same_time_refl [simp]: "same_time t t"
  by (cases t) simp_all

lemma then_commit_iff:
  "with_uow (andThen (on_jobs f) then_commit) d = (Inr x, d') \<longleftrightarrow> f d = Inr (x, d')"
  by (auto simp: with_uow_then_commit split: sum.splits)

lemma then_commit_Inl:
  "with_uow (andThen (on_jobs f) then_commit) d = (Inl e, d') \<longleftrightarrow> f d = Inl e \<and> d' = d"
  by (auto simp: with_uow_then_commit split: sum.splits)

lemma stored_job_ok: "queue_ok c d \<Longrightarrow> jobs_get d jid = Some j \<Longrightarrow> job_ok j \<and> ij_job_id j = jid"
  by (auto dest: queue_okD simp: stored_ok_def job_inv_def)

lemma step_job_id: "job_step j k \<Longrightarrow> job_ok j \<Longrightarrow> ij_job_id k = ij_job_id j"
  using job_step_edge by (auto simp: job_identity_def)

lemma step_attempts: "job_step j k \<Longrightarrow> 0 \<le> ij_attempts k"
  using job_step_ok by (auto simp: job_ok_parts job_times_ok_def)

lemma owned_update:
  assumes q: "queue_ok c d" and j: "jobs_get d jid = Some j" and step: "job_step j k"
    and lease: "holds_lease j w (at_utc now)" "required_lease j = Inr l"
    and ev: "event_fields_ok kind (Some w) err"
  shows "bindE (jobs_save_owned d k w (at_utc now) l)
      (\<lambda>d1. bindE (append_job_event uuid5 d1 k kind (at_utc now) (Some w) err) g)
    = g (recorded uuid5 d k kind now (Some w) err)"
proof -
  have ok: "job_ok j" "ij_job_id j = jid" using stored_job_ok [OF q j] by simp_all
  then have id: "ij_job_id k = jid" using step_job_id [OF step] by simp
  have "jobs_save_owned d k w (at_utc now) l = Inr (jobs_replace d k)"
    using lease j id
    by (cases "ij_lease_expires_at j")
      (auto simp: jobs_save_owned_def holds_lease_def opt_holds_def required_lease_def)
  moreover have "append_job_event uuid5 (jobs_replace d k) k kind (at_utc now) (Some w) err
      = Inr (recorded uuid5 d k kind now (Some w) err)"
    using append_after_replace [OF q j id step_attempts [OF step]] ev by simp
  ultimately show ?thesis by simp
qed

lemma holds_lease_required: "holds_lease j w now \<Longrightarrow> \<exists>l. required_lease j = Inr l"
  by (cases "ij_lease_expires_at j") (auto simp: holds_lease_def opt_holds_def required_lease_def)

lemma worker_event_ok:
  "holds_lease j w now \<Longrightarrow> kind \<in> {Event_HEARTBEAT, Event_SUCCEEDED} \<Longrightarrow> event_fields_ok kind (Some w) None"
  "holds_lease j w now \<Longrightarrow> allowed_code code \<Longrightarrow> kind \<in> {Event_FAILED, Event_RETRIED} \<Longrightarrow>
    event_fields_ok kind (Some w) (Some code)"
  by (auto simp: holds_lease_def event_fields_ok_def)

lemma svc_succeed_iff:
  assumes q: "queue_ok c d"
  shows "svc_succeed uuid5 now jid w d = (Inr k, d') \<longleftrightarrow>
    (\<exists>j. jobs_get d jid = Some j \<and> job_succeed j w (at_utc now) = Inr k
       \<and> d' = recorded uuid5 d k Event_SUCCEEDED now (Some w) None)"
proof (cases "jobs_get d jid")
  case None
  then show ?thesis by (simp add: svc_succeed_def then_commit_iff required_job_def)
next
  case (Some j)
  show ?thesis
  proof (cases "job_succeed j w (at_utc now)")
    case (Inl e)
    then show ?thesis
      using Some by (auto simp: svc_succeed_def then_commit_iff required_job_def result_simps)
  next
    case (Inr k')
    have h: "holds_lease j w (at_utc now)"
      using Inr stored_job_ok [OF q Some] by (simp add: job_succeed_iff)
    obtain l where "required_lease j = Inr l" using holds_lease_required [OF h] by blast
    with owned_update [OF q Some step_succeed [OF Inr] h this worker_event_ok(1) [OF h]]
    show ?thesis
      using Some Inr by (auto simp: svc_succeed_def then_commit_iff required_job_def)
  qed
qed

lemma svc_heartbeat_iff:
  assumes q: "queue_ok c d"
  shows "svc_heartbeat cfg uuid5 now jid w d = (Inr k, d') \<longleftrightarrow>
    (\<exists>j l. jobs_get d jid = Some j \<and> ij_lease_expires_at j = Some l
       \<and> job_heartbeat j w (at_utc now) (shift_time l (cfg_heartbeat_extension cfg)) = Inr k
       \<and> d' = recorded uuid5 d k Event_HEARTBEAT now (Some w) None)"
proof (cases "jobs_get d jid")
  case None
  then show ?thesis by (simp add: svc_heartbeat_def then_commit_iff required_job_def)
next
  case (Some j)
  show ?thesis
  proof (cases "ij_lease_expires_at j")
    case None
    then show ?thesis
      using Some by (auto simp: svc_heartbeat_def then_commit_iff required_job_def required_lease_def)
  next
    case l: (Some l)
    then have r: "required_lease j = Inr l" by (simp add: required_lease_def)
    show ?thesis
    proof (cases "job_heartbeat j w (at_utc now) (shift_time l (cfg_heartbeat_extension cfg))")
      case (Inl e)
      then show ?thesis
        using Some l r by (auto simp: svc_heartbeat_def then_commit_iff required_job_def)
    next
      case (Inr k')
      have h: "holds_lease j w (at_utc now)"
        using Inr stored_job_ok [OF q Some] by (simp add: job_heartbeat_iff)
      show ?thesis
        using Some Inr l r owned_update [OF q Some step_heartbeat [OF Inr] h r worker_event_ok(1) [OF h]]
        by (auto simp: svc_heartbeat_def then_commit_iff required_job_def)
    qed
  qed
qed

text \<open>What \<open>fail_or_retry\<close> computes from the stored job: the updated job and the event kind.\<close>

definition fail_or_retry_job ::
    "ingestion_config \<Rightarrow> int \<Rightarrow> string \<Rightarrow> string \<Rightarrow> ingestion_job \<Rightarrow>
     (ingestion_job \<times> ingestion_job_event_kind) result" where
  "fail_or_retry_job cfg now w code j =
     (if ij_attempts j \<ge> ij_max_attempts j
      then bindE (job_fail j w (at_utc now) code) (\<lambda>u. Inr (u, Event_FAILED))
      else bindE (job_retry j w (at_utc now) (at_utc (now + retry_delay cfg (ij_attempts j))) code)
        (\<lambda>u. Inr (u, Event_RETRIED)))"

lemma fail_or_retry_job_facts:
  assumes "fail_or_retry_job cfg now w code j = Inr (k, kind)" and ok: "job_ok j"
  shows "job_step j k \<and> holds_lease j w (at_utc now) \<and> allowed_code code
    \<and> kind \<in> {Event_FAILED, Event_RETRIED} \<and> kind_fits kind (ij_status k)"
  using assms(1)
  by (auto simp: fail_or_retry_job_def result_simps kind_fits_def intro: step_fail step_retry split: if_splits)
    (auto simp: job_fail_iff [OF ok] job_retry_iff [OF ok] finished_job_def released_job_def split: if_splits)

lemma svc_fail_or_retry_iff:
  assumes q: "queue_ok c d"
  shows "svc_fail_or_retry cfg uuid5 now jid w code d = (Inr k, d') \<longleftrightarrow>
    (\<exists>j kind. jobs_get d jid = Some j \<and> fail_or_retry_job cfg now w code j = Inr (k, kind)
       \<and> d' = recorded uuid5 d k kind now (Some w) (Some code))"
proof (cases "allowed_code code")
  case False
  then show ?thesis
    using fail_or_retry_job_facts stored_job_ok [OF q]
    by (fastforce simp: svc_fail_or_retry_def raise_def)
next
  case code: True
  show ?thesis
  proof (cases "jobs_get d jid")
    case None
    then show ?thesis using code by (simp add: svc_fail_or_retry_def then_commit_iff required_job_def)
  next
    case (Some j)
    show ?thesis
    proof (cases "fail_or_retry_job cfg now w code j")
      case (Inl e)
      then show ?thesis
        using Some code
        by (auto simp: svc_fail_or_retry_def then_commit_iff required_job_def result_simps
            fail_or_retry_job_def split: if_splits)
    next
      case (Inr p)
      obtain k' kind where p: "p = (k', kind)" by (cases p)
      have f: "job_step j k'" "holds_lease j w (at_utc now)" "kind \<in> {Event_FAILED, Event_RETRIED}"
        using fail_or_retry_job_facts [OF Inr [unfolded p]] stored_job_ok [OF q Some] by simp_all
      obtain l where r: "required_lease j = Inr l" using holds_lease_required [OF f(2)] by blast
      note upd = owned_update [OF q Some f(1,2) r worker_event_ok(2) [OF f(2) code f(3)]]
      show ?thesis
        using Some code Inr p upd
        unfolding svc_fail_or_retry_def fail_or_retry_job_def [symmetric]
        by (auto simp: then_commit_iff required_job_def r)
    qed
  qed
qed

lemma svc_cancel_iff:
  assumes q: "queue_ok c d"
  shows "svc_cancel uuid5 now jid d = (Inr k, d') \<longleftrightarrow>
    (\<exists>j. jobs_get d jid = Some j \<and> job_cancel j (at_utc now) = Inr k
       \<and> d' = recorded uuid5 d k Event_CANCELLED now None None)"
proof (cases "jobs_get d jid")
  case None
  then show ?thesis by (simp add: svc_cancel_def then_commit_iff required_job_def)
next
  case (Some j)
  have ok: "job_ok j" "ij_job_id j = jid" using stored_job_ok [OF q Some] by simp_all
  show ?thesis
  proof (cases "job_cancel j (at_utc now)")
    case (Inl e)
    then show ?thesis
      using Some by (auto simp: svc_cancel_def then_commit_iff required_job_def result_simps)
  next
    case (Inr k')
    have step: "job_step j k'" using step_cancel [OF Inr] .
    then have id: "ij_job_id k' = jid" using step_job_id ok by simp
    have "jobs_save_pending d k' = Inr (jobs_replace d k')"
      using Inr Some id by (simp add: jobs_save_pending_def job_cancel_iff [OF ok(1)])
    then show ?thesis
      using Some Inr append_after_replace [OF q Some id step_attempts [OF step]]
      by (auto simp: svc_cancel_def then_commit_iff required_job_def bindE_eq_Inr event_fields_ok_def)
  qed
qed

lemma svc_reclaim_iff:
  assumes q: "queue_ok c d"
  shows "svc_reclaim_expired cfg uuid5 now jid d = (Inr k, d') \<longleftrightarrow>
    (\<exists>j. jobs_get d jid = Some j
       \<and> job_reclaim j (at_utc now) (at_utc (now + cfg_retry_base_delay cfg)) = Inr k
       \<and> d' = recorded uuid5 d k Event_RECLAIMED now None (ij_last_error_code k))"
proof (cases "jobs_get d jid")
  case None
  then show ?thesis by (simp add: svc_reclaim_expired_def then_commit_iff required_job_def)
next
  case (Some j)
  have ok: "job_ok j" "ij_job_id j = jid" using stored_job_ok [OF q Some] by simp_all
  show ?thesis
  proof (cases "job_reclaim j (at_utc now) (at_utc (now + cfg_retry_base_delay cfg))")
    case (Inl e)
    then show ?thesis
      using Some by (auto simp: svc_reclaim_expired_def then_commit_iff required_job_def result_simps)
  next
    case (Inr k')
    have step: "job_step j k'" using step_reclaim [OF Inr] .
    then have id: "ij_job_id k' = jid" using step_job_id ok by simp
    from Inr obtain l where l: "ij_lease_expires_at j = Some l" "instant l \<le> now"
      "ij_status j = Job_RUNNING" "\<exists>c. ij_last_error_code k' = Some c \<and> allowed_code c"
      by (auto simp: job_reclaim_iff [OF ok(1)] opt_holds_opt_all released_job_def finished_job_def
          split: if_splits option.splits) (cases "ij_lease_expires_at j"; force)+
    then have "jobs_save_reclaimed d k' (at_utc now) l = Inr (jobs_replace d k')"
      using Some id by (simp add: jobs_save_reclaimed_def)
    then show ?thesis
      using Some Inr l append_after_replace [OF q Some id step_attempts [OF step]]
      by (auto simp: svc_reclaim_expired_def then_commit_iff required_job_def bindE_eq_Inr
          event_fields_ok_def required_lease_def)
  qed
qed

text \<open>The waiting jobs that are due, in the order in which they are taken.\<close>

definition due_jobs :: "ingestion_data \<Rightarrow> int \<Rightarrow> ingestion_job list" where
  "due_jobs d now = sort_key claim_key (filter (is_due (at_utc now)) (dict_values (idt_jobs d)))"

lemma due_job_stored:
  assumes "queue_ok c d" "j \<in> set (due_jobs d now)"
  shows "jobs_get d (ij_job_id j) = Some j \<and> is_due (at_utc now) j"
proof -
  have d: "dict_ok (idt_jobs d)" using assms(1) by (simp add: queue_ok_def)
  have j: "j \<in> set (dict_values (idt_jobs d))" "is_due (at_utc now) j"
    using assms(2) by (simp_all add: due_jobs_def)
  from dict_values_get [OF d j(1)] obtain i where i: "jobs_get d i = Some j"
    unfolding jobs_get_def by blast
  with stored_job_ok [OF assms(1) i] j(2) show ?thesis by simp
qed

lemma due_jobs_mem: "jobs_get d i = Some j \<Longrightarrow> is_due (at_utc now) j \<Longrightarrow> j \<in> set (due_jobs d now)"
  unfolding jobs_get_def due_jobs_def using dict_get_in_values by fastforce

lemma svc_claim_next_iff:
  assumes q: "queue_ok c d"
  shows "svc_claim_next cfg uuid5 now w d = (Inr r, d') \<longleftrightarrow>
    (case due_jobs d now of
       [] \<Rightarrow> r = None \<and> d' = d
     | j # js \<Rightarrow> \<exists>k. job_claim j w (at_utc now) (at_utc (now + cfg_lease_duration cfg)) = Inr k
         \<and> r = Some k \<and> d' = recorded uuid5 d k Event_CLAIMED now (Some w) None)"
proof -
  let ?f = "\<lambda>d. bindE (jobs_claim_next d w (at_utc now) (at_utc (now + cfg_lease_duration cfg))) (\<lambda>(job, d1).
           case job of
             None \<Rightarrow> Inr (None, d1)
           | Some j \<Rightarrow> bindE (append_job_event uuid5 d1 j Event_CLAIMED (at_utc now) (Some w) None)
               (\<lambda>d2. Inr (Some j, d2)))"
  have svc: "svc_claim_next cfg uuid5 now w d = (case ?f d of
      Inl e \<Rightarrow> (Inl e, d) | Inr (x, d') \<Rightarrow> (Inr x, if x \<noteq> None then d' else d))"
  proof (cases "?f d")
    case (Inr p)
    obtain x d1 where p: "p = (x, d1)" by (cases p)
    show ?thesis
      using Inr
      by (cases x) (simp_all add: svc_claim_next_def p then_commit_def uow.within_return [where y = None]
          uow.within_commit [where y = x])
  qed (simp add: svc_claim_next_def uow.within_raise)
  show ?thesis
  proof (cases "due_jobs d now")
    case Nil
    then show ?thesis by (auto simp: svc jobs_claim_next_def due_jobs_def)
  next
    case (Cons j js)
    then have c: "jobs_claim_next d w t l = bindE (job_claim j w t l) (\<lambda>k. Inr (Some k, jobs_replace d k))"
      if "t = at_utc now" for t l
      using that by (simp add: jobs_claim_next_def due_jobs_def)
    have j: "jobs_get d (ij_job_id j) = Some j" using due_job_stored [OF q, of j now] Cons by simp
    show ?thesis
    proof (cases "job_claim j w (at_utc now) (at_utc (now + cfg_lease_duration cfg))")
      case (Inl e)
      then show ?thesis by (simp add: svc c Cons)
    next
      case (Inr k)
      have step: "job_step j k" using step_claim [OF Inr] .
      then have id: "ij_job_id k = ij_job_id j" using step_job_id stored_job_ok [OF q j] by blast
      have "event_fields_ok Event_CLAIMED (Some w) None"
        using Inr stored_job_ok [OF q j] by (simp add: job_claim_iff event_fields_ok_def)
      then have "append_job_event uuid5 (jobs_replace d k) k Event_CLAIMED (at_utc now) (Some w) None
          = Inr (recorded uuid5 d k Event_CLAIMED now (Some w) None)"
        using append_after_replace [OF q j id step_attempts [OF step]] by simp
      with Inr show ?thesis by (auto simp: svc c Cons)
    qed
  qed
qed

lemma svc_enqueue_iff:
  assumes "new = new_ingestion_job cfg sha256hex uuid5 now c"
  shows "svc_enqueue cfg sha256hex uuid5 now c d = (Inr j, d') \<longleftrightarrow>
    job_ok new \<and> (case jobs_get_by_key d (ij_idempotency_key new) of
       Some old \<Rightarrow> j = old \<and> d' = d
     | None \<Rightarrow> j = new \<and> d' = with_event (snd (jobs_add d new)) (ij_job_id new)
         (next_event uuid5 (snd (jobs_add d new)) new Event_ENQUEUED (at_utc now) None None))"
proof (cases "job_ok new")
  case False
  then show ?thesis
    using assms by (auto simp: svc_enqueue_def andThen_lift job_post_init_iff split: sum.splits)
next
  case True
  have ok: "job_post_init new = Inr new" using True by (simp add: job_post_init_iff)
  show ?thesis
  proof (cases "jobs_get_by_key d (ij_idempotency_key new)")
    case (Some old)
    then show ?thesis
      using True ok assms [symmetric]
      by (auto simp: svc_enqueue_def andThen_lift uow.within_return [where y = old])
  next
    case None
    obtain d1 where add: "jobs_add d new = (new, d1)" using None by (simp add: jobs_add_def)
    then have empty: "jobs_events d1 (ij_job_id new) = []"
      using None by (auto simp: jobs_add_def jobs_events_def dict_simps)
    have att: "ij_attempts new = 0" by (simp add: assms new_ingestion_job_def)
    have "append_job_event uuid5 d1 new Event_ENQUEUED (at_utc now) None None
        = Inr (with_event d1 (ij_job_id new) (next_event uuid5 d1 new Event_ENQUEUED (at_utc now) None None))"
      using append_job_event_iff [of d1 new] empty att by (simp add: event_fields_ok_def)
    then show ?thesis
      using True ok assms [symmetric] None add
      by (auto simp: svc_enqueue_def andThen_lift then_commit_def uow.within_commit [where y = new])
  qed
qed

section \<open>Reachable queues\<close>

text \<open>
  A state is the current time with the committed data; the clock never runs backwards.  A step is
  one service call, whatever it returns.
\<close>

inductive queue_step ::
    "ingestion_config \<Rightarrow> (string \<Rightarrow> string) \<Rightarrow> (string \<Rightarrow> uuid) \<Rightarrow>
     int \<times> ingestion_data \<Rightarrow> int \<times> ingestion_data \<Rightarrow> bool"
  for cfg sha256hex uuid5 where
  q_enqueue: "c \<le> now \<Longrightarrow> svc_enqueue cfg sha256hex uuid5 now cmd d = (r, d') \<Longrightarrow>
    queue_step cfg sha256hex uuid5 (c, d) (now, d')"
| q_claim: "c \<le> now \<Longrightarrow> svc_claim_next cfg uuid5 now w d = (r', d') \<Longrightarrow>
    queue_step cfg sha256hex uuid5 (c, d) (now, d')"
| q_heartbeat: "c \<le> now \<Longrightarrow> svc_heartbeat cfg uuid5 now jid w d = (r, d') \<Longrightarrow>
    queue_step cfg sha256hex uuid5 (c, d) (now, d')"
| q_succeed: "c \<le> now \<Longrightarrow> svc_succeed uuid5 now jid w d = (r, d') \<Longrightarrow>
    queue_step cfg sha256hex uuid5 (c, d) (now, d')"
| q_fail: "c \<le> now \<Longrightarrow> svc_fail_or_retry cfg uuid5 now jid w code d = (r, d') \<Longrightarrow>
    queue_step cfg sha256hex uuid5 (c, d) (now, d')"
| q_cancel: "c \<le> now \<Longrightarrow> svc_cancel uuid5 now jid d = (r, d') \<Longrightarrow>
    queue_step cfg sha256hex uuid5 (c, d) (now, d')"
| q_reclaim: "c \<le> now \<Longrightarrow> svc_reclaim_expired cfg uuid5 now jid d = (r, d') \<Longrightarrow>
    queue_step cfg sha256hex uuid5 (c, d) (now, d')"

text \<open>A call that raises leaves the committed data as they were, whatever the state.\<close>

lemma svc_error_unchanged:
  "svc_enqueue cfg sha256hex uuid5 now cmd d = (Inl e, d') \<Longrightarrow> d' = d"
  "svc_claim_next cfg uuid5 now w d = (Inl e, d') \<Longrightarrow> d' = d"
  "svc_heartbeat cfg uuid5 now jid w d = (Inl e, d') \<Longrightarrow> d' = d"
  "svc_succeed uuid5 now jid w d = (Inl e, d') \<Longrightarrow> d' = d"
  "svc_fail_or_retry cfg uuid5 now jid w code d = (Inl e, d') \<Longrightarrow> d' = d"
  "svc_cancel uuid5 now jid d = (Inl e, d') \<Longrightarrow> d' = d"
  "svc_reclaim_expired cfg uuid5 now jid d = (Inl e, d') \<Longrightarrow> d' = d"
proof -
  have enq: "(\<lambda>(commits, j). if commits then then_commit j else ret j)
      = (\<lambda>x. if fst x then andThen uow_commit (\<lambda>_. ret (snd x)) else ret (snd x))"
    by (auto simp: then_commit_def)
  show "svc_enqueue cfg sha256hex uuid5 now cmd d = (Inl e, d') \<Longrightarrow> d' = d"
    unfolding svc_enqueue_def enq andThen_lift uow.optional_transaction
    by (auto split: sum.splits)
  have claim: "(\<lambda>job. if job = None then ret None else then_commit job)
      = (\<lambda>x. if x \<noteq> None then andThen uow_commit (\<lambda>_. ret x) else ret x)"
    by (rule ext) (auto simp: then_commit_def)
  show "svc_claim_next cfg uuid5 now w d = (Inl e, d') \<Longrightarrow> d' = d"
    unfolding svc_claim_next_def claim uow.optional_transaction
    by (auto split: sum.splits)
qed (auto simp: svc_defs then_commit_Inl raise_def split: if_splits)

lemma queue_ok_enqueue:
  assumes q: "queue_ok c d" "c \<le> now"
    and e: "svc_enqueue cfg sha256hex uuid5 now cmd d = (Inr j, d')"
  shows "queue_ok now d'"
proof -
  let ?new = "new_ingestion_job cfg sha256hex uuid5 now cmd"
  let ?d1 = "snd (jobs_add d ?new)"
  show ?thesis
  proof (cases "jobs_get_by_key d (ij_idempotency_key ?new)")
    case (Some old)
    then show ?thesis using e q by (simp add: svc_enqueue_iff queue_ok_mono)
  next
    case None
    let ?ev = "next_event uuid5 ?d1 ?new Event_ENQUEUED (at_utc now) None None"
    have ok: "job_ok ?new" and d': "d' = with_event ?d1 (ij_job_id ?new) ?ev"
      using e None by (simp_all add: svc_enqueue_iff)
    have d1: "jobs_get ?d1 i = (if i = ij_job_id ?new then Some ?new else jobs_get d i)"
      "jobs_events ?d1 i = (if i = ij_job_id ?new then [] else jobs_events d i)"
      "dict_ok (idt_jobs ?d1)" for i
      using None q(1) by (auto simp: jobs_add_def jobs_get_def jobs_events_def queue_ok_def dict_simps)
    have new: "ij_status ?new = Job_PENDING" "ij_attempts ?new = 0" "ij_started_at ?new = None"
      "ij_created_at ?new = at_utc now"
      by (simp_all add: new_ingestion_job_def)
    have "history_ok ?new [?ev]"
      using new d1(2) by (simp add: history_ok_def next_event_def kind_fits_def claims_in_def)
    then have "stored_ok now (ij_job_id ?new) ?new [?ev]"
      using new job_inv_fresh [OF ok] by (simp add: stored_ok_def)
    moreover have "stored_ok now i i' (jobs_events d i)" if "jobs_get d i = Some i'" for i i'
      using queue_okD [OF q(1) that] stored_ok_mono q(2) by blast
    ultimately show ?thesis using d1 by (auto simp: queue_ok_def d')
  qed
qed

lemma stored_times:
  assumes "queue_ok c d" "jobs_get d jid = Some j" "c \<le> now"
  shows "opt_all (\<lambda>s. instant s \<le> now) (ij_started_at j)"
    and "1 \<le> ij_attempts j \<longrightarrow> instant (ij_scheduled_at j) \<le> now"
  using stored_ok_mono [OF queue_okD [OF assms(1,2)] assms(3)] by (simp_all add: stored_ok_def)

lemma held_attempts: "holds_lease j w now \<Longrightarrow> job_ok j \<Longrightarrow> 1 \<le> ij_attempts j"
  by (simp add: holds_lease_def job_ok_parts job_status_ok_def)

text \<open>A stored job updated by a transition that does not start an attempt.\<close>

lemma queue_ok_kept:
  assumes q: "queue_ok c d" "c \<le> now" "jobs_get d jid = Some j" and step: "job_step j k"
    and fits: "kind_fits kind (ij_status k)" "kind \<noteq> Event_CLAIMED"
    and same: "ij_started_at k = ij_started_at j" "\<not> (ij_status j = Job_PENDING \<and> ij_status k = Job_RUNNING)"
  shows "queue_ok now (recorded uuid5 d k kind now w err)"
proof (rule queue_ok_recorded [OF q step fits(1)])
  have ok: "job_ok j" using stored_job_ok [OF q(1,3)] by simp
  have e: "ij_attempts k = ij_attempts j" "ij_scheduled_at k = ij_scheduled_at j"
    using job_step_edge [OF step ok] same(2) by (auto simp: job_identity_def)
  show "kind = Event_CLAIMED \<longleftrightarrow> ij_status j = Job_PENDING \<and> ij_status k = Job_RUNNING"
    using fits(2) same(2) by blast
  show "opt_all (\<lambda>s. instant s \<le> now) (ij_started_at k)"
    "1 \<le> ij_attempts k \<longrightarrow> instant (ij_scheduled_at k) \<le> now"
    using stored_times [OF q(1,3,2)] by (simp_all add: e same(1))
qed

lemma queue_ok_operations:
  assumes q: "queue_ok c d" "c \<le> now"
  shows "svc_claim_next cfg uuid5 now w d = (Inr r, d') \<Longrightarrow> queue_ok now d'"
    and "svc_heartbeat cfg uuid5 now jid w d = (Inr k, d') \<Longrightarrow> queue_ok now d'"
    and "svc_succeed uuid5 now jid w d = (Inr k, d') \<Longrightarrow> queue_ok now d'"
    and "svc_fail_or_retry cfg uuid5 now jid w code d = (Inr k, d') \<Longrightarrow> queue_ok now d'"
    and "svc_cancel uuid5 now jid d = (Inr k, d') \<Longrightarrow> queue_ok now d'"
    and "svc_reclaim_expired cfg uuid5 now jid d = (Inr k, d') \<Longrightarrow> queue_ok now d'"
proof -
  note kept = queue_ok_kept [OF q]
  {
    assume *: "svc_claim_next cfg uuid5 now w d = (Inr r, d')"
    show "queue_ok now d'"
    proof (cases "due_jobs d now")
      case Nil
      then show ?thesis using * q by (simp add: svc_claim_next_iff [OF q(1)] queue_ok_mono)
    next
      case (Cons j js)
      then obtain k where k: "job_claim j w (at_utc now) (at_utc (now + cfg_lease_duration cfg)) = Inr k"
        and d': "d' = recorded uuid5 d k Event_CLAIMED now (Some w) None"
        using * by (auto simp: svc_claim_next_iff [OF q(1)])
      have j: "jobs_get d (ij_job_id j) = Some j" "is_due (at_utc now) j"
        using due_job_stored [OF q(1), of j now] Cons by simp_all
      have ok: "job_ok j" using stored_job_ok [OF q(1) j(1)] by simp
      have e: "ij_status j = Job_PENDING" "k = claimed_job j w (at_utc now) (at_utc (now + cfg_lease_duration cfg))"
        using k by (simp_all add: job_claim_iff [OF ok])
      show ?thesis
        unfolding d'
        by (rule queue_ok_recorded [OF q j(1) step_claim [OF k]])
          (use e j(2) stored_times [OF q(1) j(1) q(2)] in
            \<open>auto simp: kind_fits_def claimed_job_def is_due_def split: option.splits\<close>)
    qed
  next
    assume "svc_heartbeat cfg uuid5 now jid w d = (Inr k, d')"
    then obtain j l where j: "jobs_get d jid = Some j"
      and k: "job_heartbeat j w (at_utc now) (shift_time l (cfg_heartbeat_extension cfg)) = Inr k"
      and d': "d' = recorded uuid5 d k Event_HEARTBEAT now (Some w) None"
      by (auto simp: svc_heartbeat_iff [OF q(1)])
    have ok: "job_ok j" using stored_job_ok [OF q(1) j] by simp
    show "queue_ok now d'"
      unfolding d' by (rule kept [OF j step_heartbeat [OF k]])
        (use k in \<open>auto simp: job_heartbeat_iff [OF ok] holds_lease_def kind_fits_def\<close>)
  next
    assume "svc_succeed uuid5 now jid w d = (Inr k, d')"
    then obtain j where j: "jobs_get d jid = Some j" and k: "job_succeed j w (at_utc now) = Inr k"
      and d': "d' = recorded uuid5 d k Event_SUCCEEDED now (Some w) None"
      by (auto simp: svc_succeed_iff [OF q(1)])
    have ok: "job_ok j" using stored_job_ok [OF q(1) j] by simp
    show "queue_ok now d'"
      unfolding d' by (rule kept [OF j step_succeed [OF k]])
        (use k in \<open>auto simp: job_succeed_iff [OF ok] finished_job_def kind_fits_def\<close>)
  next
    assume "svc_fail_or_retry cfg uuid5 now jid w code d = (Inr k, d')"
    then obtain j kind where j: "jobs_get d jid = Some j"
      and k: "fail_or_retry_job cfg now w code j = Inr (k, kind)"
      and d': "d' = recorded uuid5 d k kind now (Some w) (Some code)"
      by (auto simp: svc_fail_or_retry_iff [OF q(1)])
    have ok: "job_ok j" using stored_job_ok [OF q(1) j] by simp
    show "queue_ok now d'"
      unfolding d' using fail_or_retry_job_facts [OF k ok] k
      by (intro kept [OF j])
        (auto simp: fail_or_retry_job_def result_simps job_fail_iff [OF ok] job_retry_iff [OF ok]
          finished_job_def released_job_def holds_lease_def split: if_splits)
  next
    assume "svc_cancel uuid5 now jid d = (Inr k, d')"
    then obtain j where j: "jobs_get d jid = Some j" and k: "job_cancel j (at_utc now) = Inr k"
      and d': "d' = recorded uuid5 d k Event_CANCELLED now None None"
      by (auto simp: svc_cancel_iff [OF q(1)])
    have ok: "job_ok j" using stored_job_ok [OF q(1) j] by simp
    show "queue_ok now d'"
      unfolding d' by (rule kept [OF j step_cancel [OF k]])
        (use k in \<open>auto simp: job_cancel_iff [OF ok] cancelled_job_def kind_fits_def\<close>)
  next
    assume "svc_reclaim_expired cfg uuid5 now jid d = (Inr k, d')"
    then obtain j where j: "jobs_get d jid = Some j"
      and k: "job_reclaim j (at_utc now) (at_utc (now + cfg_retry_base_delay cfg)) = Inr k"
      and d': "d' = recorded uuid5 d k Event_RECLAIMED now None (ij_last_error_code k)"
      by (auto simp: svc_reclaim_iff [OF q(1)])
    have ok: "job_ok j" using stored_job_ok [OF q(1) j] by simp
    show "queue_ok now d'"
      unfolding d' by (rule kept [OF j step_reclaim [OF k]])
        (use k in \<open>auto simp: job_reclaim_iff [OF ok] finished_job_def released_job_def kind_fits_def
          split: if_splits\<close>)
  }
qed

definition queue_init :: "int \<times> ingestion_data \<Rightarrow> bool" where
  "queue_init s = (snd s = empty_ingestion_data)"

definition queue_inv :: "int \<times> ingestion_data \<Rightarrow> bool" where
  "queue_inv s = queue_ok (fst s) (snd s)"

lemma svc_keeps_queue_ok:
  assumes q: "queue_ok c d" "c \<le> now"
  shows "svc_enqueue cfg sha256hex uuid5 now cmd d = (r, d') \<Longrightarrow> queue_ok now d'"
    and "svc_claim_next cfg uuid5 now w d = (r1, d') \<Longrightarrow> queue_ok now d'"
    and "svc_heartbeat cfg uuid5 now jid w d = (r, d') \<Longrightarrow> queue_ok now d'"
    and "svc_succeed uuid5 now jid w d = (r, d') \<Longrightarrow> queue_ok now d'"
    and "svc_fail_or_retry cfg uuid5 now jid w code d = (r, d') \<Longrightarrow> queue_ok now d'"
    and "svc_cancel uuid5 now jid d = (r, d') \<Longrightarrow> queue_ok now d'"
    and "svc_reclaim_expired cfg uuid5 now jid d = (r, d') \<Longrightarrow> queue_ok now d'"
proof -
  note same = queue_ok_mono [OF q]
  show "svc_enqueue cfg sha256hex uuid5 now cmd d = (r, d') \<Longrightarrow> queue_ok now d'"
    using queue_ok_enqueue [OF q] svc_error_unchanged(1) same by (cases r) blast+
  show "svc_claim_next cfg uuid5 now w d = (r1, d') \<Longrightarrow> queue_ok now d'"
    using queue_ok_operations(1) [OF q] svc_error_unchanged(2) same by (cases r1) blast+
  show "svc_heartbeat cfg uuid5 now jid w d = (r, d') \<Longrightarrow> queue_ok now d'"
    using queue_ok_operations(2) [OF q] svc_error_unchanged(3) same by (cases r) blast+
  show "svc_succeed uuid5 now jid w d = (r, d') \<Longrightarrow> queue_ok now d'"
    using queue_ok_operations(3) [OF q] svc_error_unchanged(4) same by (cases r) blast+
  show "svc_fail_or_retry cfg uuid5 now jid w code d = (r, d') \<Longrightarrow> queue_ok now d'"
    using queue_ok_operations(4) [OF q] svc_error_unchanged(5) same by (cases r) blast+
  show "svc_cancel uuid5 now jid d = (r, d') \<Longrightarrow> queue_ok now d'"
    using queue_ok_operations(5) [OF q] svc_error_unchanged(6) same by (cases r) blast+
  show "svc_reclaim_expired cfg uuid5 now jid d = (r, d') \<Longrightarrow> queue_ok now d'"
    using queue_ok_operations(6) [OF q] svc_error_unchanged(7) same by (cases r) blast+
qed

lemma queue_step_inv:
  assumes "queue_step cfg sha256hex uuid5 s t" "queue_inv s"
  shows "queue_inv t"
  using assms by cases (auto simp: queue_inv_def intro: svc_keeps_queue_ok)

interpretation queue: invariant_system queue_init "queue_step cfg sha256hex uuid5" queue_inv
  for cfg sha256hex uuid5
  by unfold_locales (simp add: queue_init_def queue_inv_def queue_ok_empty, rule queue_step_inv)

section \<open>Examples\<close>

definition demo_sha :: "string \<Rightarrow> string" where
  "demo_sha s = replicate 64 (CHR ''a'')"

definition demo_uuid5 :: "string \<Rightarrow> uuid" where
  "demo_uuid5 s = length s"

definition demo_command :: enqueue_command where
  "demo_command = \<lparr>eq_kind = VECTOR_INDEX, eq_series_id = 1, eq_source_fingerprint = replicate 64 (CHR ''0''),
     eq_pipeline_revision = ''rev-1'', eq_season_number = Some 1, eq_episode_number = Some 2,
     eq_priority = 5, eq_scheduled_at = None, eq_max_attempts = None\<rparr>"

abbreviation demo_cfg :: ingestion_config where
  "demo_cfg \<equiv> DEFAULT_INGESTION_JOB_CONFIGURATION"

definition demo_new :: ingestion_job where
  "demo_new = new_ingestion_job demo_cfg demo_sha demo_uuid5 100 demo_command"

definition demo_waiting :: ingestion_data where
  "demo_waiting = snd (svc_enqueue demo_cfg demo_sha demo_uuid5 100 demo_command empty_ingestion_data)"

definition demo_leased :: ingestion_data where
  "demo_leased = snd (svc_claim_next demo_cfg demo_uuid5 200 ''worker-1'' demo_waiting)"

definition demo_held :: ingestion_job where
  "demo_held = claimed_job demo_new ''worker-1'' (at_utc 200) (at_utc 600000200)"

lemma demo_new_ok: "job_post_init demo_new = Inr demo_new" "worker_pattern ''worker-1''"
  by code_simp+

lemma demo_reach_waiting:
  "reach queue_init (queue_step demo_cfg demo_sha demo_uuid5) (100, demo_waiting)"
proof (rule reach_step)
  show "reach queue_init (queue_step demo_cfg demo_sha demo_uuid5) (0, empty_ingestion_data)"
    by (rule reach_init) (simp add: queue_init_def)
  show "queue_step demo_cfg demo_sha demo_uuid5 (0, empty_ingestion_data) (100, demo_waiting)"
    by (rule q_enqueue [where cmd = demo_command]) (simp_all add: demo_waiting_def prod_eq_iff)
qed

lemma demo_reach_leased:
  "reach queue_init (queue_step demo_cfg demo_sha demo_uuid5) (200, demo_leased)"
  by (rule reach_step [OF demo_reach_waiting], rule q_claim [where w = "''worker-1''"])
    (simp_all add: demo_leased_def prod_eq_iff)

lemma demo_waiting_get: "jobs_get demo_waiting 84 = Some demo_new"
  by code_simp

lemma demo_leased_get: "jobs_get demo_leased 84 = Some demo_held"
  by code_simp

lemma demo_due: "is_due (at_utc 200) demo_new"
  by code_simp

section \<open>Properties\<close>

lemma reachable_queue_ok:
  "reach queue_init (queue_step cfg sha256hex uuid5) (clock, d) \<Longrightarrow> queue_ok clock d"
  using queue.reach_inv [of cfg sha256hex uuid5 "(clock, d)"] by (simp add: queue_inv_def)

text \<open>
  C11: in every state the queue can reach by service calls (whatever they return, at a clock that
  never runs backwards), each stored job is valid and is stored under its identifier; a waiting
  job has an attempt left; its events are numbered 1, 2, 3, ... and start with its enqueueing; the
  last event agrees with its status; and its attempts are exactly the claims in its history.
\<close>

theorem ingestion_queue_invariant:
  assumes "reach queue_init (queue_step cfg sha256hex uuid5) (clock, d)"
    and "jobs_get d jid = Some j"
  shows "ij_job_id j = jid \<and> job_post_init j = Inr j
    \<and> (ij_status j = Job_PENDING \<longrightarrow> ij_attempts j < ij_max_attempts j)
    \<and> map ie_sequence_number (jobs_events d jid) = map (\<lambda>i. int i + 1) [0..<length (jobs_events d jid)]
    \<and> jobs_events d jid \<noteq> [] \<and> ie_kind (hd (jobs_events d jid)) = Event_ENQUEUED
    \<and> kind_fits (ie_kind (last (jobs_events d jid))) (ij_status j)
    \<and> claims_in (jobs_events d jid) = ij_attempts j"
  using queue_okD [OF reachable_queue_ok [OF assms(1)] assms(2)]
  by (simp add: stored_ok_def history_ok_def job_inv_def job_post_init_iff)

theorem ingestion_queue_invariant_witness:
  "ij_job_id demo_held = 84 \<and> claims_in (jobs_events demo_leased 84) = ij_attempts demo_held"
  using ingestion_queue_invariant [OF demo_reach_leased demo_leased_get] by simp

lemma sorted_head_least:
  assumes "sort_key f xs = y # ys" "x \<in> set xs"
  shows "f y \<le> f x"
proof -
  have "sorted (map f (y # ys))" unfolding assms(1) [symmetric] by (rule sorted_sort_key)
  moreover have "x \<in> set (y # ys)" unfolding assms(1) [symmetric] using assms(2) by simp
  ultimately show ?thesis by auto
qed

text \<open>
  C12: for a valid worker on a reachable queue, \<open>claim_next\<close> never raises: no stored job, however
  it got there, can block the queue.  When nothing is due it returns nothing and changes nothing.
  Otherwise it leases, for the configured duration, a due job that comes first under priority,
  schedule, creation time and identifier among all due jobs, counts the attempt, and changes no
  other job.
\<close>

theorem claim_next_takes_first_due_job:
  assumes "reach queue_init (queue_step cfg sha256hex uuid5) (clock, d)" "clock \<le> now"
    and "worker_pattern w" "0 < cfg_lease_duration cfg"
  shows "if \<exists>i j. jobs_get d i = Some j \<and> is_due (at_utc now) j
    then \<exists>j k d'. svc_claim_next cfg uuid5 now w d = (Inr (Some k), d')
      \<and> jobs_get d (ij_job_id j) = Some j \<and> is_due (at_utc now) j
      \<and> (\<forall>i other. jobs_get d i = Some other \<and> is_due (at_utc now) other
           \<longrightarrow> claim_key j \<le> claim_key other)
      \<and> ij_status k = Job_RUNNING \<and> ij_lease_owner k = Some w
      \<and> ij_lease_expires_at k = Some (at_utc (now + cfg_lease_duration cfg))
      \<and> ij_attempts k = ij_attempts j + 1
      \<and> jobs_get d' = (jobs_get d)(ij_job_id j \<mapsto> k)
    else svc_claim_next cfg uuid5 now w d = (Inr None, d)"
proof -
  have q: "queue_ok clock d" using reachable_queue_ok [OF assms(1)] .
  show ?thesis
  proof (cases "due_jobs d now")
    case Nil
    then have "\<not> (\<exists>i j. jobs_get d i = Some j \<and> is_due (at_utc now) j)"
      using due_jobs_mem by fastforce
    with Nil show ?thesis using svc_claim_next_iff [OF q, of cfg uuid5 now w None d] by simp
  next
    case (Cons j js)
    have j: "jobs_get d (ij_job_id j) = Some j" "is_due (at_utc now) j"
      using due_job_stored [OF q, of j now] Cons by simp_all
    have first: "claim_key j \<le> claim_key other"
      if "jobs_get d i = Some other" "is_due (at_utc now) other" for i other
      using due_jobs_mem [OF that] sorted_head_least [OF Cons [unfolded due_jobs_def]]
      by (simp add: due_jobs_def)
    have st: "stored_ok clock (ij_job_id j) j (jobs_events d (ij_job_id j))" using queue_okD [OF q j(1)] .
    let ?k = "claimed_job j w (at_utc now) (at_utc (now + cfg_lease_duration cfg))"
    have ok: "job_ok j" using stored_job_ok [OF q j(1)] by simp
    have k: "job_claim j w (at_utc now) (at_utc (now + cfg_lease_duration cfg)) = Inr ?k"
      using st j(2) assms(2-4) by (simp add: job_claim_iff [OF ok] stored_ok_def job_inv_def is_due_def)
    let ?d' = "recorded uuid5 d ?k Event_CLAIMED now (Some w) None"
    have "svc_claim_next cfg uuid5 now w d = (Inr (Some ?k), ?d')"
      using k Cons by (simp add: svc_claim_next_iff [OF q])
    moreover have "jobs_get ?d' = (jobs_get d)(ij_job_id j \<mapsto> ?k)"
      by (rule ext) (simp add: claimed_job_def)
    moreover have "ij_status ?k = Job_RUNNING" "ij_lease_owner ?k = Some w"
      "ij_lease_expires_at ?k = Some (at_utc (now + cfg_lease_duration cfg))"
      "ij_attempts ?k = ij_attempts j + 1"
      by (simp_all add: claimed_job_def)
    ultimately show ?thesis using j first by (metis (no_types, lifting))
  qed
qed

theorem claim_next_takes_first_due_job_witness:
  "\<exists>j k d'. svc_claim_next demo_cfg demo_uuid5 200 ''worker-1'' demo_waiting = (Inr (Some k), d')
     \<and> jobs_get demo_waiting (ij_job_id j) = Some j \<and> ij_lease_owner k = Some ''worker-1''"
proof -
  have "\<exists>i j. jobs_get demo_waiting i = Some j \<and> is_due (at_utc 200) j"
    using demo_waiting_get demo_due by blast
  moreover have "0 < cfg_lease_duration demo_cfg" by (simp add: DEFAULT_INGESTION_JOB_CONFIGURATION_def)
  ultimately show ?thesis
    using claim_next_takes_first_due_job [OF demo_reach_waiting, of 200 "''worker-1''"] demo_new_ok(2)
    by simp blast
qed

lemma config_ok:
  "ingestion_config_post_init cfg = Inr cfg \<Longrightarrow>
   0 < cfg_lease_duration cfg \<and> 0 < cfg_retry_base_delay cfg
   \<and> cfg_retry_base_delay cfg \<le> cfg_retry_max_delay cfg"
  by (auto simp: ingestion_config_post_init_def split: if_splits)

lemma retry_delay_bounds:
  assumes "ingestion_config_post_init cfg = Inr cfg"
  shows "cfg_retry_base_delay cfg \<le> retry_delay cfg n" "retry_delay cfg n \<le> cfg_retry_max_delay cfg"
proof -
  have b: "0 < cfg_retry_base_delay cfg" "cfg_retry_base_delay cfg \<le> cfg_retry_max_delay cfg"
    using config_ok [OF assms] by simp_all
  have "(1 :: int) \<le> 2 ^ nat (max (n - 1) 0)" by simp
  then have "cfg_retry_base_delay cfg * 1 \<le> cfg_retry_base_delay cfg * 2 ^ nat (max (n - 1) 0)"
    using b(1) by (intro mult_left_mono) simp_all
  then show "cfg_retry_base_delay cfg \<le> retry_delay cfg n" using b by (simp add: retry_delay_def)
qed (simp add: retry_delay_def)

text \<open>
  C13: on a reachable queue the worker that holds a job's unexpired lease can always report a
  failure.  While an attempt is left the job waits again, not before the exponential back-off
  \<open>min (base * 2 ^ (attempts - 1)) max\<close> has passed, a delay between the configured base and
  maximum; at the last attempt it fails for good.  The error code and an event are recorded, and
  no other job changes.
\<close>

theorem failing_worker_backs_off:
  assumes "reach queue_init (queue_step cfg sha256hex uuid5) (clock, d)" "clock \<le> now"
    and "ingestion_config_post_init cfg = Inr cfg"
    and "jobs_get d jid = Some j" "holds_lease j w (at_utc now)"
    and "code \<in> set ALLOWED_INGESTION_ERROR_CODES"
  shows "\<exists>k d'. svc_fail_or_retry cfg uuid5 now jid w code d = (Inr k, d')
    \<and> jobs_get d' = (jobs_get d)(jid \<mapsto> k) \<and> ij_last_error_code k = Some code
    \<and> ij_lease_owner k = None \<and> ij_attempts k = ij_attempts j
    \<and> length (jobs_events d' jid) = length (jobs_events d jid) + 1
    \<and> (if ij_attempts j < ij_max_attempts j
       then ij_status k = Job_PENDING
         \<and> (\<exists>delay. ij_next_attempt_at k = Some (at_utc (now + delay))
             \<and> delay = min (cfg_retry_base_delay cfg * 2 ^ nat (ij_attempts j - 1)) (cfg_retry_max_delay cfg)
             \<and> cfg_retry_base_delay cfg \<le> delay \<and> delay \<le> cfg_retry_max_delay cfg)
       else ij_status k = Job_FAILED \<and> ij_finished_at k = Some (at_utc now))"
proof -
  have q: "queue_ok clock d" using reachable_queue_ok [OF assms(1)] .
  have ok: "job_ok j" and id: "ij_job_id j = jid" using stored_job_ok [OF q assms(4)] by simp_all
  have att: "1 \<le> ij_attempts j" using held_attempts [OF assms(5) ok] .
  have times: "not_before (at_utc now) (ij_started_at j)" "instant (ij_scheduled_at j) \<le> now"
    using stored_times [OF q assms(4,2)] att by (simp_all add: not_before_def)
  let ?delay = "retry_delay cfg (ij_attempts j)"
  have delay: "cfg_retry_base_delay cfg \<le> ?delay" "?delay \<le> cfg_retry_max_delay cfg" "0 < ?delay"
    using retry_delay_bounds [OF assms(3), of "ij_attempts j"] config_ok [OF assms(3)] by linarith+
  have exact: "?delay = min (cfg_retry_base_delay cfg * 2 ^ nat (ij_attempts j - 1)) (cfg_retry_max_delay cfg)"
    using att by (simp add: retry_delay_def)
  show ?thesis
  proof (cases "ij_attempts j < ij_max_attempts j")
    case True
    let ?k = "released_job j (at_utc (now + ?delay)) code"
    have "fail_or_retry_job cfg now w code j = Inr (?k, Event_RETRIED)"
      using True assms(5,6) times delay(3)
      by (simp add: fail_or_retry_job_def bindE_eq_Inr job_retry_iff [OF ok])
    then have "svc_fail_or_retry cfg uuid5 now jid w code d
        = (Inr ?k, recorded uuid5 d ?k Event_RETRIED now (Some w) (Some code))"
      using assms(4) by (auto simp: svc_fail_or_retry_iff [OF q])
    then show ?thesis
      using True id delay exact by (auto simp: released_job_def fun_eq_iff)
  next
    case False
    let ?k = "finished_job j Job_FAILED (at_utc now) (Some code)"
    have "fail_or_retry_job cfg now w code j = Inr (?k, Event_FAILED)"
      using False assms(5,6) times
      by (simp add: fail_or_retry_job_def bindE_eq_Inr job_fail_iff [OF ok])
    then have "svc_fail_or_retry cfg uuid5 now jid w code d
        = (Inr ?k, recorded uuid5 d ?k Event_FAILED now (Some w) (Some code))"
      using assms(4) by (auto simp: svc_fail_or_retry_iff [OF q])
    then show ?thesis
      using False id by (auto simp: finished_job_def fun_eq_iff)
  qed
qed

theorem failing_worker_backs_off_witness:
  "\<exists>k d'. svc_fail_or_retry demo_cfg demo_uuid5 300 84 ''worker-1'' ''vector_index_failed'' demo_leased = (Inr k, d')
     \<and> ij_status k = Job_PENDING \<and> ij_last_error_code k = Some ''vector_index_failed''"
proof -
  have "ingestion_config_post_init demo_cfg = Inr demo_cfg" "holds_lease demo_held ''worker-1'' (at_utc 300)"
    "''vector_index_failed'' \<in> set ALLOWED_INGESTION_ERROR_CODES" "ij_attempts demo_held < ij_max_attempts demo_held"
    by code_simp+
  then show ?thesis
    using failing_worker_backs_off [OF demo_reach_leased _ _ demo_leased_get, of 300 "''worker-1''" "''vector_index_failed''"]
    by simp blast
qed



lemma colon_not_in:
  "\<not> char_in (CHR '':'') (digit_chars @ ''abcdef'')" "\<not> char_in (CHR '':'') (alnum_chars @ ''._-'')"
  "\<not> char_in (CHR '':'') alnum_chars"
  by (simp_all add: char_in_def alnum_chars_def upper_chars_def lower_chars_def digit_chars_def)

lemma sha_chars_no_colon: "sha256_pattern s \<Longrightarrow> CHR '':'' \<notin> set s"
  unfolding sha256_pattern_def list_all_iff using colon_not_in(1) by blast

lemma revision_no_colon: "revision_pattern s \<Longrightarrow> CHR '':'' \<notin> set s"
  unfolding revision_pattern_def ident_pattern_def list_all_iff
  using colon_not_in(2,3) by (cases s) auto

lemma kind_value_no_colon: "CHR '':'' \<notin> set (kind_value k)"
  by (cases k) simp_all

lemma kind_value_inj: "kind_value k = kind_value k' \<longleftrightarrow> k = k'"
  by (cases k; cases k'; simp)

lemma str_or_empty_no_colon: "CHR '':'' \<notin> set (str_or_empty n)"
  by (cases n) (simp_all add: str_or_empty_def int_str_no_colon)

lemma str_or_empty_inj:
  "opt_all (\<lambda>i. 1 \<le> i) m \<Longrightarrow> opt_all (\<lambda>i. 1 \<le> i) n \<Longrightarrow> str_or_empty m = str_or_empty n \<longleftrightarrow> m = n"
  by (cases m; cases n)
    (use int_str_nonempty int_str_nonempty [symmetric] in \<open>auto simp: str_or_empty_def int_str_inj\<close>)

text \<open>
  The text behind an idempotency key identifies the work: two commands the service accepts
  have the same text only if they agree in kind, series, season, episode, source fingerprint and
  pipeline revision.  (Priority, schedule and attempt limit are not part of the work.)
\<close>

theorem idempotency_key_identifies_work:
  assumes "raw_idempotency_key c = raw_idempotency_key c'"
    and "job_post_init (new_ingestion_job cfg sha256hex uuid5 now c) = Inr j"
    and "job_post_init (new_ingestion_job cfg sha256hex uuid5 now' c') = Inr j'"
    and "eq_series_id c < 2 ^ 128" "eq_series_id c' < 2 ^ 128"
  shows "eq_kind c = eq_kind c' \<and> eq_series_id c = eq_series_id c'
    \<and> eq_season_number c = eq_season_number c' \<and> eq_episode_number c = eq_episode_number c'
    \<and> eq_source_fingerprint c = eq_source_fingerprint c'
    \<and> eq_pipeline_revision c = eq_pipeline_revision c'"
proof -
  let ?parts = "\<lambda>c. [''cinegraph-ingestion-v1'', kind_value (eq_kind c), uuid_str (eq_series_id c),
      str_or_empty (eq_season_number c), str_or_empty (eq_episode_number c),
      eq_source_fingerprint c, eq_pipeline_revision c]"
  have static: "sha256_pattern (eq_source_fingerprint x) \<and> revision_pattern (eq_pipeline_revision x)
      \<and> opt_all (\<lambda>i. 1 \<le> i) (eq_season_number x) \<and> opt_all (\<lambda>i. 1 \<le> i) (eq_episode_number x)"
    if "job_post_init (new_ingestion_job cfg sha256hex uuid5 t x) = Inr k" for x t k
    using that by (simp add: job_post_init_iff job_ok_parts job_static_ok_def new_ingestion_job_def)
  have free: "\<forall>p \<in> set (?parts x). CHR '':'' \<notin> set p"
    if "sha256_pattern (eq_source_fingerprint x)" "revision_pattern (eq_pipeline_revision x)" for x
    using that by (simp add: kind_value_no_colon uuid_str_no_colon str_or_empty_no_colon
        sha_chars_no_colon revision_no_colon)
  have "?parts c = ?parts c'"
    by (rule join_inj [OF assms(1) [unfolded raw_idempotency_key_def]], simp)
      (use free [of c] free [of c'] static [OF assms(2)] static [OF assms(3)] in blast)+
  then show ?thesis
    using static [OF assms(2)] static [OF assms(3)] assms(4,5) uuid_str_inj
    by (simp add: kind_value_inj str_or_empty_inj)
qed

theorem idempotency_key_identifies_work_witness:
  "raw_idempotency_key demo_command = raw_idempotency_key (demo_command\<lparr>eq_priority := 9\<rparr>)
   \<and> eq_kind demo_command = eq_kind (demo_command\<lparr>eq_priority := 9\<rparr>)"
proof -
  have raw: "raw_idempotency_key demo_command = raw_idempotency_key (demo_command\<lparr>eq_priority := 9\<rparr>)"
    by (simp add: raw_idempotency_key_def)
  have ok: "job_post_init demo_new = Inr demo_new"
    "job_post_init (demo_new\<lparr>ij_priority := 9\<rparr>) = Inr (demo_new\<lparr>ij_priority := 9\<rparr>)" by code_simp+
  have "new_ingestion_job demo_cfg demo_sha demo_uuid5 100 (demo_command\<lparr>eq_priority := 9\<rparr>)
      = demo_new\<lparr>ij_priority := 9\<rparr>"
    by (simp add: demo_new_def new_ingestion_job_def idempotency_key_def raw_idempotency_key_def)
  with ok(2) have ok2: "job_post_init (new_ingestion_job demo_cfg demo_sha demo_uuid5 100
      (demo_command\<lparr>eq_priority := 9\<rparr>)) = Inr (demo_new\<lparr>ij_priority := 9\<rparr>)"
    by simp
  have "eq_series_id demo_command < 2 ^ 128" "eq_series_id (demo_command\<lparr>eq_priority := 9\<rparr>) < 2 ^ 128"
    by (simp_all add: demo_command_def)
  with idempotency_key_identifies_work [OF raw ok(1) [unfolded demo_new_def] ok2] raw
  show ?thesis by blast
qed

text \<open>
  Enqueueing is idempotent: after a command was accepted, any command for the same work gets
  the job that is already stored, in whatever state it is, and changes nothing.
\<close>

theorem enqueue_is_idempotent:
  assumes "svc_enqueue cfg sha256hex uuid5 now c d = (Inr j, d')"
    and "raw_idempotency_key c' = raw_idempotency_key c"
    and "job_post_init (new_ingestion_job cfg sha256hex uuid5 now' c') = Inr j'"
  shows "svc_enqueue cfg sha256hex uuid5 now' c' d' = (Inr j, d')"
proof -
  let ?new = "new_ingestion_job cfg sha256hex uuid5 now c"
  let ?new' = "new_ingestion_job cfg sha256hex uuid5 now' c'"
  have key: "ij_idempotency_key ?new' = ij_idempotency_key ?new"
    using assms(2) by (simp add: new_ingestion_job_def idempotency_key_def)
  have "jobs_get_by_key d' (ij_idempotency_key ?new) = Some j"
  proof (cases "jobs_get_by_key d (ij_idempotency_key ?new)")
    case (Some old)
    then show ?thesis using assms(1) by (auto simp: svc_enqueue_iff)
  next
    case None
    then have new: "j = ?new" and jobs: "idt_jobs d' = dict_set (idt_jobs d) (ij_job_id ?new) ?new"
      using assms(1) by (simp_all add: svc_enqueue_iff jobs_add_def)
    have only: "y = ?new" if "y \<in> set (dict_values (idt_jobs d'))"
      "ij_idempotency_key y = ij_idempotency_key ?new" for y
    proof -
      have "set (dict_values (idt_jobs d')) \<subseteq> insert ?new (set (dict_values (idt_jobs d)))"
        unfolding jobs by (rule dict_values_set_subset)
      then show ?thesis using that None by (auto simp: jobs_get_by_key_def find_None)
    qed
    have "?new \<in> set (dict_values (idt_jobs d'))"
      by (rule dict_get_in_values [of _ "ij_job_id ?new"]) (simp add: jobs dict_simps)
    then show ?thesis unfolding jobs_get_by_key_def new by (rule find_unique) (use only in auto)
  qed
  then show ?thesis using assms(3) key by (simp add: svc_enqueue_iff job_post_init_iff)
qed

theorem enqueue_is_idempotent_witness:
  "svc_enqueue demo_cfg demo_sha demo_uuid5 100 demo_command demo_waiting = (Inr demo_new, demo_waiting)"
proof -
  have "svc_enqueue demo_cfg demo_sha demo_uuid5 100 demo_command empty_ingestion_data
      = (Inr demo_new, demo_waiting)"
    unfolding demo_waiting_def prod_eq_iff
    using demo_new_ok(1)
    by (simp add: svc_enqueue_iff [OF demo_new_def, THEN iffD2, THEN arg_cong [where f = fst]]
        job_post_init_iff empty_ingestion_data_def jobs_get_by_key_def dict_values_def)
  from enqueue_is_idempotent [OF this refl demo_new_ok(1) [unfolded demo_new_def]] show ?thesis .
qed

end
