(* ===== verification/Identity_Model.thy ===== *)
theory Identity_Model
  imports Access_Policy Ingestion_Job Text_Format
begin

text \<open>
  Accounts, principals and sessions: \<open>domain/models/identity\<close>, the validation of identity
  commands (\<open>application/models/identity_sessions.py\<close>), the default corpus scopes
  (\<open>config/access.py\<close>) and the authentication configuration (\<open>config/authentication.py\<close>).
\<close>

section \<open>Configuration\<close>

record authentication_config =
  auth_min_password :: nat
  auth_max_password :: nat
  auth_session_ttl :: int
  auth_guest_ttl :: int
  auth_min_email :: nat
  auth_max_email :: nat
  auth_min_display :: nat
  auth_max_display :: nat
  auth_max_sessions :: nat
  auth_max_listing :: nat

text \<open>
  The checks of \<open>__post_init__\<close> on the fields that the identity service reads; cookie names
  and CSRF settings belong to the HTTP layer.
\<close>

definition authentication_config_post_init :: "authentication_config \<Rightarrow> authentication_config result" where
  "authentication_config_post_init c =
     (if list_ex (\<lambda>v. v < 1) [auth_min_password c, auth_max_password c, auth_min_email c,
          auth_max_email c, auth_min_display c, auth_max_display c, auth_max_sessions c,
          auth_max_listing c]
        then Inl (ValueError STR ''Authentication bounds must be positive integers.'')
      else if auth_min_password c > auth_max_password c then Inl (ValueError STR ''Password bounds are invalid.'')
      else if auth_min_email c > auth_max_email c then Inl (ValueError STR ''Email bounds are invalid.'')
      else if auth_min_display c > auth_max_display c
        then Inl (ValueError STR ''Display-name bounds are invalid.'')
      else if auth_max_listing c < auth_max_sessions c
        then Inl (ValueError STR ''Session listing bound must cover the active-session cap.'')
      else Inr c)"

definition DEFAULT_AUTHENTICATION_CONFIGURATION :: authentication_config where
  "DEFAULT_AUTHENTICATION_CONFIGURATION =
     \<lparr>auth_min_password = 12, auth_max_password = 1024,
      auth_session_ttl = 14 * 24 * 3600 * 1000000, auth_guest_ttl = 8 * 3600 * 1000000,
      auth_min_email = 3, auth_max_email = 320, auth_min_display = 1, auth_max_display = 100,
      auth_max_sessions = 5, auth_max_listing = 20\<rparr>"

definition GUEST_SERIES_ID :: uuid where
  "GUEST_SERIES_ID = 17"

definition DEFAULT_GUEST_CORPUS_ACCESS_SCOPE :: corpus_access_scope where
  "DEFAULT_GUEST_CORPUS_ACCESS_SCOPE =
     \<lparr>cas_mode = Corpus_GUEST, cas_revision = ''guest-modern-family-s01-s02-v1'',
      cas_allowed_seasons = (\<lambda>n. \<lparr>csa_series_id = GUEST_SERIES_ID, csa_season_number = n\<rparr>) ` {1, 2},
      cas_unrestricted = False\<rparr>"

definition DEFAULT_AUTHENTICATED_CORPUS_ACCESS_SCOPE :: corpus_access_scope where
  "DEFAULT_AUTHENTICATED_CORPUS_ACCESS_SCOPE =
     \<lparr>cas_mode = Corpus_AUTHENTICATED, cas_revision = ''authenticated-session-v1'',
      cas_allowed_seasons = {}, cas_unrestricted = True\<rparr>"

section \<open>Principals and sessions\<close>

record session_principal =
  sp_kind :: principal_kind
  sp_profile_id :: uuid
  sp_scope :: corpus_access_scope
  sp_user_id :: "uuid option"

definition principal_post_init :: "session_principal \<Rightarrow> session_principal result" where
  "principal_post_init p =
     (let valid_guest = sp_kind p = Principal_GUEST \<and> sp_user_id p = None
            \<and> cas_mode (sp_scope p) = Corpus_GUEST;
          valid_authenticated = sp_kind p = Principal_AUTHENTICATED \<and> sp_user_id p \<noteq> None
            \<and> cas_mode (sp_scope p) = Corpus_AUTHENTICATED
      in if \<not> (valid_guest \<or> valid_authenticated)
           then Inl (InvalidModelError STR ''SESSION_PRINCIPAL_MUST_MATCH_KIND'')
         else Inr p)"

text \<open>Session times are the aware values of the clock and their sums with a duration.\<close>

record session_record =
  sr_session_id :: uuid
  sr_token_sha256 :: string
  sr_principal :: session_principal
  sr_created_at :: int
  sr_expires_at :: int
  sr_revoked_at :: "int option"

definition session_post_init :: "session_record \<Rightarrow> session_record result" where
  "session_post_init s =
     (if \<not> sha256_pattern (sr_token_sha256 s)
        then Inl (InvalidModelError STR ''SESSION_TOKEN_DIGEST_MUST_BE_VALID'')
      else if sr_expires_at s \<le> sr_created_at s
        then Inl (InvalidModelError STR ''SESSION_EXPIRY_MUST_FOLLOW_CREATION'')
      else if opt_holds (\<lambda>r. r < sr_created_at s) (sr_revoked_at s)
        then Inl (InvalidModelError STR ''SESSION_REVOCATION_MUST_NOT_PREDATE_CREATION'')
      else Inr s)"

definition session_revoke :: "session_record \<Rightarrow> int \<Rightarrow> session_record result" where
  "session_revoke s t = session_post_init (s\<lparr>sr_revoked_at := Some t\<rparr>)"

section \<open>Accounts\<close>

text \<open>
  \<open>str.casefold\<close> on Latin-1: letters in upper case are lowered and the sharp s becomes "ss".
  (The micro sign, whose folding is a Greek letter outside this alphabet, is left as it is.)
\<close>

definition fold_char :: "char \<Rightarrow> string" where
  "fold_char c =
     (let n = of_char c :: nat
      in if (65 \<le> n \<and> n \<le> 90) \<or> (192 \<le> n \<and> n \<le> 222 \<and> n \<noteq> 215) then [char_of (n + 32)]
         else if n = 223 then ''ss'' else [c])"

definition casefold :: "string \<Rightarrow> string" where
  "casefold s = concat (map fold_char s)"

text \<open>\<open>re.fullmatch(r"^[^\s@]+@[^\s@]+\.[^\s@]+$", s)\<close>\<close>

definition plain_char :: "char \<Rightarrow> bool" where
  "plain_char c = (\<not> is_space c \<and> c \<noteq> CHR ''@'')"

definition email_pattern :: "string \<Rightarrow> bool" where
  "email_pattern s =
     (let local_part = takeWhile plain_char s; rest = dropWhile plain_char s
      in local_part \<noteq> [] \<and> rest \<noteq> [] \<and> hd rest = CHR ''@'' \<and> list_all plain_char (tl rest)
         \<and> list_ex (\<lambda>i. 1 \<le> i \<and> Suc i < length (tl rest) \<and> tl rest ! i = CHR ''.'')
             [0..<length (tl rest)])"

record user_account =
  ua_user_id :: uuid
  ua_profile_id :: uuid
  ua_email :: string
  ua_display_name :: string
  ua_password_hash :: string
  ua_status :: account_status
  ua_created_at :: int

definition default_email_ok :: "string \<Rightarrow> bool" where
  "default_email_ok s =
     (auth_min_email DEFAULT_AUTHENTICATION_CONFIGURATION \<le> length s
      \<and> length s \<le> auth_max_email DEFAULT_AUTHENTICATION_CONFIGURATION \<and> email_pattern s)"

definition default_display_ok :: "string \<Rightarrow> bool" where
  "default_display_ok s =
     (strip s = s \<and> auth_min_display DEFAULT_AUTHENTICATION_CONFIGURATION \<le> length s
      \<and> length s \<le> auth_max_display DEFAULT_AUTHENTICATION_CONFIGURATION)"

definition account_post_init :: "user_account \<Rightarrow> user_account result" where
  "account_post_init a =
     (if \<not> default_email_ok (ua_email a) \<or> ua_email a \<noteq> casefold (ua_email a)
        then Inl (InvalidModelError STR ''EMAIL_ADDRESS_MUST_BE_VALID'')
      else if ua_display_name a = [] \<or> \<not> default_display_ok (ua_display_name a)
        then Inl (InvalidModelError STR ''DISPLAY_NAME_MUST_BE_TRIMMED'')
      else if untrimmed (ua_password_hash a)
        then Inl (InvalidModelError STR ''PASSWORD_HASH_MUST_BE_VALID'')
      else Inr a)"

definition with_display_name :: "user_account \<Rightarrow> string \<Rightarrow> user_account result" where
  "with_display_name a name =
     (if \<not> default_display_ok name then Inl (InvalidModelError STR ''DISPLAY_NAME_MUST_BE_TRIMMED'')
      else account_post_init (a\<lparr>ua_display_name := name\<rparr>))"

definition with_password_hash :: "user_account \<Rightarrow> string \<Rightarrow> user_account result" where
  "with_password_hash a h =
     (if untrimmed h then Inl (InvalidModelError STR ''PASSWORD_HASH_MUST_BE_VALID'')
      else account_post_init (a\<lparr>ua_password_hash := h\<rparr>))"

section \<open>Commands\<close>

record register_command =
  rc_email :: string
  rc_password :: string
  rc_display_name :: string
  rc_current_token :: "string option"

record authenticate_command =
  ac_email :: string
  ac_password :: string
  ac_current_token :: "string option"

record change_password_command =
  cp_current :: string
  cp_new :: string

record session_grant =
  sg_token :: string
  sg_principal :: session_principal
  sg_expires_at :: int
  sg_account :: "user_account option"

record account_summary =
  as_user_id :: uuid
  as_profile_id :: uuid
  as_email :: string
  as_display_name :: string
  as_status :: account_status
  as_created_at :: int

record session_summary =
  ss_session_id :: uuid
  ss_created_at :: int
  ss_expires_at :: int
  ss_current :: bool

definition validate_email_value :: "string \<Rightarrow> unit result" where
  "validate_email_value v =
     (if \<not> default_email_ok (casefold (strip v))
        then Inl (ValueError STR ''EMAIL_ADDRESS_MUST_BE_VALID'') else Inr ())"

definition validate_password_value :: "nat option \<Rightarrow> string \<Rightarrow> unit result" where
  "validate_password_value minimum v =
     (let m = (case minimum of None \<Rightarrow> auth_min_password DEFAULT_AUTHENTICATION_CONFIGURATION | Some k \<Rightarrow> k)
      in if length v < m \<or> length v > auth_max_password DEFAULT_AUTHENTICATION_CONFIGURATION
           then Inl (ValueError STR ''PASSWORD_LENGTH_MUST_BE_VALID'') else Inr ())"

definition validate_display_name_value :: "string \<Rightarrow> unit result" where
  "validate_display_name_value v =
     (if \<not> default_display_ok v then Inl (ValueError STR ''DISPLAY_NAME_MUST_BE_TRIMMED'') else Inr ())"

definition register_command_post_init :: "register_command \<Rightarrow> register_command result" where
  "register_command_post_init c =
     bindE (validate_email_value (rc_email c)) (\<lambda>_.
     bindE (validate_password_value None (rc_password c)) (\<lambda>_.
     bindE (validate_display_name_value (rc_display_name c)) (\<lambda>_. Inr c)))"

definition authenticate_command_post_init :: "authenticate_command \<Rightarrow> authenticate_command result" where
  "authenticate_command_post_init c =
     bindE (validate_email_value (ac_email c)) (\<lambda>_.
     bindE (validate_password_value (Some 1) (ac_password c)) (\<lambda>_. Inr c))"

definition change_password_command_post_init ::
    "change_password_command \<Rightarrow> change_password_command result" where
  "change_password_command_post_init c =
     bindE (validate_password_value (Some 1) (cp_current c)) (\<lambda>_.
     bindE (validate_password_value None (cp_new c)) (\<lambda>_.
       if cp_current c = cp_new c then Inl (ValueError STR ''PASSWORD_MUST_DIFFER'') else Inr c))"

end
