(* ===== verification/Identity_Service.thy ===== *)
theory Identity_Service
  imports Identity_Model Unit_Of_Work "HOL-Library.Product_Lexorder"
begin

text \<open>
  Accounts and sessions at work: the transactional in-memory store
  (\<open>adapters/identity/in_memory_identity_repositories.py\<close>) and the service over it
  (\<open>application/service/identity_session_service.py\<close>).  What a call reads from the outside is
  an environment: the clock at each reading, fresh identifiers, the generated token, the password
  hasher and the digest of tokens.
\<close>

section \<open>The transactional store\<close>

record identity_data =
  idd_accounts :: "(string, user_account) dict"
  idd_sessions :: "(string, session_record) dict"

record identity_uow =
  nu_data :: identity_data
  nu_active :: bool
  nu_closed :: bool

type_synonym identity_uow_session = "identity_data \<times> identity_uow"

definition empty_identity_data :: identity_data where
  "empty_identity_data = \<lparr>idd_accounts = [], idd_sessions = []\<rparr>"

definition identity_new_uow :: identity_uow where
  "identity_new_uow = \<lparr>nu_data = empty_identity_data, nu_active = False, nu_closed = False\<rparr>"

definition identity_enter :: "identity_uow_session \<Rightarrow> identity_uow_session result" where
  "identity_enter s = (case s of (store, u) \<Rightarrow>
     if nu_active u \<or> nu_closed u then Inl (RuntimeError STR ''Identity unit of work cannot be re-entered.'')
     else Inr (store, u\<lparr>nu_data := store, nu_active := True\<rparr>))"

definition identity_rollback :: "identity_uow_session \<Rightarrow> identity_uow_session" where
  "identity_rollback s = (case s of (store, u) \<Rightarrow>
     if nu_active u \<and> \<not> nu_closed u then (store, u\<lparr>nu_data := store\<rparr>) else (store, u))"

definition identity_exit :: "bool \<Rightarrow> identity_uow_session \<Rightarrow> identity_uow_session" where
  "identity_exit raised s = (case (if raised then identity_rollback s else s) of (store, u) \<Rightarrow>
     (store, u\<lparr>nu_active := False, nu_closed := True\<rparr>))"

definition identity_commit :: "(identity_uow_session, unit) prog" where
  "identity_commit = updE (\<lambda>(store, u).
     if \<not> nu_active u \<or> nu_closed u then Inl (RuntimeError STR ''Identity unit of work is not active.'')
     else Inr (nu_data u, u))"

definition with_identity :: "(identity_uow_session, 'a) prog \<Rightarrow> (identity_data, 'a) prog" where
  "with_identity body = (\<lambda>store. case identity_enter (store, identity_new_uow) of
     Inl e \<Rightarrow> (Inl e, store)
   | Inr s \<Rightarrow> (case body s of (r, s') \<Rightarrow>
       (r, fst (identity_exit (case r of Inl e \<Rightarrow> True | Inr x \<Rightarrow> False) s'))))"

definition on_identity ::
    "(identity_data \<Rightarrow> ('a \<times> identity_data) result) \<Rightarrow> (identity_uow_session, 'a) prog" where
  "on_identity f = runE (\<lambda>(store, u). case f (nu_data u) of
     Inl e \<Rightarrow> Inl e | Inr (x, d) \<Rightarrow> Inr (x, (store, u\<lparr>nu_data := d\<rparr>)))"

interpretation identity_uow: unit_of_work with_identity on_identity identity_commit
proof
  note enter = with_identity_def identity_enter_def identity_new_uow_def on_identity_def
    identity_exit_def identity_commit_def
  fix f :: "identity_data \<Rightarrow> ('b \<times> identity_data) result"
    and k :: "'b \<Rightarrow> (identity_uow_session, 'a) prog" and d d' e x y
  show "f d = Inl e \<Longrightarrow> with_identity (andThen (on_identity f) k) d = (Inl e, d)"
    by (simp add: enter andThen_runE identity_rollback_def)
  show "f d = Inr (x, d') \<Longrightarrow> k x = andThen identity_commit (\<lambda>_. ret y) \<Longrightarrow>
      with_identity (andThen (on_identity f) k) d = (Inr y, d')"
    by (simp add: enter prog_simps)
  show "f d = Inr (x, d') \<Longrightarrow> k x = ret y \<Longrightarrow> with_identity (andThen (on_identity f) k) d = (Inr y, d)"
    by (simp add: enter prog_simps)
qed

section \<open>Repositories\<close>

definition accounts_get_by_email :: "identity_data \<Rightarrow> string \<Rightarrow> user_account option" where
  "accounts_get_by_email d email = dict_get (idd_accounts d) email"

definition accounts_get_by_user_id :: "identity_data \<Rightarrow> uuid \<Rightarrow> user_account option" where
  "accounts_get_by_user_id d uid = List.find (\<lambda>a. ua_user_id a = uid) (dict_values (idd_accounts d))"

text \<open>
  \<open>DuplicateEmailPersistenceError\<close> is a \<open>ValueError\<close> of its own class; its name stands in for
  the message so that the service can catch it.
\<close>

definition duplicate_email :: py_error where
  "duplicate_email = ValueError STR ''DuplicateEmailPersistenceError''"

definition accounts_add :: "identity_data \<Rightarrow> user_account \<Rightarrow> identity_data result" where
  "accounts_add d a =
     (if dict_get (idd_accounts d) (ua_email a) \<noteq> None then Inl duplicate_email
      else Inr (d\<lparr>idd_accounts := dict_set (idd_accounts d) (ua_email a) a\<rparr>))"

definition accounts_save :: "identity_data \<Rightarrow> user_account \<Rightarrow> identity_data result" where
  "accounts_save d a =
     (case accounts_get_by_user_id d (ua_user_id a) of
        None \<Rightarrow> Inl (KeyError STR ''Account owner not found.'')
      | Some existing \<Rightarrow>
          if ua_profile_id existing \<noteq> ua_profile_id a then Inl (KeyError STR ''Account owner not found.'')
          else Inr (d\<lparr>idd_accounts := dict_set (idd_accounts d) (ua_email existing) a\<rparr>))"

definition sessions_get :: "identity_data \<Rightarrow> string \<Rightarrow> session_record option" where
  "sessions_get d digest = dict_get (idd_sessions d) digest"

definition sessions_save :: "identity_data \<Rightarrow> session_record \<Rightarrow> identity_data" where
  "sessions_save d s = d\<lparr>idd_sessions := dict_set (idd_sessions d) (sr_token_sha256 s) s\<rparr>"

definition sessions_get_by_id :: "identity_data \<Rightarrow> uuid \<Rightarrow> session_record option" where
  "sessions_get_by_id d sid = List.find (\<lambda>s. sr_session_id s = sid) (dict_values (idd_sessions d))"

definition owned_active :: "uuid \<Rightarrow> uuid \<Rightarrow> int \<Rightarrow> session_record \<Rightarrow> bool" where
  "owned_active uid pid now s =
     (sp_user_id (sr_principal s) = Some uid \<and> sp_profile_id (sr_principal s) = pid
      \<and> sr_revoked_at s = None \<and> now < sr_expires_at s)"

text \<open>
  \<open>sorted(..., key=..., reverse=True)\<close> keeps the order of equal elements: it is the stable sort
  of the reversed list, reversed.
\<close>

definition sessions_list_active ::
    "identity_data \<Rightarrow> uuid \<Rightarrow> uuid \<Rightarrow> int \<Rightarrow> nat option \<Rightarrow> session_record list" where
  "sessions_list_active d uid pid now limit =
     (let sessions = rev (sort_key (\<lambda>s. (sr_created_at s, sr_session_id s))
            (rev (filter (owned_active uid pid now) (dict_values (idd_sessions d)))))
      in case limit of None \<Rightarrow> sessions | Some n \<Rightarrow> take n sessions)"

definition sessions_revoke ::
    "identity_data \<Rightarrow> uuid \<Rightarrow> uuid \<Rightarrow> uuid \<Rightarrow> int \<Rightarrow> (bool \<times> identity_data) result" where
  "sessions_revoke d sid uid pid t =
     (case sessions_get_by_id d sid of
        None \<Rightarrow> Inr (False, d)
      | Some s \<Rightarrow>
          if sp_user_id (sr_principal s) \<noteq> Some uid \<or> sp_profile_id (sr_principal s) \<noteq> pid
              \<or> sr_revoked_at s \<noteq> None \<or> t \<ge> sr_expires_at s then Inr (False, d)
          else bindE (session_revoke s t) (\<lambda>s'. Inr (True, sessions_save d s')))"

text \<open>\<open>for s in sessions: save(s.revoke(now))\<close>\<close>

fun revoke_each :: "identity_data \<Rightarrow> session_record list \<Rightarrow> int \<Rightarrow> identity_data result" where
  "revoke_each d [] t = Inr d"
| "revoke_each d (s # ss) t = bindE (session_revoke s t) (\<lambda>s'. revoke_each (sessions_save d s') ss t)"

definition sessions_revoke_all :: "identity_data \<Rightarrow> uuid \<Rightarrow> uuid \<Rightarrow> int \<Rightarrow> (nat \<times> identity_data) result" where
  "sessions_revoke_all d uid pid t =
     (let ss = filter (owned_active uid pid t) (dict_values (idd_sessions d))
      in bindE (revoke_each d ss t) (\<lambda>d'. Inr (length ss, d')))"

section \<open>Shared steps of the service\<close>

record identity_env =
  ev_now :: "nat \<Rightarrow> int"
  ev_id :: "nat \<Rightarrow> uuid"
  ev_token :: string
  ev_hash :: "string \<Rightarrow> string"
  ev_verify :: "string \<Rightarrow> string \<Rightarrow> bool"
  ev_sha256 :: "string \<Rightarrow> string"
  ev_dummy_hash :: string

definition normalize_email :: "authentication_config \<Rightarrow> string \<Rightarrow> string result" where
  "normalize_email cfg v =
     (let n = casefold (strip v)
      in if \<not> (auth_min_email cfg \<le> length n \<and> length n \<le> auth_max_email cfg) \<or> \<not> email_pattern n
           then Inl (ValueError STR ''EMAIL_ADDRESS_MUST_BE_VALID'') else Inr n)"

definition validate_password :: "authentication_config \<Rightarrow> nat option \<Rightarrow> string \<Rightarrow> unit result" where
  "validate_password cfg minimum v =
     (let m = (case minimum of None \<Rightarrow> auth_min_password cfg | Some k \<Rightarrow> k)
      in if length v < m \<or> length v > auth_max_password cfg
           then Inl (ValueError STR ''PASSWORD_LENGTH_MUST_BE_VALID'') else Inr ())"

definition validate_display_name :: "authentication_config \<Rightarrow> string \<Rightarrow> unit result" where
  "validate_display_name cfg v =
     (if strip v \<noteq> v \<or> \<not> (auth_min_display cfg \<le> length v \<and> length v \<le> auth_max_display cfg)
        then Inl (ValueError STR ''DISPLAY_NAME_MUST_BE_TRIMMED'') else Inr ())"

definition token_digest :: "identity_env \<Rightarrow> string \<Rightarrow> string result" where
  "token_digest ev t = (if untrimmed t then Inl SessionInvalidError else Inr (ev_sha256 ev t))"

definition is_active :: "session_record \<Rightarrow> int \<Rightarrow> bool" where
  "is_active s now = (sr_revoked_at s = None \<and> now < sr_expires_at s)"

definition scope_matches_policy :: "session_principal \<Rightarrow> bool" where
  "scope_matches_policy p =
     (if sp_kind p = Principal_GUEST then sp_scope p = DEFAULT_GUEST_CORPUS_ACCESS_SCOPE
      else sp_scope p = DEFAULT_AUTHENTICATED_CORPUS_ACCESS_SCOPE)"

definition account_summary_of :: "user_account \<Rightarrow> account_summary" where
  "account_summary_of a = \<lparr>as_user_id = ua_user_id a, as_profile_id = ua_profile_id a,
     as_email = ua_email a, as_display_name = ua_display_name a, as_status = ua_status a,
     as_created_at = ua_created_at a\<rparr>"

definition issue ::
    "identity_env \<Rightarrow> nat \<Rightarrow> session_principal \<Rightarrow> int \<Rightarrow> int \<Rightarrow> user_account option \<Rightarrow> identity_data \<Rightarrow>
     (session_grant \<times> identity_data) result" where
  "issue ev i p created expires account d =
     bindE (token_digest ev (ev_token ev)) (\<lambda>digest.
     bindE (session_post_init \<lparr>sr_session_id = ev_id ev i, sr_token_sha256 = digest, sr_principal = p,
         sr_created_at = created, sr_expires_at = expires, sr_revoked_at = None\<rparr>) (\<lambda>s.
       Inr (\<lparr>sg_token = ev_token ev, sg_principal = p, sg_expires_at = expires, sg_account = account\<rparr>,
            sessions_save d s)))"

definition issue_authenticated ::
    "authentication_config \<Rightarrow> identity_env \<Rightarrow> nat \<Rightarrow> user_account \<Rightarrow> int \<Rightarrow> identity_data \<Rightarrow>
     (session_grant \<times> identity_data) result" where
  "issue_authenticated cfg ev i account now d =
     (case accounts_get_by_user_id d (ua_user_id account) of
        None \<Rightarrow> Inl SessionInvalidError
      | Some locked \<Rightarrow>
          if ua_profile_id locked \<noteq> ua_profile_id account \<or> ua_status locked \<noteq> Account_ACTIVE
            then Inl SessionInvalidError
          else
            bindE (principal_post_init \<lparr>sp_kind = Principal_AUTHENTICATED,
                sp_profile_id = ua_profile_id locked,
                sp_scope = DEFAULT_AUTHENTICATED_CORPUS_ACCESS_SCOPE,
                sp_user_id = Some (ua_user_id locked)\<rparr>) (\<lambda>p.
            bindE (revoke_each d (drop (auth_max_sessions cfg - 1)
                (sessions_list_active d (ua_user_id locked) (ua_profile_id locked) now None)) now) (\<lambda>d1.
              issue ev i p now (now + auth_session_ttl cfg) (Some locked) d1)))"

definition issue_guest_session ::
    "authentication_config \<Rightarrow> identity_env \<Rightarrow> int \<Rightarrow> identity_data \<Rightarrow> (session_grant \<times> identity_data) result" where
  "issue_guest_session cfg ev now d =
     bindE (principal_post_init \<lparr>sp_kind = Principal_GUEST, sp_profile_id = ev_id ev 0,
         sp_scope = DEFAULT_GUEST_CORPUS_ACCESS_SCOPE, sp_user_id = None\<rparr>) (\<lambda>p.
       issue ev 1 p now (now + auth_guest_ttl cfg) None d)"

definition revoke_current_if_valid ::
    "identity_env \<Rightarrow> string option \<Rightarrow> int \<Rightarrow> identity_data \<Rightarrow> identity_data result" where
  "revoke_current_if_valid ev token now d =
     (case token of None \<Rightarrow> Inr d | Some t \<Rightarrow>
       if t = [] then Inr d
       else (case token_digest ev t of Inl _ \<Rightarrow> Inr d | Inr digest \<Rightarrow>
         (case sessions_get d digest of None \<Rightarrow> Inr d | Some s \<Rightarrow>
           if is_active s now then bindE (session_revoke s now) (\<lambda>s'. Inr (sessions_save d s'))
           else Inr d)))"

definition require_active_presented ::
    "identity_env \<Rightarrow> string \<Rightarrow> session_principal \<Rightarrow> int \<Rightarrow> identity_data \<Rightarrow> unit result" where
  "require_active_presented ev token p now d =
     bindE (token_digest ev token) (\<lambda>digest.
       case sessions_get d digest of None \<Rightarrow> Inl SessionInvalidError
       | Some s \<Rightarrow> if \<not> is_active s now \<or> sr_principal s \<noteq> p \<or> \<not> scope_matches_policy (sr_principal s)
                    then Inl SessionInvalidError else Inr ())"

text \<open>The account of a principal, if it still is this principal's active account.\<close>

definition owner_account :: "identity_data \<Rightarrow> uuid \<Rightarrow> uuid \<Rightarrow> user_account result" where
  "owner_account d uid pid =
     (case accounts_get_by_user_id d uid of None \<Rightarrow> Inl SessionInvalidError
      | Some a \<Rightarrow> if ua_profile_id a \<noteq> pid \<or> ua_status a \<noteq> Account_ACTIVE then Inl SessionInvalidError
                   else Inr a)"

section \<open>The service calls\<close>

text \<open>A transaction that reads and returns, and one that ends in \<open>commit\<close>.\<close>

definition reading :: "(identity_data \<Rightarrow> 'a result) \<Rightarrow> (identity_data, 'a) prog" where
  "reading f = with_identity (andThen (on_identity (\<lambda>d. bindE (f d) (\<lambda>x. Inr (x, d)))) ret)"

definition committing :: "(identity_data \<Rightarrow> ('a \<times> identity_data) result) \<Rightarrow> (identity_data, 'a) prog" where
  "committing f = with_identity (andThen (on_identity f) (\<lambda>x. andThen identity_commit (\<lambda>_. ret x)))"

definition catch_duplicate_email :: "(identity_data, 'a) prog \<Rightarrow> (identity_data, 'a) prog" where
  "catch_duplicate_email m = (\<lambda>d. case m d of (r, d') \<Rightarrow>
     (case r of Inr x \<Rightarrow> Inr x
      | Inl e \<Rightarrow> if e = duplicate_email then Inl EmailAlreadyRegisteredError else Inl e, d'))"

definition register ::
    "authentication_config \<Rightarrow> identity_env \<Rightarrow> register_command \<Rightarrow> (identity_data, session_grant) prog" where
  "register cfg ev c =
     andThen (lift (normalize_email cfg (rc_email c))) (\<lambda>email.
     andThen (lift (validate_password cfg None (rc_password c))) (\<lambda>_.
     andThen (lift (validate_display_name cfg (rc_display_name c))) (\<lambda>_.
     andThen (lift (account_post_init \<lparr>ua_user_id = ev_id ev 0, ua_profile_id = ev_id ev 1,
         ua_email = email, ua_display_name = rc_display_name c,
         ua_password_hash = ev_hash ev (rc_password c), ua_status = Account_ACTIVE,
         ua_created_at = ev_now ev 0\<rparr>)) (\<lambda>account.
       catch_duplicate_email (committing (\<lambda>d.
         if accounts_get_by_email d email \<noteq> None then Inl EmailAlreadyRegisteredError
         else bindE (revoke_current_if_valid ev (rc_current_token c) (ev_now ev 0) d) (\<lambda>d1.
              bindE (accounts_add d1 account) (\<lambda>d2.
                issue_authenticated cfg ev 2 account (ev_now ev 0) d2))))))))"

definition authenticate ::
    "authentication_config \<Rightarrow> identity_env \<Rightarrow> authenticate_command \<Rightarrow> (identity_data, session_grant) prog" where
  "authenticate cfg ev c =
     andThen (lift (normalize_email cfg (ac_email c))) (\<lambda>email.
     andThen (lift (validate_password cfg (Some 1) (ac_password c))) (\<lambda>_.
     andThen (reading (\<lambda>d. Inr (accounts_get_by_email d email))) (\<lambda>found.
       let password_hash = (case found of Some a \<Rightarrow> ua_password_hash a | None \<Rightarrow> ev_dummy_hash ev);
           verified = ev_verify ev (ac_password c) password_hash
       in case found of
            None \<Rightarrow> raise InvalidCredentialsError
          | Some account \<Rightarrow>
              if \<not> verified then raise InvalidCredentialsError
              else if ua_status account \<noteq> Account_ACTIVE then raise AccountDisabledError
              else committing (\<lambda>d.
                case accounts_get_by_user_id d (ua_user_id account) of
                  None \<Rightarrow> Inl SessionInvalidError
                | Some locked \<Rightarrow>
                    if ua_profile_id locked \<noteq> ua_profile_id account then Inl SessionInvalidError
                    else if ua_status locked \<noteq> Account_ACTIVE then Inl AccountDisabledError
                    else if \<not> ev_verify ev (ac_password c) (ua_password_hash locked)
                      then Inl InvalidCredentialsError
                    else bindE (revoke_current_if_valid ev (ac_current_token c) (ev_now ev 0) d) (\<lambda>d1.
                           issue_authenticated cfg ev 0 locked (ev_now ev 0) d1)))))"

text \<open>
  \<open>issue_guest\<close>: inside the first transaction the code returns the authenticated session it
  found, or commits the replacement of a guest session, or leaves the block and starts afresh.
\<close>

definition issue_guest ::
    "authentication_config \<Rightarrow> identity_env \<Rightarrow> string option \<Rightarrow> (identity_data, session_grant) prog" where
  "issue_guest cfg ev token =
     (let start_afresh = (\<lambda>n. committing (issue_guest_session cfg ev (ev_now ev n)))
      in case token of None \<Rightarrow> start_afresh 0 | Some t \<Rightarrow>
        if t = [] then start_afresh 0
        else let digest = (case token_digest ev t of Inl _ \<Rightarrow> [] | Inr h \<Rightarrow> h)
        in andThen (with_identity (andThen (on_identity (\<lambda>d.
             case sessions_get d digest of None \<Rightarrow> Inr ((False, None), d)
             | Some existing \<Rightarrow>
                 if \<not> is_active existing (ev_now ev 0) then Inr ((False, None), d)
                 else
                   let p = sr_principal existing;
                       account = (case sp_user_id p of None \<Rightarrow> None | Some uid \<Rightarrow> accounts_get_by_user_id d uid)
                   in if sp_kind p = Principal_AUTHENTICATED then
                        (case account of None \<Rightarrow> Inl SessionInvalidError
                         | Some a \<Rightarrow>
                             if ua_profile_id a \<noteq> sp_profile_id p \<or> ua_status a \<noteq> Account_ACTIVE
                                 \<or> \<not> scope_matches_policy p then Inl SessionInvalidError
                             else Inr ((False, Some \<lparr>sg_token = t, sg_principal = p,
                                    sg_expires_at = sr_expires_at existing, sg_account = Some a\<rparr>), d))
                      else bindE (session_revoke existing (ev_now ev 0)) (\<lambda>s'.
                           bindE (issue_guest_session cfg ev (ev_now ev 0) (sessions_save d s')) (\<lambda>(g, d1).
                             Inr ((True, Some g), d1)))))
             (\<lambda>x. if fst x then andThen identity_commit (\<lambda>_. ret (snd x)) else ret (snd x))))
           (\<lambda>granted. case granted of Some g \<Rightarrow> ret g | None \<Rightarrow> start_afresh 1))"

definition resolve_grant :: "identity_env \<Rightarrow> nat \<Rightarrow> string \<Rightarrow> (identity_data, session_grant) prog" where
  "resolve_grant ev n token =
     andThen (lift (token_digest ev token)) (\<lambda>digest. reading (\<lambda>d.
       case sessions_get d digest of None \<Rightarrow> Inl SessionInvalidError
       | Some s \<Rightarrow>
           if \<not> is_active s (ev_now ev n) \<or> \<not> scope_matches_policy (sr_principal s)
             then Inl SessionInvalidError
           else if sp_kind (sr_principal s) = Principal_AUTHENTICATED then
             (case sp_user_id (sr_principal s) of None \<Rightarrow> Inl SessionInvalidError
              | Some uid \<Rightarrow>
                  bindE (owner_account d uid (sp_profile_id (sr_principal s))) (\<lambda>a.
                    Inr \<lparr>sg_token = token, sg_principal = sr_principal s,
                      sg_expires_at = sr_expires_at s, sg_account = Some a\<rparr>))
           else Inr \<lparr>sg_token = token, sg_principal = sr_principal s,
                      sg_expires_at = sr_expires_at s, sg_account = None\<rparr>))"

text \<open>\<open>principal = self.resolve(token)\<close> and the check that it is an account's principal.\<close>

definition resolve_owner :: "identity_env \<Rightarrow> nat \<Rightarrow> string \<Rightarrow> (identity_data, session_principal \<times> uuid) prog" where
  "resolve_owner ev n token =
     andThen (resolve_grant ev n token) (\<lambda>g.
       let p = sg_principal g
       in if sp_kind p \<noteq> Principal_AUTHENTICATED then raise AccountRequiredError
          else (case sp_user_id p of None \<Rightarrow> raise AccountRequiredError | Some uid \<Rightarrow> ret (p, uid)))"

definition current_account :: "identity_env \<Rightarrow> string \<Rightarrow> (identity_data, account_summary) prog" where
  "current_account ev token =
     andThen (resolve_owner ev 0 token) (\<lambda>(p, uid).
       reading (\<lambda>d. bindE (owner_account d uid (sp_profile_id p)) (\<lambda>a. Inr (account_summary_of a))))"

definition update_display_name ::
    "authentication_config \<Rightarrow> identity_env \<Rightarrow> string \<Rightarrow> string \<Rightarrow> (identity_data, account_summary) prog" where
  "update_display_name cfg ev token name =
     andThen (lift (validate_display_name cfg name)) (\<lambda>_.
     andThen (resolve_owner ev 0 token) (\<lambda>(p, uid).
       committing (\<lambda>d.
         bindE (owner_account d uid (sp_profile_id p)) (\<lambda>account.
         bindE (require_active_presented ev token p (ev_now ev 1) d) (\<lambda>_.
         bindE (with_display_name account name) (\<lambda>updated.
         bindE (accounts_save d updated) (\<lambda>d1. Inr (account_summary_of updated, d1))))))))"

definition change_password ::
    "authentication_config \<Rightarrow> identity_env \<Rightarrow> string \<Rightarrow> change_password_command \<Rightarrow>
     (identity_data, session_grant) prog" where
  "change_password cfg ev token c =
     andThen (resolve_owner ev 0 token) (\<lambda>(p, uid).
     andThen (lift (validate_password cfg (Some 1) (cp_current c))) (\<lambda>_.
     andThen (lift (validate_password cfg None (cp_new c))) (\<lambda>_.
       if cp_current c = cp_new c then raise (ValueError STR ''PASSWORD_MUST_DIFFER'')
       else committing (\<lambda>d.
         bindE (owner_account d uid (sp_profile_id p)) (\<lambda>account.
         bindE (require_active_presented ev token p (ev_now ev 1) d) (\<lambda>_.
         if \<not> ev_verify ev (cp_current c) (ua_password_hash account) then Inl InvalidCredentialsError
         else
           bindE (with_password_hash account (ev_hash ev (cp_new c))) (\<lambda>updated.
           bindE (accounts_save d updated) (\<lambda>d1.
           bindE (sessions_revoke_all d1 uid (sp_profile_id p) (ev_now ev 2)) (\<lambda>(n, d2).
             issue_authenticated cfg ev 0 updated (ev_now ev 2) d2)))))))))"

definition list_sessions ::
    "authentication_config \<Rightarrow> identity_env \<Rightarrow> string \<Rightarrow> (identity_data, session_summary list) prog" where
  "list_sessions cfg ev token =
     andThen (resolve_owner ev 0 token) (\<lambda>(p, uid).
     andThen (reading (\<lambda>d. Inr (sessions_list_active d uid (sp_profile_id p) (ev_now ev 1)
         (Some (auth_max_listing cfg))))) (\<lambda>ss.
     andThen (lift (token_digest ev token)) (\<lambda>digest.
       ret (map (\<lambda>s. \<lparr>ss_session_id = sr_session_id s, ss_created_at = sr_created_at s,
         ss_expires_at = sr_expires_at s, ss_current = (sr_token_sha256 s = digest)\<rparr>) ss))))"

definition revoke_session :: "identity_env \<Rightarrow> string \<Rightarrow> uuid \<Rightarrow> (identity_data, bool) prog" where
  "revoke_session ev token sid =
     andThen (resolve_owner ev 0 token) (\<lambda>(p, uid).
       with_identity (andThen (on_identity (\<lambda>d.
           sessions_revoke d sid uid (sp_profile_id p) (ev_now ev 1)))
         (\<lambda>revoked. if revoked then andThen identity_commit (\<lambda>_. ret revoked) else ret revoked)))"

definition revoke_all :: "identity_env \<Rightarrow> string \<Rightarrow> (identity_data, unit) prog" where
  "revoke_all ev token =
     andThen (resolve_owner ev 0 token) (\<lambda>(p, uid).
       committing (\<lambda>d.
         bindE (owner_account d uid (sp_profile_id p)) (\<lambda>account.
         bindE (require_active_presented ev token p (ev_now ev 1) d) (\<lambda>_.
         bindE (sessions_revoke_all d uid (sp_profile_id p) (ev_now ev 2)) (\<lambda>(n, d1). Inr ((), d1))))))"

definition revoke :: "identity_env \<Rightarrow> string \<Rightarrow> (identity_data, unit) prog" where
  "revoke ev token =
     andThen (lift (token_digest ev token)) (\<lambda>digest.
       committing (\<lambda>d.
         case sessions_get d digest of None \<Rightarrow> Inl SessionInvalidError
         | Some s \<Rightarrow>
             if \<not> is_active s (ev_now ev 0) then Inl SessionInvalidError
             else bindE (session_revoke s (ev_now ev 0)) (\<lambda>s'. Inr ((), sessions_save d s'))))"

section \<open>Transactions as functions\<close>

lemma reading_apply: "reading f d = (f d, d)"
  by (cases "f d")
    (auto simp: reading_def identity_uow.within_raise intro: identity_uow.within_return)

lemma committing_apply:
  "committing f d = (case f d of Inl e \<Rightarrow> (Inl e, d) | Inr (x, d') \<Rightarrow> (Inr x, d'))"
  unfolding committing_def using identity_uow.transaction [of f "\<lambda>x. x" d] by simp

lemma committing_iff: "committing f d = (Inr x, d') \<longleftrightarrow> f d = Inr (x, d')"
  by (auto simp: committing_apply split: sum.splits)

lemma committing_Inl: "committing f d = (Inl e, d') \<Longrightarrow> d' = d"
  by (auto simp: committing_apply split: sum.splits)

section \<open>Well-formed stores and the session cap\<close>

definition identity_ok :: "identity_data \<Rightarrow> bool" where
  "identity_ok d =
     (dict_ok (idd_accounts d) \<and> dict_ok (idd_sessions d)
      \<and> (\<forall>e a. accounts_get_by_email d e = Some a \<longrightarrow> ua_email a = e \<and> account_post_init a = Inr a)
      \<and> (\<forall>k s. sessions_get d k = Some s \<longrightarrow> sr_token_sha256 s = k \<and> session_post_init s = Inr s))"

text \<open>The digests of the sessions of one account that are active at an instant.\<close>

definition active_tokens :: "identity_data \<Rightarrow> uuid \<Rightarrow> uuid \<Rightarrow> int \<Rightarrow> string set" where
  "active_tokens d uid pid t = {k. \<exists>s. sessions_get d k = Some s \<and> owned_active uid pid t s}"

definition within_cap :: "authentication_config \<Rightarrow> identity_data \<Rightarrow> int \<Rightarrow> bool" where
  "within_cap cfg d t = (\<forall>uid pid. card (active_tokens d uid pid t) \<le> auth_max_sessions cfg)"

lemma finite_active: "finite (active_tokens d uid pid t)"
proof (rule finite_subset)
  show "active_tokens d uid pid t \<subseteq> fst ` set (idd_sessions d)"
    by (auto simp: active_tokens_def sessions_get_def dict_get_def dest!: map_of_SomeD intro: rev_image_eqI)
qed simp

lemma active_tokens_later: "t \<le> t' \<Longrightarrow> active_tokens d uid pid t' \<subseteq> active_tokens d uid pid t"
  by (auto simp: active_tokens_def owned_active_def)

lemma card_active_shrink:
  "active_tokens d' uid pid t \<subseteq> active_tokens d uid pid t' \<Longrightarrow>
   card (active_tokens d uid pid t') \<le> n \<Longrightarrow> card (active_tokens d' uid pid t) \<le> n"
  using card_mono [OF finite_active] le_trans by blast

lemma within_cap_later: "within_cap cfg d t \<Longrightarrow> t \<le> t' \<Longrightarrow> within_cap cfg d t'"
  unfolding within_cap_def using card_active_shrink active_tokens_later by blast

text \<open>The session under a digest was revoked.\<close>

definition dead :: "string \<Rightarrow> identity_data \<Rightarrow> bool" where
  "dead k d = opt_holds (\<lambda>s. sr_revoked_at s \<noteq> None) (sessions_get d k)"

text \<open>From \<open>now\<close> on, the change from \<open>d\<close> to \<open>d'\<close> keeps the store well formed and the cap, and
  revives no revoked session, unless its token is generated anew, and drops no account.\<close>

definition keeps :: "authentication_config \<Rightarrow> identity_env \<Rightarrow> int \<Rightarrow> identity_data \<Rightarrow> identity_data \<Rightarrow> bool" where
  "keeps cfg ev now d d' = (identity_ok d \<longrightarrow> identity_ok d'
     \<and> (\<forall>t \<ge> now. within_cap cfg d t \<longrightarrow> within_cap cfg d' t)
     \<and> (\<forall>k. k \<noteq> ev_sha256 ev (ev_token ev) \<longrightarrow> dead k d \<longrightarrow> dead k d')
     \<and> (\<forall>e. accounts_get_by_email d e \<noteq> None \<longrightarrow> accounts_get_by_email d' e \<noteq> None))"

lemma keeps_refl: "keeps cfg ev now d d"
  by (simp add: keeps_def)

lemma keeps_trans: "keeps cfg ev now d d1 \<Longrightarrow> keeps cfg ev now' d1 d2 \<Longrightarrow> now \<le> now2 \<Longrightarrow> now' \<le> now2 \<Longrightarrow> keeps cfg ev now2 d d2"
  by (simp add: keeps_def)

lemma keeps_later: "keeps cfg ev now d d' \<Longrightarrow> now \<le> now' \<Longrightarrow> keeps cfg ev now' d d'"
  by (simp add: keeps_def)

lemma keeps_shrink:
  assumes "identity_ok d \<Longrightarrow> identity_ok d'"
    and "\<And>uid pid t. identity_ok d \<Longrightarrow> active_tokens d' uid pid t \<subseteq> active_tokens d uid pid t"
    and "\<And>k. k \<noteq> ev_sha256 ev (ev_token ev) \<Longrightarrow> dead k d \<Longrightarrow> dead k d'"
    and "\<And>e. accounts_get_by_email d e \<noteq> None \<Longrightarrow> accounts_get_by_email d' e \<noteq> None"
  shows "keeps cfg ev now d d'"
proof -
  have "within_cap cfg d' t" if "identity_ok d" "within_cap cfg d t" for t
    unfolding within_cap_def using card_active_shrink [OF assms(2) [OF that(1)]] that(2)
    by (simp add: within_cap_def)
  then show ?thesis using assms(1,3,4) by (simp add: keeps_def)
qed

lemma sessions_get_save [simp]:
  "sessions_get (sessions_save d s) k = (if k = sr_token_sha256 s then Some s else sessions_get d k)"
  "accounts_get_by_email (sessions_save d s) e = accounts_get_by_email d e"
  "idd_accounts (sessions_save d s) = idd_accounts d"
  by (simp_all add: sessions_save_def sessions_get_def accounts_get_by_email_def dict_simps)

lemma post_init_same:
  "session_post_init s = Inr s' \<Longrightarrow> s' = s"
  "account_post_init a = Inr a' \<Longrightarrow> a' = a"
  "principal_post_init p = Inr p' \<Longrightarrow> p' = p"
  by (auto simp: session_post_init_def account_post_init_def principal_post_init_def Let_def split: if_splits)

lemma identity_ok_save:
  "identity_ok d \<Longrightarrow> session_post_init s = Inr s \<Longrightarrow> identity_ok (sessions_save d s)"
  by (simp add: identity_ok_def) (simp add: sessions_save_def dict_simps)

lemma session_revoke_same:
  "session_revoke s t = Inr s' \<Longrightarrow> s' = s\<lparr>sr_revoked_at := Some t\<rparr> \<and> session_post_init s' = Inr s'"
  using post_init_same(1) by (auto simp: session_revoke_def)

lemma keeps_revoke:
  assumes "session_revoke s t = Inr s'"
  shows "keeps cfg ev now d (sessions_save d s')"
proof (rule keeps_shrink)
  show "identity_ok d \<Longrightarrow> identity_ok (sessions_save d s')"
    using identity_ok_save session_revoke_same [OF assms] by blast
  show "active_tokens (sessions_save d s') uid pid u \<subseteq> active_tokens d uid pid u" for uid pid u
    using session_revoke_same [OF assms]
    by (auto simp: active_tokens_def owned_active_def split: if_splits)
  show "dead k d \<Longrightarrow> dead k (sessions_save d s')" for k
    using session_revoke_same [OF assms] by (auto simp: dead_def opt_holds_def)
qed simp

lemma keeps_revoke_each: "revoke_each d ss t = Inr d' \<Longrightarrow> keeps cfg ev now d d'"
proof (induction ss arbitrary: d)
  case Nil
  then show ?case by (simp add: keeps_refl)
next
  case (Cons s ss)
  then obtain s' where s: "session_revoke s t = Inr s'" and r: "revoke_each (sessions_save d s') ss t = Inr d'"
    by (auto simp: bindE_eq_Inr)
  show ?case
    using keeps_trans [OF keeps_revoke [OF s] Cons.IH [OF r] order_refl order_refl] .
qed

lemma revoke_each_all:
  "revoke_each d ss t = Inr d' \<Longrightarrow> idd_accounts d' = idd_accounts d
    \<and> (\<forall>k. if k \<in> sr_token_sha256 ` set ss
          then \<exists>s'. sessions_get d' k = Some s' \<and> sr_revoked_at s' \<noteq> None
          else sessions_get d' k = sessions_get d k)"
proof (induction ss arbitrary: d)
  case (Cons s ss)
  then obtain s' where s: "session_revoke s t = Inr s'" and r: "revoke_each (sessions_save d s') ss t = Inr d'"
    by (auto simp: bindE_eq_Inr)
  have s': "sr_token_sha256 s' = sr_token_sha256 s" "sr_revoked_at s' = Some t"
    using session_revoke_same [OF s] by simp_all
  note IH = Cons.IH [OF r]
  show ?case
  proof (intro conjI allI)
    show "idd_accounts d' = idd_accounts d" using IH by simp
    fix k
    have k: "if k \<in> sr_token_sha256 ` set ss
        then \<exists>s'. sessions_get d' k = Some s' \<and> sr_revoked_at s' \<noteq> None
        else sessions_get d' k = sessions_get (sessions_save d s') k" using IH by blast
    show "if k \<in> sr_token_sha256 ` set (s # ss)
        then \<exists>s'. sessions_get d' k = Some s' \<and> sr_revoked_at s' \<noteq> None
        else sessions_get d' k = sessions_get d k"
      using k s' by (cases "k \<in> sr_token_sha256 ` set ss"; cases "k = sr_token_sha256 s") simp_all
  qed
qed simp

lemma revoke_each_effect:
  assumes "revoke_each d ss t = Inr d'"
  shows "k \<in> sr_token_sha256 ` set ss \<Longrightarrow> \<exists>s'. sessions_get d' k = Some s' \<and> sr_revoked_at s' \<noteq> None"
    and "k \<notin> sr_token_sha256 ` set ss \<Longrightarrow> sessions_get d' k = sessions_get d k"
    and "idd_accounts d' = idd_accounts d"
  using revoke_each_all [OF assms] by (auto split: if_splits dest: spec [of _ k])

text \<open>What \<open>list_active_for_user\<close> returns.\<close>

lemma listed_sessions:
  assumes "identity_ok d"
  shows "sr_token_sha256 ` set (sessions_list_active d uid pid now None) = active_tokens d uid pid now"
    and "length (sessions_list_active d uid pid now None) = card (active_tokens d uid pid now)"
proof -
  have set: "set (sessions_list_active d uid pid now None)
      = {s. \<exists>k. sessions_get d k = Some s \<and> owned_active uid pid now s}"
    using assms dict_values_get [of "idd_sessions d"] dict_get_in_values [of "idd_sessions d"]
    by (auto simp: sessions_list_active_def sessions_get_def identity_ok_def)
  then show "sr_token_sha256 ` set (sessions_list_active d uid pid now None) = active_tokens d uid pid now"
    using assms by (force simp: active_tokens_def identity_ok_def)
  show "length (sessions_list_active d uid pid now None) = card (active_tokens d uid pid now)"
    using assms length_filter_values [of "idd_sessions d" "owned_active uid pid now"]
    by (simp add: sessions_list_active_def active_tokens_def sessions_get_def identity_ok_def)
qed

lemma issue_iff:
  "issue ev i p created expires account d = Inr (g, d') \<longleftrightarrow>
    (\<exists>s. \<not> untrimmed (ev_token ev) \<and> session_post_init s = Inr s \<and> d' = sessions_save d s
      \<and> s = \<lparr>sr_session_id = ev_id ev i, sr_token_sha256 = ev_sha256 ev (ev_token ev), sr_principal = p,
          sr_created_at = created, sr_expires_at = expires, sr_revoked_at = None\<rparr>
      \<and> g = \<lparr>sg_token = ev_token ev, sg_principal = p, sg_expires_at = expires, sg_account = account\<rparr>)"
  by (auto simp: issue_def token_digest_def bindE_eq_Inr dest: post_init_same(1))

lemma keeps_accounts:
  assumes "idd_sessions d' = idd_sessions d" "identity_ok d \<Longrightarrow> identity_ok d'"
    and "\<And>e. accounts_get_by_email d e \<noteq> None \<Longrightarrow> accounts_get_by_email d' e \<noteq> None"
  shows "keeps cfg ev now d d'"
  by (rule keeps_shrink) (use assms in \<open>auto simp: active_tokens_def sessions_get_def dead_def\<close>)

lemma keeps_guest:
  assumes "issue_guest_session cfg ev t d = Inr (g, d')"
  shows "keeps cfg' ev now d d'"
proof -
  obtain s where s: "session_post_init s = Inr s" "d' = sessions_save d s" "sp_user_id (sr_principal s) = None"
      "sr_token_sha256 s = ev_sha256 ev (ev_token ev)"
    using assms by (auto simp: issue_guest_session_def bindE_eq_Inr issue_iff dest!: post_init_same(3))
  show ?thesis
    unfolding s(2)
  proof (rule keeps_shrink)
    show "identity_ok d \<Longrightarrow> identity_ok (sessions_save d s)" using identity_ok_save s(1) by blast
    show "active_tokens (sessions_save d s) uid pid u \<subseteq> active_tokens d uid pid u" for uid pid u
      using s(3) by (auto simp: active_tokens_def owned_active_def split: if_splits)
    show "k \<noteq> ev_sha256 ev (ev_token ev) \<Longrightarrow> dead k d \<Longrightarrow> dead k (sessions_save d s)" for k
      using s(4) by (simp add: dead_def)
  qed simp
qed

text \<open>
  Issuing an authenticated session: of the owner's active sessions only the most recent
  \<open>max - 1\<close> survive, and the new one joins them.
\<close>

definition trimmed_store ::
    "authentication_config \<Rightarrow> identity_data \<Rightarrow> uuid \<Rightarrow> uuid \<Rightarrow> int \<Rightarrow> identity_data \<Rightarrow> bool" where
  "trimmed_store cfg d uid pid now d1 = (revoke_each d (drop (auth_max_sessions cfg - 1)
     (sessions_list_active d uid pid now None)) now = Inr d1)"

definition account_session ::
    "authentication_config \<Rightarrow> identity_env \<Rightarrow> nat \<Rightarrow> user_account \<Rightarrow> int \<Rightarrow> session_record" where
  "account_session cfg ev i a now =
     \<lparr>sr_session_id = ev_id ev i, sr_token_sha256 = ev_sha256 ev (ev_token ev),
      sr_principal = \<lparr>sp_kind = Principal_AUTHENTICATED, sp_profile_id = ua_profile_id a,
        sp_scope = DEFAULT_AUTHENTICATED_CORPUS_ACCESS_SCOPE, sp_user_id = Some (ua_user_id a)\<rparr>,
      sr_created_at = now, sr_expires_at = now + auth_session_ttl cfg, sr_revoked_at = None\<rparr>"

lemma account_session_simps [simp]:
  "sr_token_sha256 (account_session cfg ev i a now) = ev_sha256 ev (ev_token ev)"
  "sp_user_id (sr_principal (account_session cfg ev i a now)) = Some (ua_user_id a)"
  "sp_profile_id (sr_principal (account_session cfg ev i a now)) = ua_profile_id a"
  "sp_kind (sr_principal (account_session cfg ev i a now)) = Principal_AUTHENTICATED"
  "sr_revoked_at (account_session cfg ev i a now) = None"
  "sr_expires_at (account_session cfg ev i a now) = now + auth_session_ttl cfg"
  "scope_matches_policy (sr_principal (account_session cfg ev i a now))"
  by (simp_all add: account_session_def scope_matches_policy_def)

lemma issue_authenticated_iff:
  "issue_authenticated cfg ev i account now d = Inr (g, d') \<longleftrightarrow>
    (\<exists>locked d1. accounts_get_by_user_id d (ua_user_id account) = Some locked
      \<and> ua_profile_id locked = ua_profile_id account \<and> ua_status locked = Account_ACTIVE
      \<and> trimmed_store cfg d (ua_user_id locked) (ua_profile_id locked) now d1
      \<and> \<not> untrimmed (ev_token ev)
      \<and> session_post_init (account_session cfg ev i locked now) = Inr (account_session cfg ev i locked now)
      \<and> d' = sessions_save d1 (account_session cfg ev i locked now)
      \<and> g = \<lparr>sg_token = ev_token ev, sg_principal = sr_principal (account_session cfg ev i locked now),
          sg_expires_at = now + auth_session_ttl cfg, sg_account = Some locked\<rparr>)"
  by (auto simp: issue_authenticated_def bindE_eq_Inr issue_iff trimmed_store_def principal_post_init_def
      DEFAULT_AUTHENTICATED_CORPUS_ACCESS_SCOPE_def account_session_def split: option.splits)

lemma user_id_of_found: "accounts_get_by_user_id d uid = Some a \<Longrightarrow> ua_user_id a = uid"
  by (auto simp: accounts_get_by_user_id_def dest: find_Some_mem)

lemma trimmed_active:
  assumes "trimmed_store cfg d uid pid now d1" "identity_ok d"
  shows "card (active_tokens d1 uid pid now) \<le> auth_max_sessions cfg - 1"
    and "active_tokens d1 uid' pid' t \<subseteq> active_tokens d uid' pid' t"
proof -
  let ?ss = "sessions_list_active d uid pid now None"
  let ?n = "auth_max_sessions cfg - 1"
  note r = assms(1) [unfolded trimmed_store_def]
  note effect = revoke_each_effect [OF r]
  have revoked: "k \<notin> active_tokens d1 u p t'" if "k \<in> sr_token_sha256 ` set (drop ?n ?ss)" for k u p t'
    using effect(1) [OF that] by (auto simp: active_tokens_def owned_active_def)
  have same: "k \<in> active_tokens d1 u p t' \<Longrightarrow> k \<in> active_tokens d u p t'" for k u p t'
    using revoked [of k u p t'] effect(2) [of k]
    by (cases "k \<in> sr_token_sha256 ` set (drop ?n ?ss)") (auto simp: active_tokens_def)
  then show "active_tokens d1 uid' pid' t \<subseteq> active_tokens d uid' pid' t" by blast
  have "active_tokens d1 uid pid now \<subseteq> sr_token_sha256 ` set (take ?n ?ss)"
  proof
    fix k assume k: "k \<in> active_tokens d1 uid pid now"
    have "k \<in> sr_token_sha256 ` set ?ss" using same [OF k] listed_sessions(1) [OF assms(2)] by simp
    moreover have "set ?ss = set (take ?n ?ss) \<union> set (drop ?n ?ss)"
      by (metis append_take_drop_id set_append)
    ultimately show "k \<in> sr_token_sha256 ` set (take ?n ?ss)" using revoked [of k] k by blast
  qed
  then have "card (active_tokens d1 uid pid now) \<le> card (sr_token_sha256 ` set (take ?n ?ss))"
    by (rule card_mono [rotated]) simp
  also have "\<dots> \<le> length (take ?n ?ss)" by (metis card_image_le card_length finite_set le_trans)
  finally show "card (active_tokens d1 uid pid now) \<le> ?n" by simp
qed

lemma keeps_issue_authenticated:
  assumes "issue_authenticated cfg ev i account now d = Inr (g, d')" "1 \<le> auth_max_sessions cfg"
  shows "keeps cfg ev now d d'"
proof -
  obtain locked d1 where t: "trimmed_store cfg d (ua_user_id locked) (ua_profile_id locked) now d1"
    and ok1: "session_post_init (account_session cfg ev i locked now) = Inr (account_session cfg ev i locked now)"
    and d': "d' = sessions_save d1 (account_session cfg ev i locked now)"
    using assms(1) unfolding issue_authenticated_iff by (elim exE conjE) (rule that; assumption)
  define s where "s = account_session cfg ev i locked now"
  have s: "session_post_init s = Inr s" "d' = sessions_save d1 s"
    and owner: "sp_user_id (sr_principal s) = Some (ua_user_id locked)" "sp_profile_id (sr_principal s) = ua_profile_id locked"
    using ok1 d' by (simp_all add: s_def)
  let ?uid = "ua_user_id locked" and ?pid = "ua_profile_id locked"
  have ok: "identity_ok d'" if "identity_ok d"
    using that keeps_revoke_each [OF t [unfolded trimmed_store_def], of cfg ev now] identity_ok_save [OF _ s(1), of d1]
    by (simp add: keeps_def s(2))
  have cap: "card (active_tokens d' uid pid u) \<le> auth_max_sessions cfg"
    if "identity_ok d" "now \<le> u" "within_cap cfg d u" for u uid pid
  proof (cases "uid = ?uid \<and> pid = ?pid")
    case True
    have "active_tokens d' uid pid u \<subseteq> insert (sr_token_sha256 s) (active_tokens d1 uid pid u)"
      by (auto simp: s(2) active_tokens_def)
    then have "card (active_tokens d' uid pid u) \<le> card (insert (sr_token_sha256 s) (active_tokens d1 uid pid u))"
      by (intro card_mono) (simp_all add: finite_active)
    also have "\<dots> \<le> Suc (card (active_tokens d1 uid pid u))"
      by (simp add: card_insert_if finite_active)
    finally have "card (active_tokens d' uid pid u) \<le> Suc (card (active_tokens d1 uid pid u))" .
    moreover have "card (active_tokens d1 uid pid u) \<le> auth_max_sessions cfg - 1"
      using True trimmed_active(1) [OF t that(1)] card_active_shrink active_tokens_later [OF that(2)] by blast
    ultimately show ?thesis using assms(2) by linarith
  next
    case False
    have "active_tokens d' uid pid u \<subseteq> active_tokens d1 uid pid u"
      using False owner by (auto simp: s(2) active_tokens_def owned_active_def split: if_splits)
    also have "\<dots> \<subseteq> active_tokens d uid pid u" by (rule trimmed_active(2) [OF t that(1)])
    finally show ?thesis using that(3) card_active_shrink unfolding within_cap_def by blast
  qed
  have revoked: "dead k d'" if "k \<noteq> ev_sha256 ev (ev_token ev)" "dead k d" for k
    using revoke_each_all [OF t [unfolded trimmed_store_def]] that
    by (auto simp: dead_def opt_holds_def d' split: if_splits option.splits dest!: spec [of _ k])
  have accounts: "accounts_get_by_email d' e = accounts_get_by_email d e" for e
    using revoke_each_all [OF t [unfolded trimmed_store_def]] by (simp add: d' accounts_get_by_email_def)
  show ?thesis unfolding keeps_def within_cap_def [of cfg d'] using ok cap revoked accounts by simp
qed

section \<open>Every call keeps the store well formed and the cap\<close>

lemma committing_keeps:
  assumes "committing f d = (r, d')" "\<And>x d'. f d = Inr (x, d') \<Longrightarrow> keeps cfg ev now d d'"
  shows "keeps cfg ev now d d'"
  using assms by (cases "f d") (auto simp: committing_apply keeps_refl split: prod.splits)

text \<open>Calls that only read return the store they were given.\<close>

definition only_reads :: "(identity_data, 'a) prog \<Rightarrow> bool" where
  "only_reads m = (\<forall>d. m d = (fst (m d), d))"

lemma andThen_reads:
  "only_reads m \<Longrightarrow> andThen m f d = (case fst (m d) of Inl e \<Rightarrow> (Inl e, d) | Inr x \<Rightarrow> f x d)"
  unfolding only_reads_def by (cases "fst (m d)") (metis andThen_Inl sum.case(1), metis andThen_Inr sum.case(2))

lemma only_reads_reading: "only_reads (reading f)"
  by (simp add: only_reads_def reading_apply)

lemma andThen_reading:
  "andThen (reading f) k d = (case f d of Inl e \<Rightarrow> (Inl e, d) | Inr x \<Rightarrow> k x d)"
  using andThen_reads [OF only_reads_reading, of f k d] by (simp add: reading_apply)

lemma only_reads_andThen: "only_reads m \<Longrightarrow> (\<And>x. only_reads (f x)) \<Longrightarrow> only_reads (andThen m f)"
  by (subst only_reads_def) (auto simp: andThen_reads only_reads_def split: sum.split)

lemma only_reads_basic: "only_reads (lift r)" "only_reads (raise e)" "only_reads (ret x)"
  by (simp_all add: only_reads_def lift_def raise_def ret_def)

lemma only_reads_resolve: "only_reads (resolve_grant ev n token)" "only_reads (resolve_owner ev n token)"
proof -
  show g: "only_reads (resolve_grant ev n token)"
    unfolding resolve_grant_def by (intro only_reads_andThen only_reads_basic only_reads_reading)
  show "only_reads (resolve_owner ev n token)"
    unfolding resolve_owner_def
    by (intro only_reads_andThen g) (auto simp: Let_def only_reads_basic split: option.split)
qed

lemma with_fields_ok:
  "with_display_name a name = Inr a' \<Longrightarrow> a' = a\<lparr>ua_display_name := name\<rparr> \<and> account_post_init a' = Inr a'"
  "with_password_hash a h = Inr a' \<Longrightarrow> a' = a\<lparr>ua_password_hash := h\<rparr> \<and> account_post_init a' = Inr a'"
  using post_init_same(2) by (auto simp: with_display_name_def with_password_hash_def split: if_splits)

lemma keeps_accounts_save:
  assumes "accounts_save d a = Inr d'" "account_post_init a = Inr a"
    and "accounts_get_by_user_id d (ua_user_id a) = Some old" "ua_email a = ua_email old"
  shows "keeps cfg ev now d d'"
proof (rule keeps_accounts)
  have d': "d' = d\<lparr>idd_accounts := dict_set (idd_accounts d) (ua_email a) a\<rparr>"
    using assms by (auto simp: accounts_save_def split: if_splits)
  show "idd_sessions d' = idd_sessions d" by (simp add: d')
  show "identity_ok d \<Longrightarrow> identity_ok d'"
    using assms(2)
    by (auto simp: d' identity_ok_def accounts_get_by_email_def sessions_get_def dict_simps)
  show "accounts_get_by_email d e \<noteq> None \<Longrightarrow> accounts_get_by_email d' e \<noteq> None" for e
    by (simp add: d' accounts_get_by_email_def dict_simps)
qed

lemma keeps_accounts_add:
  assumes "accounts_add d a = Inr d'" "account_post_init a = Inr a"
  shows "keeps cfg ev now d d'"
proof (rule keeps_accounts)
  have d': "d' = d\<lparr>idd_accounts := dict_set (idd_accounts d) (ua_email a) a\<rparr>"
    using assms by (auto simp: accounts_add_def split: if_splits)
  show "idd_sessions d' = idd_sessions d" by (simp add: d')
  show "identity_ok d \<Longrightarrow> identity_ok d'"
    using assms(2)
    by (auto simp: d' identity_ok_def accounts_get_by_email_def sessions_get_def dict_simps)
  show "accounts_get_by_email d e \<noteq> None \<Longrightarrow> accounts_get_by_email d' e \<noteq> None" for e
    by (simp add: d' accounts_get_by_email_def dict_simps)
qed

lemma keeps_revoke_current: "revoke_current_if_valid ev token t d = Inr d' \<Longrightarrow> keeps cfg ev now d d'"
  by (auto simp: revoke_current_if_valid_def bindE_eq_Inr keeps_refl keeps_revoke
      split: option.splits if_splits sum.splits)

lemma keeps_revoke_all: "sessions_revoke_all d uid pid t = Inr (n, d') \<Longrightarrow> keeps cfg ev now d d'"
  by (auto simp: sessions_revoke_all_def Let_def bindE_eq_Inr keeps_revoke_each)

lemma keeps_sessions_revoke: "sessions_revoke d sid uid pid t = Inr (b, d') \<Longrightarrow> keeps cfg ev now d d'"
  by (auto simp: sessions_revoke_def bindE_eq_Inr keeps_refl keeps_revoke split: option.splits if_splits)

lemma owner_account_iff:
  "owner_account d uid pid = Inr a \<longleftrightarrow> accounts_get_by_user_id d uid = Some a
     \<and> ua_profile_id a = pid \<and> ua_status a = Account_ACTIVE"
  by (auto simp: owner_account_def split: option.splits)

text \<open>The clock readings of one call all lie between two instants.\<close>

definition env_between :: "identity_env \<Rightarrow> int \<Rightarrow> int \<Rightarrow> bool" where
  "env_between ev c now = (c \<le> ev_now ev 0 \<and> ev_now ev 0 \<le> ev_now ev 1 \<and> ev_now ev 1 \<le> ev_now ev 2
     \<and> ev_now ev 2 \<le> now)"

lemma keeps_owned_commit:
  assumes "andThen (resolve_owner ev 0 token) (\<lambda>(p, uid). andThen' p uid) d = (r, d')"
    and "\<And>p uid. andThen' p uid d = (r, d') \<Longrightarrow> keeps cfg ev now d d'"
  shows "keeps cfg ev now d d'"
  using assms by (auto simp: andThen_reads [OF only_reads_resolve(2)] keeps_refl split: sum.splits)

lemma keeps_reads: "only_reads m \<Longrightarrow> m d = (r, d') \<Longrightarrow> keeps cfg ev now d d'"
  unfolding only_reads_def using keeps_refl by (metis snd_conv)

lemma keeps_lift:
  assumes "andThen (lift v) f d = (r, d')" "\<And>x. v = Inr x \<Longrightarrow> f x d = (r, d') \<Longrightarrow> keeps cfg ev now d d'"
  shows "keeps cfg ev now d d'"
  using assms by (auto simp: andThen_lift keeps_refl split: sum.splits)

lemma keeps_register:
  assumes "register cfg ev c d = (r, d')" "1 \<le> auth_max_sessions cfg" "env_between ev c0 now"
  shows "keeps cfg ev now d d'"
proof -
  note now = assms(3) [unfolded env_between_def]
  show ?thesis
    using assms(1) unfolding register_def
  proof (elim keeps_lift)
    fix email account x y
    assume a: "account_post_init \<lparr>ua_user_id = ev_id ev 0, ua_profile_id = ev_id ev 1,
         ua_email = email, ua_display_name = rc_display_name c,
         ua_password_hash = ev_hash ev (rc_password c), ua_status = Account_ACTIVE,
         ua_created_at = ev_now ev 0\<rparr> = Inr account"
    let ?f = "\<lambda>d. if accounts_get_by_email d email \<noteq> None then Inl EmailAlreadyRegisteredError
         else bindE (revoke_current_if_valid ev (rc_current_token c) (ev_now ev 0) d) (\<lambda>d1.
              bindE (accounts_add d1 account) (\<lambda>d2.
                issue_authenticated cfg ev 2 account (ev_now ev 0) d2))"
    assume "catch_duplicate_email (committing ?f) d = (r, d')"
    then obtain r' where r': "committing ?f d = (r', d')"
      by (auto simp: catch_duplicate_email_def split: prod.splits)
    show "keeps cfg ev now d d'"
    proof (rule committing_keeps [OF r'])
      fix g d3 assume "?f d = Inr (g, d3)"
      then obtain d1 d2 where
        1: "revoke_current_if_valid ev (rc_current_token c) (ev_now ev 0) d = Inr d1" and
        2: "accounts_add d1 account = Inr d2" and
        3: "issue_authenticated cfg ev 2 account (ev_now ev 0) d2 = Inr (g, d3)"
        by (auto simp: bindE_eq_Inr split: if_splits)
      have "account_post_init account = Inr account" using a post_init_same(2) by blast
      then have "keeps cfg ev (ev_now ev 0) d d2"
        using keeps_trans [OF keeps_revoke_current [OF 1] keeps_accounts_add [OF 2]] by blast
      from keeps_trans [OF this keeps_issue_authenticated [OF 3 assms(2)]] now
      show "keeps cfg ev now d d3" by force
    qed
  qed
qed

lemma keeps_authenticate:
  assumes "authenticate cfg ev c d = (r, d')" "1 \<le> auth_max_sessions cfg" "env_between ev c0 now"
  shows "keeps cfg ev now d d'"
proof -
  note now = assms(3) [unfolded env_between_def]
  have step: "keeps cfg ev now d d3"
    if "bindE (revoke_current_if_valid ev t (ev_now ev 0) d) (\<lambda>d1. issue_authenticated cfg ev 0 a (ev_now ev 0) d1)
      = Inr (g, d3)" for t a g d3
  proof -
    from that obtain d1 where
      1: "revoke_current_if_valid ev t (ev_now ev 0) d = Inr d1" and
      3: "issue_authenticated cfg ev 0 a (ev_now ev 0) d1 = Inr (g, d3)"
      by (auto simp: bindE_eq_Inr)
    from keeps_trans [OF keeps_revoke_current [OF 1] keeps_issue_authenticated [OF 3 assms(2)]] now
    show ?thesis by force
  qed
  show ?thesis
    using assms(1) unfolding authenticate_def
    by (elim keeps_lift)
      (auto simp: andThen_reading Let_def raise_def keeps_refl elim!: committing_keeps intro: step
        split: option.splits if_splits)
qed

lemma keeps_update_display_name:
  assumes "update_display_name cfg ev token name d = (r, d')"
  shows "keeps cfg ev now d d'"
  using assms unfolding update_display_name_def
proof (elim keeps_lift keeps_owned_commit committing_keeps)
  fix p uid x d1
  assume "bindE (owner_account d uid (sp_profile_id p)) (\<lambda>account.
         bindE (require_active_presented ev token p (ev_now ev 1) d) (\<lambda>_.
         bindE (with_display_name account name) (\<lambda>updated.
         bindE (accounts_save d updated) (\<lambda>d1. Inr (account_summary_of updated, d1))))) = Inr (x, d1)"
  then obtain a a' where a: "accounts_get_by_user_id d uid = Some a" "with_display_name a name = Inr a'"
      "accounts_save d a' = Inr d1"
    by (auto simp: bindE_eq_Inr owner_account_iff)
  have a': "a' = a\<lparr>ua_display_name := name\<rparr>" "account_post_init a' = Inr a'"
    using with_fields_ok(1) [OF a(2)] by blast+
  show "keeps cfg ev now d d1"
    by (rule keeps_accounts_save [OF a(3) a'(2)]) (use a a' user_id_of_found [OF a(1)] in simp_all)
qed

lemma keeps_change_password:
  assumes "change_password cfg ev token c d = (r, d')" "1 \<le> auth_max_sessions cfg" "env_between ev c0 now"
  shows "keeps cfg ev now d d'"
proof -
  note now = assms(3) [unfolded env_between_def]
  show ?thesis
    using assms(1) unfolding change_password_def
  proof (elim keeps_owned_commit keeps_lift)
    fix p uid
    let ?f = "\<lambda>d. bindE (owner_account d uid (sp_profile_id p)) (\<lambda>account.
         bindE (require_active_presented ev token p (ev_now ev 1) d) (\<lambda>_.
         if \<not> ev_verify ev (cp_current c) (ua_password_hash account) then Inl InvalidCredentialsError
         else
           bindE (with_password_hash account (ev_hash ev (cp_new c))) (\<lambda>updated.
           bindE (accounts_save d updated) (\<lambda>d1.
           bindE (sessions_revoke_all d1 uid (sp_profile_id p) (ev_now ev 2)) (\<lambda>(n, d2).
             issue_authenticated cfg ev 0 updated (ev_now ev 2) d2)))))"
    assume "(if cp_current c = cp_new c then raise (ValueError STR ''PASSWORD_MUST_DIFFER'')
       else committing ?f) d = (r, d')"
    then show "keeps cfg ev now d d'"
    proof (cases "cp_current c = cp_new c")
      case False
      assume "(if cp_current c = cp_new c then raise (ValueError STR ''PASSWORD_MUST_DIFFER'')
       else committing ?f) d = (r, d')"
      with False have "committing ?f d = (r, d')" by simp
      then show ?thesis
      proof (rule committing_keeps)
        fix g d3 assume "?f d = Inr (g, d3)"
        then obtain a a' d1 n d2 where a: "accounts_get_by_user_id d uid = Some a"
          "with_password_hash a (ev_hash ev (cp_new c)) = Inr a'" "accounts_save d a' = Inr d1"
          and 2: "sessions_revoke_all d1 uid (sp_profile_id p) (ev_now ev 2) = Inr (n, d2)"
          and 3: "issue_authenticated cfg ev 0 a' (ev_now ev 2) d2 = Inr (g, d3)"
          by (auto simp: bindE_eq_Inr owner_account_iff split: if_splits)
        have a': "a' = a\<lparr>ua_password_hash := ev_hash ev (cp_new c)\<rparr>" "account_post_init a' = Inr a'"
          using with_fields_ok(2) [OF a(2)] by blast+
        have "keeps cfg ev (ev_now ev 2) d d1"
          by (rule keeps_accounts_save [OF a(3) a'(2)]) (use a a' user_id_of_found [OF a(1)] in simp_all)
        from keeps_trans [OF keeps_trans [OF this keeps_revoke_all [OF 2]] keeps_issue_authenticated [OF 3 assms(2)]]
        show "keeps cfg ev now d d3" using now by force
      qed
    qed (simp add: raise_def keeps_refl)
  qed
qed

lemma keeps_issue_guest:
  assumes "issue_guest cfg ev token d = (r, d')"
  shows "keeps cfg ev now d d'"
proof -
  have afresh: "keeps cfg ev now d d'" if "committing (issue_guest_session cfg ev t) d = (r, d')" for t d r d'
    using that by (rule committing_keeps) (rule keeps_guest)
  show ?thesis
  proof (cases "token = None \<or> token = Some []")
    case True
    then have "issue_guest cfg ev token = committing (issue_guest_session cfg ev (ev_now ev 0))"
      by (auto simp: issue_guest_def)
    with assms show ?thesis using afresh by metis
  next
    case False
    then obtain t where t: "token = Some t" "t \<noteq> []" by auto
    define digest where "digest = (case token_digest ev t of Inl _ \<Rightarrow> [] | Inr h \<Rightarrow> h)"
    define f where "f = (\<lambda>d. case sessions_get d digest of None \<Rightarrow> Inr ((False, None), d)
         | Some existing \<Rightarrow>
             if \<not> is_active existing (ev_now ev 0) then Inr ((False, None), d)
             else
               let p = sr_principal existing;
                   account = (case sp_user_id p of None \<Rightarrow> None | Some uid \<Rightarrow> accounts_get_by_user_id d uid)
               in if sp_kind p = Principal_AUTHENTICATED then
                    (case account of None \<Rightarrow> Inl SessionInvalidError
                     | Some a \<Rightarrow>
                         if ua_profile_id a \<noteq> sp_profile_id p \<or> ua_status a \<noteq> Account_ACTIVE
                             \<or> \<not> scope_matches_policy p then Inl SessionInvalidError
                         else Inr ((False, Some \<lparr>sg_token = t, sg_principal = p,
                                sg_expires_at = sr_expires_at existing, sg_account = Some a\<rparr>), d))
                  else bindE (session_revoke existing (ev_now ev 0)) (\<lambda>s'.
                       bindE (issue_guest_session cfg ev (ev_now ev 0) (sessions_save d s')) (\<lambda>(g, d1).
                         Inr ((True, Some g), d1))))"
    have f_keeps: "keeps cfg ev now d d1" if "f d = Inr (x, d1)" for d x d1
      using that keeps_trans [OF keeps_revoke keeps_guest order_refl order_refl]
      by (auto simp: f_def keeps_refl Let_def bindE_eq_Inr split: option.splits if_splits)
    have first: "with_identity (andThen (on_identity f)
          (\<lambda>x. if fst x then andThen identity_commit (\<lambda>_. ret (snd x)) else ret (snd x))) d
        = (case f d of Inl e \<Rightarrow> (Inl e, d) | Inr (x, d') \<Rightarrow> (Inr (snd x), if fst x then d' else d))"
      by (rule identity_uow.optional_transaction)
    have guest: "issue_guest cfg ev token d = (case f d of Inl e \<Rightarrow> (Inl e, d)
        | Inr (x, d1) \<Rightarrow> (let d2 = if fst x then d1 else d in
            case snd x of Some g \<Rightarrow> (Inr g, d2) | None \<Rightarrow> committing (issue_guest_session cfg ev (ev_now ev 1)) d2))"
      using t first [unfolded f_def]
      unfolding issue_guest_def f_def digest_def
      by (simp add: andThen_def ret_def split: sum.split prod.split option.split)
    show ?thesis
    proof (cases "f d")
      case (Inl e)
      then show ?thesis using assms by (simp add: guest keeps_refl)
    next
      case (Inr p)
      obtain x d1 where p: "p = (x, d1)" by (cases p)
      have 1: "keeps cfg ev now d (if fst x then d1 else d)" using f_keeps Inr p keeps_refl by simp
      show ?thesis
      proof (cases "snd x")
        case None
        then show ?thesis
          using assms Inr p keeps_trans [OF 1 afresh order_refl order_refl] by (simp add: guest Let_def)
      next
        case (Some g)
        then show ?thesis using assms Inr p 1 by (auto simp: guest Let_def)
      qed
    qed
  qed
qed

lemma keeps_revoke_session:
  assumes "revoke_session ev token sid d = (r, d')"
  shows "keeps cfg ev now d d'"
  using assms unfolding revoke_session_def
proof (elim keeps_owned_commit)
  fix p uid
  let ?f = "\<lambda>d. sessions_revoke d sid uid (sp_profile_id p) (ev_now ev 1)"
  assume "with_identity (andThen (on_identity ?f)
      (\<lambda>revoked. if revoked then andThen identity_commit (\<lambda>_. ret revoked) else ret revoked)) d = (r, d')"
  then show "keeps cfg ev now d d'"
    using identity_uow.optional_transaction [of ?f "\<lambda>x. x" "\<lambda>x. x" d] keeps_sessions_revoke
    by (auto simp: keeps_refl split: sum.splits)
qed

lemma keeps_revoke_all_call:
  assumes "revoke_all ev token d = (r, d')"
  shows "keeps cfg ev now d d'"
  using assms unfolding revoke_all_def
  by (elim keeps_owned_commit committing_keeps) (auto simp: bindE_eq_Inr keeps_revoke_all)

lemma keeps_revoke_call:
  assumes "revoke ev token d = (r, d')"
  shows "keeps cfg ev now d d'"
  using assms unfolding revoke_def
  by (elim keeps_lift committing_keeps) (auto simp: bindE_eq_Inr keeps_revoke split: option.splits if_splits)

section \<open>Reachable stores\<close>

inductive identity_call ::
    "authentication_config \<Rightarrow> identity_env \<Rightarrow> int \<times> identity_data \<Rightarrow> int \<times> identity_data \<Rightarrow> bool" for cfg ev where
  i_register: "env_between ev c now \<Longrightarrow> register cfg ev cmd1 d = (r1, d') \<Longrightarrow> identity_call cfg ev (c, d) (now, d')"
| i_authenticate: "env_between ev c now \<Longrightarrow> authenticate cfg ev cmd2 d = (r1, d') \<Longrightarrow> identity_call cfg ev (c, d) (now, d')"
| i_guest: "env_between ev c now \<Longrightarrow> issue_guest cfg ev tok d = (r1, d') \<Longrightarrow> identity_call cfg ev (c, d) (now, d')"
| i_display: "env_between ev c now \<Longrightarrow> update_display_name cfg ev t name d = (r2, d') \<Longrightarrow> identity_call cfg ev (c, d) (now, d')"
| i_password: "env_between ev c now \<Longrightarrow> change_password cfg ev t cmd3 d = (r1, d') \<Longrightarrow> identity_call cfg ev (c, d) (now, d')"
| i_revoke_session: "env_between ev c now \<Longrightarrow> revoke_session ev t sid d = (r3, d') \<Longrightarrow> identity_call cfg ev (c, d) (now, d')"
| i_revoke_all: "env_between ev c now \<Longrightarrow> revoke_all ev t d = (r4, d') \<Longrightarrow> identity_call cfg ev (c, d) (now, d')"
| i_revoke: "env_between ev c now \<Longrightarrow> revoke ev t d = (r4, d') \<Longrightarrow> identity_call cfg ev (c, d) (now, d')"

definition identity_step :: "authentication_config \<Rightarrow> int \<times> identity_data \<Rightarrow> int \<times> identity_data \<Rightarrow> bool" where
  "identity_step cfg s t = (\<exists>ev. identity_call cfg ev s t)"

definition identity_init :: "int \<times> identity_data \<Rightarrow> bool" where
  "identity_init s = (snd s = empty_identity_data)"

definition identity_inv :: "authentication_config \<Rightarrow> int \<times> identity_data \<Rightarrow> bool" where
  "identity_inv cfg s = (1 \<le> auth_max_sessions cfg \<longrightarrow> identity_ok (snd s) \<and> within_cap cfg (snd s) (fst s))"

lemma identity_call_keeps:
  assumes "identity_call cfg ev (c, d) (now, d')" "1 \<le> auth_max_sessions cfg"
  shows "keeps cfg ev now d d' \<and> c \<le> now"
  using assms
  by cases
    (auto simp: env_between_def intro: keeps_register keeps_authenticate keeps_issue_guest
      keeps_update_display_name keeps_change_password keeps_revoke_session keeps_revoke_all_call
      keeps_revoke_call)

lemma identity_ok_empty: "identity_ok empty_identity_data"
  by (simp add: identity_ok_def empty_identity_data_def accounts_get_by_email_def sessions_get_def dict_simps)

interpretation identity: invariant_system identity_init "identity_step cfg" "identity_inv cfg" for cfg
proof
  fix s assume "identity_init s"
  then show "identity_inv cfg s"
    using identity_ok_empty
    by (simp add: identity_init_def identity_inv_def within_cap_def active_tokens_def sessions_get_def
        empty_identity_data_def dict_simps)
next
  fix s t assume step: "identity_step cfg s t" and inv: "identity_inv cfg s"
  obtain c d now d' where st: "s = (c, d)" "t = (now, d')" by (cases s; cases t)
  show "identity_inv cfg t"
    unfolding identity_inv_def
  proof
    assume m: "1 \<le> auth_max_sessions cfg"
    obtain ev where "identity_call cfg ev (c, d) (now, d')"
      using step unfolding st identity_step_def by blast
    then have k: "keeps cfg ev now d d'" "c \<le> now" using identity_call_keeps m by blast+
    have "identity_ok d" "within_cap cfg d now"
      using inv m within_cap_later [OF _ k(2)] by (simp_all add: st identity_inv_def)
    with k(1) show "identity_ok (snd t) \<and> within_cap cfg (snd t) (fst t)"
      by (simp add: st keeps_def)
  qed
qed

section \<open>Examples\<close>

definition demo_env :: "int \<Rightarrow> nat \<Rightarrow> string \<Rightarrow> identity_env" where
  "demo_env now base token = \<lparr>ev_now = (\<lambda>_. now), ev_id = (\<lambda>n. base + n), ev_token = token,
     ev_hash = (\<lambda>p. CHR ''h'' # p), ev_verify = (\<lambda>p h. h = CHR ''h'' # p),
     ev_sha256 = (\<lambda>t. replicate 64 (if t = ''t1'' then CHR ''a'' else CHR ''b'')),
     ev_dummy_hash = ''hxxxxxxxxxxxx''\<rparr>"

abbreviation demo_auth :: authentication_config where
  "demo_auth \<equiv> DEFAULT_AUTHENTICATION_CONFIGURATION"

definition demo_register :: register_command where
  "demo_register = \<lparr>rc_email = '' Ann@Mail.org'', rc_password = ''correct horse'',
     rc_display_name = ''Ann'', rc_current_token = None\<rparr>"

definition demo_accounts :: identity_data where
  "demo_accounts = snd (register demo_auth (demo_env 1000 100 ''t1'') demo_register empty_identity_data)"

definition demo_grant :: session_grant where
  "demo_grant = (case fst (register demo_auth (demo_env 1000 100 ''t1'') demo_register empty_identity_data) of
     Inr g \<Rightarrow> g | Inl _ \<Rightarrow> undefined)"

lemma demo_registered: "isl (fst (register demo_auth (demo_env 1000 100 ''t1'') demo_register empty_identity_data)) = False"
  by code_simp

lemma demo_register_result:
  "register demo_auth (demo_env 1000 100 ''t1'') demo_register empty_identity_data = (Inr demo_grant, demo_accounts)"
  using demo_registered
  by (cases "register demo_auth (demo_env 1000 100 ''t1'') demo_register empty_identity_data")
    (auto simp: demo_grant_def demo_accounts_def split: sum.splits)

lemma demo_env_between: "env_between (demo_env t b tok) t t"
  by (simp add: env_between_def demo_env_def)

lemma demo_auth_ok: "authentication_config_post_init demo_auth = Inr demo_auth"
  by code_simp

lemma demo_accounts_reach: "reach identity_init (identity_step demo_auth) (1000, demo_accounts)"
proof (rule reach_step [OF reach_init])
  show "identity_init (1000, empty_identity_data)" by (simp add: identity_init_def)
  show "identity_step demo_auth (1000, empty_identity_data) (1000, demo_accounts)"
    unfolding identity_step_def using i_register [OF demo_env_between demo_register_result] by blast
qed

section \<open>Properties\<close>

lemma auth_config_ok: "authentication_config_post_init cfg = Inr cfg \<Longrightarrow> 1 \<le> auth_max_sessions cfg"
  by (auto simp: authentication_config_post_init_def split: if_splits)

lemma reachable_identity_ok:
  assumes "reach identity_init (identity_step cfg) (clock, d)" "authentication_config_post_init cfg = Inr cfg"
  shows "identity_ok d" "within_cap cfg d clock"
  using identity.reach_inv [OF assms(1)] auth_config_ok [OF assms(2)] by (simp_all add: identity_inv_def)

text \<open>
  C17: in every store reachable by identity calls, each account has at most the configured number
  of active sessions at every later instant, and every stored session is valid and filed under its
  token's digest, every stored account valid and filed under its normalised email.
\<close>

theorem active_sessions_bounded:
  assumes "reach identity_init (identity_step cfg) (clock, d)"
    and "authentication_config_post_init cfg = Inr cfg" "clock \<le> t"
  shows "length (sessions_list_active d uid pid t None) \<le> auth_max_sessions cfg
    \<and> (sessions_get d k = Some s \<longrightarrow> sr_token_sha256 s = k \<and> session_post_init s = Inr s)
    \<and> (accounts_get_by_email d e = Some a \<longrightarrow> ua_email a = e \<and> account_post_init a = Inr a)"
proof -
  note ok = reachable_identity_ok [OF assms(1,2)]
  have "length (sessions_list_active d uid pid t None) \<le> auth_max_sessions cfg"
    using listed_sessions(2) [OF ok(1)] within_cap_later [OF ok(2) assms(3)]
    by (simp add: within_cap_def)
  with ok(1) show ?thesis by (simp add: identity_ok_def)
qed

theorem active_sessions_bounded_witness:
  "length (sessions_list_active demo_accounts 100 101 2000 None) \<le> 5"
  using active_sessions_bounded [OF demo_accounts_reach demo_auth_ok, of 2000 100 101]
  by (simp add: DEFAULT_AUTHENTICATION_CONFIGURATION_def)

text \<open>A session under a revoked digest cannot be used.\<close>

lemma dead_not_resolved:
  assumes "dead k d" "ev_sha256 ev token = k"
  shows "resolve_grant ev n token d = (Inl SessionInvalidError, d)"
  using assms
  by (cases "untrimmed token"; cases "sessions_get d k")
    (auto simp: resolve_grant_def andThen_lift token_digest_def reading_apply dead_def opt_holds_def is_active_def)

definition calls_not_issuing :: "authentication_config \<Rightarrow> string \<Rightarrow> int \<times> identity_data \<Rightarrow> int \<times> identity_data \<Rightarrow> bool" where
  "calls_not_issuing cfg k s t = (\<exists>ev. ev_sha256 ev (ev_token ev) \<noteq> k \<and> identity_call cfg ev s t)"

lemma dead_forever:
  assumes "reach (\<lambda>s. s = (c, d)) (calls_not_issuing cfg k) s" "1 \<le> auth_max_sessions cfg"
    and "identity_ok d" "dead k d"
  shows "identity_ok (snd s) \<and> dead k (snd s)"
  using assms(1)
proof (induction rule: reach.induct)
  case (reach_init s)
  then show ?case using assms(3,4) by simp
next
  case (reach_step s t)
  obtain c1 d1 c2 d2 where st: "s = (c1, d1)" "t = (c2, d2)" by (cases s; cases t)
  from reach_step.hyps(2) obtain ev where ev: "ev_sha256 ev (ev_token ev) \<noteq> k" "identity_call cfg ev (c1, d1) (c2, d2)"
    unfolding st calls_not_issuing_def by blast
  have "keeps cfg ev c2 d1 d2" using identity_call_keeps [OF ev(2) assms(2)] by simp
  moreover have "identity_ok d1" "dead k d1" using reach_step.IH by (simp_all add: st)
  ultimately show ?case using ev(1) by (simp add: st keeps_def)
qed

lemma revoke_kills:
  assumes "revoke ev token d = (Inr u, d')" "identity_ok d"
  shows "dead (ev_sha256 ev token) d'"
proof -
  obtain s s' where s: "sessions_get d (ev_sha256 ev token) = Some s" "session_revoke s (ev_now ev 0) = Inr s'"
    and d': "d' = sessions_save d s'"
    using assms(1)
    by (auto simp: revoke_def andThen_lift token_digest_def committing_iff bindE_eq_Inr
        split: if_splits option.splits)
  have "sr_token_sha256 s = ev_sha256 ev token" using assms(2) s(1) by (simp add: identity_ok_def)
  then show ?thesis using session_revoke_same [OF s(2)] by (simp add: dead_def d' opt_holds_def)
qed

text \<open>
  C18: logging out is final: once \<open>revoke\<close> succeeded for a token on a reachable store, no
  sequence of later calls, by anyone and whatever they return, makes the token resolve again,
  unless the token generator produces a token with the same digest.
\<close>

theorem revoked_session_stays_dead:
  assumes "reach identity_init (identity_step cfg) (clock, d)"
    and "authentication_config_post_init cfg = Inr cfg"
    and "revoke ev token d = (Inr u, d')"
    and "reach (\<lambda>s. s = (now, d')) (calls_not_issuing cfg (ev_sha256 ev token)) (later, d'')"
    and "ev_sha256 ev' token = ev_sha256 ev token"
  shows "resolve_grant ev' n token d'' = (Inl SessionInvalidError, d'')"
proof -
  note ok = reachable_identity_ok(1) [OF assms(1,2)]
  have dead: "dead (ev_sha256 ev token) d'" using revoke_kills [OF assms(3) ok] .
  have "identity_ok d'"
    using keeps_revoke_call [OF assms(3), of cfg 0] ok by (simp add: keeps_def)
  then have "dead (ev_sha256 ev token) d''"
    using dead_forever [OF assms(4) auth_config_ok [OF assms(2)] _ dead] by simp
  then show ?thesis by (rule dead_not_resolved [OF _ assms(5)])
qed

theorem revoked_session_stays_dead_witness:
  "\<exists>d'. revoke (demo_env 2000 0 ''x'') ''t1'' demo_accounts = (Inr (), d')
     \<and> resolve_grant (demo_env 3000 0 ''x'') 0 ''t1'' d' = (Inl SessionInvalidError, d')"
proof -
  let ?m = "revoke (demo_env 2000 0 ''x'') ''t1'' demo_accounts"
  have "isl (fst ?m) = False" by code_simp
  then obtain u d' where "?m = (Inr u, d')"
    by (metis isl_def prod.collapse sum.exhaust)
  then have r: "?m = (Inr (), d')" by (cases u) simp
  have "resolve_grant (demo_env 3000 0 ''x'') 0 ''t1'' d' = (Inl SessionInvalidError, d')"
    by (rule revoked_session_stays_dead [OF demo_accounts_reach demo_auth_ok r, where now = 0 and later = 0])
      (rule reach_init, simp, simp add: demo_env_def)
  with r show ?thesis by blast
qed

section \<open>Changing the password\<close>

lemma find_dict_set:
  "dict_ok d \<Longrightarrow> dict_get d k = Some old \<Longrightarrow> List.find P (dict_values d) = Some old \<Longrightarrow> P v \<Longrightarrow>
   (\<And>k'. dict_get d k' = Some old \<Longrightarrow> k' = k) \<Longrightarrow> List.find P (dict_values (dict_set d k v)) = Some v"
proof (induction d)
  case Nil
  then show ?case by (simp add: dict_simps)
next
  case (Cons p d)
  obtain a b where p: "p = (a, b)" by (cases p)
  show ?case
  proof (cases "P b")
    case True
    then have "b = old" using Cons.prems(3) by (simp add: p dict_values_def)
    then have "a = k" using Cons.prems(5) [of a] by (simp add: p dict_get_def)
    then show ?thesis using Cons.prems(4) by (simp add: p dict_values_def dict_set_def)
  next
    case False
    have old: "P old" using Cons.prems(3) find_Some_mem by metis
    with False have ak: "a \<noteq> k" using Cons.prems(2) by (auto simp: p dict_get_def)
    have "List.find P (dict_values (dict_set d k v)) = Some v"
    proof (rule Cons.IH)
      show "dict_ok d" using Cons.prems(1) by (simp add: p dict_ok_def)
      show "dict_get d k = Some old" using Cons.prems(2) ak by (simp add: p dict_get_def)
      show "List.find P (dict_values d) = Some old" using Cons.prems(3) False by (simp add: p dict_values_def)
      show "P v" by fact
      show "k' = k" if "dict_get d k' = Some old" for k'
      proof -
        have "a \<notin> fst ` set d" using Cons.prems(1) by (simp add: p dict_ok_def)
        moreover have "k' \<in> fst ` set d" using that by (force simp: dict_get_def dest: map_of_SomeD)
        ultimately have "dict_get (p # d) k' = Some old" using that by (auto simp: p dict_get_def)
        then show ?thesis by (rule Cons.prems(5))
      qed
    qed
    then show ?thesis using False ak by (simp add: p dict_values_def dict_set_def)
  qed
qed

lemma saved_account_found:
  assumes "identity_ok d" "accounts_get_by_user_id d uid = Some old" "accounts_save d a = Inr d'"
    and "ua_user_id a = uid" "ua_email a = ua_email old"
  shows "accounts_get_by_user_id d' uid = Some a \<and> idd_sessions d' = idd_sessions d"
proof -
  have d': "d' = d\<lparr>idd_accounts := dict_set (idd_accounts d) (ua_email old) a\<rparr>"
    using assms by (auto simp: accounts_save_def split: if_splits)
  have key: "dict_get (idd_accounts d) k = Some old \<Longrightarrow> k = ua_email old" for k
    using assms(1) by (simp add: identity_ok_def accounts_get_by_email_def)
  have ok: "dict_ok (idd_accounts d)" using assms(1) by (simp add: identity_ok_def)
  have "old \<in> set (dict_values (idd_accounts d))"
    using find_Some_mem [OF assms(2) [unfolded accounts_get_by_user_id_def]] by simp
  from dict_values_get [OF ok this] obtain k where k: "dict_get (idd_accounts d) k = Some old" by blast
  then have old: "dict_get (idd_accounts d) (ua_email old) = Some old" by (simp flip: key [OF k])
  have "List.find (\<lambda>a. ua_user_id a = uid) (dict_values (dict_set (idd_accounts d) (ua_email old) a)) = Some a"
    by (rule find_dict_set [OF ok old assms(2) [unfolded accounts_get_by_user_id_def] assms(4) key])
  then show ?thesis by (simp add: d' accounts_get_by_user_id_def)
qed

lemma revoke_all_clears:
  assumes "sessions_revoke_all d uid pid t = Inr (n, d')" "identity_ok d" "t \<le> t'"
  shows "active_tokens d' uid pid t' = {}" "idd_accounts d' = idd_accounts d"
proof -
  let ?ss = "filter (owned_active uid pid t) (dict_values (idd_sessions d))"
  have r: "revoke_each d ?ss t = Inr d'" using assms(1) by (auto simp: sessions_revoke_all_def Let_def bindE_eq_Inr)
  note e = revoke_each_effect [OF r]
  show "idd_accounts d' = idd_accounts d" by (rule e(3))
  show "active_tokens d' uid pid t' = {}"
  proof (rule ccontr)
    assume "active_tokens d' uid pid t' \<noteq> {}"
    then obtain k s where s: "sessions_get d' k = Some s" "owned_active uid pid t' s"
      by (auto simp: active_tokens_def)
    have k: "k \<notin> sr_token_sha256 ` set ?ss" using e(1) [of k] s by (auto simp: owned_active_def)
    then have "sessions_get d k = Some s" using e(2) s(1) by simp
    then have "s \<in> set (dict_values (idd_sessions d))" "sr_token_sha256 s = k"
      using assms(2) dict_get_in_values by (auto simp: sessions_get_def identity_ok_def)
    moreover have "owned_active uid pid t s" using s(2) assms(3) by (simp add: owned_active_def)
    ultimately show False using k by auto
  qed
qed

lemma owner_account_user: "owner_account d uid pid = Inr a \<Longrightarrow> ua_user_id a = uid"
  by (auto simp: owner_account_iff dest: user_id_of_found)

text \<open>The digests that are active after a session was issued to an account without any.\<close>

lemma issued_is_only_session:
  assumes "issue_authenticated cfg ev i a now d = Inr (g, d')" "identity_ok d"
    and "\<And>t. now \<le> t \<Longrightarrow> active_tokens d (ua_user_id a) (ua_profile_id a) t = {}" "now \<le> t"
  shows "active_tokens d' (ua_user_id a) (ua_profile_id a) t =
    (if t < sg_expires_at g then {ev_sha256 ev (sg_token g)} else {})"
proof -
  obtain locked d1 where l: "accounts_get_by_user_id d (ua_user_id a) = Some locked"
    and p: "ua_profile_id locked = ua_profile_id a"
    and t: "trimmed_store cfg d (ua_user_id locked) (ua_profile_id locked) now d1"
    and d': "d' = sessions_save d1 (account_session cfg ev i locked now)"
    and g: "g = \<lparr>sg_token = ev_token ev, sg_principal = sr_principal (account_session cfg ev i locked now),
          sg_expires_at = now + auth_session_ttl cfg, sg_account = Some locked\<rparr>"
    using assms(1) unfolding issue_authenticated_iff by (elim exE conjE) (rule that; assumption)
  have u: "ua_user_id locked = ua_user_id a" using user_id_of_found [OF l] .
  have "active_tokens d1 (ua_user_id a) (ua_profile_id a) t = {}"
    using trimmed_active(2) [OF t assms(2), of "ua_user_id a" "ua_profile_id a" t] assms(3) [OF assms(4)] by simp
  then have others: "sessions_get d1 k = Some s \<Longrightarrow> \<not> owned_active (ua_user_id a) (ua_profile_id a) t s" for k s
    by (auto simp: active_tokens_def)
  have "owned_active (ua_user_id a) (ua_profile_id a) t (account_session cfg ev i locked now)
      \<longleftrightarrow> t < now + auth_session_ttl cfg"
    by (simp add: owned_active_def u p)
  with others show ?thesis
    by (auto simp: active_tokens_def d' g simp del: owned_active_def)
qed

text \<open>
  C19: changing the password signs the account out everywhere: when it succeeds on a reachable
  store, the caller proved the old password, the stored account carries the hash of the new one,
  and from that moment the only active session of the account is the one in the returned grant,
  until it expires.
\<close>

theorem password_change_signs_out_everywhere:
  assumes "reach identity_init (identity_step cfg) (clock, d)"
    and "authentication_config_post_init cfg = Inr cfg"
    and "change_password cfg ev token c d = (Inr g, d')"
  shows "\<exists>a. sg_account g = Some a \<and> accounts_get_by_user_id d' (ua_user_id a) = Some a
    \<and> ua_password_hash a = ev_hash ev (cp_new c)
    \<and> (\<exists>old. accounts_get_by_user_id d (ua_user_id a) = Some old
         \<and> ev_verify ev (cp_current c) (ua_password_hash old))
    \<and> (\<forall>t \<ge> ev_now ev 2. active_tokens d' (ua_user_id a) (ua_profile_id a) t =
         (if t < sg_expires_at g then {ev_sha256 ev (sg_token g)} else {}))"
proof -
  note ok = reachable_identity_ok(1) [OF assms(1,2)]
  from assms(3) obtain p :: session_principal and uid and a a' :: user_account and d1 n d2 where
    a: "accounts_get_by_user_id d uid = Some a" "ua_profile_id a = sp_profile_id p"
      "ev_verify ev (cp_current c) (ua_password_hash a)"
      "with_password_hash a (ev_hash ev (cp_new c)) = Inr a'" "accounts_save d a' = Inr d1"
    and 2: "sessions_revoke_all d1 uid (sp_profile_id p) (ev_now ev 2) = Inr (n, d2)"
    and 3: "issue_authenticated cfg ev 0 a' (ev_now ev 2) d2 = Inr (g, d')"
    by (auto simp: change_password_def andThen_reads [OF only_reads_resolve(2)] andThen_lift raise_def
        committing_iff bindE_eq_Inr owner_account_iff split: sum.splits if_splits)
  have a': "a' = a\<lparr>ua_password_hash := ev_hash ev (cp_new c)\<rparr>" "account_post_init a' = Inr a'"
    using with_fields_ok(2) [OF a(4)] by blast+
  have uid: "ua_user_id a = uid" using user_id_of_found [OF a(1)] .
  have saved: "accounts_get_by_user_id d1 uid = Some a'"
    using saved_account_found [OF ok a(1,5)] a' uid by simp
  have "keeps cfg ev 0 d d1"
    by (rule keeps_accounts_save [OF a(5) a'(2)]) (use a a' uid in simp_all)
  then have ok1: "identity_ok d1" using ok by (simp add: keeps_def)
  have ok2: "identity_ok d2" using keeps_revoke_all [OF 2, of cfg ev 0] ok1 by (simp add: keeps_def)
  note cleared = revoke_all_clears [OF 2 ok1]
  have found2: "accounts_get_by_user_id d2 uid = Some a'"
    using saved cleared(2) [OF order_refl] by (simp add: accounts_get_by_user_id_def)
  obtain locked d3 where l: "accounts_get_by_user_id d2 (ua_user_id a') = Some locked"
    and t: "trimmed_store cfg d2 (ua_user_id locked) (ua_profile_id locked) (ev_now ev 2) d3"
    and d': "d' = sessions_save d3 (account_session cfg ev 0 locked (ev_now ev 2))"
    and g: "sg_account g = Some locked"
    using 3 unfolding issue_authenticated_iff by auto
  have locked: "locked = a'" using l found2 a'(1) uid by simp
  have acc: "idd_accounts d' = idd_accounts d2"
    using revoke_each_all [OF t [unfolded trimmed_store_def]] by (simp add: d')
  have "accounts_get_by_user_id d' (ua_user_id a') = Some a'"
    using found2 acc a'(1) uid by (simp add: accounts_get_by_user_id_def)
  moreover have "active_tokens d' (ua_user_id a') (ua_profile_id a') t =
      (if t < sg_expires_at g then {ev_sha256 ev (sg_token g)} else {})" if "ev_now ev 2 \<le> t" for t
    by (rule issued_is_only_session [OF 3 ok2 _ that]) (use cleared(1) a a'(1) uid in simp)
  ultimately show ?thesis using g locked a a'(1) uid by auto
qed

theorem password_change_signs_out_everywhere_witness:
  "\<exists>g d'. change_password demo_auth (demo_env 2000 500 ''t2'') ''t1''
        \<lparr>cp_current = ''correct horse'', cp_new = ''battery staple''\<rparr> demo_accounts = (Inr g, d')
     \<and> active_tokens d' 100 101 3000 = {replicate 64 (CHR ''b'')}"
proof -
  let ?ev = "demo_env 2000 500 ''t2''"
  let ?m = "change_password demo_auth ?ev ''t1''
        \<lparr>cp_current = ''correct horse'', cp_new = ''battery staple''\<rparr> demo_accounts"
  let ?g = "case fst ?m of Inr g \<Rightarrow> g | Inl _ \<Rightarrow> undefined"
  have c: "isl (fst ?m) = False" "map_option ua_user_id (sg_account ?g) = Some 100"
    "map_option ua_profile_id (sg_account ?g) = Some 101" "3000 < sg_expires_at ?g" "sg_token ?g = ''t2''"
    by code_simp+
  obtain g d' where m: "?m = (Inr g, d')" using c(1) by (metis isl_def prod.collapse sum.exhaust)
  from password_change_signs_out_everywhere [OF demo_accounts_reach demo_auth_ok m]
  have "active_tokens d' 100 101 3000 = {ev_sha256 ?ev ''t2''}"
    using c(2-5) unfolding m by (auto simp: demo_env_def)
  with m show ?thesis by (auto simp: demo_env_def)
qed

end
