(* ===== verification/Json_Text.thy ===== *)
theory Json_Text
  imports Text_Format
begin

text \<open>
  Values of JSON and the text \<open>json.dumps\<close> makes of them, as the code calls it for canonical
  payloads: keys sorted by the caller, separators "," and ":", and \<open>ensure_ascii\<close>.  The text
  determines the value, which is what makes a digest of the payload a digest of the value.
\<close>

datatype json =
    JNull
  | JBool bool
  | JInt int
  | JStr string
  | JList "json list"
  | JObj "(string \<times> json) list"

section \<open>Strings\<close>

definition hex2 :: "char \<Rightarrow> string" where
  "hex2 c = (let n = of_char c :: nat in [hex_chars ! (n div 16), hex_chars ! (n mod 16)])"

text \<open>The control characters with a short escape, and the letter of the escape.\<close>

definition short_escape :: "char \<Rightarrow> char option" where
  "short_escape c = map_of
     [(CHR 0x22, CHR 0x22), (CHR 0x5C, CHR 0x5C), (CHR 0x0A, CHR ''n''), (CHR 0x0D, CHR ''r''),
      (CHR 0x09, CHR ''t''), (CHR 0x0C, CHR ''f''), (CHR 0x08, CHR ''b'')] c"

definition escape_char :: "char \<Rightarrow> string" where
  "escape_char c =
     (case short_escape c of Some e \<Rightarrow> [CHR 0x5C, e]
      | None \<Rightarrow> (let n = of_char c :: nat
                  in if 32 \<le> n \<and> n \<le> 126 then [c] else CHR 0x5C # ''u00'' @ hex2 c))"

definition quoted :: "string \<Rightarrow> string" where
  "quoted s = CHR 0x22 # concat (map escape_char s) @ [CHR 0x22]"

lemma hex2_inj: "hex2 c @ x = hex2 d @ y \<Longrightarrow> c = d \<and> x = y"
proof -
  assume h: "hex2 c @ x = hex2 d @ y"
  have lt: "of_char e div 16 < (16::nat)" "of_char e mod 16 < (16::nat)" for e :: char
    using nat_of_char_less_256 [of e] by (simp_all add: div_less_iff_less_mult del: nat_of_char_less_256)
  have "(of_char c :: nat) div 16 = of_char d div 16" "(of_char c :: nat) mod 16 = of_char d mod 16"
    using h hex_chars_inj lt by (auto simp: hex2_def Let_def)
  then have "(of_char c :: nat) = of_char d" by (metis div_mult_mod_eq)
  with h show ?thesis by (auto simp: hex2_def Let_def)
qed

lemma short_escape_letter: "short_escape c = Some e \<Longrightarrow> e \<noteq> CHR ''u''"
  unfolding short_escape_def by (auto split: if_splits)

lemma short_escape_inj: "short_escape c = Some e \<Longrightarrow> short_escape d = Some e \<Longrightarrow> d = c"
  unfolding short_escape_def by (auto split: if_splits)

lemma short_escape_NoneD: "short_escape c = None \<Longrightarrow> c \<noteq> CHR 0x22 \<and> c \<noteq> CHR 0x5C"
  unfolding short_escape_def by (auto split: if_splits)

lemma escape_char_cases:
  obtains "escape_char c = [c]" "c \<noteq> CHR 0x22" "c \<noteq> CHR 0x5C"
  | e where "escape_char c = [CHR 0x5C, e]" "short_escape c = Some e" "e \<noteq> CHR ''u''"
  | "escape_char c = CHR 0x5C # ''u00'' @ hex2 c"
proof (cases "short_escape c")
  case None
  then show ?thesis using that(1,3) short_escape_NoneD [OF None]
    by (cases "32 \<le> (of_char c :: nat) \<and> (of_char c :: nat) \<le> 126") (simp_all add: escape_char_def Let_def)
next
  case (Some e)
  show ?thesis by (rule that(2) [of e]) (use Some short_escape_letter [OF Some] in \<open>simp_all add: escape_char_def\<close>)
qed

lemma escape_char_inj: "escape_char c @ x = escape_char d @ y \<Longrightarrow> c = d \<and> x = y"
  using hex2_inj [of c x d y]
  by (cases c rule: escape_char_cases; cases d rule: escape_char_cases) (auto dest: short_escape_inj)

lemma escape_char_hd: "escape_char c @ x \<noteq> CHR 0x22 # y"
  by (cases c rule: escape_char_cases) auto

lemma escaped_inj:
  "concat (map escape_char s) @ CHR 0x22 # x = concat (map escape_char t) @ CHR 0x22 # y
   \<Longrightarrow> s = t \<and> x = y"
proof (induction s arbitrary: t)
  case Nil
  then show ?case using escape_char_hd [THEN not_sym] by (cases t) auto
next
  case (Cons c s)
  show ?case
  proof (cases t)
    case Nil
    then show ?thesis using Cons.prems escape_char_hd [of c] by auto
  next
    case t: (Cons d t')
    have "escape_char c @ concat (map escape_char s) @ CHR 0x22 # x
        = escape_char d @ concat (map escape_char t') @ CHR 0x22 # y"
      using Cons.prems t by simp
    from escape_char_inj [OF this] Cons.IH [of t'] t show ?thesis by simp
  qed
qed

lemma quoted_inj: "quoted s @ x = quoted t @ y \<Longrightarrow> s = t \<and> x = y"
  using escaped_inj [of s x t y] by (simp add: quoted_def)


section \<open>Values\<close>

fun json_dumps :: "json \<Rightarrow> string" and dumps_items :: "json list \<Rightarrow> string"
  and dumps_members :: "(string \<times> json) list \<Rightarrow> string" where
  "json_dumps JNull = ''null''"
| "json_dumps (JBool b) = (if b then ''true'' else ''false'')"
| "json_dumps (JInt i) = int_str i"
| "json_dumps (JStr s) = quoted s"
| "json_dumps (JList vs) = CHR ''['' # dumps_items vs"
| "json_dumps (JObj ms) = CHR ''{'' # dumps_members ms"
| "dumps_items [] = '']''"
| "dumps_items [v] = json_dumps v @ '']''"
| "dumps_items (v # w # vs) = json_dumps v @ CHR '','' # dumps_items (w # vs)"
| "dumps_members [] = ''}''"
| "dumps_members [(k, v)] = quoted k @ CHR '':'' # json_dumps v @ ''}''"
| "dumps_members ((k, v) # m # ms) =
     quoted k @ CHR '':'' # json_dumps v @ CHR '','' # dumps_members (m # ms)"

text \<open>What may follow a value inside a larger text.\<close>

definition value_ends :: "string \<Rightarrow> bool" where
  "value_ends r = (r = [] \<or> hd r \<in> set '',]}'')"

lemma value_ends_simps [simp]:
  "value_ends []" "value_ends (CHR '','' # r)" "value_ends (CHR '']'' # r)" "value_ends (CHR ''}'' # r)"
  by (simp_all add: value_ends_def)

definition number_chars :: string where
  "number_chars = ''-0123456789''"

lemma int_str_chars: "c \<in> set (int_str i) \<Longrightarrow> c \<in> set number_chars"
proof -
  have "hex_chars ! d \<in> set number_chars" if "d < 10" for d
  proof -
    have "d \<in> {0, 1, 2, 3, 4, 5, 6, 7, 8, 9}" using that by auto
    then show ?thesis by (auto simp: hex_chars_def number_chars_def)
  qed
  then have "c \<in> set number_chars" if "c \<in> set (decimal n)" for n
    using that digits10_bound by (auto simp: decimal_def)
  moreover have "CHR ''-'' \<in> set number_chars" by (simp add: number_chars_def)
  ultimately show "c \<in> set (int_str i) \<Longrightarrow> c \<in> set number_chars"
    by (auto simp: int_str_def split: if_splits)
qed

lemma int_str_starts: "int_str i @ r = c # s \<Longrightarrow> c \<in> set number_chars"
  using int_str_chars int_str_nonempty by (cases "int_str i") (auto, metis list.set_intros(1))

lemma int_str_neq [simp]:
  "c \<notin> set number_chars \<Longrightarrow> int_str i @ r \<noteq> c # s" "c \<notin> set number_chars \<Longrightarrow> c # s \<noteq> int_str i @ r"
  using int_str_starts by metis+

lemma int_text_inj:
  assumes "int_str i @ x = int_str j @ y" "value_ends x" "value_ends y"
  shows "i = j \<and> x = y"
proof -
  have cut: "takeWhile (\<lambda>c. c \<in> set number_chars) (int_str k @ z) = int_str k" if "value_ends z" for k z
  proof -
    have "takeWhile (\<lambda>c. c \<in> set number_chars) z = []"
      using that by (cases z) (auto simp: value_ends_def number_chars_def)
    then show ?thesis using int_str_chars [of _ k] by (simp add: takeWhile_append)
  qed
  have "int_str i = int_str j" by (metis assms cut)
  with assms(1) show ?thesis by (simp add: int_str_inj)
qed

text \<open>No value starts like the end of an array.\<close>

lemma json_dumps_starts: "json_dumps v @ x \<noteq> CHR '']'' # y"
  by (cases v) (auto simp: quoted_def number_chars_def)

lemma member_text:
  "quoted k @ CHR '':'' # x = quoted k' @ CHR '':'' # x' \<Longrightarrow> k = k' \<and> x = x'"
  by (drule quoted_inj) simp

lemma json_text_inj:
  "json_dumps v @ x = json_dumps v' @ x' \<Longrightarrow> value_ends x \<Longrightarrow> value_ends x' \<Longrightarrow> v = v' \<and> x = x'"
  "dumps_items vs @ x = dumps_items vs' @ x' \<Longrightarrow> vs = vs' \<and> x = x'"
  "dumps_members ms @ x = dumps_members ms' @ x' \<Longrightarrow> ms = ms' \<and> x = x'"
proof (induction v and vs and ms arbitrary: v' x x' and vs' x x' and ms' x x'
    rule: json_dumps_dumps_items_dumps_members.induct)
  case 1
  then show ?case by (cases v') (auto simp: quoted_def number_chars_def split: if_splits)
next
  case (2 b)
  then show ?case by (cases v') (auto simp: quoted_def number_chars_def split: if_splits)
next
  case (3 i)
  show ?case
  proof (cases v')
    case (JInt j)
    then show ?thesis using 3 int_text_inj [of i x j x'] by simp
  qed (use 3 in \<open>auto simp: quoted_def number_chars_def split: if_splits\<close>)
next
  case (4 s)
  show ?case
  proof (cases v')
    case (JStr t)
    then show ?thesis using 4 quoted_inj [of s x t x'] by simp
  qed (use 4 in \<open>auto simp: quoted_def number_chars_def split: if_splits\<close>)
next
  case (5 vs)
  show ?case
  proof (cases v')
    case (JList w)
    then show ?thesis using "5.prems"(1) "5.IH" [of x w x'] by simp
  qed (use "5.prems"(1) in \<open>simp_all add: quoted_def number_chars_def split: if_splits\<close>)
next
  case (6 ms)
  show ?case
  proof (cases v')
    case (JObj w)
    then show ?thesis using "6.prems"(1) "6.IH" [of x w x'] by simp
  qed (use "6.prems"(1) in \<open>simp_all add: quoted_def number_chars_def split: if_splits\<close>)
next
  case 7
  consider "vs' = []" | v' where "vs' = [v']" | v' w' ws where "vs' = v' # w' # ws"
    by (metis neq_Nil_conv)
  then show ?case
    using 7 json_dumps_starts [of _ _ x, THEN not_sym] by cases simp_all
next
  case (8 v)
  consider "vs' = []" | v' where "vs' = [v']" | v' w' ws where "vs' = v' # w' # ws"
    by (metis neq_Nil_conv)
  then show ?case
  proof cases
    case 1
    then show ?thesis using 8 json_dumps_starts by simp
  next
    case (2 v')
    then show ?thesis using "8.prems" "8.IH" [of "CHR '']'' # x" v' "CHR '']'' # x'"] by simp
  next
    case (3 v' w' ws)
    then show ?thesis
      using "8.prems" "8.IH" [of "CHR '']'' # x" v' "CHR '','' # dumps_items (w' # ws) @ x'"] by simp
  qed
next
  case (9 v w vs)
  consider "vs' = []" | v' where "vs' = [v']" | v' w' ws where "vs' = v' # w' # ws"
    by (metis neq_Nil_conv)
  then show ?case
  proof cases
    case 1
    then show ?thesis using "9.prems" json_dumps_starts by simp
  next
    case (2 v')
    then show ?thesis
      using "9.prems" "9.IH"(1) [of "CHR '','' # dumps_items (w # vs) @ x" v' "CHR '']'' # x'"] by simp
  next
    case (3 v' w' ws)
    have e: "json_dumps v @ CHR '','' # dumps_items (w # vs) @ x = json_dumps v' @ CHR '','' # dumps_items (w' # ws) @ x'"
      using "9.prems" 3 by simp
    from "9.IH"(1) [OF e] have "v = v'" "dumps_items (w # vs) @ x = dumps_items (w' # ws) @ x'" by simp_all
    with "9.IH"(2) [OF this(2)] 3 show ?thesis by simp
  qed
next
  case 10
  then show ?case by (cases ms' rule: dumps_members.cases) (auto simp: quoted_def)
next
  case (11 k v)
  consider "ms' = []" | k' v' where "ms' = [(k', v')]" | k' v' m' ms1 where "ms' = (k', v') # m' # ms1"
    by (metis neq_Nil_conv prod.exhaust)
  then show ?case
  proof cases
    case 1
    then show ?thesis using "11.prems" by (simp add: quoted_def)
  next
    case (2 k' v')
    have "k = k' \<and> json_dumps v @ CHR ''}'' # x = json_dumps v' @ CHR ''}'' # x'"
      by (rule member_text) (use "11.prems" 2 in simp)
    with "11.IH" [of "CHR ''}'' # x" v' "CHR ''}'' # x'"] 2 show ?thesis by simp
  next
    case (3 k' v' m' ms1)
    have "k = k' \<and> json_dumps v @ CHR ''}'' # x = json_dumps v' @ CHR '','' # dumps_members (m' # ms1) @ x'"
      by (rule member_text) (use "11.prems" 3 in simp)
    with "11.IH" [of "CHR ''}'' # x" v' "CHR '','' # dumps_members (m' # ms1) @ x'"] 3 show ?thesis by simp
  qed
next
  case (12 k v m ms)
  consider "ms' = []" | k' v' where "ms' = [(k', v')]" | k' v' m' ms1 where "ms' = (k', v') # m' # ms1"
    by (metis neq_Nil_conv prod.exhaust)
  then show ?case
  proof cases
    case 1
    then show ?thesis using "12.prems" by (simp add: quoted_def)
  next
    case (2 k' v')
    have "k = k' \<and> json_dumps v @ CHR '','' # dumps_members (m # ms) @ x = json_dumps v' @ CHR ''}'' # x'"
      by (rule member_text) (use "12.prems" 2 in simp)
    with "12.IH"(1) [of "CHR '','' # dumps_members (m # ms) @ x" v' "CHR ''}'' # x'"] 2 show ?thesis by simp
  next
    case (3 k' v' m' ms1)
    have "k = k' \<and> json_dumps v @ CHR '','' # dumps_members (m # ms) @ x = json_dumps v' @ CHR '','' # dumps_members (m' # ms1) @ x'"
      by (rule member_text) (use "12.prems" 3 in simp)
    then have k: "k = k'" and e: "json_dumps v @ CHR '','' # dumps_members (m # ms) @ x = json_dumps v' @ CHR '','' # dumps_members (m' # ms1) @ x'" by simp_all
    from "12.IH"(1) [OF e] have "v = v'" "dumps_members (m # ms) @ x = dumps_members (m' # ms1) @ x'" by simp_all
    with k "12.IH"(2) [OF this(2)] 3 show ?thesis by simp
  qed
qed

lemma json_dumps_inj: "json_dumps v = json_dumps v' \<Longrightarrow> v = v'"
  using json_text_inj(1) [of v "[]" v' "[]"] by simp

end
