(* ===== verification/Media_Command.thy ===== *)
theory Media_Command
  imports Identity_Model Json_Text
begin

text \<open>
  Media commands and approvals: \<open>domain/models/media_action\<close>, the configuration of media
  actions (\<open>config/media_actions.py\<close>) and the authorisation of a command
  (\<open>application/policy/tool_authorization_policy.py\<close>).  The digest \<open>sha256(..).hexdigest()\<close>
  is a parameter \<open>sha\<close>.
\<close>

section \<open>Configuration\<close>

record media_action_config =
  mac_approval_ttl :: int
  mac_permitted_kinds :: "media_command_kind set"
  mac_max_playlist_items :: nat
  mac_max_playlist_name :: nat
  mac_max_key :: nat

definition media_action_config_post_init :: "media_action_config \<Rightarrow> media_action_config result" where
  "media_action_config_post_init c =
     (if mac_approval_ttl c \<le> 0 then Inl (ValueError STR ''approval TTL'')
      else if mac_permitted_kinds c = {} then Inl (ValueError STR ''permitted kinds'')
      else if min (mac_max_playlist_items c) (min (mac_max_playlist_name c) (mac_max_key c)) < 1
        then Inl (ValueError STR ''limits'')
      else Inr c)"

definition DEFAULT_MEDIA_ACTION_CONFIGURATION :: media_action_config where
  "DEFAULT_MEDIA_ACTION_CONFIGURATION =
     \<lparr>mac_approval_ttl = 15 * 60 * 1000000,
      mac_permitted_kinds = {MARK_WATCHED, SET_FAVORITE, CREATE_PLAYLIST, REQUEST_PLAYBACK},
      mac_max_playlist_items = 100, mac_max_playlist_name = 120, mac_max_key = 200\<rparr>"

section \<open>Commands\<close>

record media_command =
  mc_command_id :: uuid
  mc_kind :: media_command_kind
  mc_profile_id :: uuid
  mc_connection_id :: uuid
  mc_owner_user_id :: uuid
  mc_connection_revision :: string
  mc_idempotency_key :: string
  mc_episode_ids :: "uuid list"
  mc_playlist_name :: "string option"
  mc_favorite :: "bool option"

definition validate_kind_parameters :: "media_command \<Rightarrow> unit result" where
  "validate_kind_parameters c =
     (let single_episode = mc_kind c \<in> {MARK_WATCHED, SET_FAVORITE, REQUEST_PLAYBACK};
          mismatch = Inl (InvalidModelError STR ''COMMAND_PARAMETERS_MUST_MATCH_KIND'')
      in if single_episode \<and> length (mc_episode_ids c) \<noteq> 1 then mismatch
         else if mc_kind c = SET_FAVORITE then
           (if mc_favorite c = None \<or> mc_playlist_name c \<noteq> None then mismatch else Inr ())
         else if mc_favorite c \<noteq> None then mismatch
         else if mc_kind c = CREATE_PLAYLIST then
           (case mc_playlist_name c of
              None \<Rightarrow> Inl (InvalidModelError STR ''PLAYLIST_NAME_MUST_BE_SAFE'')
            | Some name \<Rightarrow>
                if untrimmed name
                    \<or> length name > mac_max_playlist_name DEFAULT_MEDIA_ACTION_CONFIGURATION
                    \<or> length (mc_episode_ids c) > mac_max_playlist_items DEFAULT_MEDIA_ACTION_CONFIGURATION
                  then Inl (InvalidModelError STR ''PLAYLIST_NAME_MUST_BE_SAFE'') else Inr ())
         else if mc_playlist_name c \<noteq> None then mismatch
         else Inr ())"

definition media_command_post_init :: "media_command \<Rightarrow> media_command result" where
  "media_command_post_init c =
     (if untrimmed (mc_connection_revision c)
        then Inl (InvalidModelError STR ''COMMAND_REVISION_MUST_BE_TRIMMED'')
      else if untrimmed (mc_idempotency_key c)
          \<or> length (mc_idempotency_key c) > mac_max_key DEFAULT_MEDIA_ACTION_CONFIGURATION
        then Inl (InvalidModelError STR ''IDEMPOTENCY_KEY_MUST_BE_TRIMMED'')
      else if mc_episode_ids c = [] \<or> has_duplicates (mc_episode_ids c)
        then Inl (InvalidModelError STR ''COMMAND_EPISODES_MUST_BE_UNIQUE'')
      else bindE (validate_kind_parameters c) (\<lambda>_. Inr c))"

definition media_risk :: "media_command \<Rightarrow> media_command_risk" where
  "media_risk c = (if mc_kind c = CREATE_PLAYLIST then REVERSIBLE_MULTI_ITEM else REVERSIBLE_LOW_RISK)"

fun media_kind_value :: "media_command_kind \<Rightarrow> string" where
  "media_kind_value MARK_WATCHED = ''mark_watched''"
| "media_kind_value SET_FAVORITE = ''set_favorite''"
| "media_kind_value CREATE_PLAYLIST = ''create_playlist''"
| "media_kind_value REQUEST_PLAYBACK = ''request_playback''"

definition json_opt :: "('a \<Rightarrow> json) \<Rightarrow> 'a option \<Rightarrow> json" where
  "json_opt f x = (case x of None \<Rightarrow> JNull | Some v \<Rightarrow> f v)"

text \<open>
  The payload of \<open>parameter_sha256\<close>: the dictionary with its keys in sorted order, which is the
  order in which the code writes them.
\<close>

definition parameter_payload :: "media_command \<Rightarrow> string" where
  "parameter_payload c = json_dumps (JObj
     [(''command_id'', JStr (uuid_str (mc_command_id c))),
      (''episode_ids'', JList (map (\<lambda>v. JStr (uuid_str v)) (mc_episode_ids c))),
      (''favorite'', json_opt JBool (mc_favorite c)),
      (''idempotency_key'', JStr (mc_idempotency_key c)),
      (''kind'', JStr (media_kind_value (mc_kind c))),
      (''playlist_name'', json_opt JStr (mc_playlist_name c)),
      (''profile_id'', JStr (uuid_str (mc_profile_id c))),
      (''provider_connection_id'', JStr (uuid_str (mc_connection_id c))),
      (''provider_connection_revision'', JStr (mc_connection_revision c)),
      (''provider_owner_user_id'', JStr (uuid_str (mc_owner_user_id c)))])"

definition parameter_sha256 :: "(string \<Rightarrow> string) \<Rightarrow> media_command \<Rightarrow> string" where
  "parameter_sha256 sha c = sha (parameter_payload c)"

definition media_preview :: "media_command \<Rightarrow> string" where
  "media_preview c =
     (let episode = uuid_str (hd (mc_episode_ids c))
      in case mc_kind c of
           MARK_WATCHED \<Rightarrow> ''Mark episode '' @ episode @ '' watched.''
         | SET_FAVORITE \<Rightarrow>
             (if mc_favorite c = Some True then ''Favorite'' else ''Unfavorite'') @ '' episode '' @ episode @ ''.''
         | REQUEST_PLAYBACK \<Rightarrow> ''Request playback for episode '' @ episode @ ''.''
         | CREATE_PLAYLIST \<Rightarrow>
             ''Create playlist '' @ [CHR 0x27] @ (case mc_playlist_name c of None \<Rightarrow> ''None'' | Some n \<Rightarrow> n)
             @ [CHR 0x27] @ '' with '' @ decimal (length (mc_episode_ids c)) @ '' episodes.'')"

section \<open>Approvals\<close>

text \<open>Times are the aware values of the clock, in microseconds.\<close>

record approval_request =
  ar_approval_id :: uuid
  ar_command_id :: uuid
  ar_command_sha256 :: string
  ar_idempotency_key :: string
  ar_principal_user_id :: uuid
  ar_profile_id :: uuid
  ar_connection_id :: uuid
  ar_connection_revision :: string
  ar_preview :: string
  ar_status :: approval_status
  ar_created_at :: int
  ar_expires_at :: int
  ar_decided_at :: "int option"
  ar_executed_at :: "int option"
  ar_verified_at :: "int option"

definition approval_post_init :: "approval_request \<Rightarrow> approval_request result" where
  "approval_post_init a =
     (if ar_expires_at a \<le> ar_created_at a then Inl (InvalidModelError STR ''APPROVAL_TRANSITION_INVALID'')
      else if length (ar_command_sha256 a) \<noteq> 64 then Inl (InvalidModelError STR ''APPROVAL_COMMAND_MISMATCH'')
      else Inr a)"

definition approval_decide :: "approval_request \<Rightarrow> bool \<Rightarrow> int \<Rightarrow> approval_request result" where
  "approval_decide a approved t =
     (if ar_status a \<noteq> Approval_PENDING \<or> t > ar_expires_at a
        then Inl (InvalidModelError STR ''APPROVAL_TRANSITION_INVALID'')
      else approval_post_init (a\<lparr>ar_status := if approved then Approval_APPROVED else Approval_REJECTED,
        ar_decided_at := Some t\<rparr>))"

definition mark_executed :: "approval_request \<Rightarrow> int \<Rightarrow> approval_request result" where
  "mark_executed a t =
     (if ar_status a \<noteq> Approval_APPROVED then Inl (InvalidModelError STR ''APPROVAL_TRANSITION_INVALID'')
      else approval_post_init (a\<lparr>ar_status := Approval_EXECUTED, ar_executed_at := Some t\<rparr>))"

definition mark_verified :: "approval_request \<Rightarrow> int \<Rightarrow> approval_request result" where
  "mark_verified a t =
     (if ar_status a \<noteq> Approval_EXECUTED then Inl (InvalidModelError STR ''APPROVAL_TRANSITION_INVALID'')
      else approval_post_init (a\<lparr>ar_status := Approval_VERIFIED, ar_verified_at := Some t\<rparr>))"

section \<open>Authorisation\<close>

definition require_authorized ::
    "media_action_config \<Rightarrow> session_principal \<Rightarrow> media_command \<Rightarrow> unit result" where
  "require_authorized cfg p c =
     (if sp_kind p \<noteq> Principal_AUTHENTICATED \<or> sp_user_id p = None
        then Inl (PermissionError STR ''AUTHENTICATED_PRINCIPAL_REQUIRED'')
      else if sp_profile_id p \<noteq> mc_profile_id c then Inl (PermissionError STR ''PRINCIPAL_MUST_OWN_PROFILE'')
      else if sp_user_id p \<noteq> Some (mc_owner_user_id c)
        then Inl (PermissionError STR ''PRINCIPAL_MUST_OWN_PROVIDER'')
      else if mc_kind c \<notin> mac_permitted_kinds cfg then Inl (PermissionError STR ''COMMAND_KIND_NOT_ALLOWED'')
      else Inr ())"

lemma require_authorized_iff [result_simps]:
  "require_authorized cfg p c = Inr () \<longleftrightarrow>
     sp_kind p = Principal_AUTHENTICATED \<and> sp_profile_id p = mc_profile_id c
     \<and> sp_user_id p = Some (mc_owner_user_id c) \<and> mc_kind c \<in> mac_permitted_kinds cfg"
  by (auto simp: require_authorized_def)

section \<open>The payload identifies the command\<close>

definition command_ids_ok :: "media_command \<Rightarrow> bool" where
  "command_ids_ok c =
     list_all (\<lambda>u. u < 2 ^ 128) ([mc_command_id c, mc_profile_id c, mc_connection_id c, mc_owner_user_id c]
       @ mc_episode_ids c)"

lemma media_kind_value_inj: "media_kind_value j = media_kind_value k \<Longrightarrow> j = k"
  by (cases j; cases k) simp_all

lemma json_opt_inj:
  "(\<And>a b. f a = f b \<Longrightarrow> a = b) \<Longrightarrow> (\<And>a. f a \<noteq> JNull) \<Longrightarrow> json_opt f x = json_opt f y \<Longrightarrow> x = y"
  unfolding json_opt_def by (auto split: option.splits) (metis)

lemma uuid_json_list_inj:
  "map (\<lambda>v. JStr (uuid_str v)) xs = map (\<lambda>v. JStr (uuid_str v)) ys \<Longrightarrow>
   list_all (\<lambda>u. u < 2 ^ 128) xs \<Longrightarrow> list_all (\<lambda>u. u < 2 ^ 128) ys \<Longrightarrow> xs = ys"
proof (induction xs arbitrary: ys)
  case (Cons x xs)
  then show ?case by (cases ys) (auto dest: uuid_str_inj)
qed simp

text \<open>
  C20: the digest an approval is bound to covers the whole command: two commands whose identifiers
  are 128-bit and whose canonical payloads are equal are the same command, in every field, so
  commands with equal digests differ only if sha256 collides on their payloads.
\<close>

theorem payload_identifies_command:
  assumes "command_ids_ok c" "command_ids_ok c'" "parameter_sha256 sha c = parameter_sha256 sha c'"
  shows "c = c' \<or> parameter_payload c \<noteq> parameter_payload c' \<and> sha (parameter_payload c) = sha (parameter_payload c')"
proof (cases "parameter_payload c = parameter_payload c'")
  case True
  note eq = json_dumps_inj [OF True [unfolded parameter_payload_def]]
  have ids: "mc_command_id c = mc_command_id c'" "mc_profile_id c = mc_profile_id c'"
    "mc_connection_id c = mc_connection_id c'" "mc_owner_user_id c = mc_owner_user_id c'"
    using eq assms(1,2) by (auto simp: command_ids_ok_def dest: uuid_str_inj)
  have "mc_episode_ids c = mc_episode_ids c'"
    using eq assms(1,2) by (intro uuid_json_list_inj) (auto simp: command_ids_ok_def)
  moreover have "mc_kind c = mc_kind c'" using eq by (auto dest: media_kind_value_inj)
  moreover have "mc_playlist_name c = mc_playlist_name c'"
    using eq by (intro json_opt_inj [of JStr]) auto
  moreover have "mc_favorite c = mc_favorite c'"
    using eq by (intro json_opt_inj [of JBool]) auto
  ultimately show ?thesis using ids eq by (auto intro!: media_command.equality)
qed (use assms(3) in \<open>simp add: parameter_sha256_def\<close>)

definition demo_media_command :: media_command where
  "demo_media_command = \<lparr>mc_command_id = 1, mc_kind = MARK_WATCHED, mc_profile_id = 101, mc_connection_id = 7,
     mc_owner_user_id = 100, mc_connection_revision = ''rev-1'', mc_idempotency_key = ''key-1'',
     mc_episode_ids = [41], mc_playlist_name = None, mc_favorite = None\<rparr>"

theorem payload_identifies_command_witness:
  "parameter_payload demo_media_command \<noteq> parameter_payload (demo_media_command\<lparr>mc_episode_ids := [42]\<rparr>)"
  using payload_identifies_command [of demo_media_command "demo_media_command\<lparr>mc_episode_ids := [42]\<rparr>" "\<lambda>_. ''digest''"]
  by (simp add: command_ids_ok_def demo_media_command_def parameter_sha256_def)

end
