(* ===== verification/Media_Provider.thy ===== *)
theory Media_Provider
  imports Media_Command "HOL-Library.List_Lexorder" "HOL-Library.Char_ord"
begin

text \<open>
  The media provider port (\<open>ports/media\<close>) and the mock provider
  \<open>adapters/media/mock_media_provider.py\<close> with its configuration
  (\<open>config/mock_media_provider.py\<close>).  The provider is an object with state: its methods return
  their outcome and the state afterwards.  Sleeping for the configured latency has no effect on it.
\<close>

section \<open>Data\<close>

record media_action_result =
  mar_command_id :: uuid
  mar_external_reference :: string
  mar_state_revision :: string
  mar_replay :: bool

record provider_episode =
  pe_episode_id :: uuid
  pe_provider_item_id :: string
  pe_title :: string

record provider_health =
  ph_label :: string
  ph_connection_revision :: string
  ph_available :: bool
  ph_simulated :: bool

record provider_playlist =
  pp_name :: string
  pp_episode_ids :: "uuid list"

record playback_request =
  pr_command_id :: uuid
  pr_episode_id :: uuid

record profile_snapshot =
  ps_profile_id :: uuid
  ps_watched :: "uuid set"
  ps_favorites :: "uuid set"
  ps_playlists :: "provider_playlist list"
  ps_playback_requests :: "playback_request list"
  ps_state_revision :: string

section \<open>The mock provider\<close>

text \<open>Of the latency in seconds, a float, only the sign is read; it is a number of nanoseconds here.\<close>

record mock_provider_config =
  mpc_label :: string
  mpc_connection_revision :: string
  mpc_reference_prefix :: string
  mpc_revision_prefix :: string
  mpc_latency :: int
  mpc_unavailable :: bool
  mpc_failing_commands :: "media_command_kind set"
  mpc_stale_writes :: bool
  mpc_fail_verification :: bool

definition mock_provider_config_post_init :: "mock_provider_config \<Rightarrow> mock_provider_config result" where
  "mock_provider_config_post_init c =
     (if list_ex untrimmed [mpc_label c, mpc_connection_revision c, mpc_reference_prefix c, mpc_revision_prefix c]
        then Inl (ValueError STR ''MOCK_CONFIGURATION_INVALID'')
      else if mpc_latency c < 0 then Inl (ValueError STR ''MOCK_CONFIGURATION_INVALID'')
      else Inr c)"

definition DEFAULT_MOCK_MEDIA_PROVIDER_CONFIGURATION :: mock_provider_config where
  "DEFAULT_MOCK_MEDIA_PROVIDER_CONFIGURATION =
     \<lparr>mpc_label = ''CineGraph mock provider (simulated; no media is controlled)'',
      mpc_connection_revision = ''mock-connection-v1'', mpc_reference_prefix = ''mock-action-'',
      mpc_revision_prefix = ''mock-state-v'', mpc_latency = 0, mpc_unavailable = False,
      mpc_failing_commands = {}, mpc_stale_writes = False, mpc_fail_verification = False\<rparr>"

record profile_seed =
  psd_profile_id :: uuid
  psd_watched :: "uuid set"
  psd_favorites :: "uuid set"

record provider_seed =
  sd_connection_id :: uuid
  sd_episodes :: "provider_episode list"
  sd_profiles :: "profile_seed list"

record profile_state =
  pst_watched :: "uuid set"
  pst_favorites :: "uuid set"
  pst_playlists :: "(string, uuid list) dict"
  pst_playback_requests :: "playback_request list"

record mock_provider =
  mp_connection_id :: uuid
  mp_episodes :: "(uuid, provider_episode) dict"
  mp_profiles :: "(uuid, profile_state) dict"
  mp_config :: mock_provider_config
  mp_connection_revision :: string
  mp_available :: bool
  mp_state_version :: nat
  mp_executions :: "(string, string \<times> media_action_result) dict"

definition validate_seed :: "provider_seed \<Rightarrow> unit result" where
  "validate_seed s =
     (let episode_ids = map pe_episode_id (sd_episodes s); profile_ids = map psd_profile_id (sd_profiles s);
          invalid_profile_state = list_ex (\<lambda>p. \<not> (psd_watched p \<union> psd_favorites p \<subseteq> set episode_ids)) (sd_profiles s)
      in if episode_ids = [] \<or> profile_ids = [] \<or> has_duplicates episode_ids \<or> has_duplicates profile_ids
            \<or> invalid_profile_state
           then Inl (ValueError STR ''MOCK_SEED_INVALID'') else Inr ())"

definition new_mock_provider :: "provider_seed \<Rightarrow> mock_provider_config \<Rightarrow> mock_provider result" where
  "new_mock_provider s cfg =
     bindE (validate_seed s) (\<lambda>_. Inr
       \<lparr>mp_connection_id = sd_connection_id s,
        mp_episodes = foldl (\<lambda>d e. dict_set d (pe_episode_id e) e) [] (sd_episodes s),
        mp_profiles = foldl (\<lambda>d p. dict_set d (psd_profile_id p)
          \<lparr>pst_watched = psd_watched p, pst_favorites = psd_favorites p, pst_playlists = [],
           pst_playback_requests = []\<rparr>) [] (sd_profiles s),
        mp_config = cfg, mp_connection_revision = mpc_connection_revision cfg,
        mp_available = (\<not> mpc_unavailable cfg), mp_state_version = 1, mp_executions = []\<rparr>)"

definition require_connection :: "mock_provider \<Rightarrow> uuid \<Rightarrow> unit result" where
  "require_connection m cid =
     (if cid \<noteq> mp_connection_id m then Inl (ValueError STR ''CONNECTION_NOT_FOUND'') else Inr ())"

definition require_ready :: "mock_provider \<Rightarrow> uuid \<Rightarrow> unit result" where
  "require_ready m cid = bindE (require_connection m cid) (\<lambda>_.
     if \<not> mp_available m then Inl (ConnectionError STR ''PROVIDER_UNAVAILABLE'') else Inr ())"

definition require_profile :: "mock_provider \<Rightarrow> uuid \<Rightarrow> profile_state result" where
  "require_profile m pid =
     (case dict_get (mp_profiles m) pid of
        None \<Rightarrow> Inl (PermissionError STR ''PROFILE_NOT_AUTHORIZED'') | Some s \<Rightarrow> Inr s)"

definition require_episodes :: "mock_provider \<Rightarrow> uuid list \<Rightarrow> unit result" where
  "require_episodes m ids =
     (if list_ex (\<lambda>e. dict_get (mp_episodes m) e = None) ids
        then Inl (ValueError STR ''EPISODE_NOT_FOUND'') else Inr ())"

definition state_revision :: "mock_provider \<Rightarrow> string" where
  "state_revision m = mpc_revision_prefix (mp_config m) @ decimal (mp_state_version m)"

definition mock_health :: "mock_provider \<Rightarrow> uuid \<Rightarrow> provider_health result" where
  "mock_health m cid = bindE (require_connection m cid) (\<lambda>_. Inr
     \<lparr>ph_label = mpc_label (mp_config m), ph_connection_revision = mp_connection_revision m,
      ph_available = mp_available m, ph_simulated = True\<rparr>)"

definition mock_connection_revision :: "mock_provider \<Rightarrow> uuid \<Rightarrow> string result" where
  "mock_connection_revision m cid = bindE (require_ready m cid) (\<lambda>_. Inr (mp_connection_revision m))"

definition mock_list_library :: "mock_provider \<Rightarrow> uuid \<Rightarrow> uuid \<Rightarrow> provider_episode list result" where
  "mock_list_library m cid pid =
     bindE (require_ready m cid) (\<lambda>_. bindE (require_profile m pid) (\<lambda>_.
       Inr (sort_key pe_episode_id (dict_values (mp_episodes m)))))"

definition mock_profile_snapshot :: "mock_provider \<Rightarrow> uuid \<Rightarrow> uuid \<Rightarrow> profile_snapshot result" where
  "mock_profile_snapshot m cid pid =
     bindE (require_ready m cid) (\<lambda>_. bindE (require_profile m pid) (\<lambda>s. Inr
       \<lparr>ps_profile_id = pid, ps_watched = pst_watched s, ps_favorites = pst_favorites s,
        ps_playlists = map (\<lambda>(n, ids). \<lparr>pp_name = n, pp_episode_ids = ids\<rparr>) (sort_key fst (pst_playlists s)),
        ps_playback_requests = pst_playback_requests s, ps_state_revision = state_revision m\<rparr>))"

text \<open>\<open>_apply\<close> changes the state object of the command's profile in place.\<close>

definition apply_command :: "media_command \<Rightarrow> profile_state \<Rightarrow> profile_state result" where
  "apply_command c s =
     (let episode = hd (mc_episode_ids c)
      in case mc_kind c of
           MARK_WATCHED \<Rightarrow> Inr (s\<lparr>pst_watched := insert episode (pst_watched s)\<rparr>)
         | SET_FAVORITE \<Rightarrow>
             Inr (s\<lparr>pst_favorites := if mc_favorite c = Some True then insert episode (pst_favorites s)
                else pst_favorites s - {episode}\<rparr>)
         | CREATE_PLAYLIST \<Rightarrow>
             (case mc_playlist_name c of None \<Rightarrow> Inl AssertionError
              | Some n \<Rightarrow> Inr (s\<lparr>pst_playlists := dict_set (pst_playlists s) n (mc_episode_ids c)\<rparr>))
         | REQUEST_PLAYBACK \<Rightarrow>
             Inr (s\<lparr>pst_playback_requests := pst_playback_requests s
                @ [\<lparr>pr_command_id = mc_command_id c, pr_episode_id = episode\<rparr>]\<rparr>))"

definition mock_execute :: "(string \<Rightarrow> string) \<Rightarrow> media_command \<Rightarrow> (mock_provider, media_action_result) prog" where
  "mock_execute sha c = runE (\<lambda>m.
     bindE (require_ready m (mc_connection_id c)) (\<lambda>_.
     bindE (require_profile m (mc_profile_id c)) (\<lambda>s.
     bindE (require_episodes m (mc_episode_ids c)) (\<lambda>_.
     if mc_kind c \<in> mpc_failing_commands (mp_config m) then Inl (RuntimeError STR ''COMMAND_FAILED'')
     else case dict_get (mp_executions m) (mc_idempotency_key c) of
       Some (digest, r) \<Rightarrow>
         if digest \<noteq> parameter_sha256 sha c then Inl (ValueError STR ''IDEMPOTENCY_KEY_REUSED'')
         else Inr (r\<lparr>mar_replay := True\<rparr>, m)
     | None \<Rightarrow>
         bindE (if mpc_stale_writes (mp_config m) then Inr s else apply_command c s) (\<lambda>s'.
           let m1 = m\<lparr>mp_profiles := dict_set (mp_profiles m) (mc_profile_id c) s',
                      mp_state_version := mp_state_version m + 1\<rparr>;
               r = \<lparr>mar_command_id = mc_command_id c,
                    mar_external_reference = mpc_reference_prefix (mp_config m1) @ decimal (mp_state_version m1),
                    mar_state_revision = state_revision m1, mar_replay = False\<rparr>
           in Inr (r, m1\<lparr>mp_executions := dict_set (mp_executions m1) (mc_idempotency_key c)
                (parameter_sha256 sha c, r)\<rparr>))))))"

definition mock_verify :: "media_command \<Rightarrow> media_action_result \<Rightarrow> mock_provider \<Rightarrow> bool result" where
  "mock_verify c r m =
     bindE (require_ready m (mc_connection_id c)) (\<lambda>_.
     bindE (require_profile m (mc_profile_id c)) (\<lambda>s.
     bindE (require_episodes m (mc_episode_ids c)) (\<lambda>_.
     case dict_get (mp_executions m) (mc_idempotency_key c) of
       None \<Rightarrow> Inl (ValueError STR ''RESULT_NOT_RECOGNIZED'')
     | Some (digest, prior) \<Rightarrow>
         if mar_command_id prior \<noteq> mar_command_id r then Inl (ValueError STR ''RESULT_NOT_RECOGNIZED'')
         else if mpc_fail_verification (mp_config m) \<or> mpc_stale_writes (mp_config m) then Inr False
         else
           let episode = hd (mc_episode_ids c)
           in Inr (case mc_kind c of
                MARK_WATCHED \<Rightarrow> episode \<in> pst_watched s
              | SET_FAVORITE \<Rightarrow> Some (episode \<in> pst_favorites s) = mc_favorite c
              | CREATE_PLAYLIST \<Rightarrow>
                  (case mc_playlist_name c of None \<Rightarrow> False
                   | Some n \<Rightarrow> dict_get (pst_playlists s) n = Some (mc_episode_ids c))
              | REQUEST_PLAYBACK \<Rightarrow>
                  list_ex (\<lambda>q. pr_command_id q = mc_command_id c \<and> pr_episode_id q = episode)
                    (pst_playback_requests s)))))"

definition set_available :: "bool \<Rightarrow> mock_provider \<Rightarrow> mock_provider" where
  "set_available b m = m\<lparr>mp_available := b\<rparr>"

definition advance_connection_revision :: "string \<Rightarrow> mock_provider \<Rightarrow> mock_provider result" where
  "advance_connection_revision r m =
     (if untrimmed r then Inl (ValueError STR ''MOCK_CONFIGURATION_INVALID'')
      else Inr (m\<lparr>mp_connection_revision := r\<rparr>))"

section \<open>The port\<close>

text \<open>
  What the media action service calls: the current revision of a connection, the execution of a
  command and the verification of its result.
\<close>

record 'p media_port =
  port_revision :: "'p \<Rightarrow> uuid \<Rightarrow> string result"
  port_execute :: "media_command \<Rightarrow> ('p, media_action_result) prog"
  port_verify :: "media_command \<Rightarrow> media_action_result \<Rightarrow> 'p \<Rightarrow> bool result"

definition mock_port :: "(string \<Rightarrow> string) \<Rightarrow> mock_provider media_port" where
  "mock_port sha = \<lparr>port_revision = mock_connection_revision, port_execute = mock_execute sha,
     port_verify = mock_verify\<rparr>"

text \<open>
  The contract of a provider.  Its executions form a ledger from idempotency keys to digests: a
  command that raises changes nothing; one that returns has its key in the ledger with its own
  digest; executing it again changes nothing; and no call drops or rebinds a key.
\<close>

locale media_provider =
  fixes port :: "'p media_port"
    and digest :: "media_command \<Rightarrow> string"
    and ledger :: "'p \<Rightarrow> string \<Rightarrow> string option"
  assumes execute_raises: "port_execute port c p = (Inl e, p') \<Longrightarrow> p' = p"
    and execute_records: "port_execute port c p = (Inr r, p') \<Longrightarrow>
      ledger p' = (ledger p)(mc_idempotency_key c \<mapsto> digest c)"
    and execute_keeps: "port_execute port c p = (Inr r, p') \<Longrightarrow>
      ledger p (mc_idempotency_key c) = None \<or> ledger p (mc_idempotency_key c) = Some (digest c) \<and> p' = p"
begin

lemma execute_again:
  assumes "port_execute port c p = (Inr r, p')" "port_execute port c p' = (Inr r', p'')"
  shows "p'' = p'"
  using execute_keeps [OF assms(2)] execute_records [OF assms(1)] by simp

lemma ledger_grows:
  assumes "port_execute port c p = (o', p')" "ledger p k = Some h"
  shows "ledger p' k = Some h"
proof (cases o')
  case (Inl e)
  then show ?thesis using execute_raises assms by blast
next
  case (Inr r)
  with assms show ?thesis using execute_keeps [of c p r p'] execute_records [of c p r p'] by auto
qed

lemma other_keys_untouched:
  assumes "port_execute port c p = (o', p')" "k \<noteq> mc_idempotency_key c"
  shows "ledger p' k = ledger p k"
proof (cases o')
  case (Inl e)
  then show ?thesis using execute_raises assms by blast
next
  case (Inr r)
  with assms show ?thesis using execute_records [of c p r p'] by auto
qed

end

definition mock_ledger :: "mock_provider \<Rightarrow> string \<Rightarrow> string option" where
  "mock_ledger m k = map_option fst (dict_get (mp_executions m) k)"

lemma mock_execute_raises: "mock_execute sha c m = (Inl e, m') \<Longrightarrow> m' = m"
  unfolding mock_execute_def runE_def by (simp split: sum.splits prod.splits)

text \<open>An execution replays a recorded result or applies the command and records a new one.\<close>

definition applied :: "(string \<Rightarrow> string) \<Rightarrow> media_command \<Rightarrow> profile_state \<Rightarrow> media_action_result \<Rightarrow>
    mock_provider \<Rightarrow> mock_provider" where
  "applied sha c s r m =
     m\<lparr>mp_profiles := dict_set (mp_profiles m) (mc_profile_id c) s,
       mp_state_version := mp_state_version m + 1,
       mp_executions := dict_set (mp_executions m) (mc_idempotency_key c) (parameter_sha256 sha c, r)\<rparr>"

lemma mock_execute_cases:
  assumes "mock_execute sha c m = (Inr r, m')"
  obtains (replay) r0 where "dict_get (mp_executions m) (mc_idempotency_key c) = Some (parameter_sha256 sha c, r0)"
      "r = r0\<lparr>mar_replay := True\<rparr>" "m' = m"
  | (fresh) s s' where "dict_get (mp_executions m) (mc_idempotency_key c) = None"
      "require_ready m (mc_connection_id c) = Inr ()" "require_episodes m (mc_episode_ids c) = Inr ()"
      "dict_get (mp_profiles m) (mc_profile_id c) = Some s"
      "(if mpc_stale_writes (mp_config m) then Inr s else apply_command c s) = Inr s'"
      "m' = applied sha c s' r m" "mar_command_id r = mc_command_id c" "\<not> mar_replay r"
proof -
  obtain s where s: "require_ready m (mc_connection_id c) = Inr ()"
      "dict_get (mp_profiles m) (mc_profile_id c) = Some s"
      "require_episodes m (mc_episode_ids c) = Inr ()"
    using assms by (auto simp: mock_execute_def runE_def require_profile_def bindE_def split: sum.splits option.splits)
  show ?thesis
  proof (cases "dict_get (mp_executions m) (mc_idempotency_key c)")
    case None
    then show ?thesis using assms s fresh
      by (fastforce simp: mock_execute_def runE_def require_profile_def applied_def Let_def result_simps
          split: sum.splits if_splits)
  next
    case (Some p)
    then show ?thesis using assms s replay
      by (cases p) (auto simp: mock_execute_def runE_def require_profile_def split: sum.splits if_splits)
  qed
qed

interpretation mock_media: media_provider "mock_port sha" "parameter_sha256 sha" mock_ledger
proof
  show "port_execute (mock_port sha) c p = (Inl e, p') \<Longrightarrow> p' = p" for c p e p'
    by (simp add: mock_port_def mock_execute_raises)
  show "mock_ledger p' = (mock_ledger p)(mc_idempotency_key c \<mapsto> parameter_sha256 sha c)"
    if "port_execute (mock_port sha) c p = (Inr r, p')" for c p r p'
    using that unfolding mock_port_def
    by simp (erule mock_execute_cases; auto simp: mock_ledger_def applied_def dict_simps fun_eq_iff)
  show "mock_ledger p (mc_idempotency_key c) = None \<or>
      mock_ledger p (mc_idempotency_key c) = Some (parameter_sha256 sha c) \<and> p' = p"
    if "port_execute (mock_port sha) c p = (Inr r, p')" for c p r p'
    using that unfolding mock_port_def
    by simp (erule mock_execute_cases; simp add: mock_ledger_def)
qed

end
