(* ===== verification/Media_Action.thy ===== *)
theory Media_Action
  imports Media_Provider
begin

text \<open>
  Approved media actions: the approval repository
  (\<open>adapters/approval/in_memory_approval_repository.py\<close>) and the service
  (\<open>application/service/media_action_service.py\<close>) over it, a media provider and an audit sink.
  The provider is any object behind the port of the theory \<open>Media_Provider\<close>; the sink is the list
  of the events it was given.
\<close>

section \<open>The approval repository\<close>

record approval_repo =
  apr_items :: "(uuid, approval_request) dict"
  apr_keys :: "(string, uuid) dict"

definition empty_approvals :: approval_repo where
  "empty_approvals = \<lparr>apr_items = [], apr_keys = []\<rparr>"

definition approvals_add :: "approval_request \<Rightarrow> approval_repo \<Rightarrow> approval_repo result" where
  "approvals_add a r =
     (if dict_get (apr_items r) (ar_approval_id a) \<noteq> None
        then Inl (ValueError STR ''APPROVAL_TRANSITION_INVALID'')
      else if dict_get (apr_keys r) (ar_idempotency_key a) \<noteq> None
        then Inl (ValueError STR ''IDEMPOTENCY_KEY_REUSED'')
      else Inr \<lparr>apr_items = dict_set (apr_items r) (ar_approval_id a) a,
                apr_keys = dict_set (apr_keys r) (ar_idempotency_key a) (ar_approval_id a)\<rparr>)"

definition approvals_get :: "approval_repo \<Rightarrow> uuid \<Rightarrow> approval_request option" where
  "approvals_get r i = dict_get (apr_items r) i"

definition approvals_find :: "approval_repo \<Rightarrow> string \<Rightarrow> approval_request option" where
  "approvals_find r k =
     (case dict_get (apr_keys r) k of None \<Rightarrow> None | Some i \<Rightarrow> dict_get (apr_items r) i)"

definition approvals_save ::
    "approval_request \<Rightarrow> approval_status \<Rightarrow> approval_repo \<Rightarrow> approval_repo result" where
  "approvals_save a expected r =
     (case dict_get (apr_items r) (ar_approval_id a) of
        None \<Rightarrow> Inl (ValueError STR ''APPROVAL_TRANSITION_INVALID'')
      | Some c \<Rightarrow>
          if ar_status c \<noteq> expected then Inl (ValueError STR ''APPROVAL_TRANSITION_INVALID'')
          else Inr (r\<lparr>apr_items := dict_set (apr_items r) (ar_approval_id a) a\<rparr>))"

text \<open>
  The contract of the port \<open>ports/approval\<close>: \<open>add\<close> binds a new identifier and a new key,
  \<open>save\<close> replaces an approval that still has the expected status and moves no key.
\<close>

definition repo_ok :: "approval_repo \<Rightarrow> bool" where
  "repo_ok r \<longleftrightarrow> dict_ok (apr_items r) \<and> dict_ok (apr_keys r)
     \<and> (\<forall>i a. dict_get (apr_items r) i = Some a \<longrightarrow>
          ar_approval_id a = i \<and> dict_get (apr_keys r) (ar_idempotency_key a) = Some i)
     \<and> (\<forall>k i. dict_get (apr_keys r) k = Some i \<longrightarrow>
          (\<exists>a. dict_get (apr_items r) i = Some a \<and> ar_idempotency_key a = k))"

locale approval_store =
  fixes ok :: "'r \<Rightarrow> bool"
    and get :: "'r \<Rightarrow> uuid \<Rightarrow> approval_request option"
    and find_key :: "'r \<Rightarrow> string \<Rightarrow> approval_request option"
    and add :: "approval_request \<Rightarrow> 'r \<Rightarrow> 'r result"
    and save :: "approval_request \<Rightarrow> approval_status \<Rightarrow> 'r \<Rightarrow> 'r result"
  assumes find_iff: "ok r \<Longrightarrow> find_key r k = Some a \<longleftrightarrow>
      get r (ar_approval_id a) = Some a \<and> ar_idempotency_key a = k"
    and get_id: "ok r \<Longrightarrow> get r i = Some a \<Longrightarrow> ar_approval_id a = i"
    and add_ok: "ok r \<Longrightarrow> add a r = Inr r' \<Longrightarrow> ok r'"
    and add_get: "add a r = Inr r' \<Longrightarrow> get r' = (get r)(ar_approval_id a \<mapsto> a)"
    and add_new: "add a r = Inr r' \<Longrightarrow> get r (ar_approval_id a) = None"
    and add_raises: "ok r \<Longrightarrow> get r (ar_approval_id a) = None \<Longrightarrow>
      find_key r (ar_idempotency_key a) = None \<Longrightarrow> \<exists>r'. add a r = Inr r'"
    and save_get: "save a st r = Inr r' \<Longrightarrow> get r' = (get r)(ar_approval_id a \<mapsto> a)"
    and save_ok: "ok r \<Longrightarrow> get r (ar_approval_id a) = Some b \<Longrightarrow> ar_idempotency_key a = ar_idempotency_key b \<Longrightarrow>
      save a st r = Inr r' \<Longrightarrow> ok r'"
    and save_iff: "(\<exists>r'. save a st r = Inr r') \<longleftrightarrow> (\<exists>b. get r (ar_approval_id a) = Some b \<and> ar_status b = st)"
begin

text \<open>A key belongs to one approval.\<close>

lemma key_unique:
  assumes "ok r" "get r i = Some a" "get r j = Some b" "ar_idempotency_key a = ar_idempotency_key b"
  shows "i = j"
proof -
  have "find_key r (ar_idempotency_key a) = Some a" "find_key r (ar_idempotency_key a) = Some b"
    using assms find_iff get_id by metis+
  then have "b = a" by simp
  with assms(1-3) show ?thesis using get_id by metis
qed

lemma found: "ok r \<Longrightarrow> get r i = Some a \<Longrightarrow> find_key r (ar_idempotency_key a) = Some a"
  using find_iff get_id by metis

end

lemma repo_okI:
  assumes "dict_ok (apr_items r)" "dict_ok (apr_keys r)"
    and "\<And>i a. dict_get (apr_items r) i = Some a \<Longrightarrow>
      ar_approval_id a = i \<and> dict_get (apr_keys r) (ar_idempotency_key a) = Some i"
    and "\<And>k i. dict_get (apr_keys r) k = Some i \<Longrightarrow>
      \<exists>a. dict_get (apr_items r) i = Some a \<and> ar_idempotency_key a = k"
  shows "repo_ok r"
  using assms unfolding repo_ok_def by blast

lemma repo_okD:
  assumes "repo_ok r"
  shows "dict_ok (apr_items r)" "dict_ok (apr_keys r)"
    "dict_get (apr_items r) i = Some a \<Longrightarrow> ar_approval_id a = i"
    "dict_get (apr_items r) i = Some a \<Longrightarrow> dict_get (apr_keys r) (ar_idempotency_key a) = Some i"
    "dict_get (apr_keys r) k = Some i \<Longrightarrow> \<exists>a. dict_get (apr_items r) i = Some a \<and> ar_idempotency_key a = k"
  using assms unfolding repo_ok_def by blast+

lemma repo_ok_add:
  assumes "repo_ok r" "approvals_add a r = Inr r'"
  shows "repo_ok r'"
proof -
  note ok = repo_okD [OF assms(1)]
  have new: "dict_get (apr_items r) (ar_approval_id a) = None" "dict_get (apr_keys r) (ar_idempotency_key a) = None"
    and r': "r' = \<lparr>apr_items = dict_set (apr_items r) (ar_approval_id a) a,
      apr_keys = dict_set (apr_keys r) (ar_idempotency_key a) (ar_approval_id a)\<rparr>"
    using assms(2) by (auto simp: approvals_add_def split: if_splits)
  show ?thesis
  proof (rule repo_okI)
    fix i b assume "dict_get (apr_items r') i = Some b"
    then show "ar_approval_id b = i \<and> dict_get (apr_keys r') (ar_idempotency_key b) = Some i"
      using ok(3,4) [of i b] new(2) unfolding r' by (cases "i = ar_approval_id a") (auto simp: dict_simps)
  next
    fix k i assume "dict_get (apr_keys r') k = Some i"
    then show "\<exists>b. dict_get (apr_items r') i = Some b \<and> ar_idempotency_key b = k"
      using ok(5) [of k i] new(1) unfolding r' by (cases "k = ar_idempotency_key a") (auto simp: dict_simps)
  qed (simp_all add: r' dict_simps ok(1,2))
qed

lemma repo_ok_save:
  assumes "repo_ok r" "approvals_get r (ar_approval_id a) = Some b"
    and "ar_idempotency_key a = ar_idempotency_key b" "approvals_save a st r = Inr r'"
  shows "repo_ok r'"
proof -
  note ok = repo_okD [OF assms(1)]
  have r': "r' = r\<lparr>apr_items := dict_set (apr_items r) (ar_approval_id a) a\<rparr>"
    using assms(4) by (auto simp: approvals_save_def split: option.splits if_splits)
  have b: "dict_get (apr_items r) (ar_approval_id a) = Some b" using assms(2) by (simp add: approvals_get_def)
  show ?thesis
  proof (rule repo_okI)
    fix i c assume "dict_get (apr_items r') i = Some c"
    then show "ar_approval_id c = i \<and> dict_get (apr_keys r') (ar_idempotency_key c) = Some i"
      using ok(3,4) [of i c] ok(4) [OF b] assms(3) unfolding r'
      by (cases "i = ar_approval_id a") (auto simp: dict_simps)
  next
    fix k i assume "dict_get (apr_keys r') k = Some i"
    then show "\<exists>c. dict_get (apr_items r') i = Some c \<and> ar_idempotency_key c = k"
      using ok(5) [of k i] b assms(3) unfolding r' by (auto simp: dict_simps)
  qed (simp_all add: r' dict_simps ok(1,2))
qed

interpretation approvals: approval_store repo_ok approvals_get approvals_find approvals_add approvals_save
proof
  show "approvals_find r k = Some a \<longleftrightarrow> approvals_get r (ar_approval_id a) = Some a \<and> ar_idempotency_key a = k"
    if "repo_ok r" for r k a
  proof -
    note ok = repo_okD [OF that]
    show ?thesis
    proof
      assume "approvals_find r k = Some a"
      then obtain i where i: "dict_get (apr_keys r) k = Some i" "dict_get (apr_items r) i = Some a"
        by (auto simp: approvals_find_def split: option.splits)
      with ok(3) [OF i(2)] ok(5) [OF i(1)]
      show "approvals_get r (ar_approval_id a) = Some a \<and> ar_idempotency_key a = k"
        by (simp add: approvals_get_def)
    next
      assume "approvals_get r (ar_approval_id a) = Some a \<and> ar_idempotency_key a = k"
      then show "approvals_find r k = Some a"
        using ok(4) [of "ar_approval_id a" a] by (auto simp: approvals_get_def approvals_find_def)
    qed
  qed
  show "ar_approval_id a = i" if "repo_ok r" "approvals_get r i = Some a" for r i a
    using that by (simp add: repo_ok_def approvals_get_def)
  show "repo_ok r'" if "repo_ok r" "approvals_add a r = Inr r'" for r a r'
    using that by (rule repo_ok_add)
  show "approvals_get r' = (approvals_get r)(ar_approval_id a \<mapsto> a)" if "approvals_add a r = Inr r'" for r a r'
    using that by (auto simp: approvals_add_def approvals_get_def dict_simps fun_eq_iff split: if_splits)
  show "approvals_get r (ar_approval_id a) = None" if "approvals_add a r = Inr r'" for r a r'
    using that by (auto simp: approvals_add_def approvals_get_def split: if_splits)
  show "\<exists>r'. approvals_add a r = Inr r'"
    if "repo_ok r" "approvals_get r (ar_approval_id a) = None" "approvals_find r (ar_idempotency_key a) = None" for r a
  proof -
    have "dict_get (apr_keys r) (ar_idempotency_key a) = None"
      using that(3) repo_okD(5) [OF that(1)] by (fastforce simp: approvals_find_def split: option.splits)
    then show ?thesis using that(2) by (simp add: approvals_add_def approvals_get_def)
  qed
  show "approvals_get r' = (approvals_get r)(ar_approval_id a \<mapsto> a)" if "approvals_save a st r = Inr r'" for r a st r'
    using that by (auto simp: approvals_save_def approvals_get_def dict_simps fun_eq_iff split: option.splits if_splits)
  show "repo_ok r'" if "repo_ok r" "approvals_get r (ar_approval_id a) = Some b"
      "ar_idempotency_key a = ar_idempotency_key b" "approvals_save a st r = Inr r'" for r a b st r'
    using that by (rule repo_ok_save)
  show "(\<exists>r'. approvals_save a st r = Inr r') \<longleftrightarrow>
      (\<exists>b. approvals_get r (ar_approval_id a) = Some b \<and> ar_status b = st)" for a st r
    by (auto simp: approvals_save_def approvals_get_def split: option.splits)
qed

section \<open>The service\<close>

record approval_decision =
  ad_approval_id :: uuid
  ad_command_sha256 :: string
  ad_approved :: bool

record audit_event =
  ae_occurred_at :: int
  ae_approval_id :: uuid
  ae_command_id :: uuid
  ae_command_sha256 :: string
  ae_principal_user_id :: uuid
  ae_profile_id :: uuid
  ae_connection_id :: uuid
  ae_stage :: media_action_audit_stage
  ae_status :: approval_status

record 'p media_state =
  ms_approvals :: approval_repo
  ms_provider :: 'p
  ms_audit :: "audit_event list"

text \<open>
  What a call draws from its environment: the readings of the clock in order, and the identifier
  it generates.
\<close>

record media_env =
  me_now :: "nat \<Rightarrow> int"
  me_id :: uuid

definition on_approvals :: "(approval_repo \<Rightarrow> approval_repo result) \<Rightarrow> ('p media_state, unit) prog" where
  "on_approvals f = updE (\<lambda>s. bindE (f (ms_approvals s)) (\<lambda>r. Inr (s\<lparr>ms_approvals := r\<rparr>)))"

definition on_provider :: "('p, 'a) prog \<Rightarrow> ('p media_state, 'a) prog" where
  "on_provider m = (\<lambda>s. case m (ms_provider s) of (r, p) \<Rightarrow> (r, s\<lparr>ms_provider := p\<rparr>))"

definition audit_event_of :: "approval_request \<Rightarrow> media_action_audit_stage \<Rightarrow> int \<Rightarrow> audit_event" where
  "audit_event_of a stage t =
     \<lparr>ae_occurred_at = t, ae_approval_id = ar_approval_id a, ae_command_id = ar_command_id a,
      ae_command_sha256 = ar_command_sha256 a, ae_principal_user_id = ar_principal_user_id a,
      ae_profile_id = ar_profile_id a, ae_connection_id = ar_connection_id a, ae_stage = stage,
      ae_status = ar_status a\<rparr>"

definition emit :: "approval_request \<Rightarrow> media_action_audit_stage \<Rightarrow> int \<Rightarrow> ('p media_state, unit) prog" where
  "emit a stage t = put (\<lambda>s. s\<lparr>ms_audit := ms_audit s @ [audit_event_of a stage t]\<rparr>)"

definition require_connection_revision :: "'p media_port \<Rightarrow> media_command \<Rightarrow> ('p media_state, unit) prog" where
  "require_connection_revision port c =
     andThen (asks (\<lambda>s. port_revision port (ms_provider s) (mc_connection_id c))) (\<lambda>revision.
       if revision \<noteq> mc_connection_revision c
         then raise (ValueError STR ''PROVIDER_CONNECTION_CHANGED'') else ret ())"

definition require_exact_approval ::
    "(string \<Rightarrow> string) \<Rightarrow> media_command \<Rightarrow> approval_decision \<Rightarrow> approval_repo \<Rightarrow> approval_request result" where
  "require_exact_approval sha c d r =
     (case approvals_get r (ad_approval_id d) of
        None \<Rightarrow> Inl (ValueError STR ''APPROVAL_NOT_FOUND'')
      | Some a \<Rightarrow>
          if ad_command_sha256 d \<noteq> parameter_sha256 sha c \<or> ar_command_sha256 a \<noteq> parameter_sha256 sha c
              \<or> ar_command_id a \<noteq> mc_command_id c \<or> ar_profile_id a \<noteq> mc_profile_id c
              \<or> ar_connection_id a \<noteq> mc_connection_id c
            then Inl (ValueError STR ''APPROVAL_COMMAND_MISMATCH'')
          else Inr a)"

definition new_approval ::
    "media_action_config \<Rightarrow> (string \<Rightarrow> string) \<Rightarrow> media_env \<Rightarrow> uuid \<Rightarrow> session_principal \<Rightarrow> media_command \<Rightarrow>
     approval_request" where
  "new_approval cfg sha ev uid p c =
     \<lparr>ar_approval_id = me_id ev, ar_command_id = mc_command_id c, ar_command_sha256 = parameter_sha256 sha c,
      ar_idempotency_key = mc_idempotency_key c, ar_principal_user_id = uid,
      ar_profile_id = sp_profile_id p, ar_connection_id = mc_connection_id c,
      ar_connection_revision = mc_connection_revision c, ar_preview = media_preview c,
      ar_status = Approval_PENDING, ar_created_at = me_now ev 0,
      ar_expires_at = me_now ev 0 + mac_approval_ttl cfg,
      ar_decided_at = None, ar_executed_at = None, ar_verified_at = None\<rparr>"

definition propose ::
    "'p media_port \<Rightarrow> media_action_config \<Rightarrow> (string \<Rightarrow> string) \<Rightarrow> media_env \<Rightarrow> session_principal \<Rightarrow>
     media_command \<Rightarrow> ('p media_state, approval_request) prog" where
  "propose port cfg sha ev p c =
     andThen (lift (require_authorized cfg p c)) (\<lambda>_.
     andThen (require_connection_revision port c) (\<lambda>_.
     andThen (gets (\<lambda>s. approvals_find (ms_approvals s) (mc_idempotency_key c))) (\<lambda>existing.
       case existing of
         Some a \<Rightarrow>
           if ar_command_sha256 a \<noteq> parameter_sha256 sha c
             then raise (ValueError STR ''IDEMPOTENCY_KEY_REUSED'') else ret a
       | None \<Rightarrow>
           (case sp_user_id p of None \<Rightarrow> raise AssertionError
            | Some uid \<Rightarrow>
                andThen (lift (approval_post_init (new_approval cfg sha ev uid p c))) (\<lambda>a.
                andThen (on_approvals (approvals_add a)) (\<lambda>_.
                andThen (emit a Stage_PROPOSED (me_now ev 1)) (\<lambda>_. ret a)))))))"

definition decide ::
    "'p media_port \<Rightarrow> media_action_config \<Rightarrow> (string \<Rightarrow> string) \<Rightarrow> media_env \<Rightarrow> session_principal \<Rightarrow>
     media_command \<Rightarrow> approval_decision \<Rightarrow> ('p media_state, approval_request) prog" where
  "decide port cfg sha ev p c d =
     andThen (lift (require_authorized cfg p c)) (\<lambda>_.
     andThen (require_connection_revision port c) (\<lambda>_.
     andThen (asks (\<lambda>s. require_exact_approval sha c d (ms_approvals s))) (\<lambda>a.
       if me_now ev 0 > ar_expires_at a then raise (ValueError STR ''APPROVAL_EXPIRED'')
       else
         andThen (lift (approval_decide a (ad_approved d) (me_now ev 0))) (\<lambda>updated.
         andThen (on_approvals (approvals_save updated Approval_PENDING)) (\<lambda>_.
         andThen (emit updated (if ad_approved d then Stage_APPROVED else Stage_REJECTED) (me_now ev 1))
           (\<lambda>_. ret updated))))))"

definition execute_approved ::
    "'p media_port \<Rightarrow> media_action_config \<Rightarrow> (string \<Rightarrow> string) \<Rightarrow> media_env \<Rightarrow> session_principal \<Rightarrow>
     media_command \<Rightarrow> uuid \<Rightarrow> ('p media_state, approval_request \<times> media_action_result) prog" where
  "execute_approved port cfg sha ev p c aid =
     andThen (lift (require_authorized cfg p c)) (\<lambda>_.
     andThen (require_connection_revision port c) (\<lambda>_.
     andThen (gets (\<lambda>s. approvals_get (ms_approvals s) aid)) (\<lambda>found.
       case found of None \<Rightarrow> raise (ValueError STR ''APPROVAL_NOT_FOUND'')
       | Some a \<Rightarrow>
           if ar_command_sha256 a \<noteq> parameter_sha256 sha c \<or> ar_status a \<noteq> Approval_APPROVED
             then raise (ValueError STR ''APPROVAL_COMMAND_MISMATCH'')
           else
             andThen (on_provider (port_execute port c)) (\<lambda>r.
             andThen (lift (mark_executed a (me_now ev 0))) (\<lambda>executed.
             andThen (on_approvals (approvals_save executed Approval_APPROVED)) (\<lambda>_.
             andThen (emit executed Stage_EXECUTED (me_now ev 1)) (\<lambda>_.
             andThen (asks (\<lambda>s. port_verify port c r (ms_provider s))) (\<lambda>verified_ok.
               if \<not> verified_ok then raise (RuntimeError STR ''PROVIDER_VERIFICATION_FAILED'')
               else
                 andThen (lift (mark_verified executed (me_now ev 2))) (\<lambda>verified.
                 andThen (on_approvals (approvals_save verified Approval_EXECUTED)) (\<lambda>_.
                 andThen (emit verified Stage_VERIFIED (me_now ev 3)) (\<lambda>_.
                   ret (verified, r))))))))))))"

definition get_approval :: "'p media_state \<Rightarrow> uuid \<Rightarrow> approval_request result" where
  "get_approval s i =
     (case approvals_get (ms_approvals s) i of
        None \<Rightarrow> Inl (ValueError STR ''APPROVAL_NOT_FOUND'') | Some a \<Rightarrow> Inr a)"


section \<open>What a call can do\<close>

text \<open>The guards shared by the three calls.\<close>

definition admitted :: "'p media_port \<Rightarrow> media_action_config \<Rightarrow> session_principal \<Rightarrow> media_command \<Rightarrow> 'p \<Rightarrow> bool" where
  "admitted port cfg p c q \<longleftrightarrow> require_authorized cfg p c = Inr ()
     \<and> port_revision port q (mc_connection_id c) = Inr (mc_connection_revision c)"

lemma require_revision_apply:
  "andThen (require_connection_revision port c) f s =
     (case port_revision port (ms_provider s) (mc_connection_id c) of
        Inl e \<Rightarrow> (Inl e, s)
      | Inr revision \<Rightarrow> if revision = mc_connection_revision c then f () s
          else (Inl (ValueError STR ''PROVIDER_CONNECTION_CHANGED''), s))"
  by (cases "port_revision port (ms_provider s) (mc_connection_id c)")
    (auto simp: require_connection_revision_def andThen_assoc prog_simps)

definition recorded_in :: "approval_request \<Rightarrow> approval_repo \<Rightarrow> media_action_audit_stage \<Rightarrow> int \<Rightarrow>
    'p media_state \<Rightarrow> 'p media_state" where
  "recorded_in a r stage t s =
     s\<lparr>ms_approvals := r, ms_audit := ms_audit s @ [audit_event_of a stage t]\<rparr>"

lemma recorded_in_simps [simp]:
  "ms_approvals (recorded_in a r stage t s) = r"
  "ms_audit (recorded_in a r stage t s) = ms_audit s @ [audit_event_of a stage t]"
  "ms_provider (recorded_in a r stage t s) = ms_provider s"
  by (simp_all add: recorded_in_def)

lemma save_and_emit:
  "andThen (on_approvals f) (\<lambda>_. andThen (emit a stage t) k) s =
     (case f (ms_approvals s) of Inl e \<Rightarrow> (Inl e, s) | Inr r \<Rightarrow> k () (recorded_in a r stage t s))"
  by (cases "f (ms_approvals s)")
    (simp_all add: on_approvals_def emit_def prog_simps recorded_in_def)

lemma on_provider_apply:
  "andThen (on_provider m) f s = (case m (ms_provider s) of (x, q) \<Rightarrow>
     (case x of Inl e \<Rightarrow> (Inl e, s\<lparr>ms_provider := q\<rparr>) | Inr r \<Rightarrow> f r (s\<lparr>ms_provider := q\<rparr>)))"
  by (simp add: on_provider_def andThen_def split: prod.splits)

lemma approval_post_init_id: "approval_post_init a = Inr b \<Longrightarrow> b = a"
  by (auto simp: approval_post_init_def split: if_splits)

lemma propose_outcome:
  assumes "propose port cfg sha ev p c s = (out, s')"
  obtains (unchanged) "s' = s"
  | (proposed) uid r where "admitted port cfg p c (ms_provider s)" "sp_user_id p = Some uid"
      "approvals_find (ms_approvals s) (mc_idempotency_key c) = None"
      "approval_post_init (new_approval cfg sha ev uid p c) = Inr (new_approval cfg sha ev uid p c)"
      "approvals_add (new_approval cfg sha ev uid p c) (ms_approvals s) = Inr r"
      "s' = recorded_in (new_approval cfg sha ev uid p c) r Stage_PROPOSED (me_now ev 1) s"
      "out = Inr (new_approval cfg sha ev uid p c)"
proof (cases "s' = s")
  case False
  obtain uid a r where a: "admitted port cfg p c (ms_provider s)" "sp_user_id p = Some uid"
      "approvals_find (ms_approvals s) (mc_idempotency_key c) = None"
    and r: "approval_post_init (new_approval cfg sha ev uid p c) = Inr a" "approvals_add a (ms_approvals s) = Inr r"
      "s' = recorded_in a r Stage_PROPOSED (me_now ev 1) s" "out = Inr a"
    using assms False
    by (auto simp: propose_def prog_simps require_revision_apply save_and_emit admitted_def
        split: sum.splits option.splits if_splits)
  show ?thesis
    using proposed [OF a] r approval_post_init_id [OF r(1)] by blast
qed (rule unchanged)

lemma decide_outcome:
  assumes "decide port cfg sha ev p c d s = (out, s')"
  obtains (unchanged) "s' = s"
  | (decided) a b r where "admitted port cfg p c (ms_provider s)"
      "approvals_get (ms_approvals s) (ad_approval_id d) = Some a"
      "ar_command_sha256 a = parameter_sha256 sha c" "ad_command_sha256 d = parameter_sha256 sha c"
      "ar_command_id a = mc_command_id c" "ar_status a = Approval_PENDING" "me_now ev 0 \<le> ar_expires_at a"
      "approval_post_init b = Inr b"
      "b = a\<lparr>ar_status := if ad_approved d then Approval_APPROVED else Approval_REJECTED,
         ar_decided_at := Some (me_now ev 0)\<rparr>"
      "approvals_save b Approval_PENDING (ms_approvals s) = Inr r"
      "s' = recorded_in b r (if ad_approved d then Stage_APPROVED else Stage_REJECTED) (me_now ev 1) s"
      "out = Inr b"
proof (cases "s' = s")
  case False
  obtain a where a: "admitted port cfg p c (ms_provider s)"
      "require_exact_approval sha c d (ms_approvals s) = Inr a" "\<not> me_now ev 0 > ar_expires_at a"
    and rest: "andThen (lift (approval_decide a (ad_approved d) (me_now ev 0))) (\<lambda>updated.
         andThen (on_approvals (approvals_save updated Approval_PENDING)) (\<lambda>_.
         andThen (emit updated (if ad_approved d then Stage_APPROVED else Stage_REJECTED) (me_now ev 1))
           (\<lambda>_. ret updated))) s = (out, s')"
    using assms False
    by (auto simp: decide_def andThen_lift andThen_asks raise_apply require_revision_apply admitted_def
        split: sum.splits if_splits)
  obtain b where b: "approval_decide a (ad_approved d) (me_now ev 0) = Inr b"
    using rest False by (auto simp: andThen_lift split: sum.splits)
  have dec: "ar_status a = Approval_PENDING"
    "b = a\<lparr>ar_status := if ad_approved d then Approval_APPROVED else Approval_REJECTED,
       ar_decided_at := Some (me_now ev 0)\<rparr>" "approval_post_init b = Inr b"
    using b approval_post_init_id unfolding approval_decide_def by (auto split: if_splits)
  obtain r where r: "approvals_save b Approval_PENDING (ms_approvals s) = Inr r" "out = Inr b"
      "s' = recorded_in b r (if ad_approved d then Stage_APPROVED else Stage_REJECTED) (me_now ev 1) s"
    using rest False by (auto simp: b andThen_lift save_and_emit ret_apply split: sum.splits)
  show ?thesis
    by (rule decided [OF a(1) _ _ _ _ dec(1) _ dec(3,2) r(1,3,2)])
      (use a(2,3) in \<open>auto simp: require_exact_approval_def split: option.splits if_splits\<close>)
qed (rule unchanged)


text \<open>The approval as the execution leaves it, before and after verification.\<close>

abbreviation executed_at :: "approval_request \<Rightarrow> int \<Rightarrow> approval_request" where
  "executed_at a t \<equiv> a\<lparr>ar_status := Approval_EXECUTED, ar_executed_at := Some t\<rparr>"

abbreviation verified_at :: "approval_request \<Rightarrow> int \<Rightarrow> approval_request" where
  "verified_at a t \<equiv> a\<lparr>ar_status := Approval_VERIFIED, ar_verified_at := Some t\<rparr>"

lemma approval_post_init_iff:
  "approval_post_init a = Inr b \<longleftrightarrow>
     b = a \<and> ar_created_at a < ar_expires_at a \<and> length (ar_command_sha256 a) = 64"
  by (auto simp: approval_post_init_def)

lemma execute_outcome:
  assumes "execute_approved port cfg sha ev p c aid s = (out, s')"
    and valid: "\<And>a. approvals_get (ms_approvals s) aid = Some a \<Longrightarrow> approval_post_init a = Inr a \<and> ar_approval_id a = aid"
  obtains (unchanged) e where "s' = s" "out = Inl e"
      "\<nexists>a. admitted port cfg p c (ms_provider s) \<and> approvals_get (ms_approvals s) aid = Some a
        \<and> ar_command_sha256 a = parameter_sha256 sha c \<and> ar_status a = Approval_APPROVED"
  | (raised) a e q where "approvals_get (ms_approvals s) aid = Some a" "ar_status a = Approval_APPROVED"
      "port_execute port c (ms_provider s) = (Inl e, q)" "s' = s\<lparr>ms_provider := q\<rparr>" "out = Inl e"
  | (executed) a r q r1 e where "admitted port cfg p c (ms_provider s)"
      "approvals_get (ms_approvals s) aid = Some a"
      "ar_command_sha256 a = parameter_sha256 sha c" "ar_status a = Approval_APPROVED"
      "port_execute port c (ms_provider s) = (Inr r, q)"
      "approvals_save (executed_at a (me_now ev 0)) Approval_APPROVED (ms_approvals s) = Inr r1"
      "s' = recorded_in (executed_at a (me_now ev 0)) r1 Stage_EXECUTED (me_now ev 1) (s\<lparr>ms_provider := q\<rparr>)"
      "port_verify port c r q \<noteq> Inr True" "out = Inl e"
  | (verified) a r q r1 r2 where "admitted port cfg p c (ms_provider s)"
      "approvals_get (ms_approvals s) aid = Some a"
      "ar_command_sha256 a = parameter_sha256 sha c" "ar_status a = Approval_APPROVED"
      "port_execute port c (ms_provider s) = (Inr r, q)"
      "approvals_save (executed_at a (me_now ev 0)) Approval_APPROVED (ms_approvals s) = Inr r1"
      "approvals_save (verified_at (executed_at a (me_now ev 0)) (me_now ev 2)) Approval_EXECUTED r1 = Inr r2"
      "s' = recorded_in (verified_at (executed_at a (me_now ev 0)) (me_now ev 2)) r2 Stage_VERIFIED (me_now ev 3)
         (recorded_in (executed_at a (me_now ev 0)) r1 Stage_EXECUTED (me_now ev 1) (s\<lparr>ms_provider := q\<rparr>))"
      "port_verify port c r q = Inr True"
      "out = Inr (verified_at (executed_at a (me_now ev 0)) (me_now ev 2), r)"
proof (cases "\<exists>a. admitted port cfg p c (ms_provider s) \<and> approvals_get (ms_approvals s) aid = Some a
    \<and> ar_command_sha256 a = parameter_sha256 sha c \<and> ar_status a = Approval_APPROVED")
  case False
  then have "s' = s \<and> (\<exists>e. out = Inl e)"
    using assms(1)
    by (auto simp: execute_approved_def prog_simps require_revision_apply admitted_def split: sum.splits option.splits if_splits)
  then show ?thesis using unchanged False by blast
next
  case True
  then obtain a where a: "admitted port cfg p c (ms_provider s)" "approvals_get (ms_approvals s) aid = Some a"
    "ar_command_sha256 a = parameter_sha256 sha c" "ar_status a = Approval_APPROVED" by blast
  note ok = valid [OF a(2)]
  let ?x = "executed_at a (me_now ev 0)" and ?v = "verified_at (executed_at a (me_now ev 0)) (me_now ev 2)"
  have marks: "mark_executed a (me_now ev 0) = Inr ?x" "mark_verified ?x (me_now ev 2) = Inr ?v"
    using ok a(4) by (simp_all add: mark_executed_def mark_verified_def approval_post_init_iff)
  obtain r1 where r1: "approvals_save ?x Approval_APPROVED (ms_approvals s) = Inr r1"
    using approvals.save_iff [of ?x Approval_APPROVED "ms_approvals s"] a(2,4) ok by auto
  have "approvals_get r1 aid = Some ?x" using approvals.save_get [OF r1] ok by simp
  then obtain r2 where r2: "approvals_save ?v Approval_EXECUTED r1 = Inr r2"
    using approvals.save_iff [of ?v Approval_EXECUTED r1] ok by auto
  obtain x q where x: "port_execute port c (ms_provider s) = (x, q)" by (cases "port_execute port c (ms_provider s)")
  have "(out, s') = (case x of Inl e \<Rightarrow> (Inl e, s\<lparr>ms_provider := q\<rparr>) | Inr r \<Rightarrow>
      let s1 = recorded_in ?x r1 Stage_EXECUTED (me_now ev 1) (s\<lparr>ms_provider := q\<rparr>)
      in case port_verify port c r q of Inl e \<Rightarrow> (Inl e, s1)
         | Inr b \<Rightarrow> if b then (Inr (?v, r), recorded_in ?v r2 Stage_VERIFIED (me_now ev 3) s1)
             else (Inl (RuntimeError STR ''PROVIDER_VERIFICATION_FAILED''), s1))"
    using assms(1) a marks r1 r2 x
    by (cases x) (auto simp: execute_approved_def andThen_lift andThen_gets andThen_asks require_revision_apply
        admitted_def on_provider_apply save_and_emit ret_apply raise_apply recorded_in_def Let_def
        split: sum.splits)
  then show ?thesis
    using that a x r1 r2 by (auto simp: Let_def split: sum.splits if_splits)
qed


text \<open>Whatever the approvals are, a call touches the provider only through one execution.\<close>

lemma execute_touches:
  assumes "execute_approved port cfg sha ev p c aid s = (out, s')"
  shows "ms_provider s' = ms_provider s \<or>
    (\<exists>r q. port_execute port c (ms_provider s) = (r, q) \<and> ms_provider s' = q)"
  using assms
  by (auto simp: execute_approved_def andThen_lift andThen_gets andThen_asks require_revision_apply
      on_provider_apply save_and_emit ret_apply raise_apply split: sum.splits option.splits if_splits prod.splits)

section \<open>The approval workflow as a state machine\<close>

fun stages_of :: "approval_status \<Rightarrow> media_action_audit_stage list" where
  "stages_of Approval_PENDING = [Stage_PROPOSED]"
| "stages_of Approval_APPROVED = [Stage_PROPOSED, Stage_APPROVED]"
| "stages_of Approval_REJECTED = [Stage_PROPOSED, Stage_REJECTED]"
| "stages_of Approval_EXECUTED = [Stage_PROPOSED, Stage_APPROVED, Stage_EXECUTED]"
| "stages_of Approval_VERIFIED = [Stage_PROPOSED, Stage_APPROVED, Stage_EXECUTED, Stage_VERIFIED]"

definition was_executed :: "approval_request \<Rightarrow> bool" where
  "was_executed a = (ar_status a \<in> {Approval_EXECUTED, Approval_VERIFIED})"

text \<open>The approval was made for this command, by the owner of its provider connection.\<close>

definition approval_for :: "(string \<Rightarrow> string) \<Rightarrow> approval_request \<Rightarrow> media_command \<Rightarrow> bool" where
  "approval_for sha a c \<longleftrightarrow> ar_command_sha256 a = parameter_sha256 sha c
     \<and> ar_idempotency_key a = mc_idempotency_key c \<and> ar_command_id a = mc_command_id c
     \<and> ar_profile_id a = mc_profile_id c \<and> ar_connection_id a = mc_connection_id c
     \<and> ar_principal_user_id a = mc_owner_user_id c"

definition decision_ok :: "approval_request \<Rightarrow> bool" where
  "decision_ok a \<longleftrightarrow> (ar_decided_at a = None \<longleftrightarrow> ar_status a = Approval_PENDING)
     \<and> opt_all (\<lambda>t. t \<le> ar_expires_at a) (ar_decided_at a)"

definition same_request :: "approval_request \<Rightarrow> approval_request \<Rightarrow> bool" where
  "same_request a b \<longleftrightarrow> ar_approval_id a = ar_approval_id b \<and> ar_command_id a = ar_command_id b
     \<and> ar_command_sha256 a = ar_command_sha256 b \<and> ar_idempotency_key a = ar_idempotency_key b
     \<and> ar_principal_user_id a = ar_principal_user_id b \<and> ar_profile_id a = ar_profile_id b
     \<and> ar_connection_id a = ar_connection_id b \<and> ar_created_at a = ar_created_at b
     \<and> ar_expires_at a = ar_expires_at b"

definition about :: "approval_request \<Rightarrow> audit_event \<Rightarrow> bool" where
  "about a e \<longleftrightarrow> ae_approval_id e = ar_approval_id a \<and> ae_command_id e = ar_command_id a
     \<and> ae_command_sha256 e = ar_command_sha256 a \<and> ae_principal_user_id e = ar_principal_user_id a
     \<and> ae_profile_id e = ar_profile_id a \<and> ae_connection_id e = ar_connection_id a"

definition trail :: "audit_event list \<Rightarrow> uuid \<Rightarrow> media_action_audit_stage list" where
  "trail es i = map ae_stage (filter (\<lambda>e. ae_approval_id e = i) es)"

definition approval_ok :: "(string \<Rightarrow> string) \<Rightarrow> media_command set \<Rightarrow> audit_event list \<Rightarrow> approval_request \<Rightarrow> bool" where
  "approval_ok sha C es a \<longleftrightarrow> approval_post_init a = Inr a \<and> (\<exists>c \<in> C. approval_for sha a c) \<and> decision_ok a
     \<and> trail es (ar_approval_id a) = stages_of (ar_status a)"

definition approvals_ok :: "(string \<Rightarrow> string) \<Rightarrow> media_command set \<Rightarrow> 'p media_state \<Rightarrow> bool" where
  "approvals_ok sha C s \<longleftrightarrow> repo_ok (ms_approvals s)
     \<and> (\<forall>i a. approvals_get (ms_approvals s) i = Some a \<longrightarrow> approval_ok sha C (ms_audit s) a)
     \<and> (\<forall>e \<in> set (ms_audit s). \<exists>a. approvals_get (ms_approvals s) (ae_approval_id e) = Some a \<and> about a e)"

definition ledger_ok :: "('p \<Rightarrow> string \<Rightarrow> string option) \<Rightarrow> 'p media_state \<Rightarrow> bool" where
  "ledger_ok ledger s \<longleftrightarrow> (\<forall>k h. ledger (ms_provider s) k = Some h \<longleftrightarrow>
     (\<exists>i a. approvals_get (ms_approvals s) i = Some a \<and> ar_idempotency_key a = k
        \<and> ar_command_sha256 a = h \<and> was_executed a))"

inductive media_call ::
    "'p media_port \<Rightarrow> ('p \<Rightarrow> 'p \<Rightarrow> bool) \<Rightarrow> media_action_config \<Rightarrow> (string \<Rightarrow> string) \<Rightarrow> media_command set \<Rightarrow>
     'p media_state \<Rightarrow> 'p media_state \<Rightarrow> bool"
  for port other cfg sha C where
  call_propose: "c \<in> C \<Longrightarrow> propose port cfg sha ev p c s = (o1, s') \<Longrightarrow> media_call port other cfg sha C s s'"
| call_decide: "c \<in> C \<Longrightarrow> decide port cfg sha ev p c d s = (o1, s') \<Longrightarrow> media_call port other cfg sha C s s'"
| call_execute: "c \<in> C \<Longrightarrow> execute_approved port cfg sha ev p c aid s = (o2, s') \<Longrightarrow>
    media_call port other cfg sha C s s'"
| provider_changes: "other (ms_provider s) q \<Longrightarrow> media_call port other cfg sha C s (s\<lparr>ms_provider := q\<rparr>)"

definition media_init :: "('p \<Rightarrow> bool) \<Rightarrow> 'p media_state \<Rightarrow> bool" where
  "media_init start s \<longleftrightarrow> ms_approvals s = empty_approvals \<and> ms_audit s = [] \<and> start (ms_provider s)"

subsection \<open>Recording a step of an approval\<close>

lemma trail_append:
  "trail (es @ [audit_event_of a stage t]) i =
     (if ar_approval_id a = i then trail es i @ [stage] else trail es i)"
  by (simp add: trail_def audit_event_of_def)

lemma approvals_okD:
  assumes "approvals_ok sha C s"
  shows "repo_ok (ms_approvals s)"
    "approvals_get (ms_approvals s) i = Some a \<Longrightarrow> approval_ok sha C (ms_audit s) a"
    "approvals_get (ms_approvals s) i = Some a \<Longrightarrow> ar_approval_id a = i"
    "e \<in> set (ms_audit s) \<Longrightarrow> \<exists>a. approvals_get (ms_approvals s) (ae_approval_id e) = Some a \<and> about a e"
  using assms approvals.get_id unfolding approvals_ok_def by blast+

lemma recorded_ok:
  assumes ok: "approvals_ok sha C s" and repo: "repo_ok r"
    and get: "approvals_get r = (approvals_get (ms_approvals s))(ar_approval_id a \<mapsto> a)"
    and new: "approval_post_init a = Inr a" "\<exists>c \<in> C. approval_for sha a c" "decision_ok a"
    and old: "case approvals_get (ms_approvals s) (ar_approval_id a) of None \<Rightarrow> stages_of (ar_status a) = [stage]
      | Some b \<Rightarrow> same_request a b \<and> stages_of (ar_status a) = stages_of (ar_status b) @ [stage]"
  shows "approvals_ok sha C (recorded_in a r stage t s)"
proof -
  have here: "trail (ms_audit s) (ar_approval_id a) =
      (case approvals_get (ms_approvals s) (ar_approval_id a) of None \<Rightarrow> [] | Some b \<Rightarrow> stages_of (ar_status b))"
  proof (cases "approvals_get (ms_approvals s) (ar_approval_id a)")
    case None
    then show ?thesis using approvals_okD(4) [OF ok] by (fastforce simp: trail_def filter_empty_conv)
  next
    case (Some b)
    then show ?thesis using approvals_okD(2,3) [OF ok Some] by (simp add: approval_ok_def)
  qed
  have each: "approval_ok sha C (ms_audit s @ [audit_event_of a stage t]) b" if "approvals_get r i = Some b" for i b
  proof (cases "b = a")
    case True
    then show ?thesis using new here old
      by (auto simp: approval_ok_def trail_append split: option.splits)
  next
    case False
    then have "approvals_get (ms_approvals s) i = Some b" "i \<noteq> ar_approval_id a"
      using that get by (auto split: if_splits)
    then show ?thesis using approvals_okD(2,3) [OF ok] by (auto simp: approval_ok_def trail_append)
  qed
  moreover have "\<exists>b. approvals_get r (ae_approval_id e) = Some b \<and> about b e"
    if e: "e \<in> set (ms_audit s @ [audit_event_of a stage t])" for e
  proof (cases "e = audit_event_of a stage t")
    case True
    then show ?thesis by (auto simp: get about_def audit_event_of_def)
  next
    case False
    then have "e \<in> set (ms_audit s)" using e by simp
    from approvals_okD(4) [OF ok this] obtain b where
      b: "approvals_get (ms_approvals s) (ae_approval_id e) = Some b" "about b e" by blast
    show ?thesis
    proof (cases "ae_approval_id e = ar_approval_id a")
      case True
      then have "same_request a b" using old b(1) by simp
      then have "about a e" using b(2) unfolding about_def same_request_def by presburger
      then show ?thesis using True by (simp add: get)
    next
      case False
      then show ?thesis using b by (simp add: get)
    qed
  qed
  ultimately show ?thesis using repo by (simp add: approvals_ok_def)
qed


lemma stages_simps:
  "decision_ok a \<Longrightarrow> decision_ok (executed_at a t) \<or> ar_status a = Approval_PENDING"
  "same_request (executed_at a t) a" "same_request (verified_at a t) a"
  "approval_for sha (executed_at a t) c = approval_for sha a c"
  "approval_for sha (verified_at a t) c = approval_for sha a c"
  by (auto simp: decision_ok_def same_request_def approval_for_def)

lemma approvals_ok_propose:
  assumes "approvals_ok sha C s" "c \<in> C" "propose port cfg sha ev p c s = (out, s')"
  shows "approvals_ok sha C s' \<and> ms_provider s' = ms_provider s
    \<and> (\<forall>i a. was_executed a \<longrightarrow> approvals_get (ms_approvals s') i = Some a \<longleftrightarrow> approvals_get (ms_approvals s) i = Some a)"
  using assms(3)
proof (cases rule: propose_outcome)
  case (proposed uid r)
  let ?a = "new_approval cfg sha ev uid p c"
  have who: "uid = mc_owner_user_id c" "sp_profile_id p = mc_profile_id c"
    using proposed(1,2) by (auto simp: admitted_def require_authorized_iff)
  note get = approvals.add_get [OF proposed(5)] and new = approvals.add_new [OF proposed(5)]
  have "approvals_ok sha C s'"
    unfolding proposed(6)
    by (rule recorded_ok [OF assms(1) approvals.add_ok [OF approvals_okD(1) [OF assms(1)] proposed(5)] get proposed(4)])
      (use assms(2) new who in \<open>auto simp: new_approval_def approval_for_def decision_ok_def opt_all_def\<close>)
  then show ?thesis using proposed(6) new by (auto simp: get new_approval_def was_executed_def)
qed (use assms(1) in simp)

lemma approvals_ok_decide:
  assumes "approvals_ok sha C s" "decide port cfg sha ev p c d s = (out, s')"
  shows "approvals_ok sha C s' \<and> ms_provider s' = ms_provider s
    \<and> (\<forall>i a. was_executed a \<longrightarrow> approvals_get (ms_approvals s') i = Some a \<longleftrightarrow> approvals_get (ms_approvals s) i = Some a)"
  using assms(2)
proof (cases rule: decide_outcome)
  case (decided a b r)
  have id: "ar_approval_id a = ad_approval_id d" using approvals_okD(3) [OF assms(1) decided(2)] .
  have okay: "approval_ok sha C (ms_audit s) a" using approvals_okD(2) [OF assms(1) decided(2)] .
  have old: "approvals_get (ms_approvals s) (ar_approval_id b) = Some a" using decided(2,9) id by simp
  note get = approvals.save_get [OF decided(10)]
  have repo: "repo_ok r"
    by (rule approvals.save_ok [OF approvals_okD(1) [OF assms(1)] old _ decided(10)]) (simp add: decided(9))
  have "approvals_ok sha C s'"
    unfolding decided(11)
  proof (rule recorded_ok [OF assms(1) repo get decided(8)])
    show "\<exists>c \<in> C. approval_for sha b c" using okay by (auto simp: approval_ok_def approval_for_def decided(9))
    show "decision_ok b" using decided(7) by (simp add: decision_ok_def decided(9) opt_all_def)
  qed (simp add: old, simp add: decided(6,9) same_request_def)
  moreover have "\<not> was_executed a" "\<not> was_executed b" using decided(6,9) by (simp_all add: was_executed_def)
  ultimately show ?thesis using decided(11) old by (auto simp: get)
qed (use assms(1) in simp)


subsection \<open>Executing an approved command\<close>

text \<open>
  The service against any provider that keeps the contract: \<open>other\<close> are the changes of the
  provider that the service does not make, which leave the ledger alone, and no two commands of
  \<open>C\<close> share a digest.
\<close>

locale media_service = media_provider port "parameter_sha256 sha" ledger
  for port :: "'p media_port" and sha :: "string \<Rightarrow> string" and ledger :: "'p \<Rightarrow> string \<Rightarrow> string option" +
  fixes other :: "'p \<Rightarrow> 'p \<Rightarrow> bool"
  assumes other_ledger: "other q q' \<Longrightarrow> ledger q' = ledger q"
begin

lemma execution_is_first:
  assumes "approvals_ok sha C s" "ledger_ok ledger s" "inj_on (parameter_sha256 sha) C" "c \<in> C"
    and "approvals_get (ms_approvals s) aid = Some a" "ar_status a = Approval_APPROVED"
    and "ar_command_sha256 a = parameter_sha256 sha c"
  shows "approval_for sha a c" "ledger (ms_provider s) (mc_idempotency_key c) = None"
proof -
  have "approval_ok sha C (ms_audit s) a" using approvals_okD(2) [OF assms(1,5)] .
  then obtain c' where c': "c' \<in> C" "approval_for sha a c'" by (auto simp: approval_ok_def)
  then have "parameter_sha256 sha c' = parameter_sha256 sha c" using assms(7) by (simp add: approval_for_def)
  then have "c' = c" using assms(3,4) c'(1) by (auto dest: inj_onD)
  then show "approval_for sha a c" using c' by simp
  then have key: "ar_idempotency_key a = mc_idempotency_key c" by (simp add: approval_for_def)
  show "ledger (ms_provider s) (mc_idempotency_key c) = None"
  proof (rule ccontr)
    assume "ledger (ms_provider s) (mc_idempotency_key c) \<noteq> None"
    then obtain i b where b: "approvals_get (ms_approvals s) i = Some b"
        "ar_idempotency_key b = mc_idempotency_key c" "was_executed b"
      using assms(2) unfolding ledger_ok_def by blast
    then have "i = aid"
      using approvals.key_unique [OF approvals_okD(1) [OF assms(1)] b(1) assms(5)] key by simp
    then show False using b assms(5,6) by (simp add: was_executed_def)
  qed
qed

lemma ledger_ok_executed:
  assumes ok: "repo_ok (ms_approvals s)" "ledger_ok ledger s"
    and a: "approvals_get (ms_approvals s) (ar_approval_id a') = Some a" "\<not> was_executed a"
    and a': "was_executed a'" "ar_idempotency_key a' = ar_idempotency_key a"
      "ar_idempotency_key a = k0" "ar_command_sha256 a' = h0"
    and s': "approvals_get (ms_approvals s') = (approvals_get (ms_approvals s))(ar_approval_id a' \<mapsto> a')"
      "ledger (ms_provider s') = (ledger (ms_provider s))(k0 \<mapsto> h0)"
  shows "ledger_ok ledger s'"
  unfolding ledger_ok_def
proof (intro allI)
  fix k h
  let ?old = "\<lambda>i b. approvals_get (ms_approvals s) i = Some b \<and> ar_idempotency_key b = k
    \<and> ar_command_sha256 b = h \<and> was_executed b"
  let ?new = "\<lambda>i b. approvals_get (ms_approvals s') i = Some b \<and> ar_idempotency_key b = k
    \<and> ar_command_sha256 b = h \<and> was_executed b"
  have new: "?new i b \<longleftrightarrow> (if i = ar_approval_id a' then b = a' \<and> k = k0 \<and> h = h0 else ?old i b)" for i b
    using a' by (auto simp: s'(1))
  show "ledger (ms_provider s') k = Some h \<longleftrightarrow> (\<exists>i b. ?new i b)"
  proof (cases "k = k0")
    case True
    have "i = ar_approval_id a'" if "?old i b" for i b
      using that True a'(3) approvals.key_unique [OF ok(1), of i b "ar_approval_id a'" a] a(1) by simp
    then have "(\<exists>i b. ?new i b) \<longleftrightarrow> h = h0" unfolding new using True by auto
    then show ?thesis by (auto simp: s'(2) True)
  next
    case False
    have "i \<noteq> ar_approval_id a'" if "?old i b" for i b
      using that a by auto
    then have "(\<exists>i b. ?new i b) \<longleftrightarrow> (\<exists>i b. ?old i b)" unfolding new using False by auto
    then show ?thesis using ok(2) False by (simp add: s'(2) ledger_ok_def)
  qed
qed

lemma service_execute_ok:
  assumes ok: "approvals_ok sha C s" "ledger_ok ledger s" and inj: "inj_on (parameter_sha256 sha) C"
    and c: "c \<in> C" and call: "execute_approved port cfg sha ev p c aid s = (out, s')"
  shows "approvals_ok sha C s' \<and> ledger_ok ledger s'"
proof -
  have valid: "approval_post_init a = Inr a \<and> ar_approval_id a = aid"
    if "approvals_get (ms_approvals s) aid = Some a" for a
    using approvals_okD(2,3) [OF ok(1) that] by (simp add: approval_ok_def)
  have first: "approvals_ok sha C (recorded_in x r1 Stage_EXECUTED t (s\<lparr>ms_provider := q\<rparr>))
      \<and> ledger_ok ledger (recorded_in x r1 Stage_EXECUTED t (s\<lparr>ms_provider := q\<rparr>)) \<and> repo_ok r1
      \<and> approvals_get r1 aid = Some x"
    if x: "x = executed_at a u" and a: "approvals_get (ms_approvals s) aid = Some a"
      "ar_status a = Approval_APPROVED" "ar_command_sha256 a = parameter_sha256 sha c"
      and q: "port_execute port c (ms_provider s) = (Inr r, q)"
      and r1: "approvals_save x Approval_APPROVED (ms_approvals s) = Inr r1" for x a u r q r1 t
  proof -
    have id: "ar_approval_id a = aid" "approval_post_init a = Inr a" using valid [OF a(1)] by simp_all
    note for_c = execution_is_first(1) [OF ok inj c a(1,2,3)]
    have okay: "approval_ok sha C (ms_audit s) a" using approvals_okD(2) [OF ok(1) a(1)] .
    note get = approvals.save_get [OF r1]
    have repo: "repo_ok r1"
      by (rule approvals.save_ok [OF approvals_okD(1) [OF ok(1)] _ _ r1, of a]) (use a(1) id x in simp_all)
    have ok': "approvals_ok sha C (s\<lparr>ms_provider := q\<rparr>)" using ok(1) by (simp add: approvals_ok_def)
    have "approvals_ok sha C (recorded_in x r1 Stage_EXECUTED t (s\<lparr>ms_provider := q\<rparr>))"
    proof (rule recorded_ok [OF ok' repo])
      show "\<exists>c \<in> C. approval_for sha x c" using for_c c unfolding x approval_for_def by auto
      show "decision_ok x" using okay a(2) by (simp add: x approval_ok_def decision_ok_def)
    qed (use get a id in \<open>simp_all add: x approval_post_init_iff same_request_def\<close>)
    moreover have "ledger_ok ledger (recorded_in x r1 Stage_EXECUTED t (s\<lparr>ms_provider := q\<rparr>))"
      by (rule ledger_ok_executed [OF approvals_okD(1) [OF ok(1)] ok(2), of x a "mc_idempotency_key c" "parameter_sha256 sha c"])
        (use a id for_c get execute_records [OF q] in \<open>simp_all add: x was_executed_def approval_for_def\<close>)
    ultimately show ?thesis using repo get id by (simp add: x)
  qed
  show ?thesis
  proof (cases rule: execute_outcome [OF call valid, case_names given unchanged raised executed verified])
    case (raised a e q)
    then show ?thesis using ok execute_raises [OF raised(3)] by (simp add: approvals_ok_def ledger_ok_def)
  next
    case (executed a r q r1 e)
    then show ?thesis using first [OF refl executed(2,4,3,5,6)] by simp
  next
    case (verified a r q r1 r2)
    let ?x = "executed_at a (me_now ev 0)" and ?v = "verified_at (executed_at a (me_now ev 0)) (me_now ev 2)"
    let ?s1 = "recorded_in ?x r1 Stage_EXECUTED (me_now ev 1) (s\<lparr>ms_provider := q\<rparr>)"
    note 1 = first [OF refl verified(2,4,3,5,6), of "me_now ev 1"]
    have id: "ar_approval_id a = aid" using valid [OF verified(2)] by simp
    have ok1: "approvals_ok sha C ?s1" "ledger_ok ledger ?s1" using 1 by blast+
    have gx: "approvals_get (ms_approvals ?s1) aid = Some ?x" using 1 by simp
    have xo: "approval_ok sha C (ms_audit ?s1) ?x" using approvals_okD(2) [OF ok1(1) gx] .
    have gv: "approvals_get r2 = (approvals_get (ms_approvals ?s1))(ar_approval_id ?v \<mapsto> ?v)"
      using approvals.save_get [OF verified(7)] by simp
    have repo: "repo_ok r2"
      by (rule approvals.save_ok [OF _ _ _ verified(7), of ?x]) (use 1 id in simp_all)
    have "approvals_ok sha C s'"
      unfolding verified(8)
    proof (rule recorded_ok [OF ok1(1) repo gv])
      show "\<exists>c \<in> C. approval_for sha ?v c" using xo by (auto simp: approval_ok_def approval_for_def)
    qed (use xo gx id in \<open>simp_all add: approval_ok_def approval_post_init_iff decision_ok_def same_request_def\<close>)
    moreover have "ledger_ok ledger s'"
    proof -
      have "(\<exists>b. approvals_get r2 i = Some b \<and> ar_idempotency_key b = k \<and> ar_command_sha256 b = h \<and> was_executed b)
          \<longleftrightarrow> (\<exists>b. approvals_get (ms_approvals ?s1) i = Some b \<and> ar_idempotency_key b = k
             \<and> ar_command_sha256 b = h \<and> was_executed b)" for i k h
        using gx id by (cases "i = aid") (simp_all add: gv was_executed_def)
      then show ?thesis using ok1(2) unfolding ledger_ok_def verified(8) by simp
    qed
    ultimately show ?thesis by simp
  qed (use ok in simp_all)
qed

lemma ledger_ok_same:
  assumes "ledger_ok ledger s" "ms_provider s' = ms_provider s"
    and "\<forall>i a. was_executed a \<longrightarrow>
      approvals_get (ms_approvals s') i = Some a \<longleftrightarrow> approvals_get (ms_approvals s) i = Some a"
  shows "ledger_ok ledger s'"
proof -
  have "(approvals_get (ms_approvals s') i = Some a \<and> ar_idempotency_key a = k \<and> ar_command_sha256 a = h \<and> was_executed a)
      \<longleftrightarrow> (approvals_get (ms_approvals s) i = Some a \<and> ar_idempotency_key a = k \<and> ar_command_sha256 a = h \<and> was_executed a)"
    for i a k h using assms(3) by blast
  then show ?thesis using assms(1,2) by (simp add: ledger_ok_def)
qed

lemma service_step_ok:
  assumes "media_call port other cfg sha C s s'" "inj_on (parameter_sha256 sha) C"
    and "approvals_ok sha C s \<and> ledger_ok ledger s"
  shows "approvals_ok sha C s' \<and> ledger_ok ledger s'"
  using assms(1)
proof cases
  case (call_propose c ev p o1)
  then have "approvals_ok sha C s' \<and> ms_provider s' = ms_provider s
      \<and> (\<forall>i a. was_executed a \<longrightarrow> approvals_get (ms_approvals s') i = Some a \<longleftrightarrow> approvals_get (ms_approvals s) i = Some a)"
    using approvals_ok_propose assms(3) by blast
  then show ?thesis using assms(3) ledger_ok_same by blast
next
  case (call_decide c ev p d o1)
  then have "approvals_ok sha C s' \<and> ms_provider s' = ms_provider s
      \<and> (\<forall>i a. was_executed a \<longrightarrow> approvals_get (ms_approvals s') i = Some a \<longleftrightarrow> approvals_get (ms_approvals s) i = Some a)"
    using approvals_ok_decide assms(3) by blast
  then show ?thesis using assms(3) ledger_ok_same by blast
next
  case (call_execute c ev p aid o2)
  then show ?thesis using service_execute_ok assms(2,3) by blast
next
  case (provider_changes q)
  then show ?thesis using assms(3) other_ledger by (simp add: approvals_ok_def ledger_ok_def)
qed

end


section \<open>The service over the mock provider\<close>

text \<open>What an operator can do to the mock provider between two calls.\<close>

definition mock_changes :: "mock_provider \<Rightarrow> mock_provider \<Rightarrow> bool" where
  "mock_changes m m' \<longleftrightarrow> (\<exists>b. m' = set_available b m) \<or> (\<exists>r. advance_connection_revision r m = Inr m')"

lemma mock_changes_keep:
  "mock_changes m m' \<Longrightarrow> mp_executions m' = mp_executions m \<and> mp_state_version m' = mp_state_version m"
  by (auto simp: mock_changes_def set_available_def advance_connection_revision_def split: if_splits)

interpretation mock_service: media_service "mock_port sha" sha mock_ledger mock_changes
  by unfold_locales (auto simp: fun_eq_iff mock_ledger_def dest: mock_changes_keep)

definition mock_start :: "mock_provider \<Rightarrow> bool" where
  "mock_start m \<longleftrightarrow> mp_executions m = [] \<and> mp_state_version m = 1"

text \<open>The version of the mock provider counts its executions.\<close>

definition version_ok :: "mock_provider \<Rightarrow> bool" where
  "version_ok m \<longleftrightarrow> mp_state_version m = 1 + card {k. mock_ledger m k \<noteq> None}"

lemma finite_ledger: "finite {k. mock_ledger m k \<noteq> None}"
proof (rule finite_subset)
  show "{k. mock_ledger m k \<noteq> None} \<subseteq> fst ` set (mp_executions m)"
    by (force simp: mock_ledger_def dict_get_def dest: map_of_SomeD)
qed simp

lemma version_ok_execute:
  assumes "mock_execute sha c m = (out, m')" "version_ok m"
  shows "version_ok m'"
proof (cases out)
  case (Inl e)
  then show ?thesis using assms mock_execute_raises by blast
next
  case (Inr r)
  with assms(1) have "mock_execute sha c m = (Inr r, m')" by simp
  then show ?thesis
  proof (cases rule: mock_execute_cases)
    case (fresh s s')
    have "{k. mock_ledger m' k \<noteq> None} = insert (mc_idempotency_key c) {k. mock_ledger m k \<noteq> None}"
      by (auto simp: fresh(6) applied_def mock_ledger_def dict_simps)
    moreover have "mc_idempotency_key c \<notin> {k. mock_ledger m k \<noteq> None}"
      using fresh(1) by (simp add: mock_ledger_def)
    moreover have "mp_state_version m' = mp_state_version m + 1" by (simp add: fresh(6) applied_def)
    ultimately show ?thesis using assms(2) finite_ledger [of m] by (simp add: version_ok_def)
  qed (use assms(2) in simp)
qed

definition mock_step ::
    "media_action_config \<Rightarrow> (string \<Rightarrow> string) \<Rightarrow> media_command set \<Rightarrow> mock_provider media_state \<Rightarrow>
     mock_provider media_state \<Rightarrow> bool" where
  "mock_step cfg sha C = media_call (mock_port sha) mock_changes cfg sha C"

definition mock_inv :: "(string \<Rightarrow> string) \<Rightarrow> media_command set \<Rightarrow> mock_provider media_state \<Rightarrow> bool" where
  "mock_inv sha C s \<longleftrightarrow> version_ok (ms_provider s)
     \<and> (inj_on (parameter_sha256 sha) C \<longrightarrow> approvals_ok sha C s \<and> ledger_ok mock_ledger s)"

lemma mock_step_version:
  assumes "mock_step cfg sha C s s'" "version_ok (ms_provider s)"
  shows "version_ok (ms_provider s')"
  using assms(1) unfolding mock_step_def
proof cases
  case (call_propose c ev p o1)
  show ?thesis
    by (rule propose_outcome [OF call_propose(2)]) (use assms(2) in simp_all)
next
  case (call_decide c ev p d o1)
  show ?thesis
    by (rule decide_outcome [OF call_decide(2)]) (use assms(2) in simp_all)
next
  case (call_execute c ev p aid o2)
  have "ms_provider s' = ms_provider s \<or> (\<exists>out q. port_execute (mock_port sha) c (ms_provider s) = (out, q) \<and> ms_provider s' = q)"
    using call_execute(2) by (rule execute_touches)
  then show ?thesis using version_ok_execute assms(2) by (auto simp: mock_port_def)
next
  case (provider_changes q)
  then show ?thesis using assms(2) mock_changes_keep [OF provider_changes(2)]
    by (simp add: version_ok_def mock_ledger_def)
qed

lemma approvals_empty: "repo_ok empty_approvals" "approvals_get empty_approvals i = None"
  by (simp_all add: repo_ok_def empty_approvals_def approvals_get_def dict_simps)

interpretation mock_actions: invariant_system "media_init mock_start" "mock_step cfg sha C" "mock_inv sha C"
proof
  show "mock_inv sha C s" if "media_init mock_start s" for s
  proof -
    have s: "ms_approvals s = empty_approvals" "ms_audit s = []" "mp_executions (ms_provider s) = []"
      "mp_state_version (ms_provider s) = 1"
      using that by (simp_all add: media_init_def mock_start_def)
    have "approvals_ok sha C s" "ledger_ok mock_ledger s" "version_ok (ms_provider s)"
      by (simp_all add: approvals_ok_def ledger_ok_def version_ok_def mock_ledger_def s approvals_empty dict_simps)
    then show ?thesis by (simp add: mock_inv_def)
  qed
  show "mock_inv sha C t" if "mock_step cfg sha C s t" "mock_inv sha C s" for s t
  proof -
    have "approvals_ok sha C t \<and> ledger_ok mock_ledger t" if inj: "inj_on (parameter_sha256 sha) C"
    proof (rule mock_service.service_step_ok)
      show "media_call (mock_port sha) mock_changes cfg sha C s t" using \<open>mock_step cfg sha C s t\<close> by (simp add: mock_step_def)
    qed (use inj \<open>mock_inv sha C s\<close> in \<open>simp_all add: mock_inv_def\<close>)
    then show ?thesis using mock_step_version [OF that(1)] that(2) by (simp add: mock_inv_def)
  qed
qed

subsection \<open>Properties\<close>

lemma reachable_media:
  assumes "reach (media_init mock_start) (mock_step cfg sha C) s" "inj_on (parameter_sha256 sha) C"
  shows "approvals_ok sha C s" "ledger_ok mock_ledger s" "version_ok (ms_provider s)"
  using mock_actions.reach_inv [OF assms(1)] assms(2) by (simp_all add: mock_inv_def)

text \<open>
  C21: approved actions, and only they, take effect, exactly once: in every state reachable by
  proposals, decisions, executions and operator changes over commands whose digests differ, the
  provider has executed a command under a key exactly if the approval of that key was executed,
  with the approval's digest, and its state version counts the executed approvals.
\<close>

theorem approved_actions_take_effect_once:
  assumes "reach (media_init mock_start) (mock_step cfg sha C) s" "inj_on (parameter_sha256 sha) C"
  shows "(mock_ledger (ms_provider s) k = Some h \<longleftrightarrow> (\<exists>a. approvals_find (ms_approvals s) k = Some a
        \<and> ar_command_sha256 a = h \<and> ar_status a \<in> {Approval_EXECUTED, Approval_VERIFIED}))
    \<and> mp_state_version (ms_provider s) = 1 + card {k. \<exists>a. approvals_find (ms_approvals s) k = Some a
        \<and> ar_status a \<in> {Approval_EXECUTED, Approval_VERIFIED}}"
proof -
  note ok = reachable_media [OF assms]
  have entry: "mock_ledger (ms_provider s) k = Some h \<longleftrightarrow> (\<exists>a. approvals_find (ms_approvals s) k = Some a
      \<and> ar_command_sha256 a = h \<and> was_executed a)" for k h
  proof -
    have "approvals_find (ms_approvals s) k = Some a \<longleftrightarrow>
        (\<exists>i. approvals_get (ms_approvals s) i = Some a \<and> ar_idempotency_key a = k)" for a
      using approvals.find_iff [OF approvals_okD(1) [OF ok(1)]] approvals_okD(3) [OF ok(1)] by blast
    then show ?thesis using ok(2) unfolding ledger_ok_def by blast
  qed
  then have "{k. mock_ledger (ms_provider s) k \<noteq> None}
      = {k. \<exists>a. approvals_find (ms_approvals s) k = Some a \<and> was_executed a}" by auto
  then show ?thesis using ok(3) entry by (simp add: version_ok_def was_executed_def)
qed

text \<open>
  C22: every approval is accounted for: in a reachable state an approval was made for one of the
  commands by the owner of its connection, the audit events of the approval are exactly the stages
  its status has gone through, in order, each naming its command, digest and owner, and an approval
  that was executed was decided before it expired.
\<close>

theorem audit_trail_complete:
  assumes "reach (media_init mock_start) (mock_step cfg sha C) s" "inj_on (parameter_sha256 sha) C"
    and "approvals_get (ms_approvals s) i = Some a"
  shows "map ae_stage (filter (\<lambda>e. ae_approval_id e = i) (ms_audit s)) = stages_of (ar_status a)
    \<and> (\<forall>e \<in> set (ms_audit s). ae_approval_id e = i \<longrightarrow> about a e)
    \<and> (\<exists>c \<in> C. approval_for sha a c)
    \<and> (ar_status a = Approval_PENDING \<or> (\<exists>t. ar_decided_at a = Some t \<and> t \<le> ar_expires_at a))"
proof -
  note ok = reachable_media [OF assms(1,2)]
  have a: "approval_ok sha C (ms_audit s) a" "ar_approval_id a = i"
    using approvals_okD(2,3) [OF ok(1) assms(3)] by blast+
  have "about a e" if "e \<in> set (ms_audit s)" "ae_approval_id e = i" for e
    using approvals_okD(4) [OF ok(1) that(1)] that(2) assms(3) by auto
  moreover have "ar_status a = Approval_PENDING \<or> (\<exists>t. ar_decided_at a = Some t \<and> t \<le> ar_expires_at a)"
    using a(1) by (cases "ar_decided_at a") (auto simp: approval_ok_def decision_ok_def)
  ultimately show ?thesis using a by (auto simp: approval_ok_def trail_def)
qed


text \<open>The provider executed the command, and the verification failed.\<close>

definition left_executed :: "(string \<Rightarrow> string) \<Rightarrow> media_command \<Rightarrow> uuid \<Rightarrow> mock_provider media_state \<Rightarrow>
    mock_provider media_state \<Rightarrow> bool" where
  "left_executed sha c i s s' \<longleftrightarrow> (\<exists>a b r. approvals_get (ms_approvals s) i = Some a
     \<and> ar_status a = Approval_APPROVED \<and> ar_command_sha256 a = parameter_sha256 sha c
     \<and> mock_execute sha c (ms_provider s) = (Inr r, ms_provider s')
     \<and> mock_verify c r (ms_provider s') \<noteq> Inr True
     \<and> approvals_get (ms_approvals s') i = Some b \<and> ar_status b = Approval_EXECUTED
     \<and> ae_stage (last (ms_audit s')) = Stage_EXECUTED)"

lemma unauthorized_raises:
  assumes "\<not> (sp_profile_id p = mc_profile_id c \<and> sp_user_id p = Some (mc_owner_user_id c))"
  shows "\<exists>m. require_authorized cfg p c = Inl (PermissionError m)"
  using assms by (auto simp: require_authorized_def)

text \<open>
  What a call that raises leaves behind: a proposal or a decision that raises changes
  nothing, and so does an execution, except that when the provider had executed the approved
  command and could not verify it, the approval stands as executed (and not as verified) and the
  audit says so.  A principal that does not own the profile and the provider connection always gets
  a permission error.
\<close>

theorem raising_media_calls:
  assumes "reach (media_init mock_start) (mock_step cfg sha C) s" "inj_on (parameter_sha256 sha) C"
  shows "(propose (mock_port sha) cfg sha ev p c s = (Inl e, s1) \<longrightarrow> s1 = s)
    \<and> (decide (mock_port sha) cfg sha ev p c d s = (Inl e, s2) \<longrightarrow> s2 = s)
    \<and> (execute_approved (mock_port sha) cfg sha ev p c i s = (Inl e, s3) \<longrightarrow> s3 = s \<or> left_executed sha c i s s3)
    \<and> (\<not> (sp_profile_id p = mc_profile_id c \<and> sp_user_id p = Some (mc_owner_user_id c)) \<longrightarrow>
         (\<exists>m. propose (mock_port sha) cfg sha ev p c s = (Inl (PermissionError m), s)
            \<and> decide (mock_port sha) cfg sha ev p c d s = (Inl (PermissionError m), s)
            \<and> execute_approved (mock_port sha) cfg sha ev p c i s = (Inl (PermissionError m), s)))"
proof (intro conjI impI)
  note ok = reachable_media(1) [OF assms]
  show "s1 = s" if "propose (mock_port sha) cfg sha ev p c s = (Inl e, s1)"
    using that by (cases rule: propose_outcome) simp_all
  show "s2 = s" if "decide (mock_port sha) cfg sha ev p c d s = (Inl e, s2)"
    using that by (cases rule: decide_outcome) simp_all
  show "s3 = s \<or> left_executed sha c i s s3"
    if call: "execute_approved (mock_port sha) cfg sha ev p c i s = (Inl e, s3)"
  proof -
    have valid: "approval_post_init a = Inr a \<and> ar_approval_id a = i"
      if "approvals_get (ms_approvals s) i = Some a" for a
      using approvals_okD(2,3) [OF ok that] by (simp add: approval_ok_def)
    show ?thesis
    proof (cases rule: execute_outcome [OF call valid, case_names given unchanged raised executed verified])
      case (raised a e' q)
      then have "q = ms_provider s" using mock_execute_raises [of sha c "ms_provider s" e' q] by (simp add: mock_port_def)
      then show ?thesis using raised by simp
    next
      case (executed a r q r1 e')
      then have "approvals_get r1 i = Some (executed_at a (me_now ev 0))"
        using approvals.save_get [OF executed(6)] valid [OF executed(2)] by simp
      then have "left_executed sha c i s s3"
        using executed unfolding left_executed_def by (simp add: mock_port_def audit_event_of_def)
      then show ?thesis ..
    qed simp_all
  qed
  show "\<exists>m. propose (mock_port sha) cfg sha ev p c s = (Inl (PermissionError m), s)
      \<and> decide (mock_port sha) cfg sha ev p c d s = (Inl (PermissionError m), s)
      \<and> execute_approved (mock_port sha) cfg sha ev p c i s = (Inl (PermissionError m), s)"
    if "\<not> (sp_profile_id p = mc_profile_id c \<and> sp_user_id p = Some (mc_owner_user_id c))"
    using unauthorized_raises [OF that, of cfg]
    by (auto simp: propose_def decide_def execute_approved_def andThen_lift)
qed


text \<open>A healthy mock provider executes and verifies a valid command it has not seen.\<close>

definition healthy_for :: "media_command \<Rightarrow> mock_provider \<Rightarrow> bool" where
  "healthy_for c m \<longleftrightarrow> mp_available m \<and> mp_connection_id m = mc_connection_id c
     \<and> mp_connection_revision m = mc_connection_revision c
     \<and> list_all (\<lambda>e. dict_get (mp_episodes m) e \<noteq> None) (mc_episode_ids c)
     \<and> mc_kind c \<notin> mpc_failing_commands (mp_config m)
     \<and> \<not> mpc_stale_writes (mp_config m) \<and> \<not> mpc_fail_verification (mp_config m)"

lemma healthy_requires:
  assumes "healthy_for c m"
  shows "require_ready m (mc_connection_id c) = Inr ()" "require_episodes m (mc_episode_ids c) = Inr ()"
    "mock_connection_revision m (mc_connection_id c) = Inr (mc_connection_revision c)"
  using assms
  by (simp_all add: healthy_for_def require_ready_def require_connection_def require_episodes_def
      mock_connection_revision_def list_all_iff list_ex_iff)

lemma apply_command_total:
  assumes "media_command_post_init c = Inr c"
  obtains st' where "apply_command c st = Inr st'"
  using assms
  by (cases "mc_kind c"; cases "mc_playlist_name c")
    (auto simp: apply_command_def media_command_post_init_def validate_kind_parameters_def Let_def
      split: if_splits)

lemma healthy_execute:
  assumes "healthy_for c m" "media_command_post_init c = Inr c"
    and "dict_get (mp_profiles m) (mc_profile_id c) = Some st" "mock_ledger m (mc_idempotency_key c) = None"
    and "apply_command c st = Inr st'"
  obtains r where "mock_execute sha c m = (Inr r, applied sha c st' r m)" "\<not> mar_replay r"
    "mar_command_id r = mc_command_id c" "mock_verify c r (applied sha c st' r m) = Inr True"
proof -
  have none: "dict_get (mp_executions m) (mc_idempotency_key c) = None"
    using assms(4) by (simp add: mock_ledger_def)
  note h = healthy_requires [OF assms(1)]
  have cfg: "mc_kind c \<notin> mpc_failing_commands (mp_config m)" "\<not> mpc_stale_writes (mp_config m)"
      "\<not> mpc_fail_verification (mp_config m)" using assms(1) by (simp_all add: healthy_for_def)
  obtain r where r: "mock_execute sha c m = (Inr r, applied sha c st' r m)" "\<not> mar_replay r"
      "mar_command_id r = mc_command_id c"
    using h cfg none assms(3,5) by (simp add: mock_execute_def runE_def require_profile_def applied_def Let_def)
  have "require_ready (applied sha c st' r m) (mc_connection_id c) = Inr ()"
    "require_episodes (applied sha c st' r m) (mc_episode_ids c) = Inr ()"
    "require_profile (applied sha c st' r m) (mc_profile_id c) = Inr st'"
    "dict_get (mp_executions (applied sha c st' r m)) (mc_idempotency_key c) = Some (parameter_sha256 sha c, r)"
    "mp_config (applied sha c st' r m) = mp_config m"
    using h by (simp_all add: applied_def require_ready_def require_connection_def require_episodes_def
        require_profile_def dict_simps)
  moreover have "case mc_kind c of
        MARK_WATCHED \<Rightarrow> hd (mc_episode_ids c) \<in> pst_watched st'
      | SET_FAVORITE \<Rightarrow> Some (hd (mc_episode_ids c) \<in> pst_favorites st') = mc_favorite c
      | CREATE_PLAYLIST \<Rightarrow> (case mc_playlist_name c of None \<Rightarrow> False
          | Some n \<Rightarrow> dict_get (pst_playlists st') n = Some (mc_episode_ids c))
      | REQUEST_PLAYBACK \<Rightarrow> list_ex (\<lambda>q. pr_command_id q = mc_command_id c
          \<and> pr_episode_id q = hd (mc_episode_ids c)) (pst_playback_requests st')"
    using assms(2,5)
    by (cases "mc_kind c"; cases "mc_playlist_name c"; cases "mc_favorite c")
      (auto simp: apply_command_def media_command_post_init_def validate_kind_parameters_def Let_def dict_simps
        split: if_splits)
  ultimately have "mock_verify c r (applied sha c st' r m) = Inr True"
    using cfg by (simp add: mock_verify_def Let_def r(3) split: media_command_kind.splits option.splits)
  with r show ?thesis using that by blast
qed


lemma execute_healthy:
  assumes ok: "approvals_ok sha C s" "ledger_ok mock_ledger s" and inj: "inj_on (parameter_sha256 sha) C" "c \<in> C"
    and valid_c: "media_command_post_init c = Inr c" and auth: "require_authorized cfg p c = Inr ()"
    and a: "approvals_get (ms_approvals s) i = Some a" "ar_status a = Approval_APPROVED"
      "ar_command_sha256 a = parameter_sha256 sha c"
    and m: "healthy_for c (ms_provider s)" "dict_get (mp_profiles (ms_provider s)) (mc_profile_id c) = Some st"
  obtains b r st' s' where "execute_approved (mock_port sha) cfg sha ev p c i s = (Inr (b, r), s')"
    "ar_status b = Approval_VERIFIED" "ar_command_sha256 b = parameter_sha256 sha c" "\<not> mar_replay r"
    "approvals_get (ms_approvals s') i = Some b" "apply_command c st = Inr st'"
    "ms_provider s' = applied sha c st' r (ms_provider s)"
proof -
  have valid: "approval_post_init x = Inr x \<and> ar_approval_id x = i"
    if "approvals_get (ms_approvals s) i = Some x" for x
    using approvals_okD(2,3) [OF ok(1) that] by (simp add: approval_ok_def)
  have none: "mock_ledger (ms_provider s) (mc_idempotency_key c) = None"
    by (rule mock_service.execution_is_first(2) [OF ok inj a])
  obtain st' where st': "apply_command c st = Inr st'" using apply_command_total [OF valid_c] .
  obtain r where r: "mock_execute sha c (ms_provider s) = (Inr r, applied sha c st' r (ms_provider s))"
      "\<not> mar_replay r" "mock_verify c r (applied sha c st' r (ms_provider s)) = Inr True"
    using healthy_execute [OF m(1) valid_c m(2) none st'] .
  obtain out s' where call: "execute_approved (mock_port sha) cfg sha ev p c i s = (out, s')"
    by (cases "execute_approved (mock_port sha) cfg sha ev p c i s")
  have adm: "admitted (mock_port sha) cfg p c (ms_provider s)"
    using auth healthy_requires(3) [OF m(1)] by (simp add: admitted_def mock_port_def)
  show ?thesis
  proof (cases rule: execute_outcome [OF call valid, case_names given unchanged raised executed verified])
    case (verified x r' q r1 r2)
    have x: "x = a" "r' = r" "q = applied sha c st' r (ms_provider s)" "ar_approval_id a = i"
      using verified(2,5) a(1) r(1) valid by (auto simp: mock_port_def)
    let ?b = "verified_at (executed_at a (me_now ev 0)) (me_now ev 2)"
    have "approvals_get (ms_approvals s') i = Some ?b"
      using approvals.save_get [OF verified(7)] verified(8) x by simp
    then show ?thesis
      using that [of ?b r s' st'] call verified(8,10) x a(3) r(2) st' by simp
  qed (use adm a r in \<open>simp_all add: mock_port_def\<close>)
qed

text \<open>
  C24: an approved action is carried out: from a reachable state, executing a valid command of an
  authorised principal whose approval was granted, on a provider that is available and not set to
  fail, returns the approval as verified with a result that is no replay, stores it, and changes
  exactly the state of the command's profile as the command says.  A second execution is refused
  and changes nothing.
\<close>

theorem approved_action_carried_out:
  assumes "reach (media_init mock_start) (mock_step cfg sha C) s" "inj_on (parameter_sha256 sha) C" "c \<in> C"
    and "media_command_post_init c = Inr c" "require_authorized cfg p c = Inr ()"
    and "approvals_get (ms_approvals s) i = Some a" "ar_status a = Approval_APPROVED"
    and "ar_command_sha256 a = parameter_sha256 sha c"
    and "healthy_for c (ms_provider s)" "dict_get (mp_profiles (ms_provider s)) (mc_profile_id c) = Some st"
  shows "\<exists>b r s' st'. execute_approved (mock_port sha) cfg sha ev p c i s = (Inr (b, r), s')
    \<and> ar_status b = Approval_VERIFIED \<and> \<not> mar_replay r \<and> approvals_get (ms_approvals s') i = Some b
    \<and> apply_command c st = Inr st'
    \<and> mp_profiles (ms_provider s') = dict_set (mp_profiles (ms_provider s)) (mc_profile_id c) st'
    \<and> execute_approved (mock_port sha) cfg sha ev2 p c i s' =
        (Inl (ValueError STR ''APPROVAL_COMMAND_MISMATCH''), s')"
proof -
  obtain b r st' s' where fin: "execute_approved (mock_port sha) cfg sha ev p c i s = (Inr (b, r), s')"
    "ar_status b = Approval_VERIFIED" "ar_command_sha256 b = parameter_sha256 sha c" "\<not> mar_replay r"
    "approvals_get (ms_approvals s') i = Some b" "apply_command c st = Inr st'"
    "ms_provider s' = applied sha c st' r (ms_provider s)"
    using execute_healthy [OF reachable_media(1,2) [OF assms(1,2)] assms(2-10)] .
  have "mock_connection_revision (ms_provider s') (mc_connection_id c) = Inr (mc_connection_revision c)"
    using healthy_requires(3) [OF assms(9)]
    by (simp add: fin(7) applied_def mock_connection_revision_def require_ready_def require_connection_def)
  then have "execute_approved (mock_port sha) cfg sha ev2 p c i s' =
      (Inl (ValueError STR ''APPROVAL_COMMAND_MISMATCH''), s')"
    using assms(5) fin(2,5) by (simp add: execute_approved_def andThen_lift andThen_gets require_revision_apply
        mock_port_def raise_apply)
  then show ?thesis using fin by (simp add: applied_def)
qed

subsection \<open>A run\<close>

definition demo_digest :: "string \<Rightarrow> string" where
  "demo_digest s = replicate 64 (CHR ''d'')"

definition demo_provider :: mock_provider where
  "demo_provider =
     \<lparr>mp_connection_id = 7, mp_episodes = [(41, \<lparr>pe_episode_id = 41, pe_provider_item_id = ''item'', pe_title = ''Pilot''\<rparr>)],
      mp_profiles = [(101, \<lparr>pst_watched = {}, pst_favorites = {}, pst_playlists = [], pst_playback_requests = []\<rparr>)],
      mp_config = DEFAULT_MOCK_MEDIA_PROVIDER_CONFIGURATION, mp_connection_revision = ''rev-1'',
      mp_available = True, mp_state_version = 1, mp_executions = []\<rparr>"

definition demo_principal :: session_principal where
  "demo_principal = \<lparr>sp_kind = Principal_AUTHENTICATED, sp_profile_id = 101,
     sp_scope = DEFAULT_AUTHENTICATED_CORPUS_ACCESS_SCOPE, sp_user_id = Some 100\<rparr>"

definition demo_media_env :: media_env where
  "demo_media_env = \<lparr>me_now = (\<lambda>n. 1000 + int n), me_id = 900\<rparr>"

abbreviation demo_port :: "mock_provider media_port" where
  "demo_port \<equiv> mock_port demo_digest"

definition demo_media :: "mock_provider media_state" where
  "demo_media = \<lparr>ms_approvals = empty_approvals, ms_provider = demo_provider, ms_audit = []\<rparr>"

definition demo_proposed :: "mock_provider media_state" where
  "demo_proposed = snd (propose demo_port DEFAULT_MEDIA_ACTION_CONFIGURATION demo_digest demo_media_env
     demo_principal demo_media_command demo_media)"

definition demo_approved :: "mock_provider media_state" where
  "demo_approved = snd (decide demo_port DEFAULT_MEDIA_ACTION_CONFIGURATION demo_digest demo_media_env
     demo_principal demo_media_command \<lparr>ad_approval_id = 900, ad_command_sha256 = replicate 64 (CHR ''d''), ad_approved = True\<rparr>
     demo_proposed)"

definition demo_executed :: "mock_provider media_state" where
  "demo_executed = snd (execute_approved demo_port DEFAULT_MEDIA_ACTION_CONFIGURATION demo_digest demo_media_env
     demo_principal demo_media_command 900 demo_approved)"

lemma demo_media_reach:
  "reach (media_init mock_start) (mock_step DEFAULT_MEDIA_ACTION_CONFIGURATION demo_digest {demo_media_command}) demo_approved"
  "reach (media_init mock_start) (mock_step DEFAULT_MEDIA_ACTION_CONFIGURATION demo_digest {demo_media_command}) demo_executed"
proof -
  have c: "demo_media_command \<in> {demo_media_command}" by simp
  let ?step = "mock_step DEFAULT_MEDIA_ACTION_CONFIGURATION demo_digest {demo_media_command}"
  have 0: "reach (media_init mock_start) ?step demo_media"
    by (rule reach_init) (simp add: media_init_def demo_media_def mock_start_def demo_provider_def)
  have 1: "reach (media_init mock_start) ?step demo_proposed"
    by (rule reach_step [OF 0]) (unfold mock_step_def demo_proposed_def, rule call_propose [OF c prod.collapse [symmetric]])
  show 2: "reach (media_init mock_start) ?step demo_approved"
    by (rule reach_step [OF 1]) (unfold mock_step_def demo_approved_def, rule call_decide [OF c prod.collapse [symmetric]])
  show "reach (media_init mock_start) ?step demo_executed"
    by (rule reach_step [OF 2]) (unfold mock_step_def demo_executed_def, rule call_execute [OF c prod.collapse [symmetric]])
qed

lemma demo_inj: "inj_on (parameter_sha256 demo_digest) {demo_media_command}"
  by simp

text \<open>The states of the run, evaluated.\<close>

definition demo_pending :: approval_request where
  "demo_pending = new_approval DEFAULT_MEDIA_ACTION_CONFIGURATION demo_digest demo_media_env 100 demo_principal demo_media_command"

lemma demo_pending_simps [simp]:
  "ar_approval_id demo_pending = 900" "ar_command_id demo_pending = 1"
  "ar_command_sha256 demo_pending = replicate 64 (CHR ''d'')" "ar_idempotency_key demo_pending = ''key-1''"
  "ar_profile_id demo_pending = 101" "ar_connection_id demo_pending = 7" "ar_status demo_pending = Approval_PENDING"
  "ar_created_at demo_pending = 1000" "ar_expires_at demo_pending = 900001000"
  by (simp_all add: demo_pending_def new_approval_def demo_media_env_def demo_media_command_def demo_principal_def
      parameter_sha256_def demo_digest_def DEFAULT_MEDIA_ACTION_CONFIGURATION_def)

lemma demo_guards:
  "require_authorized DEFAULT_MEDIA_ACTION_CONFIGURATION demo_principal demo_media_command = Inr ()"
  "mock_connection_revision demo_provider (mc_connection_id demo_media_command) = Inr (mc_connection_revision demo_media_command)"
  "parameter_sha256 demo_digest demo_media_command = replicate 64 (CHR ''d'')"
  "me_now demo_media_env n = 1000 + int n"
  by (simp_all add: require_authorized_def demo_principal_def demo_media_command_def DEFAULT_MEDIA_ACTION_CONFIGURATION_def
      mock_connection_revision_def require_ready_def require_connection_def demo_provider_def parameter_sha256_def
      demo_digest_def demo_media_env_def)

lemma demo_proposed_eq:
  "demo_proposed = \<lparr>ms_approvals = \<lparr>apr_items = [(900, demo_pending)], apr_keys = [(''key-1'', 900)]\<rparr>,
     ms_provider = demo_provider, ms_audit = [audit_event_of demo_pending Stage_PROPOSED 1001]\<rparr>"
proof -
  have 1: "approval_post_init (new_approval DEFAULT_MEDIA_ACTION_CONFIGURATION demo_digest demo_media_env 100
      demo_principal demo_media_command) = Inr demo_pending"
    unfolding demo_pending_def [symmetric] by (simp add: approval_post_init_iff)
  have 2: "approvals_add demo_pending empty_approvals =
      Inr \<lparr>apr_items = [(900, demo_pending)], apr_keys = [(''key-1'', 900)]\<rparr>"
    by (simp add: approvals_add_def empty_approvals_def dict_simps) (simp add: dict_set_def)
  have 3: "approvals_find empty_approvals k = None" "sp_user_id demo_principal = Some 100" for k
    by (simp_all add: approvals_find_def empty_approvals_def demo_principal_def dict_simps)
  show ?thesis
    by (simp add: demo_proposed_def propose_def prog_simps require_revision_apply save_and_emit demo_media_def
        demo_guards mock_port_def recorded_in_def 1 2 3)
qed

lemma demo_approved_eq:
  "demo_approved = \<lparr>ms_approvals = \<lparr>apr_items = [(900, demo_pending\<lparr>ar_status := Approval_APPROVED, ar_decided_at := Some 1000\<rparr>)],
       apr_keys = [(''key-1'', 900)]\<rparr>,
     ms_provider = demo_provider,
     ms_audit = [audit_event_of demo_pending Stage_PROPOSED 1001,
       audit_event_of (demo_pending\<lparr>ar_status := Approval_APPROVED, ar_decided_at := Some 1000\<rparr>) Stage_APPROVED 1001]\<rparr>"
proof -
  let ?r = "\<lparr>apr_items = [(900, demo_pending)], apr_keys = [(''key-1'', 900)]\<rparr>"
    and ?b = "demo_pending\<lparr>ar_status := Approval_APPROVED, ar_decided_at := Some 1000\<rparr>"
  have "require_exact_approval demo_digest demo_media_command
      \<lparr>ad_approval_id = 900, ad_command_sha256 = replicate 64 (CHR ''d''), ad_approved = True\<rparr> ?r = Inr demo_pending"
    by (simp add: require_exact_approval_def approvals_get_def dict_get_def demo_guards) (simp add: demo_media_command_def)
  moreover have "approval_decide demo_pending True 1000 = Inr ?b"
    by (simp add: approval_decide_def approval_post_init_iff)
  moreover have "approvals_save ?b Approval_PENDING ?r =
      Inr \<lparr>apr_items = [(900, ?b)], apr_keys = [(''key-1'', 900)]\<rparr>"
    by (simp add: approvals_save_def dict_get_def dict_set_def)
  ultimately show ?thesis
    by (simp add: demo_approved_def demo_proposed_eq decide_def prog_simps require_revision_apply save_and_emit
        demo_guards mock_port_def recorded_in_def)
qed

lemma demo_healthy:
  "healthy_for demo_media_command demo_provider" "media_command_post_init demo_media_command = Inr demo_media_command"
  "dict_get (mp_profiles demo_provider) (mc_profile_id demo_media_command) =
     Some \<lparr>pst_watched = {}, pst_favorites = {}, pst_playlists = [], pst_playback_requests = []\<rparr>"
  by code_simp+

lemma demo_approved_facts:
  "approvals_get (ms_approvals demo_approved) 900 =
     Some (demo_pending\<lparr>ar_status := Approval_APPROVED, ar_decided_at := Some 1000\<rparr>)"
  "ms_provider demo_approved = demo_provider"
  by (simp_all add: demo_approved_eq approvals_get_def dict_get_def)

lemma demo_executed_facts:
  obtains b where "approvals_get (ms_approvals demo_executed) 900 = Some b" "ar_status b = Approval_VERIFIED"
    "ar_idempotency_key b = ''key-1''" "mock_ledger (ms_provider demo_executed) ''key-1'' = Some (replicate 64 (CHR ''d''))"
proof -
  note r = demo_media_reach
  note ok = reachable_media(1,2) [OF r(1) demo_inj]
  obtain b q st' s' where d: "execute_approved demo_port DEFAULT_MEDIA_ACTION_CONFIGURATION demo_digest demo_media_env
      demo_principal demo_media_command 900 demo_approved = (Inr (b, q), s')"
    "ar_status b = Approval_VERIFIED" "ar_command_sha256 b = parameter_sha256 demo_digest demo_media_command"
    "approvals_get (ms_approvals s') 900 = Some b"
    "ms_provider s' = applied demo_digest demo_media_command st' q (ms_provider demo_approved)"
    by (rule execute_healthy [OF ok demo_inj _ demo_healthy(2) demo_guards(1) demo_approved_facts(1)])
      (use demo_healthy in \<open>simp_all add: demo_approved_facts demo_guards\<close>)
  have s': "s' = demo_executed" using d(1) by (simp add: demo_executed_def)
  have "approval_for demo_digest b demo_media_command"
    using approvals_okD(2) [OF reachable_media(1) [OF r(2) demo_inj] d(4) [unfolded s']]
    by (simp add: approval_ok_def)
  then show ?thesis
    using that [of b] d(2,4,5) s'
    by (simp add: approval_for_def demo_guards mock_ledger_def applied_def dict_simps) (simp add: demo_media_command_def)
qed

theorem approved_actions_take_effect_once_witness:
  "\<exists>a. approvals_find (ms_approvals demo_executed) ''key-1'' = Some a
     \<and> ar_status a \<in> {Approval_EXECUTED, Approval_VERIFIED}
     \<and> mp_state_version (ms_provider demo_executed) = 1 + card {k. \<exists>a. approvals_find (ms_approvals demo_executed) k = Some a
        \<and> ar_status a \<in> {Approval_EXECUTED, Approval_VERIFIED}}"
  using approved_actions_take_effect_once [OF demo_media_reach(2) demo_inj, of "''key-1''" "replicate 64 (CHR ''d'')"]
    demo_executed_facts by blast

theorem audit_trail_complete_witness:
  "\<exists>b. approvals_get (ms_approvals demo_executed) 900 = Some b
     \<and> map ae_stage (filter (\<lambda>e. ae_approval_id e = 900) (ms_audit demo_executed)) =
         [Stage_PROPOSED, Stage_APPROVED, Stage_EXECUTED, Stage_VERIFIED]"
proof -
  obtain b where b: "approvals_get (ms_approvals demo_executed) 900 = Some b" "ar_status b = Approval_VERIFIED"
    using demo_executed_facts by blast
  from audit_trail_complete [OF demo_media_reach(2) demo_inj b(1)] b show ?thesis by simp
qed

theorem raising_media_calls_witness:
  "\<exists>m. propose demo_port DEFAULT_MEDIA_ACTION_CONFIGURATION demo_digest demo_media_env
      (demo_principal\<lparr>sp_user_id := Some 5\<rparr>) demo_media_command demo_executed = (Inl (PermissionError m), demo_executed)"
proof -
  have "\<not> (sp_profile_id (demo_principal\<lparr>sp_user_id := Some 5\<rparr>) = mc_profile_id demo_media_command
      \<and> sp_user_id (demo_principal\<lparr>sp_user_id := Some 5\<rparr>) = Some (mc_owner_user_id demo_media_command))"
    by (simp add: demo_media_command_def)
  with raising_media_calls [OF demo_media_reach(2) demo_inj, where ev = demo_media_env and p = "demo_principal\<lparr>sp_user_id := Some 5\<rparr>" and c = demo_media_command]
  show ?thesis by blast
qed

theorem approved_action_carried_out_witness:
  "\<exists>b r s'. execute_approved demo_port DEFAULT_MEDIA_ACTION_CONFIGURATION demo_digest demo_media_env
      demo_principal demo_media_command 900 demo_approved = (Inr (b, r), s') \<and> ar_status b = Approval_VERIFIED"
proof -
  have "demo_media_command \<in> {demo_media_command}" by simp
  from approved_action_carried_out [OF demo_media_reach(1) demo_inj this demo_healthy(2) demo_guards(1)
      demo_approved_facts(1) _ _ _ demo_healthy(3) [folded demo_approved_facts(2)], of demo_media_env]
  show ?thesis using demo_healthy(1) by (simp add: demo_approved_facts(2) demo_guards) blast
qed

end
