(* ===== verification/Media_Workflow.thy ===== *)
theory Media_Workflow
  imports Media_Action "HOL-Library.Product_Lexorder"
begin

text \<open>
  The media action workflow of \<open>adapters/workflow/langgraph/media_action_graph.py\<close>: the snapshots
  of the principal, the command and the result that its state holds, the node and routing functions,
  and the two entry points.  LangGraph itself is not modelled beyond what the file declares: the
  nodes run along the edges, a run stops at the interrupt in the approval node, and a resumed run
  starts that node again with the response.
\<close>

section \<open>Reading snapshots\<close>

text \<open>\<open>snapshot[key]\<close>\<close>

definition item :: "json \<Rightarrow> string \<Rightarrow> json result" where
  "item v k =
     (case v of JObj ms \<Rightarrow> (case map_of ms k of None \<Rightarrow> Inl (KeyError STR ''key'') | Some x \<Rightarrow> Inr x)
      | _ \<Rightarrow> Inl (TypeError STR ''not subscriptable''))"

text \<open>
  \<open>UUID(text)\<close> for the texts \<open>str(UUID)\<close> makes: hyphens are dropped and 32 hexadecimal digits
  remain.  (The other spellings the library accepts are rejected here.)
\<close>

definition hex_value :: "string \<Rightarrow> nat option" where
  "hex_value s =
     (if list_all (\<lambda>c. c \<in> set hex_chars) s
        then Some (foldl (\<lambda>a c. a * 16 + length (takeWhile (\<lambda>d. d \<noteq> c) hex_chars)) 0 s) else None)"

definition parse_uuid :: "json \<Rightarrow> uuid result" where
  "parse_uuid v =
     (case v of
        JStr s \<Rightarrow>
          (let h = filter (\<lambda>c. c \<noteq> CHR ''-'') s
           in if length h \<noteq> 32 then Inl (ValueError STR ''badly formed hexadecimal UUID string'')
              else (case hex_value h of None \<Rightarrow> Inl (ValueError STR ''invalid literal'') | Some n \<Rightarrow> Inr n))
      | _ \<Rightarrow> Inl (TypeError STR ''UUID''))"

text \<open>\<open>str(value)\<close> of a scalar, and \<open>bool(value)\<close>.\<close>

fun py_str :: "json \<Rightarrow> string result" where
  "py_str JNull = Inr ''None''"
| "py_str (JBool b) = Inr (if b then ''True'' else ''False'')"
| "py_str (JInt i) = Inr (int_str i)"
| "py_str (JStr s) = Inr s"
| "py_str _ = Inl (TypeError STR ''representation of a container'')"

fun py_bool :: "json \<Rightarrow> bool" where
  "py_bool JNull = False"
| "py_bool (JBool b) = b"
| "py_bool (JInt i) = (i \<noteq> 0)"
| "py_bool (JStr s) = (s \<noteq> [])"
| "py_bool (JList vs) = (vs \<noteq> [])"
| "py_bool (JObj ms) = (ms \<noteq> [])"

text \<open>\<open>Enum(value)\<close> for an enumeration given by its members and their values.\<close>

definition member_of :: "('e \<times> string) list \<Rightarrow> json \<Rightarrow> 'e result" where
  "member_of members v =
     (case v of
        JStr s \<Rightarrow> (case List.find (\<lambda>m. snd m = s) members of
            None \<Rightarrow> Inl (ValueError STR ''enum'') | Some m \<Rightarrow> Inr (fst m))
      | _ \<Rightarrow> Inl (ValueError STR ''enum''))"

definition media_kinds :: "(media_command_kind \<times> string) list" where
  "media_kinds = map (\<lambda>k. (k, media_kind_value k)) [MARK_WATCHED, SET_FAVORITE, CREATE_PLAYLIST, REQUEST_PLAYBACK]"

definition principal_kinds :: "(principal_kind \<times> string) list" where
  "principal_kinds = [(Principal_GUEST, ''guest''), (Principal_AUTHENTICATED, ''authenticated'')]"

definition corpus_access_modes :: "(corpus_access_mode \<times> string) list" where
  "corpus_access_modes = [(Corpus_GUEST, ''guest''), (Corpus_AUTHENTICATED, ''authenticated'')]"

definition value_in :: "('e \<times> string) list \<Rightarrow> 'e \<Rightarrow> json" where
  "value_in members e = JStr (the (map_of members e))"

fun each :: "('a \<Rightarrow> 'b result) \<Rightarrow> 'a list \<Rightarrow> 'b list result" where
  "each f [] = Inr []"
| "each f (x # xs) = bindE (f x) (\<lambda>y. bindE (each f xs) (\<lambda>ys. Inr (y # ys)))"

section \<open>Snapshots\<close>

definition serialize_command :: "media_command \<Rightarrow> json" where
  "serialize_command c = JObj
     [(''command_id'', JStr (uuid_str (mc_command_id c))),
      (''kind'', value_in media_kinds (mc_kind c)),
      (''profile_id'', JStr (uuid_str (mc_profile_id c))),
      (''provider_connection_id'', JStr (uuid_str (mc_connection_id c))),
      (''provider_owner_user_id'', JStr (uuid_str (mc_owner_user_id c))),
      (''provider_connection_revision'', JStr (mc_connection_revision c)),
      (''idempotency_key'', JStr (mc_idempotency_key c)),
      (''episode_ids'', JList (map (\<lambda>v. JStr (uuid_str v)) (mc_episode_ids c))),
      (''playlist_name'', json_opt JStr (mc_playlist_name c)),
      (''favorite'', json_opt JBool (mc_favorite c))]"

definition as_list :: "json \<Rightarrow> json list result" where
  "as_list v = (case v of JList vs \<Rightarrow> Inr vs | _ \<Rightarrow> Inl (ValueError STR ''WORKFLOW_RESULT_MUST_EXIST''))"

definition deserialize_command :: "json \<Rightarrow> media_command result" where
  "deserialize_command v =
     bindE (bindE (item v ''episode_ids'') as_list) (\<lambda>episodes.
     bindE (bindE (item v ''command_id'') parse_uuid) (\<lambda>command_id.
     bindE (bindE (item v ''kind'') (member_of media_kinds)) (\<lambda>kind.
     bindE (bindE (item v ''profile_id'') parse_uuid) (\<lambda>profile_id.
     bindE (bindE (item v ''provider_connection_id'') parse_uuid) (\<lambda>connection_id.
     bindE (bindE (item v ''provider_owner_user_id'') parse_uuid) (\<lambda>owner_id.
     bindE (bindE (item v ''provider_connection_revision'') py_str) (\<lambda>revision.
     bindE (bindE (item v ''idempotency_key'') py_str) (\<lambda>key.
     bindE (each parse_uuid episodes) (\<lambda>episode_ids.
     bindE (bindE (item v ''playlist_name'') (\<lambda>x. if x = JNull then Inr None
         else bindE (py_str x) (\<lambda>s. Inr (Some s)))) (\<lambda>playlist_name.
     bindE (bindE (item v ''favorite'') (\<lambda>x. if x = JNull then Inr None else Inr (Some (py_bool x)))) (\<lambda>favorite.
       media_command_post_init
         \<lparr>mc_command_id = command_id, mc_kind = kind, mc_profile_id = profile_id,
          mc_connection_id = connection_id, mc_owner_user_id = owner_id,
          mc_connection_revision = revision, mc_idempotency_key = key, mc_episode_ids = episode_ids,
          mc_playlist_name = playlist_name, mc_favorite = favorite\<rparr>)))))))))))"

text \<open>\<open>sorted(scope.allowed_seasons)\<close> orders by series and season number.\<close>

definition sorted_seasons :: "corpus_season_access set \<Rightarrow> corpus_season_access list" where
  "sorted_seasons A = map (\<lambda>(s, n). \<lparr>csa_series_id = s, csa_season_number = n\<rparr>)
     (sorted_list_of_set ((\<lambda>a. (csa_series_id a, csa_season_number a)) ` A))"

definition serialize_principal :: "session_principal \<Rightarrow> json" where
  "serialize_principal p =
     (let scope = sp_scope p in JObj
     [(''kind'', value_in principal_kinds (sp_kind p)),
      (''profile_id'', JStr (uuid_str (sp_profile_id p))),
      (''user_id'', json_opt (\<lambda>u. JStr (uuid_str u)) (sp_user_id p)),
      (''corpus_access_scope'', JObj
        [(''mode'', value_in corpus_access_modes (cas_mode scope)),
         (''revision'', JStr (cas_revision scope)),
         (''unrestricted'', JBool (cas_unrestricted scope)),
         (''allowed_seasons'', JList (map (\<lambda>a. JObj
            [(''series_id'', JStr (uuid_str (csa_series_id a))),
             (''season_number'', JInt (csa_season_number a))]) (sorted_seasons (cas_allowed_seasons scope))))])])"

definition is_obj :: "json \<Rightarrow> bool" where
  "is_obj v = (case v of JObj ms \<Rightarrow> True | _ \<Rightarrow> False)"

definition deserialize_season :: "json \<Rightarrow> corpus_season_access result" where
  "deserialize_season v =
     bindE (bindE (item v ''series_id'') parse_uuid) (\<lambda>sid.
     bindE (item v ''season_number'') (\<lambda>n. case n of
        JInt i \<Rightarrow> mk_season_access sid i
      | _ \<Rightarrow> Inl (InvalidModelError STR ''CORPUS_SEASON_NUMBER_MUST_BE_POSITIVE'')))"

definition deserialize_principal :: "json \<Rightarrow> session_principal result" where
  "deserialize_principal v =
     bindE (item v ''corpus_access_scope'') (\<lambda>sv.
     if \<not> is_obj sv then Inl (ValueError STR ''WORKFLOW_RESULT_MUST_EXIST'')
     else
     bindE (bindE (item sv ''allowed_seasons'') as_list) (\<lambda>seasons.
     bindE (bindE (item sv ''mode'') (member_of corpus_access_modes)) (\<lambda>mode.
     bindE (bindE (item sv ''revision'') py_str) (\<lambda>revision.
     bindE (item sv ''unrestricted'') (\<lambda>unrestricted.
     bindE (each deserialize_season (filter is_obj seasons)) (\<lambda>allowed.
     bindE (scope_post_init \<lparr>cas_mode = mode, cas_revision = revision, cas_allowed_seasons = set allowed,
         cas_unrestricted = py_bool unrestricted\<rparr>) (\<lambda>scope.
     bindE (item v ''user_id'') (\<lambda>user_id.
     bindE (bindE (item v ''kind'') (member_of principal_kinds)) (\<lambda>kind.
     bindE (bindE (item v ''profile_id'') parse_uuid) (\<lambda>profile_id.
     bindE (case user_id of JStr s \<Rightarrow> bindE (parse_uuid user_id) (\<lambda>u. Inr (Some u)) | _ \<Rightarrow> Inr None) (\<lambda>uid.
       principal_post_init \<lparr>sp_kind = kind, sp_profile_id = profile_id, sp_scope = scope, sp_user_id = uid\<rparr>)))))))))))"

definition serialize_result :: "media_action_result \<Rightarrow> json" where
  "serialize_result r = JObj
     [(''command_id'', JStr (uuid_str (mar_command_id r))),
      (''external_reference'', JStr (mar_external_reference r)),
      (''provider_state_revision'', JStr (mar_state_revision r)),
      (''idempotent_replay'', JBool (mar_replay r))]"

definition deserialize_result :: "json \<Rightarrow> media_action_result result" where
  "deserialize_result v =
     bindE (bindE (item v ''command_id'') parse_uuid) (\<lambda>command_id.
     bindE (bindE (item v ''external_reference'') py_str) (\<lambda>reference.
     bindE (bindE (item v ''provider_state_revision'') py_str) (\<lambda>revision.
     bindE (item v ''idempotent_replay'') (\<lambda>replay.
       Inr \<lparr>mar_command_id = command_id, mar_external_reference = reference,
            mar_state_revision = revision, mar_replay = py_bool replay\<rparr>))))"

section \<open>Round trips\<close>

lemma hex_index: "i < 16 \<Longrightarrow> length (takeWhile (\<lambda>d. d \<noteq> hex_chars ! i) hex_chars) = i"
proof -
  assume i: "i < 16"
  have l: "length hex_chars = 16" by (simp add: hex_chars_def)
  have "takeWhile (\<lambda>d. d \<noteq> hex_chars ! i) hex_chars = take i hex_chars"
  proof (rule takeWhile_eq_take_P_nth)
    show "hex_chars ! j \<noteq> hex_chars ! i" if "j < i" for j
      using hex_chars_inj [of j i] that i by auto
  qed simp
  then show ?thesis using i l by simp
qed

lemma hex_fold:
  "foldl (\<lambda>a c. a * 16 + length (takeWhile (\<lambda>d. d \<noteq> c) hex_chars)) x (map ((!) hex_chars) (digits_fixed 16 w n))
   = x * 16 ^ w + n mod 16 ^ w"
proof (induction w arbitrary: n)
  case (Suc w)
  have "n mod (16 * 16 ^ w) = 16 * (n div 16 mod 16 ^ w) + n mod 16" by (rule mod_mult2_eq)
  then show ?case using Suc [of "n div 16"] by (simp add: hex_index algebra_simps)
qed simp

lemma parse_uuid_str [simp]: "u < 2 ^ 128 \<Longrightarrow> parse_uuid (JStr (uuid_str u)) = Inr u"
proof -
  assume u: "u < 2 ^ 128"
  have "list_all (\<lambda>c. c \<in> set hex_chars) (uuid_hex u)" using uuid_hex_chars by (auto simp: list_all_iff)
  moreover have "(2::nat) ^ 128 = 16 ^ 32" by simp
  ultimately have "hex_value (uuid_hex u) = Some u"
    using u hex_fold [of 0 32 u] by (simp add: hex_value_def uuid_hex_def)
  moreover have "length (uuid_hex u) = 32" by (simp add: uuid_hex_def)
  ultimately show ?thesis by (simp add: parse_uuid_def uuid_hex_of_str)
qed

lemma each_map: "(\<And>x. x \<in> set xs \<Longrightarrow> f (g x) = Inr x) \<Longrightarrow> each f (map g xs) = Inr xs"
  by (induction xs) auto

lemma item_simps [simp]:
  "item (JObj ((k, v) # ms)) k' = (if k = k' then Inr v else item (JObj ms) k')"
  by (simp add: item_def)

lemma member_kinds [simp]:
  "member_of media_kinds (value_in media_kinds k) = Inr k"
  by (cases k) (simp_all add: member_of_def value_in_def media_kinds_def)

lemma member_principal_kinds [simp]:
  "member_of principal_kinds (value_in principal_kinds k) = Inr k"
  by (cases k) (simp_all add: member_of_def value_in_def principal_kinds_def)

lemma member_corpus_modes [simp]:
  "member_of corpus_access_modes (value_in corpus_access_modes m) = Inr m"
  by (cases m) (simp_all add: member_of_def value_in_def corpus_access_modes_def)

lemma optional_text [simp]:
  "(if json_opt JStr x = JNull then Inr None else bindE (py_str (json_opt JStr x)) (\<lambda>s. Inr (Some s))) = Inr x"
  by (cases x) (simp_all add: json_opt_def)

lemma optional_flag [simp]:
  "(if json_opt JBool x = JNull then Inr None else Inr (Some (py_bool (json_opt JBool x)))) = Inr x"
  by (cases x) (simp_all add: json_opt_def)

lemma snapshot_eta [simp]:
  "\<lparr>mc_command_id = mc_command_id c, mc_kind = mc_kind c, mc_profile_id = mc_profile_id c,
     mc_connection_id = mc_connection_id c, mc_owner_user_id = mc_owner_user_id c,
     mc_connection_revision = mc_connection_revision c, mc_idempotency_key = mc_idempotency_key c,
     mc_episode_ids = mc_episode_ids c, mc_playlist_name = mc_playlist_name c, mc_favorite = mc_favorite c\<rparr> = c"
  "\<lparr>cas_mode = cas_mode a, cas_revision = cas_revision a, cas_allowed_seasons = cas_allowed_seasons a,
     cas_unrestricted = cas_unrestricted a\<rparr> = a"
  "\<lparr>sp_kind = sp_kind p, sp_profile_id = sp_profile_id p, sp_scope = sp_scope p, sp_user_id = sp_user_id p\<rparr> = p"
  "\<lparr>csa_series_id = csa_series_id b, csa_season_number = csa_season_number b\<rparr> = b"
  "\<lparr>mar_command_id = mar_command_id r, mar_external_reference = mar_external_reference r,
     mar_state_revision = mar_state_revision r, mar_replay = mar_replay r\<rparr> = r"
  by simp_all

lemma command_snapshot:
  assumes "media_command_post_init c = Inr c" "command_ids_ok c"
  shows "deserialize_command (serialize_command c) = Inr c"
proof -
  have "each parse_uuid (map (\<lambda>v. JStr (uuid_str v)) (mc_episode_ids c)) = Inr (mc_episode_ids c)"
    using assms(2) by (intro each_map) (simp add: command_ids_ok_def list_all_iff)
  then show ?thesis using assms
    by (simp add: deserialize_command_def serialize_command_def as_list_def command_ids_ok_def)
qed

text \<open>The principal's identifiers and seasons are in the ranges their types have.\<close>

definition principal_ids_ok :: "session_principal \<Rightarrow> bool" where
  "principal_ids_ok p \<longleftrightarrow> sp_profile_id p < 2 ^ 128 \<and> opt_all (\<lambda>u. u < 2 ^ 128) (sp_user_id p)
     \<and> finite (cas_allowed_seasons (sp_scope p))
     \<and> (\<forall>a \<in> cas_allowed_seasons (sp_scope p). csa_series_id a < 2 ^ 128 \<and> 1 \<le> csa_season_number a)"

lemma set_sorted_seasons: "finite A \<Longrightarrow> set (sorted_seasons A) = A"
proof -
  assume "finite A"
  then have "set (sorted_seasons A) = (\<lambda>(s, n). \<lparr>csa_series_id = s, csa_season_number = n\<rparr>) `
      (\<lambda>a. (csa_series_id a, csa_season_number a)) ` A"
    by (simp add: sorted_seasons_def)
  then show ?thesis by (simp add: image_image)
qed

lemma season_snapshot:
  "csa_series_id a < 2 ^ 128 \<Longrightarrow> 1 \<le> csa_season_number a \<Longrightarrow> deserialize_season (JObj
     [(''series_id'', JStr (uuid_str (csa_series_id a))), (''season_number'', JInt (csa_season_number a))]) = Inr a"
  by (simp add: deserialize_season_def mk_season_access_def)

lemma principal_snapshot:
  assumes "principal_post_init p = Inr p" "scope_post_init (sp_scope p) = Inr (sp_scope p)" "principal_ids_ok p"
  shows "deserialize_principal (serialize_principal p) = Inr p"
proof -
  let ?season = "\<lambda>a. JObj [(''series_id'', JStr (uuid_str (csa_series_id a))),
     (''season_number'', JInt (csa_season_number a))]"
  let ?as = "sorted_seasons (cas_allowed_seasons (sp_scope p))"
  have as: "set ?as = cas_allowed_seasons (sp_scope p)"
    using assms(3) set_sorted_seasons by (simp add: principal_ids_ok_def)
  have "each deserialize_season (map ?season ?as) = Inr ?as"
    using assms(3) as by (intro each_map season_snapshot) (auto simp: principal_ids_ok_def)
  moreover have "filter is_obj (map ?season ?as) = map ?season ?as"
    by (intro filter_True) (auto simp: is_obj_def)
  moreover have "(case json_opt (\<lambda>u. JStr (uuid_str u)) (sp_user_id p) of
        JStr s \<Rightarrow> bindE (parse_uuid (json_opt (\<lambda>u. JStr (uuid_str u)) (sp_user_id p))) (\<lambda>u. Inr (Some u))
      | _ \<Rightarrow> Inr None) = Inr (sp_user_id p)"
    using assms(3) by (cases "sp_user_id p") (simp_all add: json_opt_def principal_ids_ok_def)
  moreover have "is_obj (JObj ms)" for ms by (simp add: is_obj_def)
  ultimately show ?thesis using assms as
    by (simp add: deserialize_principal_def serialize_principal_def as_list_def Let_def principal_ids_ok_def)
qed

lemma result_snapshot:
  "mar_command_id r < 2 ^ 128 \<Longrightarrow> deserialize_result (serialize_result r) = Inr r"
  by (simp add: deserialize_result_def serialize_result_def)


text \<open>
  C25: what the workflow stores it reads back unchanged: a valid command, a valid principal and a
  result survive serialisation into the workflow's state and back, with every identifier, season,
  optional name and flag.
\<close>

theorem snapshots_round_trip:
  assumes "media_command_post_init c = Inr c" "command_ids_ok c"
    and "principal_post_init p = Inr p" "scope_post_init (sp_scope p) = Inr (sp_scope p)" "principal_ids_ok p"
    and "mar_command_id r < 2 ^ 128"
  shows "deserialize_command (serialize_command c) = Inr c
    \<and> deserialize_principal (serialize_principal p) = Inr p
    \<and> deserialize_result (serialize_result r) = Inr r"
  using command_snapshot principal_snapshot result_snapshot assms by simp

section \<open>The graph\<close>

record graph_state =
  gs_principal :: json
  gs_command :: json
  gs_approval_id :: "string option"
  gs_result :: "json option"

record workflow_outcome =
  wo_approval_id :: uuid
  wo_command_sha256 :: string
  wo_status :: approval_status
  wo_preview :: string
  wo_result :: "media_action_result option"

definition approval_from_state :: "graph_state \<Rightarrow> ('p media_state, approval_request) prog" where
  "approval_from_state g =
     (case gs_approval_id g of None \<Rightarrow> raise (RuntimeError STR ''WORKFLOW_RESULT_MUST_EXIST'')
      | Some i \<Rightarrow> andThen (lift (parse_uuid (JStr i))) (\<lambda>u. asks (\<lambda>s. get_approval s u)))"

datatype route = To_approval | To_execute | To_end

definition route_after_proposal :: "graph_state \<Rightarrow> ('p media_state, route) prog" where
  "route_after_proposal g = andThen (approval_from_state g) (\<lambda>a. ret
     (if ar_status a = Approval_PENDING then To_approval
      else if ar_status a = Approval_APPROVED then To_execute else To_end))"

definition route_after_approval :: "graph_state \<Rightarrow> ('p media_state, route) prog" where
  "route_after_approval g = andThen (approval_from_state g) (\<lambda>a. ret
     (if ar_status a = Approval_APPROVED then To_execute else To_end))"

definition propose_node ::
    "'p media_port \<Rightarrow> media_action_config \<Rightarrow> (string \<Rightarrow> string) \<Rightarrow> media_env \<Rightarrow> graph_state \<Rightarrow>
     ('p media_state, graph_state) prog" where
  "propose_node port cfg sha ev g =
     andThen (lift (deserialize_principal (gs_principal g))) (\<lambda>p.
     andThen (lift (deserialize_command (gs_command g))) (\<lambda>c.
     andThen (propose port cfg sha ev p c) (\<lambda>a.
       ret (g\<lparr>gs_approval_id := Some (uuid_str (ar_approval_id a))\<rparr>))))"

text \<open>The approval node up to the interrupt, and after it with the response.\<close>

definition approval_interrupt :: "graph_state \<Rightarrow> ('p media_state, unit) prog" where
  "approval_interrupt g = andThen (approval_from_state g) (\<lambda>a. ret ())"

definition approval_node ::
    "'p media_port \<Rightarrow> media_action_config \<Rightarrow> (string \<Rightarrow> string) \<Rightarrow> media_env \<Rightarrow> json \<Rightarrow> graph_state \<Rightarrow>
     ('p media_state, graph_state) prog" where
  "approval_node port cfg sha ev response g =
     andThen (approval_interrupt g) (\<lambda>_.
     andThen (lift (bindE (item response ''approval_id'') parse_uuid)) (\<lambda>aid.
     andThen (lift (bindE (item response ''command_sha256'') py_str)) (\<lambda>digest.
     andThen (lift (bindE (item response ''approved'') (\<lambda>x. Inr (py_bool x)))) (\<lambda>approved.
     andThen (lift (deserialize_principal (gs_principal g))) (\<lambda>p.
     andThen (lift (deserialize_command (gs_command g))) (\<lambda>c.
     andThen (decide port cfg sha ev p c
         \<lparr>ad_approval_id = aid, ad_command_sha256 = digest, ad_approved = approved\<rparr>) (\<lambda>a.
       ret (g\<lparr>gs_approval_id := Some (uuid_str (ar_approval_id a))\<rparr>))))))))"

definition execute_node ::
    "'p media_port \<Rightarrow> media_action_config \<Rightarrow> (string \<Rightarrow> string) \<Rightarrow> media_env \<Rightarrow> graph_state \<Rightarrow>
     ('p media_state, graph_state) prog" where
  "execute_node port cfg sha ev g =
     andThen (approval_from_state g) (\<lambda>a.
     andThen (lift (deserialize_principal (gs_principal g))) (\<lambda>p.
     andThen (lift (deserialize_command (gs_command g))) (\<lambda>c.
     andThen (execute_approved port cfg sha ev p c (ar_approval_id a)) (\<lambda>(v, r).
       ret (g\<lparr>gs_approval_id := Some (uuid_str (ar_approval_id v)), gs_result := Some (serialize_result r)\<rparr>)))))"

definition outcome_of :: "graph_state \<Rightarrow> ('p media_state, workflow_outcome) prog" where
  "outcome_of g =
     andThen (approval_from_state g) (\<lambda>a.
     andThen (lift (case gs_result g of None \<Rightarrow> Inr None
         | Some v \<Rightarrow> bindE (deserialize_result v) (\<lambda>r. Inr (Some r)))) (\<lambda>result. ret
       \<lparr>wo_approval_id = ar_approval_id a, wo_command_sha256 = ar_command_sha256 a, wo_status = ar_status a,
        wo_preview = ar_preview a, wo_result = result\<rparr>))"

text \<open>
  The runs: \<open>invoke\<close> starts at the proposal and returns at the interrupt or at the end; the state
  it returns is the checkpoint of the thread, from which \<open>resume\<close> goes on.
\<close>

definition start_run ::
    "'p media_port \<Rightarrow> media_action_config \<Rightarrow> (string \<Rightarrow> string) \<Rightarrow> media_env \<Rightarrow> media_env \<Rightarrow> graph_state \<Rightarrow>
     ('p media_state, graph_state) prog" where
  "start_run port cfg sha ev ev' g =
     andThen (propose_node port cfg sha ev g) (\<lambda>g1.
     andThen (route_after_proposal g1) (\<lambda>r. case r of
         To_approval \<Rightarrow> andThen (approval_interrupt g1) (\<lambda>_. ret g1)
       | To_execute \<Rightarrow> execute_node port cfg sha ev' g1
       | To_end \<Rightarrow> ret g1))"

definition resume_run ::
    "'p media_port \<Rightarrow> media_action_config \<Rightarrow> (string \<Rightarrow> string) \<Rightarrow> media_env \<Rightarrow> media_env \<Rightarrow> json \<Rightarrow> graph_state \<Rightarrow>
     ('p media_state, graph_state) prog" where
  "resume_run port cfg sha ev ev' response g =
     andThen (approval_node port cfg sha ev response g) (\<lambda>g1.
     andThen (route_after_approval g1) (\<lambda>r. case r of
         To_execute \<Rightarrow> execute_node port cfg sha ev' g1
       | _ \<Rightarrow> ret g1))"

definition workflow_start ::
    "'p media_port \<Rightarrow> media_action_config \<Rightarrow> (string \<Rightarrow> string) \<Rightarrow> media_env \<Rightarrow> media_env \<Rightarrow> session_principal \<Rightarrow>
     media_command \<Rightarrow> ('p media_state, workflow_outcome \<times> graph_state) prog" where
  "workflow_start port cfg sha ev ev' p c =
     andThen (start_run port cfg sha ev ev' \<lparr>gs_principal = serialize_principal p,
         gs_command = serialize_command c, gs_approval_id = None, gs_result = None\<rparr>) (\<lambda>g.
     andThen (outcome_of g) (\<lambda>w. ret (w, g)))"

definition workflow_resume ::
    "'p media_port \<Rightarrow> media_action_config \<Rightarrow> (string \<Rightarrow> string) \<Rightarrow> media_env \<Rightarrow> media_env \<Rightarrow> graph_state \<Rightarrow>
     approval_decision \<Rightarrow> ('p media_state, workflow_outcome \<times> graph_state) prog" where
  "workflow_resume port cfg sha ev ev' g d =
     andThen (resume_run port cfg sha ev ev' (JObj
         [(''approval_id'', JStr (uuid_str (ad_approval_id d))),
          (''command_sha256'', JStr (ad_command_sha256 d)),
          (''approved'', JBool (ad_approved d))]) g) (\<lambda>g1.
     andThen (outcome_of g1) (\<lambda>w. ret (w, g1)))"

section \<open>The workflow refines the service\<close>

text \<open>
  The specification: the service calls a run amounts to, on the principal and the command
  themselves.
\<close>

definition outcome_for :: "approval_request \<Rightarrow> media_action_result option \<Rightarrow> workflow_outcome" where
  "outcome_for a r = \<lparr>wo_approval_id = ar_approval_id a, wo_command_sha256 = ar_command_sha256 a,
     wo_status = ar_status a, wo_preview = ar_preview a, wo_result = r\<rparr>"

definition run_approved ::
    "'p media_port \<Rightarrow> media_action_config \<Rightarrow> (string \<Rightarrow> string) \<Rightarrow> media_env \<Rightarrow> session_principal \<Rightarrow> media_command \<Rightarrow>
     approval_request \<Rightarrow> ('p media_state, workflow_outcome) prog" where
  "run_approved port cfg sha ev p c a =
     (if ar_status a = Approval_APPROVED
        then andThen (execute_approved port cfg sha ev p c (ar_approval_id a)) (\<lambda>(v, r). ret (outcome_for v (Some r)))
      else ret (outcome_for a None))"

text \<open>The workflow's calls on values stand for the calls on snapshots as long as these are faithful.\<close>

definition snapshot_of :: "session_principal \<Rightarrow> media_command \<Rightarrow> graph_state \<Rightarrow> bool" where
  "snapshot_of p c g \<longleftrightarrow> deserialize_principal (gs_principal g) = Inr p \<and> deserialize_command (gs_command g) = Inr c"

definition stored_ids_ok :: "'p media_state \<Rightarrow> bool" where
  "stored_ids_ok s \<longleftrightarrow> (\<forall>i a. approvals_get (ms_approvals s) i = Some a \<longrightarrow> ar_approval_id a = i \<and> i < 2 ^ 128)"

lemma approval_found:
  assumes "approvals_get (ms_approvals s) i = Some a" "i < 2 ^ 128" "gs_approval_id g = Some (uuid_str i)"
  shows "andThen (approval_from_state g) f s = f a s"
  using assms by (simp add: approval_from_state_def get_approval_def prog_simps andThen_assoc)


lemma recorded_ne [simp]: "recorded_in a r stage t s \<noteq> s" "s \<noteq> recorded_in a r stage t s"
  using recorded_in_simps(2) [of a r stage t s] by (metis append_self_conv not_Cons_self2)+

lemma stored_idsD:
  "stored_ids_ok s \<Longrightarrow> approvals_get (ms_approvals s) i = Some a \<Longrightarrow> ar_approval_id a = i \<and> i < 2 ^ 128"
  by (simp add: stored_ids_ok_def)

lemma propose_stored:
  assumes "propose port cfg sha ev p c s = (Inr a, s')" "repo_ok (ms_approvals s)" "stored_ids_ok s" "me_id ev < 2 ^ 128"
  shows "approvals_get (ms_approvals s') (ar_approval_id a) = Some a \<and> ar_approval_id a < 2 ^ 128"
proof (cases "s' = s")
  case False
  with assms(1) show ?thesis
  proof (cases rule: propose_outcome)
    case (proposed uid r)
    then show ?thesis using approvals.add_get [OF proposed(5)] assms(4) by (simp add: new_approval_def)
  qed simp
next
  case True
  have "approvals_find (ms_approvals s) (mc_idempotency_key c) = Some a"
    using assms(1) True
    by (auto simp: propose_def prog_simps require_revision_apply save_and_emit
        split: sum.splits option.splits if_splits)
  then have "approvals_get (ms_approvals s) (ar_approval_id a) = Some a"
    using approvals.find_iff [OF assms(2)] by blast
  then show ?thesis using True stored_idsD [OF assms(3)] by blast
qed

lemma decide_stored:
  assumes "decide port cfg sha ev p c d s = (Inr a, s')" "stored_ids_ok s"
  shows "approvals_get (ms_approvals s') (ar_approval_id a) = Some a \<and> ar_approval_id a < 2 ^ 128
    \<and> ar_status a \<noteq> Approval_PENDING"
proof (cases "s' = s")
  case False
  with assms(1) show ?thesis
  proof (cases rule: decide_outcome)
    case (decided x b r)
    then have "b = a" "ar_approval_id a = ad_approval_id d" "ad_approval_id d < 2 ^ 128"
      using stored_idsD [OF assms(2) decided(2)] by simp_all
    moreover have "ar_status b \<noteq> Approval_PENDING" by (simp add: decided(9))
    ultimately show ?thesis using approvals.save_get [OF decided(10)] decided(11) by simp
  qed simp
next
  case True
  then show ?thesis using assms(1)
    by (auto simp: decide_def andThen_lift andThen_asks raise_apply ret_apply require_revision_apply save_and_emit
        split: sum.splits if_splits)
qed

lemma execute_stored:
  assumes "execute_approved port cfg sha ev p c i s = (Inr (v, r), s')" "stored_ids_ok s"
  shows "approvals_get (ms_approvals s') (ar_approval_id v) = Some v \<and> ar_approval_id v < 2 ^ 128
    \<and> (\<exists>q. port_execute port c (ms_provider s) = (Inr r, q))"
proof -
  obtain a x q r1 r2 s1 where a: "approvals_get (ms_approvals s) i = Some a"
    and x: "mark_executed a (me_now ev 0) = Inr x" "mark_verified x (me_now ev 2) = Inr v"
    and q: "port_execute port c (ms_provider s) = (Inr r, q)"
    and r2: "approvals_save v Approval_EXECUTED r1 = Inr r2" "ms_approvals s' = r2"
    using assms(1)
    by (auto simp: execute_approved_def andThen_lift andThen_gets andThen_asks require_revision_apply
        on_provider_apply save_and_emit ret_apply raise_apply split: sum.splits option.splits if_splits prod.splits)
  have "ar_approval_id v = ar_approval_id a"
    using x by (auto simp: mark_executed_def mark_verified_def split: if_splits dest!: approval_post_init_id)
  then show ?thesis using approvals.save_get [OF r2(1)] r2(2) q stored_idsD [OF assms(2) a] by auto
qed

lemma provider_kept:
  "propose port cfg sha ev p c s = (o1, s') \<Longrightarrow> ms_provider s' = ms_provider s"
  "decide port cfg sha ev p c d s = (o1, s') \<Longrightarrow> ms_provider s' = ms_provider s"
  by (erule propose_outcome; simp) (erule decide_outcome; simp)

lemma ids_ok_step:
  assumes "propose port cfg sha ev p c s = (out, s')" "stored_ids_ok s" "me_id ev < 2 ^ 128"
  shows "stored_ids_ok s'"
  using assms(1)
proof (cases rule: propose_outcome)
  case (proposed uid r)
  then show ?thesis using approvals.add_get [OF proposed(5)] assms(2,3)
    by (simp add: stored_ids_ok_def new_approval_def)
qed (use assms(2) in simp)

lemma ids_ok_decide:
  assumes "decide port cfg sha ev p c d s = (out, s')" "stored_ids_ok s"
  shows "stored_ids_ok s'"
  using assms(1)
proof (cases rule: decide_outcome)
  case (decided a b r)
  then show ?thesis using approvals.save_get [OF decided(10)] assms(2)
    by (auto simp: stored_ids_ok_def)
qed (use assms(2) in simp)

lemma outcome_found:
  assumes "approvals_get (ms_approvals s) i = Some a" "i < 2 ^ 128" "gs_approval_id g = Some (uuid_str i)"
  shows "gs_result g = None \<Longrightarrow> outcome_of g s = (Inr (outcome_for a None), s)"
    "gs_result g = Some (serialize_result r) \<Longrightarrow> mar_command_id r < 2 ^ 128 \<Longrightarrow>
     outcome_of g s = (Inr (outcome_for a (Some r)), s)"
  by (simp_all add: outcome_of_def approval_found [OF assms] prog_simps outcome_for_def result_snapshot)

text \<open>The execute node, followed by the outcome, is the execution of the approval.\<close>

lemma execute_node_refines:
  assumes "snapshot_of p c g" "approvals_get (ms_approvals s) i = Some a" "i < 2 ^ 128"
    and "gs_approval_id g = Some (uuid_str i)" "stored_ids_ok s" "ar_status a = Approval_APPROVED"
    and bound: "\<And>r q. port_execute port c (ms_provider s) = (Inr r, q) \<Longrightarrow> mar_command_id r < 2 ^ 128"
  shows "andThen (execute_node port cfg sha ev g) outcome_of s = run_approved port cfg sha ev p c a s"
proof -
  have id: "ar_approval_id a = i" using stored_idsD [OF assms(5,2)] by simp
  obtain out s' where e: "execute_approved port cfg sha ev p c i s = (out, s')"
    by (cases "execute_approved port cfg sha ev p c i s")
  show ?thesis
  proof (cases out)
    case (Inl err)
    then show ?thesis using assms(1,6) e
      by (simp add: execute_node_def andThen_assoc approval_found [OF assms(2-4)] andThen_lift snapshot_of_def
          run_approved_def id andThen_Inl)
  next
    case (Inr vr)
    then obtain v r where vr: "vr = (v, r)" by (cases vr)
    have st: "approvals_get (ms_approvals s') (ar_approval_id v) = Some v" "ar_approval_id v < 2 ^ 128"
        "mar_command_id r < 2 ^ 128"
      using execute_stored [of port cfg sha ev p c i s v r s'] e Inr vr assms(5) bound by auto
    then show ?thesis using assms(1,6) e Inr vr outcome_found(2) [OF st(1,2)]
      by (simp add: execute_node_def andThen_assoc approval_found [OF assms(2-4)] andThen_lift snapshot_of_def
          run_approved_def id andThen_Inr [where m = "execute_approved port cfg sha ev p c i"] ret_apply
          andThen_Inr [where m = "ret _", OF ret_apply])
  qed
qed


definition forget_state :: "('p media_state, workflow_outcome \<times> graph_state) prog \<Rightarrow>
    ('p media_state, workflow_outcome) prog" where
  "forget_state m = andThen m (\<lambda>(w, g). ret w)"

lemma forget_outcome:
  fixes m :: "('p media_state, graph_state) prog"
  shows "forget_state (andThen m (\<lambda>g. andThen (outcome_of g) (\<lambda>w. ret (w, g)))) = andThen m outcome_of"
proof -
  have "andThen (andThen (outcome_of g) (\<lambda>w. ret (w, g))) (\<lambda>(w, g). ret w)
      = (outcome_of g :: ('p media_state, workflow_outcome) prog)" for g
    by (rule ext) (auto simp: andThen_def ret_def split: prod.splits sum.splits)
  then show ?thesis by (simp add: forget_state_def andThen_assoc)
qed

lemma start_refines:
  assumes snap: "snapshot_of p c g" and g: "gs_result g = None"
    and s: "repo_ok (ms_approvals s)" "stored_ids_ok s" "me_id ev < 2 ^ 128"
    and bound: "\<And>r q. port_execute port c (ms_provider s) = (Inr r, q) \<Longrightarrow> mar_command_id r < 2 ^ 128"
  shows "andThen (start_run port cfg sha ev ev' g) outcome_of s
    = andThen (propose port cfg sha ev p c) (run_approved port cfg sha ev' p c) s"
proof -
  obtain out s' where e: "propose port cfg sha ev p c s = (out, s')"
    by (cases "propose port cfg sha ev p c s")
  show ?thesis
  proof (cases out)
    case (Inl err)
    then show ?thesis using snap e
      by (simp add: start_run_def propose_node_def andThen_assoc andThen_lift snapshot_of_def andThen_Inl)
  next
    case (Inr a)
    let ?g = "g\<lparr>gs_approval_id := Some (uuid_str (ar_approval_id a))\<rparr>"
    have st: "approvals_get (ms_approvals s') (ar_approval_id a) = Some a" "ar_approval_id a < 2 ^ 128"
      using propose_stored [OF e [unfolded Inr] s] by blast+
    have gid: "gs_approval_id ?g = Some (uuid_str (ar_approval_id a))" by simp
    note found = approval_found [OF st gid]
    have "andThen (start_run port cfg sha ev ev' g) outcome_of s
        = andThen (andThen (route_after_proposal ?g) (\<lambda>r. case r of
              To_approval \<Rightarrow> andThen (approval_interrupt ?g) (\<lambda>_. ret ?g)
            | To_execute \<Rightarrow> execute_node port cfg sha ev' ?g | To_end \<Rightarrow> ret ?g)) outcome_of s'"
      using snap e Inr
      by (simp add: start_run_def propose_node_def andThen_assoc andThen_lift snapshot_of_def andThen_Inr
          andThen_Inr [where m = "ret _", OF ret_apply])
    also have "\<dots> = run_approved port cfg sha ev' p c a s'"
    proof (cases "ar_status a = Approval_APPROVED")
      case True
      have "snapshot_of p c ?g" using snap by (simp add: snapshot_of_def)
      from execute_node_refines [OF this st gid ids_ok_step [OF e s(2,3)] True bound [folded provider_kept(1) [OF e]]]
      show ?thesis using True
        by (simp add: route_after_proposal_def andThen_assoc found andThen_Inr [where m = "ret _", OF ret_apply])
    next
      case False
      have "outcome_of ?g s' = (Inr (outcome_for a None), s')"
        using outcome_found(1) [OF st gid] g by simp
      then show ?thesis using False
        by (simp add: route_after_proposal_def approval_interrupt_def andThen_assoc found run_approved_def ret_apply
            andThen_Inr [where m = "ret _", OF ret_apply])
    qed
    finally show ?thesis using e Inr by (simp add: andThen_Inr)
  qed
qed

lemma resume_refines:
  assumes snap: "snapshot_of p c g" and g: "gs_result g = None" "gs_approval_id g = Some (uuid_str i)"
    and s: "approvals_get (ms_approvals s) i = Some a" "stored_ids_ok s" "ad_approval_id d < 2 ^ 128"
    and bound: "\<And>r q. port_execute port c (ms_provider s) = (Inr r, q) \<Longrightarrow> mar_command_id r < 2 ^ 128"
  shows "andThen (resume_run port cfg sha ev ev' (JObj
         [(''approval_id'', JStr (uuid_str (ad_approval_id d))),
          (''command_sha256'', JStr (ad_command_sha256 d)), (''approved'', JBool (ad_approved d))]) g) outcome_of s
    = andThen (decide port cfg sha ev p c d) (run_approved port cfg sha ev' p c) s"
proof -
  have i: "i < 2 ^ 128" using stored_idsD [OF s(2,1)] by simp
  have eta: "\<lparr>ad_approval_id = ad_approval_id d, ad_command_sha256 = ad_command_sha256 d, ad_approved = ad_approved d\<rparr> = d"
    by simp
  obtain out s' where e: "decide port cfg sha ev p c d s = (out, s')"
    by (cases "decide port cfg sha ev p c d s")
  show ?thesis
  proof (cases out)
    case (Inl err)
    then show ?thesis using snap e s(3)
      by (simp add: resume_run_def approval_node_def approval_interrupt_def andThen_assoc approval_found [OF s(1) i g(2)]
          andThen_lift snapshot_of_def andThen_Inl eta andThen_Inr [where m = "ret _", OF ret_apply])
  next
    case (Inr b)
    let ?g = "g\<lparr>gs_approval_id := Some (uuid_str (ar_approval_id b))\<rparr>"
    have st: "approvals_get (ms_approvals s') (ar_approval_id b) = Some b" "ar_approval_id b < 2 ^ 128"
      using decide_stored [OF e [unfolded Inr] s(2)] by blast+
    have gid: "gs_approval_id ?g = Some (uuid_str (ar_approval_id b))" by simp
    note found = approval_found [OF st gid]
    have "andThen (resume_run port cfg sha ev ev' (JObj
         [(''approval_id'', JStr (uuid_str (ad_approval_id d))),
          (''command_sha256'', JStr (ad_command_sha256 d)), (''approved'', JBool (ad_approved d))]) g) outcome_of s
        = andThen (andThen (route_after_approval ?g) (\<lambda>r. case r of
            To_execute \<Rightarrow> execute_node port cfg sha ev' ?g | _ \<Rightarrow> ret ?g)) outcome_of s'"
      using snap e Inr s(3)
      by (simp add: resume_run_def approval_node_def approval_interrupt_def andThen_assoc approval_found [OF s(1) i g(2)]
          andThen_lift snapshot_of_def eta andThen_Inr [where m = "ret _", OF ret_apply]
          andThen_Inr [where m = "decide _ _ _ _ _ _ _"])
    also have "\<dots> = run_approved port cfg sha ev' p c b s'"
    proof (cases "ar_status b = Approval_APPROVED")
      case True
      have "snapshot_of p c ?g" using snap by (simp add: snapshot_of_def)
      from execute_node_refines [OF this st gid ids_ok_decide [OF e s(2)] True bound [folded provider_kept(2) [OF e]]]
      show ?thesis using True
        by (simp add: route_after_approval_def andThen_assoc found andThen_Inr [where m = "ret _", OF ret_apply])
    next
      case False
      have "outcome_of ?g s' = (Inr (outcome_for b None), s')"
        using outcome_found(1) [OF st gid] g by simp
      then show ?thesis using False
        by (simp add: route_after_approval_def andThen_assoc found run_approved_def ret_apply
            andThen_Inr [where m = "ret _", OF ret_apply])
    qed
    finally show ?thesis using e Inr by (simp add: andThen_Inr)
  qed
qed

text \<open>
  C26: the workflow refines the service: on a valid principal and command, starting a run has
  exactly the effect, the outcome and the errors of proposing the command and executing it if the
  stored approval is already granted, and resuming the interrupted run those of deciding and then
  executing what was granted; the snapshots the run carries in between make no difference.
\<close>

theorem workflow_refines_service:
  assumes "media_command_post_init c = Inr c" "command_ids_ok c"
    and "principal_post_init p = Inr p" "scope_post_init (sp_scope p) = Inr (sp_scope p)" "principal_ids_ok p"
    and "repo_ok (ms_approvals s)" "stored_ids_ok s" "me_id ev < 2 ^ 128" "ad_approval_id d < 2 ^ 128"
    and "\<And>r q. port_execute port c (ms_provider s) = (Inr r, q) \<Longrightarrow> mar_command_id r < 2 ^ 128"
    and "approvals_get (ms_approvals s) i = Some a"
    and "g = \<lparr>gs_principal = serialize_principal p, gs_command = serialize_command c,
          gs_approval_id = Some (uuid_str i), gs_result = None\<rparr>"
  shows "forget_state (workflow_start port cfg sha ev ev' p c) s
      = andThen (propose port cfg sha ev p c) (run_approved port cfg sha ev' p c) s
    \<and> forget_state (workflow_resume port cfg sha ev ev' g d) s
      = andThen (decide port cfg sha ev p c d) (run_approved port cfg sha ev' p c) s"
proof
  have snap: "snapshot_of p c \<lparr>gs_principal = serialize_principal p, gs_command = serialize_command c,
      gs_approval_id = x, gs_result = None\<rparr>" for x
    using command_snapshot [OF assms(1,2)] principal_snapshot [OF assms(3-5)] by (simp add: snapshot_of_def)
  show "forget_state (workflow_start port cfg sha ev ev' p c) s
      = andThen (propose port cfg sha ev p c) (run_approved port cfg sha ev' p c) s"
    unfolding workflow_start_def forget_outcome
    by (rule start_refines [OF snap _ assms(6-8,10)]) simp_all
  show "forget_state (workflow_resume port cfg sha ev ev' g d) s
      = andThen (decide port cfg sha ev p c d) (run_approved port cfg sha ev' p c) s"
    unfolding workflow_resume_def forget_outcome assms(12)
    by (rule resume_refines [OF snap _ _ assms(11,7,9,10)]) simp_all
qed


lemma demo_snapshot_facts:
  "media_command_post_init demo_media_command = Inr demo_media_command" "command_ids_ok demo_media_command"
  "principal_post_init demo_principal = Inr demo_principal"
  "scope_post_init (sp_scope demo_principal) = Inr (sp_scope demo_principal)" "principal_ids_ok demo_principal"
  by (rule demo_healthy(2), simp_all add: command_ids_ok_def demo_media_command_def demo_principal_def principal_post_init_def
      scope_post_init_def principal_ids_ok_def DEFAULT_AUTHENTICATED_CORPUS_ACCESS_SCOPE_def untrimmed_def strip_def
      lstrip_def is_space_def Let_def)

theorem snapshots_round_trip_witness:
  "deserialize_command (serialize_command demo_media_command) = Inr demo_media_command
   \<and> deserialize_principal (serialize_principal demo_principal) = Inr demo_principal
   \<and> deserialize_result (serialize_result \<lparr>mar_command_id = 1, mar_external_reference = ''mock-action-2'',
       mar_state_revision = ''mock-state-v2'', mar_replay = False\<rparr>)
     = Inr \<lparr>mar_command_id = 1, mar_external_reference = ''mock-action-2'',
       mar_state_revision = ''mock-state-v2'', mar_replay = False\<rparr>"
  by (rule snapshots_round_trip [OF demo_snapshot_facts]) simp

theorem workflow_refines_service_witness:
  "forget_state (workflow_start demo_port DEFAULT_MEDIA_ACTION_CONFIGURATION demo_digest demo_media_env demo_media_env
      demo_principal demo_media_command) demo_proposed
   = andThen (propose demo_port DEFAULT_MEDIA_ACTION_CONFIGURATION demo_digest demo_media_env demo_principal demo_media_command)
       (run_approved demo_port DEFAULT_MEDIA_ACTION_CONFIGURATION demo_digest demo_media_env demo_principal demo_media_command)
       demo_proposed"
proof -
  have found: "approvals_get (ms_approvals demo_proposed) i = (if i = 900 then Some demo_pending else None)" for i
    by (simp add: demo_proposed_eq approvals_get_def dict_get_def)
  have 1: "repo_ok (ms_approvals demo_proposed)"
    by (simp add: repo_ok_def demo_proposed_eq dict_ok_def dict_get_def)
  have 2: "stored_ids_ok demo_proposed" by (simp add: stored_ids_ok_def found)
  have 3: "mar_command_id r < 2 ^ 128"
    if "port_execute demo_port demo_media_command (ms_provider demo_proposed) = (Inr r, q)" for r q
  proof -
    have "mock_execute demo_digest demo_media_command demo_provider = (Inr r, q)"
      using that by (simp add: mock_port_def demo_proposed_eq)
    then show ?thesis
      by (cases rule: mock_execute_cases) (simp_all add: demo_provider_def demo_media_command_def dict_get_def)
  qed
  have 4: "approvals_get (ms_approvals demo_proposed) 900 = Some demo_pending" by (simp add: found)
  have 5: "me_id demo_media_env < 2 ^ 128" "(900 :: nat) < 2 ^ 128" by (simp_all add: demo_media_env_def)
  from workflow_refines_service [OF demo_snapshot_facts 1 2 5(1), where port = demo_port and i = 900
      and d = "\<lparr>ad_approval_id = 900, ad_command_sha256 = [], ad_approved = True\<rparr>", OF _ 3 4 refl]
  show ?thesis by simp
qed

end
