(* ===== verification/Identifiers.thy ===== *)
theory Identifiers
  imports Enums Identity_Model
begin

text \<open>
  Stable identifiers of the corpus (\<open>common/identifiers/generator.py\<close> with its templates) and the
  normalisation of graph names (\<open>common/graph_normalization.py\<close>).  \<open>uuid5(NAMESPACE_URL, text)\<close> is a
  parameter, a function of the text; so is \<open>unicodedata.normalize("NFKC", _)\<close>.
\<close>

section \<open>Normalisation of graph names\<close>

text \<open>\<open>str.split()\<close>: the runs of characters that are no white space.\<close>

fun split_spaces :: "string \<Rightarrow> string \<Rightarrow> string list" where
  "split_spaces [] w = (if w = [] then [] else [rev w])"
| "split_spaces (c # cs) w =
     (if is_space c then (if w = [] then split_spaces cs [] else rev w # split_spaces cs [])
      else split_spaces cs (c # w))"

definition words_of :: "string \<Rightarrow> string list" where
  "words_of s = split_spaces s []"

definition normalize_graph_display :: "(string \<Rightarrow> string) \<Rightarrow> string \<Rightarrow> string result" where
  "normalize_graph_display nfkc v =
     (let n = join CHR '' '' (words_of (nfkc v))
      in if n = [] then Inl (ValueError STR ''NORMALIZATION_INVALID'') else Inr n)"

definition normalize_graph_identity :: "(string \<Rightarrow> string) \<Rightarrow> string \<Rightarrow> string result" where
  "normalize_graph_identity nfkc v = bindE (normalize_graph_display nfkc v) (\<lambda>n. Inr (casefold n))"

text \<open>\<open>re.fullmatch(r"[a-z][a-z0-9]*(?:_[a-z0-9]+)*", s)\<close>\<close>

definition predicate_pattern :: "string \<Rightarrow> bool" where
  "predicate_pattern s =
     (s \<noteq> [] \<and> char_in (hd s) lower_chars \<and> list_all (\<lambda>c. char_in c (lower_chars @ digit_chars @ ''_'')) s
      \<and> last s \<noteq> CHR ''_'' \<and> successively (\<lambda>a b. \<not> (a = CHR ''_'' \<and> b = CHR ''_'')) s)"

definition normalize_graph_predicate :: "(string \<Rightarrow> string) \<Rightarrow> string \<Rightarrow> string result" where
  "normalize_graph_predicate nfkc v =
     bindE (normalize_graph_identity nfkc v) (\<lambda>n.
       let p = map (\<lambda>c. if c = CHR '' '' then CHR ''_'' else c) n
       in if \<not> predicate_pattern p then Inl (ValueError STR ''CLAIM_PREDICATE_INVALID'') else Inr p)"

section \<open>The texts identifiers are made of\<close>

fun language_value :: "language \<Rightarrow> string" where
  "language_value ENGLISH = ''en''"

fun entity_kind_value :: "graph_entity_kind \<Rightarrow> string" where
  "entity_kind_value Entity_CHARACTER = ''character''"
| "entity_kind_value Entity_PERSON = ''person''"
| "entity_kind_value Entity_LOCATION = ''location''"
| "entity_kind_value Entity_ORGANIZATION = ''organization''"
| "entity_kind_value Entity_OBJECT = ''object''"
| "entity_kind_value Entity_EVENT = ''event''"
| "entity_kind_value Entity_CONCEPT = ''concept''"

fun polarity_value :: "graph_claim_polarity \<Rightarrow> string" where
  "polarity_value Claim_ASSERTED = ''asserted''"
| "polarity_value Claim_NEGATED = ''negated''"
| "polarity_value Claim_UNCERTAIN = ''uncertain''"

definition source_version_text :: "uuid \<Rightarrow> string \<Rightarrow> string" where
  "source_version_text document hash = ''cinegraph:source-version:'' @ uuid_str document @ '':'' @ hash"

definition transcript_source_text :: "uuid \<Rightarrow> language \<Rightarrow> string \<Rightarrow> string" where
  "transcript_source_text episode lang origin =
     ''cinegraph:source-document:transcript:'' @ uuid_str episode @ '':'' @ language_value lang @ '':''
     @ casefold origin"

definition speaker_text :: "uuid \<Rightarrow> string \<Rightarrow> string" where
  "speaker_text series name = ''cinegraph:speaker:'' @ uuid_str series @ '':'' @ casefold name"

definition segment_text :: "uuid \<Rightarrow> uuid \<Rightarrow> int \<Rightarrow> int \<Rightarrow> int \<Rightarrow> string \<Rightarrow> string" where
  "segment_text version episode cue start_ms end_ms txt =
     ''cinegraph:transcript-segment:'' @ uuid_str version @ '':'' @ uuid_str episode @ '':'' @ int_str cue
     @ '':'' @ int_str start_ms @ '':'' @ int_str end_ms @ '':'' @ txt"

definition chunk_text :: "string \<Rightarrow> uuid \<Rightarrow> uuid \<Rightarrow> uuid \<Rightarrow> uuid \<Rightarrow> uuid list \<Rightarrow> string" where
  "chunk_text revision version series season episode segments =
     ''cinegraph:transcript-chunk:'' @ revision @ '':'' @ uuid_str version @ '':'' @ uuid_str series @ '':''
     @ uuid_str season @ '':'' @ uuid_str episode @ '':'' @ join CHR '','' (map uuid_str segments)"

definition summary_text :: "uuid \<Rightarrow> uuid \<Rightarrow> language \<Rightarrow> string" where
  "summary_text version episode lang =
     ''cinegraph:episode-summary:'' @ uuid_str version @ '':'' @ uuid_str episode @ '':'' @ language_value lang"

definition summary_source_text :: "uuid \<Rightarrow> language \<Rightarrow> string \<Rightarrow> string" where
  "summary_source_text episode lang origin =
     ''cinegraph:source-document:episode-summary:'' @ uuid_str episode @ '':'' @ language_value lang @ '':''
     @ casefold origin"

definition metadata_source_text :: "uuid \<Rightarrow> string \<Rightarrow> string" where
  "metadata_source_text series origin =
     ''cinegraph:source-document:series-metadata:'' @ uuid_str series @ '':'' @ casefold origin"

definition entity_text :: "uuid \<Rightarrow> graph_entity_kind \<Rightarrow> string \<Rightarrow> string" where
  "entity_text series kind key =
     ''cinegraph:graph-entity:'' @ uuid_str series @ '':'' @ entity_kind_value kind @ '':'' @ key"

definition alias_text :: "uuid \<Rightarrow> string \<Rightarrow> string" where
  "alias_text entity a = ''cinegraph:graph-entity-alias:'' @ uuid_str entity @ '':'' @ a"

definition claim_text :: "string \<Rightarrow> uuid \<Rightarrow> uuid \<Rightarrow> string \<Rightarrow> uuid \<Rightarrow> graph_claim_polarity \<Rightarrow> string" where
  "claim_text revision series subj predicate obj polarity =
     ''cinegraph:graph-claim:'' @ revision @ '':'' @ uuid_str series @ '':'' @ uuid_str subj @ '':'' @ predicate
     @ '':'' @ uuid_str obj @ '':'' @ polarity_value polarity"

definition evidence_text :: "uuid \<Rightarrow> uuid \<Rightarrow> uuid \<Rightarrow> string" where
  "evidence_text claim version chunk =
     ''cinegraph:graph-evidence:'' @ uuid_str claim @ '':'' @ uuid_str version @ '':'' @ uuid_str chunk"

section \<open>The generator\<close>

definition source_version_id :: "(string \<Rightarrow> uuid) \<Rightarrow> uuid \<Rightarrow> string \<Rightarrow> uuid" where
  "source_version_id uuid5 document hash = uuid5 (source_version_text document hash)"

definition transcript_source_document_id :: "(string \<Rightarrow> uuid) \<Rightarrow> uuid \<Rightarrow> language \<Rightarrow> string \<Rightarrow> uuid" where
  "transcript_source_document_id uuid5 episode lang origin = uuid5 (transcript_source_text episode lang origin)"

definition speaker_id :: "(string \<Rightarrow> uuid) \<Rightarrow> uuid \<Rightarrow> string \<Rightarrow> uuid" where
  "speaker_id uuid5 series name = uuid5 (speaker_text series name)"

definition transcript_segment_id ::
    "(string \<Rightarrow> uuid) \<Rightarrow> uuid \<Rightarrow> uuid \<Rightarrow> int \<Rightarrow> int \<Rightarrow> int \<Rightarrow> string \<Rightarrow> uuid" where
  "transcript_segment_id uuid5 version episode cue start_ms end_ms txt =
     uuid5 (segment_text version episode cue start_ms end_ms txt)"

definition transcript_chunk_id ::
    "(string \<Rightarrow> uuid) \<Rightarrow> string \<Rightarrow> uuid \<Rightarrow> uuid \<Rightarrow> uuid \<Rightarrow> uuid \<Rightarrow> uuid list \<Rightarrow> uuid" where
  "transcript_chunk_id uuid5 revision version series season episode segments =
     uuid5 (chunk_text revision version series season episode segments)"

definition episode_summary_id :: "(string \<Rightarrow> uuid) \<Rightarrow> uuid \<Rightarrow> uuid \<Rightarrow> language \<Rightarrow> uuid" where
  "episode_summary_id uuid5 version episode lang = uuid5 (summary_text version episode lang)"

definition episode_summary_document_id :: "(string \<Rightarrow> uuid) \<Rightarrow> uuid \<Rightarrow> uuid \<Rightarrow> language \<Rightarrow> uuid" where
  "episode_summary_document_id uuid5 version episode lang = episode_summary_id uuid5 version episode lang"

definition episode_summary_source_document_id :: "(string \<Rightarrow> uuid) \<Rightarrow> uuid \<Rightarrow> language \<Rightarrow> string \<Rightarrow> uuid" where
  "episode_summary_source_document_id uuid5 episode lang origin = uuid5 (summary_source_text episode lang origin)"

definition series_metadata_source_document_id :: "(string \<Rightarrow> uuid) \<Rightarrow> uuid \<Rightarrow> string \<Rightarrow> uuid" where
  "series_metadata_source_document_id uuid5 series origin = uuid5 (metadata_source_text series origin)"

definition graph_entity_id ::
    "(string \<Rightarrow> string) \<Rightarrow> (string \<Rightarrow> uuid) \<Rightarrow> uuid \<Rightarrow> graph_entity_kind \<Rightarrow> string \<Rightarrow> uuid result" where
  "graph_entity_id nfkc uuid5 series kind normalized_key =
     bindE (normalize_graph_identity nfkc normalized_key) (\<lambda>key. Inr (uuid5 (entity_text series kind key)))"

definition graph_entity_alias_id :: "(string \<Rightarrow> string) \<Rightarrow> (string \<Rightarrow> uuid) \<Rightarrow> uuid \<Rightarrow> string \<Rightarrow> uuid result" where
  "graph_entity_alias_id nfkc uuid5 entity a =
     bindE (normalize_graph_identity nfkc a) (\<lambda>n. Inr (uuid5 (alias_text entity n)))"

definition graph_claim_id ::
    "(string \<Rightarrow> string) \<Rightarrow> (string \<Rightarrow> uuid) \<Rightarrow> string \<Rightarrow> uuid \<Rightarrow> uuid \<Rightarrow> string \<Rightarrow> uuid \<Rightarrow> graph_claim_polarity
      \<Rightarrow> uuid result" where
  "graph_claim_id nfkc uuid5 revision series subj predicate obj polarity =
     (if untrimmed revision then Inl (ValueError STR ''IDENTIFIER_FIELDS_INVALID'')
      else bindE (normalize_graph_predicate nfkc predicate) (\<lambda>p.
        Inr (uuid5 (claim_text revision series subj p obj polarity))))"

definition graph_evidence_id :: "(string \<Rightarrow> uuid) \<Rightarrow> uuid \<Rightarrow> uuid \<Rightarrow> uuid \<Rightarrow> uuid" where
  "graph_evidence_id uuid5 claim version chunk = uuid5 (evidence_text claim version chunk)"

section \<open>What is identified\<close>

text \<open>The artefacts that have stable identifiers, with the arguments the generator is called with.\<close>

datatype artefact =
    Source_version uuid string
  | Transcript_source uuid language string
  | Speaker uuid string
  | Segment uuid uuid int int int string
  | Chunk string uuid uuid uuid uuid "uuid list"
  | Summary uuid uuid language
  | Summary_source uuid language string
  | Metadata_source uuid string
  | Entity uuid graph_entity_kind string
  | Entity_alias uuid string
  | Claim_of string uuid uuid string uuid graph_claim_polarity
  | Evidence_of uuid uuid uuid

fun artefact_id :: "(string \<Rightarrow> string) \<Rightarrow> (string \<Rightarrow> uuid) \<Rightarrow> artefact \<Rightarrow> uuid result" where
  "artefact_id nfkc h (Source_version d c) = Inr (source_version_id h d c)"
| "artefact_id nfkc h (Transcript_source e l og) = Inr (transcript_source_document_id h e l og)"
| "artefact_id nfkc h (Speaker s n) = Inr (speaker_id h s n)"
| "artefact_id nfkc h (Segment v e c a b t) = Inr (transcript_segment_id h v e c a b t)"
| "artefact_id nfkc h (Chunk r v s n e gs) = Inr (transcript_chunk_id h r v s n e gs)"
| "artefact_id nfkc h (Summary v e l) = Inr (episode_summary_id h v e l)"
| "artefact_id nfkc h (Summary_source e l og) = Inr (episode_summary_source_document_id h e l og)"
| "artefact_id nfkc h (Metadata_source s og) = Inr (series_metadata_source_document_id h s og)"
| "artefact_id nfkc h (Entity s k n) = graph_entity_id nfkc h s k n"
| "artefact_id nfkc h (Entity_alias e n) = graph_entity_alias_id nfkc h e n"
| "artefact_id nfkc h (Claim_of r s a p b q) = graph_claim_id nfkc h r s a p b q"
| "artefact_id nfkc h (Evidence_of c v k) = Inr (graph_evidence_id h c v k)"

text \<open>An artefact up to what the generator normalises: letter case of origins and names, graph names.\<close>

fun canonical :: "(string \<Rightarrow> string) \<Rightarrow> artefact \<Rightarrow> artefact result" where
  "canonical nfkc (Transcript_source e l og) = Inr (Transcript_source e l (casefold og))"
| "canonical nfkc (Speaker s n) = Inr (Speaker s (casefold n))"
| "canonical nfkc (Summary_source e l og) = Inr (Summary_source e l (casefold og))"
| "canonical nfkc (Metadata_source s og) = Inr (Metadata_source s (casefold og))"
| "canonical nfkc (Entity s k n) = bindE (normalize_graph_identity nfkc n) (\<lambda>m. Inr (Entity s k m))"
| "canonical nfkc (Entity_alias e n) = bindE (normalize_graph_identity nfkc n) (\<lambda>m. Inr (Entity_alias e m))"
| "canonical nfkc (Claim_of r s a p b q) =
     (if untrimmed r then Inl (ValueError STR ''IDENTIFIER_FIELDS_INVALID'')
      else bindE (normalize_graph_predicate nfkc p) (\<lambda>m. Inr (Claim_of r s a m b q)))"
| "canonical nfkc x = Inr x"

fun artefact_uuids :: "artefact \<Rightarrow> uuid set" where
  "artefact_uuids (Source_version d c) = {d}"
| "artefact_uuids (Transcript_source e l og) = {e}"
| "artefact_uuids (Speaker s n) = {s}"
| "artefact_uuids (Segment v e c a b t) = {v, e}"
| "artefact_uuids (Chunk r v s n e gs) = {v, s, n, e} \<union> set gs"
| "artefact_uuids (Summary v e l) = {v, e}"
| "artefact_uuids (Summary_source e l og) = {e}"
| "artefact_uuids (Metadata_source s og) = {s}"
| "artefact_uuids (Entity s k n) = {s}"
| "artefact_uuids (Entity_alias e n) = {e}"
| "artefact_uuids (Claim_of r s a p b q) = {s, a, b}"
| "artefact_uuids (Evidence_of c v k) = {c, v, k}"


section \<open>Identifier texts identify\<close>

text \<open>The text of an artefact in canonical form: a tag, and what follows it.\<close>

fun tag :: "artefact \<Rightarrow> string" where
  "tag (Source_version d c) = ''source-version''"
| "tag (Transcript_source e l og) = ''source-document''"
| "tag (Speaker s n) = ''speaker''"
| "tag (Segment v e c a b t) = ''transcript-segment''"
| "tag (Chunk r v s n e gs) = ''transcript-chunk''"
| "tag (Summary v e l) = ''episode-summary''"
| "tag (Summary_source e l og) = ''source-document''"
| "tag (Metadata_source s og) = ''source-document''"
| "tag (Entity s k n) = ''graph-entity''"
| "tag (Entity_alias e n) = ''graph-entity-alias''"
| "tag (Claim_of r s a p b q) = ''graph-claim''"
| "tag (Evidence_of c v k) = ''graph-evidence''"

fun body :: "artefact \<Rightarrow> string" where
  "body (Source_version d c) = uuid_str d @ CHR '':'' # c"
| "body (Transcript_source e l og) = ''transcript'' @ CHR '':'' # uuid_str e @ CHR '':'' # language_value l @ CHR '':'' # og"
| "body (Speaker s n) = uuid_str s @ CHR '':'' # n"
| "body (Segment v e c a b t) = uuid_str v @ CHR '':'' # uuid_str e @ CHR '':'' # int_str c @ CHR '':''
     # int_str a @ CHR '':'' # int_str b @ CHR '':'' # t"
| "body (Chunk r v s n e gs) = ((((r @ CHR '':'' # uuid_str v) @ CHR '':'' # uuid_str s) @ CHR '':'' # uuid_str n)
     @ CHR '':'' # uuid_str e) @ CHR '':'' # join CHR '','' (map uuid_str gs)"
| "body (Summary v e l) = uuid_str v @ CHR '':'' # uuid_str e @ CHR '':'' # language_value l"
| "body (Summary_source e l og) = ''episode-summary'' @ CHR '':'' # uuid_str e @ CHR '':'' # language_value l @ CHR '':'' # og"
| "body (Metadata_source s og) = ''series-metadata'' @ CHR '':'' # uuid_str s @ CHR '':'' # og"
| "body (Entity s k n) = uuid_str s @ CHR '':'' # entity_kind_value k @ CHR '':'' # n"
| "body (Entity_alias e n) = uuid_str e @ CHR '':'' # n"
| "body (Claim_of r s a p b q) = ((((r @ CHR '':'' # uuid_str s) @ CHR '':'' # uuid_str a) @ CHR '':'' # p)
     @ CHR '':'' # uuid_str b) @ CHR '':'' # polarity_value q"
| "body (Evidence_of c v k) = uuid_str c @ CHR '':'' # uuid_str v @ CHR '':'' # uuid_str k"

lemma tag_no_colon: "CHR '':'' \<notin> set (tag x)"
  by (cases x) simp_all

definition text_of :: "artefact \<Rightarrow> string" where
  "text_of x = ''cinegraph:'' @ tag x @ CHR '':'' # body x"

lemmas id_text_defs = source_version_text_def transcript_source_text_def speaker_text_def segment_text_def
  chunk_text_def summary_text_def summary_source_text_def metadata_source_text_def entity_text_def alias_text_def
  claim_text_def evidence_text_def

lemmas id_defs = source_version_id_def transcript_source_document_id_def speaker_id_def transcript_segment_id_def
  transcript_chunk_id_def episode_summary_id_def episode_summary_source_document_id_def
  series_metadata_source_document_id_def graph_entity_id_def graph_entity_alias_id_def graph_claim_id_def
  graph_evidence_id_def

lemma artefact_id_canonical: "artefact_id nfkc h x = bindE (canonical nfkc x) (\<lambda>c. Inr (h (text_of c)))"
  by (cases x) (simp_all add: id_defs id_text_defs text_of_def bindE_assoc)

lemma append_sep_inj_right:
  assumes "sep \<notin> set x" and "sep \<notin> set y" and "xs @ sep # x = ys @ sep # y"
  shows "xs = ys \<and> x = y"
proof -
  have "rev x @ sep # rev xs = rev y @ sep # rev ys"
    using arg_cong [OF assms(3), of rev] by simp
  from append_sep_inj [OF _ _ this] assms(1,2) show ?thesis by simp
qed

lemma uuid_sep_inj:
  "uuid_str u @ CHR '':'' # xs = uuid_str v @ CHR '':'' # ys \<longleftrightarrow> uuid_str u = uuid_str v \<and> xs = ys"
  using append_sep_inj [OF uuid_str_no_colon uuid_str_no_colon] by blast

lemma int_sep_inj: "int_str i @ CHR '':'' # xs = int_str j @ CHR '':'' # ys \<longleftrightarrow> i = j \<and> xs = ys"
  using append_sep_inj [OF int_str_no_colon int_str_no_colon] by (auto simp: int_str_inj)

lemma uuid_sep_inj_right:
  "xs @ CHR '':'' # uuid_str u = ys @ CHR '':'' # uuid_str v \<longleftrightarrow> xs = ys \<and> uuid_str u = uuid_str v"
  using append_sep_inj_right [OF uuid_str_no_colon uuid_str_no_colon] by blast

lemma kind_sep_inj:
  "entity_kind_value k @ CHR '':'' # xs = entity_kind_value l @ CHR '':'' # ys \<longleftrightarrow> k = l \<and> xs = ys"
  by (cases k; cases l) simp_all

lemma language_sep_inj:
  "language_value k @ CHR '':'' # xs = language_value l @ CHR '':'' # ys \<longleftrightarrow> k = l \<and> xs = ys"
  by (cases k; cases l) simp_all

lemma language_value_inj: "language_value k = language_value l \<longleftrightarrow> k = l"
  by (cases k; cases l) simp_all

lemma polarity_sep_inj:
  "xs @ CHR '':'' # polarity_value p = ys @ CHR '':'' # polarity_value q \<longleftrightarrow> xs = ys \<and> p = q"
proof -
  have n: "CHR '':'' \<notin> set (polarity_value p)" "CHR '':'' \<notin> set (polarity_value q)"
    by (cases p; simp) (cases q; simp)
  have "polarity_value p = polarity_value q \<longleftrightarrow> p = q"
    by (cases p; cases q) simp_all
  with append_sep_inj_right [OF n] show ?thesis by blast
qed

lemma uuid_str_eq [simp]: "u < 2 ^ 128 \<Longrightarrow> v < 2 ^ 128 \<Longrightarrow> uuid_str u = uuid_str v \<longleftrightarrow> u = v"
  using uuid_str_inj by blast


lemma uuid_str_chars: "c \<in> set (uuid_str u) \<Longrightarrow> c = CHR ''-'' \<or> c \<in> set hex_chars"
proof -
  assume "c \<in> set (uuid_str u)"
  then have "c \<noteq> CHR ''-'' \<Longrightarrow> c \<in> set (uuid_hex u)" by (simp flip: uuid_hex_of_str)
  then show ?thesis using uuid_hex_chars by blast
qed

lemma uuid_str_no_comma: "CHR '','' \<notin> set (uuid_str u)"
  using uuid_str_chars [of "CHR '',''" u] by (auto simp: hex_chars_def)

lemma uuid_str_nonempty: "uuid_str u \<noteq> []"
  by (simp add: uuid_str_def Let_def)

lemma set_join: "set (join sep xs) \<subseteq> insert sep (\<Union> (set ` set xs))"
  by (induction sep xs rule: join.induct) auto

lemma join_nonempty_inj:
  "join sep xs = join sep ys \<Longrightarrow> \<forall>x \<in> set xs. sep \<notin> set x \<and> x \<noteq> [] \<Longrightarrow>
   \<forall>y \<in> set ys. sep \<notin> set y \<and> y \<noteq> [] \<Longrightarrow> xs = ys"
proof (induction sep xs arbitrary: ys rule: join.induct)
  case (1 sep)
  then show ?case by (cases ys; cases "tl ys") auto
next
  case (2 sep x)
  show ?case
  proof (cases ys)
    case (Cons y zs)
    with 2 show ?thesis by (cases zs) auto
  qed (use 2 in simp)
next
  case (3 sep x x' xs)
  show ?case
  proof (cases ys)
    case (Cons y zs)
    show ?thesis
    proof (cases zs)
      case Nil
      with 3 Cons show ?thesis by auto
    next
      case (Cons y' zs')
      have e: "x @ sep # join sep (x' # xs) = y @ sep # join sep (y' # zs')"
        using "3.prems"(1) \<open>ys = y # zs\<close> Cons by (simp only: join.simps)
      have "sep \<notin> set x" "sep \<notin> set y" using "3.prems"(2,3) \<open>ys = y # zs\<close> by simp_all
      from append_sep_inj [OF this e] have "x = y" "join sep (x' # xs) = join sep (y' # zs')" by simp_all
      moreover from this(2) have "x' # xs = y' # zs'"
        by (rule "3.IH") (use "3.prems"(2,3) \<open>ys = y # zs\<close> Cons in simp_all)
      ultimately show ?thesis using \<open>ys = y # zs\<close> Cons by (simp only:)
    qed
  qed (use 3 in simp)
qed

definition segment_ids_text :: "uuid list \<Rightarrow> string" where
  "segment_ids_text gs = join CHR '','' (map uuid_str gs)"

lemma segment_ids_no_colon: "CHR '':'' \<notin> set (segment_ids_text gs)"
  using set_join [of "CHR '',''" "map uuid_str gs"] uuid_str_no_colon by (auto simp: segment_ids_text_def)

lemma segment_ids_inj:
  assumes "segment_ids_text gs = segment_ids_text hs" and "\<forall>u \<in> set gs \<union> set hs. u < 2 ^ 128"
  shows "gs = hs"
proof -
  have "map uuid_str gs = map uuid_str hs"
    by (rule join_nonempty_inj [OF assms(1) [unfolded segment_ids_text_def]])
      (auto simp: uuid_str_no_comma uuid_str_nonempty)
  moreover have "inj_on uuid_str (set gs \<union> set hs)"
    using assms(2) by (intro inj_onI) (blast intro: uuid_str_inj)
  ultimately show ?thesis by (rule map_inj_on)
qed

text \<open>What makes the text of a canonical artefact unambiguous.\<close>

definition readable :: "artefact \<Rightarrow> bool" where
  "readable x \<longleftrightarrow> (\<forall>u \<in> artefact_uuids x. u < 2 ^ 128)
     \<and> (case x of Claim_of r s a p b q \<Rightarrow> CHR '':'' \<notin> set p | _ \<Rightarrow> True)"

lemma chunk_body_inj:
  assumes "body (Chunk r v s n e gs) = body (Chunk r' v' s' n' e' gs')"
    and "readable (Chunk r v s n e gs)" and "readable (Chunk r' v' s' n' e' gs')"
  shows "Chunk r v s n e gs = Chunk r' v' s' n' e' gs'"
proof -
  have i: "xs @ CHR '':'' # segment_ids_text gs = ys @ CHR '':'' # segment_ids_text gs' \<Longrightarrow>
      xs = ys \<and> segment_ids_text gs = segment_ids_text gs'" for xs ys
    by (rule append_sep_inj_right [OF segment_ids_no_colon segment_ids_no_colon])
  have f: "((((r @ CHR '':'' # uuid_str v) @ CHR '':'' # uuid_str s) @ CHR '':'' # uuid_str n)
     @ CHR '':'' # uuid_str e) = ((((r' @ CHR '':'' # uuid_str v') @ CHR '':'' # uuid_str s') @ CHR '':'' # uuid_str n')
     @ CHR '':'' # uuid_str e') \<and> segment_ids_text gs = segment_ids_text gs'"
    by (rule i) (use assms(1) in \<open>simp only: body.simps segment_ids_text_def\<close>)
  have "gs = gs'"
    by (rule segment_ids_inj) (use f assms(2,3) in \<open>auto simp: readable_def\<close>)
  moreover have "r = r' \<and> v = v' \<and> s = s' \<and> n = n' \<and> e = e'"
    using f assms(2,3) by (simp only: uuid_sep_inj_right) (simp add: readable_def)
  ultimately show ?thesis by simp
qed

lemma claim_body_inj:
  assumes "body (Claim_of r s a p b q) = body (Claim_of r' s' a' p' b' q')"
    and "readable (Claim_of r s a p b q)" and "readable (Claim_of r' s' a' p' b' q')"
  shows "Claim_of r s a p b q = Claim_of r' s' a' p' b' q'"
proof -
  have n: "CHR '':'' \<notin> set p" "CHR '':'' \<notin> set p'" using assms(2,3) by (simp_all add: readable_def)
  have f: "((r @ CHR '':'' # uuid_str s) @ CHR '':'' # uuid_str a) @ CHR '':'' # p
      = ((r' @ CHR '':'' # uuid_str s') @ CHR '':'' # uuid_str a') @ CHR '':'' # p'
      \<and> uuid_str b = uuid_str b' \<and> q = q'"
    using assms(1) by (simp only: body.simps polarity_sep_inj uuid_sep_inj_right)
  from append_sep_inj_right [OF n conjunct1 [OF f]]
  have "r = r' \<and> uuid_str s = uuid_str s' \<and> uuid_str a = uuid_str a' \<and> p = p'"
    by (simp only: uuid_sep_inj_right)
  with f assms(2,3) show ?thesis by (simp add: readable_def)
qed

lemma body_inj:
  assumes "tag x = tag y" and "body x = body y" and "readable x" and "readable y"
  shows "x = y"
proof (cases x)
  case (Chunk r v s n e gs)
  then obtain r' v' s' n' e' gs' where y: "y = Chunk r' v' s' n' e' gs'"
    using assms(1) by (cases y) simp_all
  show ?thesis using assms(2-4) unfolding Chunk y by (rule chunk_body_inj)
next
  case (Claim_of r s a p b q)
  then obtain r' s' a' p' b' q' where y: "y = Claim_of r' s' a' p' b' q'"
    using assms(1) by (cases y) simp_all
  show ?thesis using assms(2-4) unfolding Claim_of y by (rule claim_body_inj)
qed (cases y; ((use assms(1) in \<open>simp; fail\<close>)
    | (use assms(2-4) in \<open>simp add: readable_def uuid_sep_inj int_sep_inj uuid_sep_inj_right kind_sep_inj
      language_sep_inj language_value_inj\<close>)))+

lemma predicate_no_colon:
  assumes "normalize_graph_predicate nfkc p = Inr m"
  shows "CHR '':'' \<notin> set m"
proof -
  have "predicate_pattern m"
    using assms by (auto simp: normalize_graph_predicate_def bindE_eq_Inr Let_def split: if_splits)
  then have "\<forall>c \<in> set m. c \<in> set (lower_chars @ digit_chars @ ''_'')"
    by (simp add: predicate_pattern_def list_all_iff char_in_def)
  moreover have "CHR '':'' \<notin> set (lower_chars @ digit_chars @ ''_'')"
    by (simp add: lower_chars_def digit_chars_def)
  ultimately show ?thesis by blast
qed

lemma canonical_readable:
  assumes "canonical nfkc x = Inr c" and "\<forall>u \<in> artefact_uuids x. u < 2 ^ 128"
  shows "readable c"
  using assms
  using predicate_no_colon
  by (cases x) (auto simp: readable_def bindE_eq_Inr split: if_splits)

text \<open>
  C31: two artefacts of the corpus get the same identifier only when they agree up to what the
  generator normalises on purpose (letter case of origins and speaker names, the spelling of graph
  names and predicates), or when the hash \<open>uuid5\<close> itself collides on two texts; and artefacts that
  agree in this way do get the same identifier.  So no two texts of the generator run together,
  neither of the same template nor of different ones, although revisions, hashes, subtitles
  and names are free text.
\<close>

theorem identifiers_identify:
  assumes "artefact_id nfkc h x = Inr u" and "artefact_id nfkc h y = Inr v"
    and "\<forall>w \<in> artefact_uuids x \<union> artefact_uuids y. w < 2 ^ 128"
  shows "(canonical nfkc x = canonical nfkc y \<longrightarrow> u = v)
    \<and> (u = v \<longrightarrow> canonical nfkc x = canonical nfkc y \<or> (\<exists>s t. s \<noteq> t \<and> h s = h t))"
proof -
  from assms(1) obtain c where c: "canonical nfkc x = Inr c" "u = h (text_of c)"
    by (auto simp: artefact_id_canonical bindE_eq_Inr)
  from assms(2) obtain d where d: "canonical nfkc y = Inr d" "v = h (text_of d)"
    by (auto simp: artefact_id_canonical bindE_eq_Inr)
  have r: "readable c" "readable d"
    using canonical_readable [OF c(1)] canonical_readable [OF d(1)] assms(3) by auto
  have "c = d" if "text_of c = text_of d"
  proof (rule body_inj [OF _ _ r])
    have "tag c @ CHR '':'' # body c = tag d @ CHR '':'' # body d"
      using that by (simp add: text_of_def)
    from append_sep_inj [OF tag_no_colon tag_no_colon this] show "tag c = tag d" "body c = body d"
      by simp_all
  qed
  with c d show ?thesis by auto
qed

theorem identifiers_identify_witness:
  "\<exists>u v. artefact_id id (\<lambda>s. sum_list (map of_char s)) (Entity 1 Entity_PERSON ''Anna  Lee'') = Inr u
     \<and> artefact_id id (\<lambda>s. sum_list (map of_char s)) (Entity 1 Entity_PERSON ''anna lee'') = Inr v \<and> u = v"
proof -
  have n: "normalize_graph_identity id ''Anna  Lee'' = Inr ''anna lee''"
    "normalize_graph_identity id ''anna lee'' = Inr ''anna lee''"
    by code_simp+
  let ?h = "\<lambda>s. sum_list (map of_char s)" and ?t = "entity_text 1 Entity_PERSON ''anna lee''"
  have "artefact_id id ?h (Entity 1 Entity_PERSON ''Anna  Lee'') = Inr (?h ?t)"
    "artefact_id id ?h (Entity 1 Entity_PERSON ''anna lee'') = Inr (?h ?t)"
    by (simp_all add: graph_entity_id_def n)
  with identifiers_identify [OF this] n show ?thesis by simp
qed

end
