(* ===== verification/Agent_Job.thy ===== *)
theory Agent_Job
  imports Identifiers Json_Text Complex_Main
begin

text \<open>
  Jobs of the asynchronous series agent (\<open>application/models/agent_job.py\<close>), their results
  (\<open>application/models/series_agent_result.py\<close>), failure codes
  (\<open>application/models/agent_runtime.py\<close>) and events with their payloads
  (\<open>application/serialization/agent_job_payload.py\<close>).  Instants are those of UTC time stamps, in
  microseconds; a payload is JSON without floating-point numbers, of which the payloads here have
  none.
\<close>

section \<open>Status and failure codes\<close>

datatype agent_job_status = Agent_QUEUED | Agent_RUNNING | Agent_SUCCEEDED | Agent_SAFE_REFUSAL | Agent_FAILED

definition terminal :: "agent_job_status \<Rightarrow> bool" where
  "terminal st = (st \<in> {Agent_SUCCEEDED, Agent_SAFE_REFUSAL, Agent_FAILED})"

datatype agent_job_event_kind = Kind_QUEUED | Kind_RUNNING | Kind_SUCCEEDED | Kind_SAFE_REFUSAL | Kind_FAILED

text \<open>\<open>AgentJobEventKind(status.value)\<close>\<close>

fun kind_of_status :: "agent_job_status \<Rightarrow> agent_job_event_kind" where
  "kind_of_status Agent_QUEUED = Kind_QUEUED"
| "kind_of_status Agent_RUNNING = Kind_RUNNING"
| "kind_of_status Agent_SUCCEEDED = Kind_SUCCEEDED"
| "kind_of_status Agent_SAFE_REFUSAL = Kind_SAFE_REFUSAL"
| "kind_of_status Agent_FAILED = Kind_FAILED"

datatype runtime_failure_code = EXECUTION_TIMEOUT | PROVIDER_UNAVAILABLE | BUDGET_EXCEEDED | EXECUTION_FAILED

fun failure_code_value :: "runtime_failure_code \<Rightarrow> string" where
  "failure_code_value EXECUTION_TIMEOUT = ''execution_timeout''"
| "failure_code_value PROVIDER_UNAVAILABLE = ''provider_unavailable''"
| "failure_code_value BUDGET_EXCEEDED = ''budget_exceeded''"
| "failure_code_value EXECUTION_FAILED = ''agent_execution_failed''"

definition DISPATCH_UNAVAILABLE :: string where
  "DISPATCH_UNAVAILABLE = ''agent_dispatch_unavailable''"

definition ALLOWED_AGENT_JOB_FAILURE_CODES :: "string list" where
  "ALLOWED_AGENT_JOB_FAILURE_CODES =
     map failure_code_value [EXECUTION_TIMEOUT, PROVIDER_UNAVAILABLE, BUDGET_EXCEEDED, EXECUTION_FAILED]
     @ [DISPATCH_UNAVAILABLE]"

section \<open>Results\<close>

datatype citation_kind = Cite_transcript | Cite_graph

text \<open>A score is a finite \<open>float\<close>, which is a rational number.\<close>

record agent_citation =
  cit_kind :: citation_kind
  cit_episode :: episode_ref
  cit_start_ms :: int
  cit_end_ms :: int
  cit_segment_id :: "uuid option"
  cit_claim_id :: "uuid option"
  cit_evidence_id :: "uuid option"
  cit_source_version_id :: "uuid option"
  cit_transcript_chunk_id :: "uuid option"
  cit_subject_entity_id :: "uuid option"
  cit_subject_kind :: "graph_entity_kind option"
  cit_subject_display_name :: "string option"
  cit_predicate :: "string option"
  cit_object_entity_id :: "uuid option"
  cit_object_kind :: "graph_entity_kind option"
  cit_object_display_name :: "string option"
  cit_polarity :: "graph_claim_polarity option"
  cit_hop_distance :: "int option"
  cit_score :: "rat option"

definition GRAPH_CLAIM_EXTRACTION_REVISION :: string where
  "GRAPH_CLAIM_EXTRACTION_REVISION = ''graph-claim-v1''"

definition MAX_GRAPH_NAME_LENGTH :: nat where
  "MAX_GRAPH_NAME_LENGTH = 256"

definition MAX_GRAPH_PREDICATE_LENGTH :: nat where
  "MAX_GRAPH_PREDICATE_LENGTH = 96"

text \<open>Which of the twelve metadata fields are set, in the order of \<open>graph_metadata\<close>.\<close>

definition metadata_set :: "agent_citation \<Rightarrow> bool list" where
  "metadata_set c =
     [cit_source_version_id c \<noteq> None, cit_transcript_chunk_id c \<noteq> None, cit_subject_entity_id c \<noteq> None,
      cit_subject_kind c \<noteq> None, cit_subject_display_name c \<noteq> None, cit_predicate c \<noteq> None,
      cit_object_entity_id c \<noteq> None, cit_object_kind c \<noteq> None, cit_object_display_name c \<noteq> None,
      cit_polarity c \<noteq> None, cit_hop_distance c \<noteq> None, cit_score c \<noteq> None]"

text \<open>The checks that may raise \<open>ValueError\<close> count as failed when they do.\<close>

definition holds_or_raises :: "'a result \<Rightarrow> 'a \<Rightarrow> bool" where
  "holds_or_raises r x = (case r of Inl e \<Rightarrow> False | Inr y \<Rightarrow> y = x)"

definition graph_metadata_valid :: "(string \<Rightarrow> string) \<Rightarrow> (string \<Rightarrow> uuid) \<Rightarrow> agent_citation \<Rightarrow> bool" where
  "graph_metadata_valid nfkc uuid5 c =
     (list_all id (metadata_set c) \<and>
      (let series = ref_series_id (cit_episode c); subj = the (cit_subject_display_name c);
           obj = the (cit_object_display_name c); pred = the (cit_predicate c); claim = the (cit_claim_id c)
       in strip subj = subj \<and> subj \<noteq> [] \<and> length subj \<le> MAX_GRAPH_NAME_LENGTH
          \<and> strip obj = obj \<and> obj \<noteq> [] \<and> length obj \<le> MAX_GRAPH_NAME_LENGTH
          \<and> holds_or_raises (normalize_graph_predicate nfkc pred) pred
          \<and> length pred \<le> MAX_GRAPH_PREDICATE_LENGTH
          \<and> 1 \<le> the (cit_hop_distance c) \<and> 0 \<le> the (cit_score c) \<and> the (cit_score c) \<le> 1
          \<and> holds_or_raises (bindE (normalize_graph_identity nfkc subj) (\<lambda>n.
               graph_entity_id nfkc uuid5 series (the (cit_subject_kind c)) n)) (the (cit_subject_entity_id c))
          \<and> holds_or_raises (bindE (normalize_graph_identity nfkc obj) (\<lambda>n.
               graph_entity_id nfkc uuid5 series (the (cit_object_kind c)) n)) (the (cit_object_entity_id c))
          \<and> holds_or_raises (graph_claim_id nfkc uuid5 GRAPH_CLAIM_EXTRACTION_REVISION series
               (the (cit_subject_entity_id c)) pred (the (cit_object_entity_id c)) (the (cit_polarity c))) claim
          \<and> the (cit_evidence_id c) = graph_evidence_id uuid5 claim (the (cit_source_version_id c))
               (the (cit_transcript_chunk_id c))))"

definition citation_post_init ::
    "(string \<Rightarrow> string) \<Rightarrow> (string \<Rightarrow> uuid) \<Rightarrow> agent_citation \<Rightarrow> agent_citation result" where
  "citation_post_init nfkc uuid5 c =
     (let invalid = Inl (ValueError STR ''RESULT_CITATIONS_INVALID'')
      in if cit_start_ms c < 0 \<or> cit_end_ms c \<le> cit_start_ms c then invalid
         else if cit_kind c = Cite_transcript \<and> (cit_segment_id c = None \<or> cit_claim_id c \<noteq> None
             \<or> cit_evidence_id c \<noteq> None \<or> list_ex id (metadata_set c)) then invalid
         else if cit_kind c = Cite_graph \<and> (cit_claim_id c = None \<or> cit_evidence_id c = None
             \<or> cit_segment_id c \<noteq> None) then invalid
         else if cit_kind c = Cite_graph \<and> list_ex id (metadata_set c) \<and> \<not> graph_metadata_valid nfkc uuid5 c
           then invalid
         else Inr c)"

definition citation_id :: "agent_citation \<Rightarrow> uuid result" where
  "citation_id c =
     (case cit_segment_id c of Some i \<Rightarrow> Inr i
      | None \<Rightarrow> (case cit_evidence_id c of Some i \<Rightarrow> Inr i
         | None \<Rightarrow> Inl (ValueError STR ''RESULT_CITATIONS_INVALID'')))"

record agent_result =
  res_answer :: "string option"
  res_is_safe_refusal :: bool
  res_citations :: "agent_citation list"
  res_used_tools :: "string list"

definition SERIES_AGENT_TOOL_NAMES :: "string list" where
  "SERIES_AGENT_TOOL_NAMES = [''grounded_transcript_answer'', ''authorized_graph_relationships'']"

definition MAX_SERIES_AGENT_CITATIONS :: nat where
  "MAX_SERIES_AGENT_CITATIONS = 32"

definition MAX_SERIES_AGENT_ANSWER_LENGTH :: nat where
  "MAX_SERIES_AGENT_ANSWER_LENGTH = 12000"

definition citation_key :: "agent_citation \<Rightarrow> citation_kind \<times> uuid option \<times> uuid option \<times> uuid option" where
  "citation_key c = (cit_kind c, cit_segment_id c, cit_claim_id c, cit_evidence_id c)"

definition result_post_init :: "agent_result \<Rightarrow> agent_result result" where
  "result_post_init r =
     (if res_is_safe_refusal r \<and> (res_answer r \<noteq> None \<or> res_citations r \<noteq> [])
        then Inl (ValueError STR ''RESULT_REFUSAL'')
      else if \<not> res_is_safe_refusal r \<and> ((case res_answer r of None \<Rightarrow> True
          | Some a \<Rightarrow> strip a = [] \<or> strip a \<noteq> a \<or> length a > MAX_SERIES_AGENT_ANSWER_LENGTH)
          \<or> res_citations r = [])
        then Inl (ValueError STR ''RESULT_GROUNDED_REQUIRED'')
      else if list_ex (\<lambda>t. strip t = [] \<or> strip t \<noteq> t) (res_used_tools r)
        then Inl (ValueError STR ''RESULT_CITATIONS_INVALID'')
      else if length (res_citations r) > MAX_SERIES_AGENT_CITATIONS \<or> has_duplicates (res_used_tools r)
          \<or> \<not> list_all (\<lambda>t. t \<in> set SERIES_AGENT_TOOL_NAMES) (res_used_tools r)
        then Inl (ValueError STR ''RESULT_CITATIONS_INVALID'')
      else if has_duplicates (map citation_key (res_citations r))
        then Inl (ValueError STR ''RESULT_DUPLICATE_CITATIONS'')
      else Inr r)"

section \<open>Jobs\<close>

record agent_job =
  aj_job_id :: uuid
  aj_owner_profile_id :: uuid
  aj_thread_id :: uuid
  aj_series_id :: uuid
  aj_question :: string
  aj_candidates :: "episode_ref list"
  aj_scope :: corpus_access_scope
  aj_scope_revision :: string
  aj_idempotency_key :: string
  aj_fingerprint :: string
  aj_created_at :: int
  aj_status :: agent_job_status
  aj_started_at :: "int option"
  aj_finished_at :: "int option"
  aj_result :: "agent_result option"
  aj_error_code :: "string option"
  aj_request_id :: "string option"
  aj_spoiler_mode :: spoiler_mode
  aj_safe_through :: "uuid option"

text \<open>\<open>str(UUID(key)) == key\<close>: the canonical text of a UUID.\<close>

definition canonical_uuid :: "string \<Rightarrow> bool" where
  "canonical_uuid s =
     (length s = 36 \<and> list_all (\<lambda>i. if i \<in> {8, 13, 18, 23} then s ! i = CHR ''-''
        else s ! i \<in> set hex_chars) [0..<36])"

definition request_id_pattern :: "string \<Rightarrow> bool" where
  "request_id_pattern s = (1 \<le> length s \<and> length s \<le> 64 \<and> list_all (\<lambda>c. char_in c (alnum_chars @ ''._-'')) s)"

definition agent_job_static :: "agent_job \<Rightarrow> unit result" where
  "agent_job_static j =
     (if aj_spoiler_mode j = RELAXED \<and> aj_safe_through j \<noteq> None
        then Inl (ValueError STR ''SPOILER_BOUNDARY_INVALID'')
      else if opt_holds (\<lambda>b. b \<notin> ref_episode_id ` set (aj_candidates j)) (aj_safe_through j)
        then Inl (ValueError STR ''SPOILER_BOUNDARY_INVALID'')
      else if untrimmed (aj_question j) then Inl (ValueError STR ''JOB_QUESTION'')
      else if aj_candidates j = [] then Inl (ValueError STR ''JOB_CANDIDATES'')
      else if list_ex (\<lambda>e. ref_series_id e \<noteq> aj_series_id j) (aj_candidates j)
        then Inl (ValueError STR ''JOB_CANDIDATE_SERIES'')
      else if has_duplicates (map ref_episode_id (aj_candidates j)) then Inl (ValueError STR ''CANDIDATES_UNIQUE'')
      else bindE (allows_all (aj_scope j) (aj_candidates j)) (\<lambda>allowed.
        if \<not> allowed then Inl (ValueError STR ''JOB_CANDIDATE_ACCESS'')
        else if aj_scope_revision j \<noteq> cas_revision (aj_scope j) then Inl (ValueError STR ''JOB_SCOPE_REVISION'')
        else if \<not> canonical_uuid (aj_idempotency_key j) then Inl (ValueError STR ''JOB_IDEMPOTENCY'')
        else if \<not> sha256_pattern (aj_fingerprint j) then Inl (ValueError STR ''JOB_FINGERPRINT'')
        else if opt_holds (\<lambda>r. \<not> request_id_pattern r) (aj_request_id j)
          then Inl (ValueError STR ''request_id'')
        else Inr ()))"

definition agent_job_times :: "agent_job \<Rightarrow> unit result" where
  "agent_job_times j =
     (if opt_holds (\<lambda>s. s < aj_created_at j) (aj_started_at j) then Inl (ValueError STR ''JOB_STARTED_ORDER'')
      else case aj_finished_at j of None \<Rightarrow> Inr ()
      | Some f \<Rightarrow>
          (case aj_started_at j of
             None \<Rightarrow>
               if aj_status j \<noteq> Agent_FAILED then Inl (ValueError STR ''JOB_FINISHED_START'')
               else if f < aj_created_at j then Inl (ValueError STR ''JOB_FINISHED_CREATED_ORDER'')
               else Inr ()
           | Some s \<Rightarrow> if f < s then Inl (ValueError STR ''JOB_FINISHED_STARTED_ORDER'') else Inr ()))"

definition agent_job_state :: "agent_job \<Rightarrow> unit result" where
  "agent_job_state j =
     (if aj_status j = Agent_QUEUED \<and> (aj_started_at j \<noteq> None \<or> aj_finished_at j \<noteq> None \<or> aj_result j \<noteq> None
          \<or> aj_error_code j \<noteq> None) then Inl (ValueError STR ''JOB_QUEUED_STATE'')
      else if aj_status j = Agent_RUNNING \<and> (aj_started_at j = None \<or> aj_finished_at j \<noteq> None
          \<or> aj_result j \<noteq> None \<or> aj_error_code j \<noteq> None) then Inl (ValueError STR ''JOB_RUNNING_STATE'')
      else if aj_status j \<in> {Agent_SUCCEEDED, Agent_SAFE_REFUSAL} \<and> (aj_finished_at j = None
          \<or> aj_error_code j \<noteq> None \<or> aj_result j = None) then Inl (ValueError STR ''JOB_SUCCESS_STATE'')
      else if aj_status j = Agent_SUCCEEDED \<and> opt_holds res_is_safe_refusal (aj_result j)
        then Inl (ValueError STR ''JOB_SUCCESS_REFUSAL'')
      else if aj_status j = Agent_SAFE_REFUSAL \<and> opt_holds (\<lambda>r. \<not> res_is_safe_refusal r) (aj_result j)
        then Inl (ValueError STR ''JOB_REFUSAL_STATE'')
      else if aj_status j = Agent_FAILED \<and> (aj_finished_at j = None \<or> aj_error_code j = None
          \<or> aj_error_code j = Some [] \<or> aj_result j \<noteq> None) then Inl (ValueError STR ''JOB_FAILED_STATE'')
      else if aj_status j = Agent_FAILED \<and> aj_started_at j = None
          \<and> aj_error_code j \<noteq> Some DISPATCH_UNAVAILABLE then Inl (ValueError STR ''JOB_FAILED_STATE'')
      else if aj_status j = Agent_FAILED
          \<and> opt_holds (\<lambda>c. c \<notin> set ALLOWED_AGENT_JOB_FAILURE_CODES) (aj_error_code j)
        then Inl (ValueError STR ''JOB_ERROR_CODE'')
      else Inr ())"

definition agent_job_post_init :: "agent_job \<Rightarrow> agent_job result" where
  "agent_job_post_init j =
     bindE (agent_job_static j) (\<lambda>_. bindE (agent_job_times j) (\<lambda>_. bindE (agent_job_state j) (\<lambda>_. Inr j)))"

subsection \<open>Transitions\<close>

definition job_start :: "agent_job \<Rightarrow> int \<Rightarrow> agent_job result" where
  "job_start j t =
     (if aj_status j \<noteq> Agent_QUEUED then Inr j
      else agent_job_post_init (j\<lparr>aj_status := Agent_RUNNING, aj_started_at := Some t\<rparr>))"

definition job_requeue :: "agent_job \<Rightarrow> agent_job result" where
  "job_requeue j =
     (if aj_status j \<noteq> Agent_RUNNING then Inl (ValueError STR ''REPOSITORY_RECOVER_STATE'')
      else agent_job_post_init (j\<lparr>aj_status := Agent_QUEUED, aj_started_at := None\<rparr>))"

definition job_complete :: "agent_job \<Rightarrow> agent_result \<Rightarrow> int \<Rightarrow> agent_job result" where
  "job_complete j r t =
     (if aj_status j \<noteq> Agent_RUNNING then Inr j
      else agent_job_post_init
        (j\<lparr>aj_status := if res_is_safe_refusal r then Agent_SAFE_REFUSAL else Agent_SUCCEEDED,
           aj_finished_at := Some t, aj_result := Some r\<rparr>))"

definition bad_error_code :: "string \<Rightarrow> bool" where
  "bad_error_code c = (untrimmed c \<or> length c > 80)"

definition agent_job_fail :: "agent_job \<Rightarrow> string \<Rightarrow> int \<Rightarrow> agent_job result" where
  "agent_job_fail j code t =
     (if aj_status j \<noteq> Agent_RUNNING then Inr j
      else if bad_error_code code then Inl (ValueError STR ''JOB_ERROR_CODE'')
      else agent_job_post_init
        (j\<lparr>aj_status := Agent_FAILED, aj_finished_at := Some t, aj_error_code := Some code\<rparr>))"

definition job_reject :: "agent_job \<Rightarrow> string \<Rightarrow> int \<Rightarrow> agent_job result" where
  "job_reject j code t =
     (if aj_status j \<noteq> Agent_QUEUED then Inl (ValueError STR ''JOB_REJECT_STATE'')
      else if bad_error_code code then Inl (ValueError STR ''JOB_ERROR_CODE'')
      else agent_job_post_init
        (j\<lparr>aj_status := Agent_FAILED, aj_finished_at := Some t, aj_error_code := Some code\<rparr>))"

section \<open>Events\<close>

type_synonym payload = "(string \<times> json) list"

record agent_job_event =
  aje_event_id :: uuid
  aje_sequence :: int
  aje_job_id :: uuid
  aje_kind :: agent_job_event_kind
  aje_occurred_at :: int
  aje_payload :: payload

definition FORBIDDEN_KEYS :: "string list" where
  "FORBIDDEN_KEYS = [''question'', ''prompt'', ''context'', ''transcript'', ''text'', ''exception'', ''scope'',
     ''token'', ''api_key'', ''provider'']"

definition FORBIDDEN_MARKERS :: "string list" where
  "FORBIDDEN_MARKERS = [''api_key'', ''bearer '', ''prompt injection'', ''exception:'']"

text \<open>\<open>marker in text\<close>\<close>

definition is_in :: "string \<Rightarrow> string \<Rightarrow> bool" where
  "is_in m s = list_ex (\<lambda>i. take (length m) (drop i s) = m) [0..<Suc (length s)]"

definition private_text :: "string \<Rightarrow> bool" where
  "private_text s = list_ex (\<lambda>m. is_in m (casefold s)) FORBIDDEN_MARKERS"

definition private_key :: "string \<Rightarrow> bool" where
  "private_key k = (casefold k \<in> set FORBIDDEN_KEYS)"

text \<open>\<open>_contains_forbidden\<close> on a value, on the children of a sequence and of a mapping.\<close>

fun private_value :: "json \<Rightarrow> bool" and private_items :: "json list \<Rightarrow> bool"
  and private_members :: "payload \<Rightarrow> bool" where
  "private_value (JObj ms) = private_members ms"
| "private_value (JList vs) = private_items vs"
| "private_value (JStr s) = private_text s"
| "private_value _ = False"
| "private_items [] = False"
| "private_items (v # vs) = (private_value v \<or> private_items vs)"
| "private_members [] = False"
| "private_members ((k, v) # ms) = (private_key k \<or> private_value v \<or> private_members ms)"

definition agent_event_post_init :: "agent_job_event \<Rightarrow> agent_job_event result" where
  "agent_event_post_init e =
     (if aje_sequence e < 1 then Inl (ValueError STR ''EVENT_SEQUENCE'')
      else if private_members (aje_payload e) then Inl (ValueError STR ''EVENT_PAYLOAD_PRIVATE'')
      else Inr e)"

fun cite_value :: "citation_kind \<Rightarrow> string" where
  "cite_value Cite_transcript = ''transcript''"
| "cite_value Cite_graph = ''graph''"

text \<open>\<open>str(identifier)\<close> of a field that may be \<open>None\<close>.\<close>

definition opt_uuid_str :: "uuid option \<Rightarrow> string" where
  "opt_uuid_str u = (case u of None \<Rightarrow> ''None'' | Some v \<Rightarrow> uuid_str v)"

definition citation_payload :: "agent_citation \<Rightarrow> json" where
  "citation_payload c = JObj
     ([(''kind'', JStr (cite_value (cit_kind c))),
       (''episode_id'', JStr (uuid_str (ref_episode_id (cit_episode c)))),
       (''season_number'', JInt (season_number (ref_position (cit_episode c)))),
       (''episode_number'', JInt (episode_number (ref_position (cit_episode c)))),
       (''start_ms'', JInt (cit_start_ms c)),
       (''end_ms'', JInt (cit_end_ms c))]
      @ (if cit_kind c = Cite_transcript then [(''segment_id'', JStr (opt_uuid_str (cit_segment_id c)))]
         else [(''claim_id'', JStr (opt_uuid_str (cit_claim_id c))),
               (''evidence_id'', JStr (opt_uuid_str (cit_evidence_id c)))]))"

definition result_event_payload :: "agent_result \<Rightarrow> payload" where
  "result_event_payload r =
     (if res_is_safe_refusal r then [(''status'', JStr ''safe_refusal''), (''safe_refusal'', JBool True)]
      else [(''status'', JStr ''succeeded''),
            (''answer'', case res_answer r of None \<Rightarrow> JNull | Some a \<Rightarrow> JStr a),
            (''used_tools'', JList (map JStr (res_used_tools r))),
            (''citations'', JList (map citation_payload (res_citations r)))])"

section \<open>Lemmas on jobs\<close>

lemma terminal_simps [simp]:
  "\<not> terminal Agent_QUEUED" "\<not> terminal Agent_RUNNING"
  "terminal Agent_SUCCEEDED" "terminal Agent_SAFE_REFUSAL" "terminal Agent_FAILED"
  by (simp_all add: terminal_def)

lemma terminal_iff: "terminal st \<longleftrightarrow> st \<noteq> Agent_QUEUED \<and> st \<noteq> Agent_RUNNING"
  by (cases st) simp_all

lemma kind_of_status_inj [simp]: "kind_of_status a = kind_of_status b \<longleftrightarrow> a = b"
  by (cases a; cases b) simp_all

lemma agent_job_post_init_iff:
  "agent_job_post_init j = Inr j' \<longleftrightarrow>
     j' = j \<and> agent_job_static j = Inr () \<and> agent_job_times j = Inr () \<and> agent_job_state j = Inr ()"
  by (auto simp: agent_job_post_init_def bindE_eq_Inr)

text \<open>The job as it was submitted: what no transition changes.\<close>

definition as_submitted :: "agent_job \<Rightarrow> agent_job" where
  "as_submitted j = j\<lparr>aj_status := Agent_QUEUED, aj_started_at := None, aj_finished_at := None, aj_result := None,
     aj_error_code := None\<rparr>"

lemma as_submitted_fields:
  assumes "as_submitted j' = as_submitted j"
  shows "aj_job_id j' = aj_job_id j" "aj_owner_profile_id j' = aj_owner_profile_id j"
    "aj_idempotency_key j' = aj_idempotency_key j" "aj_fingerprint j' = aj_fingerprint j"
    "aj_created_at j' = aj_created_at j"
proof -
  have "aj_job_id (as_submitted j') = aj_job_id (as_submitted j)"
    "aj_owner_profile_id (as_submitted j') = aj_owner_profile_id (as_submitted j)"
    "aj_idempotency_key (as_submitted j') = aj_idempotency_key (as_submitted j)"
    "aj_fingerprint (as_submitted j') = aj_fingerprint (as_submitted j)"
    "aj_created_at (as_submitted j') = aj_created_at (as_submitted j)"
    by (simp_all only: assms)
  then show "aj_job_id j' = aj_job_id j" "aj_owner_profile_id j' = aj_owner_profile_id j"
    "aj_idempotency_key j' = aj_idempotency_key j" "aj_fingerprint j' = aj_fingerprint j"
    "aj_created_at j' = aj_created_at j"
    by (simp_all add: as_submitted_def)
qed

text \<open>A transition that succeeds from a given status: a valid job with the same request.\<close>

definition moved :: "agent_job \<Rightarrow> agent_job_status \<Rightarrow> agent_job \<Rightarrow> bool" where
  "moved j st j' = (agent_job_post_init j' = Inr j' \<and> as_submitted j' = as_submitted j \<and> aj_status j' = st)"

lemma movedI:
  "agent_job_post_init k = Inr j' \<Longrightarrow> as_submitted k = as_submitted j \<Longrightarrow> aj_status k = st \<Longrightarrow> moved j st j' \<and> j' = k"
  by (simp add: moved_def agent_job_post_init_iff)

lemma job_start_moves:
  assumes "job_start j t = Inr j'" and "aj_status j = Agent_QUEUED"
  shows "moved j Agent_RUNNING j' \<and> j' = j\<lparr>aj_status := Agent_RUNNING, aj_started_at := Some t\<rparr>"
  by (rule movedI) (use assms in \<open>simp_all add: job_start_def as_submitted_def\<close>)

lemma job_requeue_moves:
  assumes "job_requeue j = Inr j'"
  shows "aj_status j = Agent_RUNNING \<and> moved j Agent_QUEUED j'"
proof -
  have r: "aj_status j = Agent_RUNNING"
    using assms by (simp add: job_requeue_def split: if_splits)
  have "moved j Agent_QUEUED j' \<and> j' = j\<lparr>aj_status := Agent_QUEUED, aj_started_at := None\<rparr>"
    by (rule movedI) (use assms r in \<open>simp_all add: job_requeue_def as_submitted_def\<close>)
  with r show ?thesis by blast
qed

lemma job_complete_moves:
  assumes "job_complete j r t = Inr j'" and "aj_status j = Agent_RUNNING"
  shows "moved j (if res_is_safe_refusal r then Agent_SAFE_REFUSAL else Agent_SUCCEEDED) j'
    \<and> j' = j\<lparr>aj_status := if res_is_safe_refusal r then Agent_SAFE_REFUSAL else Agent_SUCCEEDED,
           aj_finished_at := Some t, aj_result := Some r\<rparr>"
  by (rule movedI) (use assms in \<open>simp_all only: job_complete_def\<close>, simp_all add: as_submitted_def)

lemma agent_job_fail_moves:
  assumes "agent_job_fail j c t = Inr j'" and "aj_status j = Agent_RUNNING"
  shows "moved j Agent_FAILED j'
    \<and> j' = j\<lparr>aj_status := Agent_FAILED, aj_finished_at := Some t, aj_error_code := Some c\<rparr>"
  by (rule movedI) (use assms in \<open>simp_all add: agent_job_fail_def as_submitted_def split: if_splits\<close>)

lemma job_reject_moves:
  assumes "job_reject j c t = Inr j'"
  shows "aj_status j = Agent_QUEUED \<and> moved j Agent_FAILED j'
    \<and> j' = j\<lparr>aj_status := Agent_FAILED, aj_finished_at := Some t, aj_error_code := Some c\<rparr>"
proof -
  have r: "aj_status j = Agent_QUEUED"
    using assms by (simp add: job_reject_def split: if_splits)
  have "moved j Agent_FAILED j' \<and> j' = j\<lparr>aj_status := Agent_FAILED, aj_finished_at := Some t, aj_error_code := Some c\<rparr>"
    by (rule movedI) (use assms r in \<open>simp_all add: job_reject_def as_submitted_def split: if_splits\<close>)
  with r show ?thesis by blast
qed

text \<open>The checks of a constructor read only the fields they name.\<close>

lemma static_of_submitted: "agent_job_static (as_submitted k) = agent_job_static k"
  by (cases k) (simp only: agent_job_static_def as_submitted_def agent_job.simps)

lemma agent_job_static_cong: "as_submitted j' = as_submitted j \<Longrightarrow> agent_job_static j' = agent_job_static j"
  by (metis static_of_submitted)

lemma valid_queued_fields:
  assumes "agent_job_post_init j = Inr j" and "aj_status j = Agent_QUEUED"
  shows "aj_started_at j = None \<and> aj_finished_at j = None \<and> aj_result j = None \<and> aj_error_code j = None"
  using assms by (simp add: agent_job_post_init_iff agent_job_state_def split: if_splits)

lemma valid_queued:
  assumes "agent_job_post_init j = Inr j" and "aj_status j = Agent_QUEUED"
  shows "as_submitted j = j"
  using valid_queued_fields [OF assms] assms(2) by (cases j) (simp add: as_submitted_def)

lemma valid_running:
  assumes "agent_job_post_init j = Inr j" and "aj_status j = Agent_RUNNING"
  shows "\<exists>s. aj_started_at j = Some s \<and> aj_created_at j \<le> s" and "aj_finished_at j = None"
    and "aj_result j = None" and "aj_error_code j = None"
  using assms
  by (simp_all add: agent_job_post_init_iff agent_job_state_def agent_job_times_def opt_holds_def
      split: if_splits option.splits)

text \<open>An interrupted job is requeued without error, as exactly the request that was submitted.\<close>

lemma job_requeue_valid:
  assumes "agent_job_post_init j = Inr j" and "aj_status j = Agent_RUNNING"
  shows "job_requeue j = Inr (as_submitted j)"
proof -
  have e: "j\<lparr>aj_status := Agent_QUEUED, aj_started_at := None\<rparr> = as_submitted j"
    using valid_running [OF assms] by (cases j) (simp add: as_submitted_def)
  have s: "agent_job_static (as_submitted j) = Inr ()"
    using assms(1) by (simp add: static_of_submitted agent_job_post_init_iff)
  have "agent_job_post_init (as_submitted j) = Inr (as_submitted j)"
    by (simp add: agent_job_post_init_iff s) (simp add: agent_job_state_def agent_job_times_def as_submitted_def
        opt_holds_def)
  with assms(2) e show ?thesis by (simp add: job_requeue_def)
qed

lemma job_start_valid:
  assumes "agent_job_post_init j = Inr j" and "aj_status j = Agent_QUEUED" and "aj_created_at j \<le> t"
  shows "job_start j t = Inr (j\<lparr>aj_status := Agent_RUNNING, aj_started_at := Some t\<rparr>)"
proof -
  let ?j = "j\<lparr>aj_status := Agent_RUNNING, aj_started_at := Some t\<rparr>"
  note n = valid_queued_fields [OF assms(1,2)]
  have "agent_job_static ?j = agent_job_static j"
    by (rule agent_job_static_cong) (simp add: as_submitted_def)
  then have s: "agent_job_static ?j = Inr ()"
    using assms(1) by (simp add: agent_job_post_init_iff)
  have "agent_job_post_init ?j = Inr ?j"
    using n assms(3) by (simp add: agent_job_post_init_iff s)
      (simp add: agent_job_state_def agent_job_times_def opt_holds_def)
  with assms(2) show ?thesis by (simp add: job_start_def)
qed

end
