(* ===== verification/Agent_Store.thy ===== *)
theory Agent_Store
  imports Agent_Job "HOL-Library.Product_Lexorder" "HOL-Library.Multiset"
begin

text \<open>
  The in-memory store of agent jobs
  (\<open>adapters/repository/in_memory/in_memory_agent_job_repository.py\<close>) behind the port
  \<open>ports/agent_jobs/agent_job_repository.py\<close>: jobs, their event logs and the idempotency keys.
  An operation that raises leaves the store as it was (the code restores what it had changed), so
  an operation is a function to an error or a value with the new store.  The readings of the clock
  are \<open>now 0\<close>, \<open>now 1\<close>, ... in order; \<open>uuid5\<close> is a parameter.
\<close>

section \<open>The store\<close>

record agent_store =
  ast_jobs :: "(uuid, agent_job) dict"
  ast_events :: "(uuid, agent_job_event list) dict"
  ast_keys :: "(uuid \<times> string, uuid) dict"

definition empty_agent_store :: agent_store where
  "empty_agent_store = \<lparr>ast_jobs = [], ast_events = [], ast_keys = []\<rparr>"

definition store_get_job :: "agent_store \<Rightarrow> uuid \<Rightarrow> uuid option \<Rightarrow> agent_job option" where
  "store_get_job d i owner =
     (case dict_get (ast_jobs d) i of None \<Rightarrow> None
      | Some j \<Rightarrow> if opt_holds (\<lambda>p. aj_owner_profile_id j \<noteq> p) owner then None else Some j)"

definition log_of :: "agent_store \<Rightarrow> uuid \<Rightarrow> agent_job_event list" where
  "log_of d i = (case dict_get (ast_events d) i of None \<Rightarrow> [] | Some es \<Rightarrow> es)"

definition terminal_kind :: "agent_job_event_kind \<Rightarrow> bool" where
  "terminal_kind k = (k \<in> {Kind_SUCCEEDED, Kind_SAFE_REFUSAL, Kind_FAILED})"

definition append_event_locked :: "agent_job_event \<Rightarrow> agent_store \<Rightarrow> agent_store result" where
  "append_event_locked e d =
     (case dict_get (ast_jobs d) (aje_job_id e) of
        None \<Rightarrow> Inl (KeyError STR ''REPOSITORY_JOB_NOT_FOUND'')
      | Some j \<Rightarrow>
          (let events = log_of d (aje_job_id e)
           in if aje_kind e \<noteq> kind_of_status (aj_status j) then Inl (ValueError STR ''REPOSITORY_EVENT_STATE'')
              else if aje_sequence e \<noteq> int (length events) + 1
                then Inl (ValueError STR ''REPOSITORY_EVENT_SEQUENCE'')
              else if list_ex (\<lambda>x. aje_event_id x = aje_event_id e) events
                then Inl (ValueError STR ''REPOSITORY_EVENT_ID'')
              else if events \<noteq> [] \<and> aje_occurred_at e < aje_occurred_at (last events)
                then Inl (ValueError STR ''REPOSITORY_EVENT_TIME'')
              else Inr (d\<lparr>ast_events := dict_set (ast_events d) (aje_job_id e) (events @ [e])\<rparr>)))"

definition new_event ::
    "(uuid \<Rightarrow> string \<Rightarrow> uuid) \<Rightarrow> uuid \<Rightarrow> agent_job_event_kind \<Rightarrow> payload \<Rightarrow> int \<Rightarrow> nat \<Rightarrow> agent_job_event" where
  "new_event uuid5 i kind pl t n =
     \<lparr>aje_event_id = uuid5 i (''agent-job-event:'' @ decimal (n + 1)), aje_sequence = int n + 1, aje_job_id = i,
      aje_kind = kind, aje_occurred_at = t, aje_payload = pl\<rparr>"

definition append_locked ::
    "(uuid \<Rightarrow> string \<Rightarrow> uuid) \<Rightarrow> uuid \<Rightarrow> agent_job_event_kind \<Rightarrow> payload \<Rightarrow> int \<Rightarrow> agent_store \<Rightarrow> agent_store result" where
  "append_locked uuid5 i kind pl t d =
     (case dict_get (ast_jobs d) i of None \<Rightarrow> Inl (KeyError STR ''job'')
      | Some j \<Rightarrow>
          if kind \<noteq> kind_of_status (aj_status j) then Inl (ValueError STR ''REPOSITORY_EVENT_STATE'')
          else if terminal_kind kind \<and> list_ex (\<lambda>e. aje_kind e = kind) (log_of d i)
            then Inl (ValueError STR ''REPOSITORY_EVENT_ONCE'')
          else bindE (agent_event_post_init (new_event uuid5 i kind pl t (length (log_of d i)))) (\<lambda>e.
            append_event_locked e d))"

definition queued_payload :: payload where
  "queued_payload = [(''status'', JStr ''queued'')]"

definition recovered_payload :: payload where
  "recovered_payload = [(''status'', JStr ''queued''), (''recovered'', JBool True)]"

definition running_payload :: payload where
  "running_payload = [(''status'', JStr ''running'')]"

definition failed_payload :: "string \<Rightarrow> payload" where
  "failed_payload code = [(''status'', JStr ''failed''), (''error_code'', JStr code)]"

definition store_create ::
    "(uuid \<Rightarrow> string \<Rightarrow> uuid) \<Rightarrow> int \<Rightarrow> agent_job \<Rightarrow> agent_store \<Rightarrow> ((agent_job \<times> bool) \<times> agent_store) result" where
  "store_create uuid5 t job d =
     (let key = (aj_owner_profile_id job, aj_idempotency_key job)
      in case dict_get (ast_keys d) key of
           Some i \<Rightarrow>
             (case dict_get (ast_jobs d) i of None \<Rightarrow> Inl (KeyError STR ''job'')
              | Some existing \<Rightarrow>
                  if aj_fingerprint existing \<noteq> aj_fingerprint job
                    then Inl (AgentJobIdempotencyConflictError STR ''IDEMPOTENCY_CONFLICT'')
                  else Inr ((existing, False), d))
         | None \<Rightarrow>
             if dict_get (ast_jobs d) (aj_job_id job) \<noteq> None then Inl (ValueError STR ''REPOSITORY_ID_CONFLICT'')
             else bindE (append_locked uuid5 (aj_job_id job) Kind_QUEUED queued_payload t
                 \<lparr>ast_jobs = dict_set (ast_jobs d) (aj_job_id job) job,
                  ast_events = dict_set (ast_events d) (aj_job_id job) [],
                  ast_keys = dict_set (ast_keys d) key (aj_job_id job)\<rparr>) (\<lambda>d'. Inr ((job, True), d')))"

text \<open>Storing the job's next version and appending the event of its new status.\<close>

definition advance ::
    "(uuid \<Rightarrow> string \<Rightarrow> uuid) \<Rightarrow> uuid \<Rightarrow> agent_job_event_kind \<Rightarrow> payload \<Rightarrow> int \<Rightarrow> agent_job \<Rightarrow> agent_store \<Rightarrow>
     agent_store result" where
  "advance uuid5 i kind pl t job d =
     append_locked uuid5 i kind pl t (d\<lparr>ast_jobs := dict_set (ast_jobs d) i job\<rparr>)"

definition require_recovery_limit :: "int \<Rightarrow> unit result" where
  "require_recovery_limit n = (if n < 1 then Inl (ValueError STR ''REPOSITORY_RECOVERY_LIMIT'') else Inr ())"

definition store_list_queued :: "int \<Rightarrow> agent_store \<Rightarrow> agent_job list result" where
  "store_list_queued limit d =
     bindE (require_recovery_limit limit) (\<lambda>_. Inr (take (nat limit)
       (sort_key (\<lambda>j. (aj_created_at j, aj_job_id j))
         (filter (\<lambda>j. aj_status j = Agent_QUEUED) (dict_values (ast_jobs d))))))"

definition started_or_created :: "agent_job \<Rightarrow> int" where
  "started_or_created j = (case aj_started_at j of None \<Rightarrow> aj_created_at j | Some s \<Rightarrow> s)"

fun requeue_locked ::
    "(uuid \<Rightarrow> string \<Rightarrow> uuid) \<Rightarrow> (nat \<Rightarrow> int) \<Rightarrow> nat \<Rightarrow> agent_job list \<Rightarrow> agent_store \<Rightarrow>
     (agent_job list \<times> agent_store) result" where
  "requeue_locked uuid5 now n [] d = Inr ([], d)"
| "requeue_locked uuid5 now n (j # js) d =
     bindE (job_requeue j) (\<lambda>updated.
     bindE (advance uuid5 (aj_job_id j) Kind_QUEUED recovered_payload (now (n + 1)) updated d) (\<lambda>d1.
     bindE (requeue_locked uuid5 now (n + 2) js d1) (\<lambda>(us, d2). Inr (updated # us, d2))))"

definition running_jobs :: "agent_store \<Rightarrow> agent_job list" where
  "running_jobs d = sort_key (\<lambda>j. (started_or_created j, aj_job_id j))
     (filter (\<lambda>j. aj_status j = Agent_RUNNING) (dict_values (ast_jobs d)))"

definition store_requeue_running ::
    "(uuid \<Rightarrow> string \<Rightarrow> uuid) \<Rightarrow> (nat \<Rightarrow> int) \<Rightarrow> int \<Rightarrow> agent_store \<Rightarrow> (agent_job list \<times> agent_store) result" where
  "store_requeue_running uuid5 now limit d =
     bindE (require_recovery_limit limit) (\<lambda>_. requeue_locked uuid5 now 0 (take (nat limit) (running_jobs d)) d)"

definition store_requeue_job ::
    "(uuid \<Rightarrow> string \<Rightarrow> uuid) \<Rightarrow> (nat \<Rightarrow> int) \<Rightarrow> uuid \<Rightarrow> agent_store \<Rightarrow>
     ((agent_job option \<times> bool) \<times> agent_store) result" where
  "store_requeue_job uuid5 now i d =
     (case dict_get (ast_jobs d) i of
        None \<Rightarrow> Inr ((None, False), d)
      | Some j \<Rightarrow>
          if aj_status j \<noteq> Agent_RUNNING then Inr ((Some j, False), d)
          else bindE (requeue_locked uuid5 now 0 [j] d) (\<lambda>(us, d1). Inr ((Some (hd us), True), d1)))"

definition store_claim ::
    "(uuid \<Rightarrow> string \<Rightarrow> uuid) \<Rightarrow> (nat \<Rightarrow> int) \<Rightarrow> uuid \<Rightarrow> uuid option \<Rightarrow> agent_store \<Rightarrow>
     (agent_job option \<times> agent_store) result" where
  "store_claim uuid5 now i owner d =
     (case store_get_job d i owner of
        None \<Rightarrow> Inr (None, d)
      | Some j \<Rightarrow>
          if aj_status j = Agent_RUNNING then Inr (None, d)
          else if terminal (aj_status j) then Inl (AgentJobTransitionError STR ''REPOSITORY_TERMINAL_CLAIM'')
          else bindE (job_start j (now 0)) (\<lambda>updated.
               bindE (advance uuid5 i Kind_RUNNING running_payload (now 1) updated d) (\<lambda>d1.
                 Inr (Some updated, d1))))"

definition store_complete ::
    "(uuid \<Rightarrow> string \<Rightarrow> uuid) \<Rightarrow> (nat \<Rightarrow> int) \<Rightarrow> uuid \<Rightarrow> agent_result \<Rightarrow> uuid option \<Rightarrow> agent_store \<Rightarrow>
     (agent_job option \<times> agent_store) result" where
  "store_complete uuid5 now i r owner d =
     (case store_get_job d i owner of
        None \<Rightarrow> Inr (None, d)
      | Some j \<Rightarrow>
          if aj_status j \<noteq> Agent_RUNNING then Inl (AgentJobTransitionError STR ''REPOSITORY_COMPLETE_STATE'')
          else bindE (job_complete j r (now 0)) (\<lambda>updated.
               bindE (advance uuid5 i (if aj_status updated = Agent_SAFE_REFUSAL then Kind_SAFE_REFUSAL
                   else Kind_SUCCEEDED) (result_event_payload r) (now 1) updated d) (\<lambda>d1.
                 Inr (Some updated, d1))))"

definition store_fail ::
    "(uuid \<Rightarrow> string \<Rightarrow> uuid) \<Rightarrow> (nat \<Rightarrow> int) \<Rightarrow> uuid \<Rightarrow> string \<Rightarrow> uuid option \<Rightarrow> agent_store \<Rightarrow>
     (agent_job option \<times> agent_store) result" where
  "store_fail uuid5 now i code owner d =
     (case store_get_job d i owner of
        None \<Rightarrow> Inr (None, d)
      | Some j \<Rightarrow>
          if aj_status j \<noteq> Agent_RUNNING then Inl (AgentJobTransitionError STR ''REPOSITORY_FAIL_STATE'')
          else bindE (agent_job_fail j code (now 0)) (\<lambda>updated.
               bindE (advance uuid5 i Kind_FAILED (failed_payload code) (now 1) updated d) (\<lambda>d1.
                 Inr (Some updated, d1))))"

definition store_reject ::
    "(uuid \<Rightarrow> string \<Rightarrow> uuid) \<Rightarrow> (nat \<Rightarrow> int) \<Rightarrow> uuid \<Rightarrow> string \<Rightarrow> uuid option \<Rightarrow> agent_store \<Rightarrow>
     (agent_job option \<times> agent_store) result" where
  "store_reject uuid5 now i code owner d =
     (case store_get_job d i owner of
        None \<Rightarrow> Inr (None, d)
      | Some j \<Rightarrow>
          if aj_status j \<noteq> Agent_QUEUED then Inl (AgentJobTransitionError STR ''REPOSITORY_REJECT_STATE'')
          else bindE (job_reject j code (now 0)) (\<lambda>updated.
               bindE (advance uuid5 i Kind_FAILED (failed_payload code) (now 1) updated d) (\<lambda>d1.
                 Inr (Some updated, d1))))"

definition list_events_after :: "agent_store \<Rightarrow> uuid \<Rightarrow> int \<Rightarrow> uuid option \<Rightarrow> agent_job_event list result" where
  "list_events_after d i sequence owner =
     (if sequence < 0 then Inl (ValueError STR ''REPOSITORY_CURSOR'')
      else if store_get_job d i owner = None then Inr []
      else Inr (filter (\<lambda>e. aje_sequence e > sequence) (log_of d i)))"

section \<open>The event log of a job\<close>

text \<open>Which event may follow which: a job's state machine.\<close>

fun next_kind :: "agent_job_event_kind \<Rightarrow> agent_job_event_kind \<Rightarrow> bool" where
  "next_kind Kind_QUEUED k = (k = Kind_RUNNING \<or> k = Kind_FAILED)"
| "next_kind Kind_RUNNING k = (k \<noteq> Kind_RUNNING)"
| "next_kind _ _ = False"

lemma next_kind_not_terminal: "next_kind k k' \<Longrightarrow> \<not> terminal_kind k"
  by (cases k) (simp_all add: terminal_kind_def)

lemma terminal_kind_of_status [simp]: "terminal_kind (kind_of_status st) = terminal st"
  by (cases st) (simp_all add: terminal_kind_def)

text \<open>A log that records the history of a job up to its status, in order and without private data.\<close>

definition log_ok :: "agent_job \<Rightarrow> agent_job_event list \<Rightarrow> bool" where
  "log_ok j es \<longleftrightarrow>
     es \<noteq> [] \<and> aje_kind (hd es) = Kind_QUEUED \<and> aje_kind (last es) = kind_of_status (aj_status j)
     \<and> successively next_kind (map aje_kind es)
     \<and> map aje_sequence es = map int [1..<Suc (length es)]
     \<and> sorted (map aje_occurred_at es) \<and> distinct (map aje_event_id es)
     \<and> (\<forall>e \<in> set es. aje_job_id e = aj_job_id j \<and> \<not> private_members (aje_payload e))"

lemma sequence_nth: "log_ok j es \<Longrightarrow> k < length es \<Longrightarrow> aje_sequence (es ! k) = int k + 1"
proof -
  assume l: "log_ok j es" and k: "k < length es"
  have "aje_sequence (es ! k) = map int [1..<Suc (length es)] ! k"
    using l k by (metis log_ok_def nth_map)
  with k show ?thesis by (simp del: upt_Suc)
qed

lemma kinds_successive:
  assumes "log_ok j es" and "Suc k < length es"
  shows "next_kind (aje_kind (es ! k)) (aje_kind (es ! Suc k))"
  using assms by (simp add: log_ok_def successively_conv_nth)

text \<open>A terminal event is the last one.\<close>

lemma terminal_event_last:
  assumes "log_ok j es" and "k < length es" and "terminal_kind (aje_kind (es ! k))"
  shows "Suc k = length es"
  using kinds_successive [OF assms(1), of k] next_kind_not_terminal assms(2,3) by fastforce

lemma sorted_snoc_last:
  assumes "sorted (xs :: 'a :: linorder list)" and "xs \<noteq> [] \<Longrightarrow> last xs \<le> x"
  shows "sorted (xs @ [x])"
proof (cases xs rule: rev_cases)
  case (snoc ys y)
  with assms show ?thesis by (auto simp: sorted_append)
qed simp

lemma log_ok_snoc:
  assumes "log_ok j es" and "next_kind (kind_of_status (aj_status j)) (aje_kind e)"
    and "aje_kind e = kind_of_status (aj_status j')" and "aj_job_id j' = aj_job_id j"
    and "aje_sequence e = int (length es) + 1" and "aje_job_id e = aj_job_id j"
    and "\<not> private_members (aje_payload e)" and "aje_event_id e \<notin> aje_event_id ` set es"
    and "aje_occurred_at (last es) \<le> aje_occurred_at e"
  shows "log_ok j' (es @ [e])"
proof -
  have ne: "es \<noteq> []" using assms(1) by (simp add: log_ok_def)
  have s: "sorted (map aje_occurred_at es)" using assms(1) by (simp add: log_ok_def)
  have "sorted (map aje_occurred_at (es @ [e]))"
    using sorted_snoc_last [OF s, of "aje_occurred_at e"] assms(9) ne by (simp add: last_map)
  moreover have "successively next_kind (map aje_kind (es @ [e]))"
    using assms(1,2) ne by (simp add: log_ok_def successively_append_iff last_map)
  ultimately show ?thesis using assms by (simp add: log_ok_def)
qed

section \<open>What an append does\<close>

lemma append_locked_Inr:
  assumes "append_locked uuid5 i kind pl t d = Inr d'"
  obtains j e where "dict_get (ast_jobs d) i = Some j" and "kind = kind_of_status (aj_status j)"
    and "e = new_event uuid5 i kind pl t (length (log_of d i))" and "\<not> private_members pl"
    and "aje_event_id e \<notin> aje_event_id ` set (log_of d i)"
    and "log_of d i = [] \<or> aje_occurred_at (last (log_of d i)) \<le> t"
    and "d' = d\<lparr>ast_events := dict_set (ast_events d) i (log_of d i @ [e])\<rparr>"
proof -
  obtain j where j: "dict_get (ast_jobs d) i = Some j"
    using assms by (auto simp: append_locked_def split: option.splits)
  let ?e = "new_event uuid5 i kind pl t (length (log_of d i))"
  have k: "kind = kind_of_status (aj_status j)"
    and ev: "bindE (agent_event_post_init ?e) (\<lambda>e. append_event_locked e d) = Inr d'"
    using assms j by (simp_all add: append_locked_def split: if_splits)
  have p: "agent_event_post_init ?e = Inr ?e" "append_event_locked ?e d = Inr d'"
    using ev by (auto simp: agent_event_post_init_def bindE_eq_Inr split: if_splits)
  have np: "\<not> private_members pl"
    using p(1) by (simp add: agent_event_post_init_def new_event_def split: if_splits)
  have u: "aje_event_id ?e \<notin> aje_event_id ` set (log_of d i)"
    and w: "log_of d i = [] \<or> aje_occurred_at (last (log_of d i)) \<le> t"
    and d': "d' = d\<lparr>ast_events := dict_set (ast_events d) i (log_of d i @ [?e])\<rparr>"
    using p(2) j by (auto simp: append_event_locked_def new_event_def list_ex_iff Let_def image_iff not_less
        split: if_splits)
  show ?thesis by (rule that [OF j k refl np u w d'])
qed

lemma log_of_set [simp]:
  "log_of (d\<lparr>ast_events := dict_set E i es\<rparr>) k = (if k = i then es else log_of (d\<lparr>ast_events := E\<rparr>) k)"
  by (simp add: log_of_def dict_get_set)

lemma log_of_jobs [simp]: "log_of (d\<lparr>ast_jobs := J\<rparr>) k = log_of d k"
  by (simp add: log_of_def)

lemma log_of_same [simp]: "log_of (d\<lparr>ast_events := ast_events d\<rparr>) k = log_of d k"
  by (simp add: log_of_def)

section \<open>The invariant of the store\<close>

definition job_stored :: "agent_store \<Rightarrow> uuid \<Rightarrow> agent_job \<Rightarrow> bool" where
  "job_stored d i j \<longleftrightarrow>
     aj_job_id j = i \<and> agent_job_post_init j = Inr j \<and> log_ok j (log_of d i)
     \<and> dict_get (ast_keys d) (aj_owner_profile_id j, aj_idempotency_key j) = Some i"

definition agents_ok :: "agent_store \<Rightarrow> bool" where
  "agents_ok d \<longleftrightarrow>
     dict_ok (ast_jobs d) \<and> (\<forall>i j. dict_get (ast_jobs d) i = Some j \<longrightarrow> job_stored d i j)
     \<and> (\<forall>p key i. dict_get (ast_keys d) (p, key) = Some i \<longrightarrow>
          (\<exists>j. dict_get (ast_jobs d) i = Some j \<and> aj_owner_profile_id j = p \<and> aj_idempotency_key j = key))"

lemma agents_okD:
  assumes "agents_ok d"
  shows "dict_ok (ast_jobs d)" and "dict_get (ast_jobs d) i = Some j \<Longrightarrow> job_stored d i j"
    and "dict_get (ast_keys d) (p, key) = Some i \<Longrightarrow>
      \<exists>j. dict_get (ast_jobs d) i = Some j \<and> aj_owner_profile_id j = p \<and> aj_idempotency_key j = key"
  using assms by (simp_all add: agents_ok_def)

lemma agents_ok_empty: "agents_ok empty_agent_store"
  by (simp add: agents_ok_def empty_agent_store_def dict_simps)

text \<open>
  What a transition of one job does to the store: the job's next version is stored, the event of
  its new status is appended to its log, and nothing else changes.
\<close>

definition advanced :: "uuid \<Rightarrow> agent_job \<Rightarrow> agent_job \<Rightarrow> agent_store \<Rightarrow> agent_store \<Rightarrow> bool" where
  "advanced i j j' d d' \<longleftrightarrow>
     dict_get (ast_jobs d) i = Some j \<and> ast_jobs d' = dict_set (ast_jobs d) i j'
     \<and> ast_keys d' = ast_keys d \<and> as_submitted j' = as_submitted j
     \<and> next_kind (kind_of_status (aj_status j)) (kind_of_status (aj_status j'))
     \<and> (\<exists>e. log_of d' i = log_of d i @ [e]) \<and> (\<forall>k. k \<noteq> i \<longrightarrow> log_of d' k = log_of d k)"

lemma advance_ok:
  assumes ok: "agents_ok d" and j: "dict_get (ast_jobs d) i = Some j" and m: "moved j st j'"
    and n: "next_kind (kind_of_status (aj_status j)) (kind_of_status st)"
    and a: "advance uuid5 i kind pl t j' d = Inr d'"
  shows "agents_ok d' \<and> advanced i j j' d d'"
proof -
  note st = agents_okD(2) [OF ok j]
  have sub: "as_submitted j' = as_submitted j" and v: "agent_job_post_init j' = Inr j'"
    and s: "aj_status j' = st"
    using m by (simp_all add: moved_def)
  note f = as_submitted_fields [OF sub]
  let ?d = "d\<lparr>ast_jobs := dict_set (ast_jobs d) i j'\<rparr>"
  from a obtain j0 e where j0: "dict_get (ast_jobs ?d) i = Some j0" "kind = kind_of_status (aj_status j0)"
    and e: "e = new_event uuid5 i kind pl t (length (log_of ?d i))"
    and np: "\<not> private_members pl" and u: "aje_event_id e \<notin> aje_event_id ` set (log_of ?d i)"
    and w: "log_of ?d i = [] \<or> aje_occurred_at (last (log_of ?d i)) \<le> t"
    and d': "d' = ?d\<lparr>ast_events := dict_set (ast_events ?d) i (log_of ?d i @ [e])\<rparr>"
    unfolding advance_def by (rule append_locked_Inr)
  have kind: "kind = kind_of_status st" using j0 s by (simp add: dict_simps)
  have log: "log_ok j (log_of d i)" and id: "aj_job_id j = i" using st by (simp_all add: job_stored_def)
  have ne: "log_of d i \<noteq> []" using log by (simp add: log_ok_def)
  have l': "log_ok j' (log_of d i @ [e])"
    by (rule log_ok_snoc [OF log]) (use n kind s id f u w np e ne in \<open>simp_all add: new_event_def\<close>)
  have logs: "log_of d' k = (if k = i then log_of d i @ [e] else log_of d k)" for k
    by (simp add: d' log_of_def dict_get_set)
  have jobs: "ast_jobs d' = dict_set (ast_jobs d) i j'" and keys: "ast_keys d' = ast_keys d"
    by (simp_all add: d')
  have stored: "job_stored d' k x" if k: "dict_get (ast_jobs d') k = Some x" for k x
  proof (cases "k = i")
    case True
    then have "x = j'" using k by (simp add: jobs dict_simps)
    with True l' v f id st show ?thesis by (simp add: job_stored_def logs keys)
  next
    case False
    then have "dict_get (ast_jobs d) k = Some x" using k by (simp add: jobs dict_simps)
    from agents_okD(2) [OF ok this] False show ?thesis by (simp add: job_stored_def logs keys)
  qed
  have origin: "\<exists>x. dict_get (ast_jobs d') k = Some x \<and> aj_owner_profile_id x = p \<and> aj_idempotency_key x = key"
    if "dict_get (ast_keys d') (p, key) = Some k" for p key k
    using agents_okD(3) [OF ok that [unfolded keys]] j f by (auto simp: jobs dict_simps)
  have "agents_ok d'"
    using agents_okD(1) [OF ok] stored origin by (simp add: agents_ok_def jobs dict_ok_set)
  moreover have "advanced i j j' d d'"
    using j sub n s by (simp add: advanced_def jobs keys logs)
  ultimately show ?thesis by simp
qed


section \<open>What each operation does\<close>

lemma store_get_job_Some:
  "store_get_job d i owner = Some j \<longleftrightarrow>
     dict_get (ast_jobs d) i = Some j \<and> (owner = None \<or> owner = Some (aj_owner_profile_id j))"
  by (cases owner) (auto simp: store_get_job_def opt_holds_def split: option.splits)

text \<open>Every successful call leaves the store alone or advances one job by one transition.\<close>

definition call_moves :: "uuid \<Rightarrow> agent_job_status \<Rightarrow> agent_job_status \<Rightarrow> agent_job \<Rightarrow> agent_store \<Rightarrow> agent_store \<Rightarrow> bool" where
  "call_moves i st st' j' d d' \<longleftrightarrow>
     agents_ok d' \<and> (\<exists>j. aj_status j = st \<and> advanced i j j' d d') \<and> moved j' st' j'"

lemma moved_refl: "moved j st j' \<Longrightarrow> moved j' st j'"
  by (simp add: moved_def)

lemma call_movesI:
  assumes "agents_ok d" and "dict_get (ast_jobs d) i = Some j" and "moved j st' j'" and "aj_status j = st"
    and "next_kind (kind_of_status st) (kind_of_status st')"
    and "advance uuid5 i kind pl t j' d = Inr d'"
  shows "call_moves i st st' j' d d'"
  using advance_ok [OF assms(1,2,3) _ assms(6)] assms(4,5) moved_refl [OF assms(3)]
  unfolding call_moves_def by blast

lemma store_claim_Some:
  assumes "agents_ok d" and "store_claim uuid5 now i owner d = Inr (Some j', d')"
  shows "call_moves i Agent_QUEUED Agent_RUNNING j' d d' \<and> aj_started_at j' = Some (now 0)"
proof -
  obtain j where j: "store_get_job d i owner = Some j"
    using assms(2) by (auto simp: store_claim_def split: option.splits)
  have q: "aj_status j = Agent_QUEUED"
    using assms(2) j by (cases "aj_status j") (simp_all add: store_claim_def)
  have s: "job_start j (now 0) = Inr j'" "advance uuid5 i Kind_RUNNING running_payload (now 1) j' d = Inr d'"
    using assms(2) j q by (auto simp: store_claim_def bindE_eq_Inr)
  note m = job_start_moves [OF s(1) q, THEN conjunct1] job_start_moves [OF s(1) q, THEN conjunct2]
  have "call_moves i Agent_QUEUED Agent_RUNNING j' d d'"
    by (rule call_movesI [OF assms(1) _ m(1) q _ s(2)]) (use j in \<open>simp_all add: store_get_job_Some\<close>)
  with m(2) show ?thesis by simp
qed

lemma store_claim_None: "store_claim uuid5 now i owner d = Inr (None, d') \<Longrightarrow> d' = d"
  by (auto simp: store_claim_def bindE_eq_Inr split: option.splits if_splits)

lemma store_complete_Some:
  assumes "agents_ok d" and "store_complete uuid5 now i r owner d = Inr (Some j', d')"
  shows "call_moves i Agent_RUNNING (if res_is_safe_refusal r then Agent_SAFE_REFUSAL else Agent_SUCCEEDED) j' d d'
    \<and> aj_result j' = Some r"
proof -
  obtain j where j: "store_get_job d i owner = Some j"
    using assms(2) by (auto simp: store_complete_def split: option.splits)
  have q: "aj_status j = Agent_RUNNING"
    using assms(2) j by (auto simp: store_complete_def split: if_splits)
  obtain kind where s: "job_complete j r (now 0) = Inr j'"
    "advance uuid5 i kind (result_event_payload r) (now 1) j' d = Inr d'"
    using assms(2) j q by (auto simp: store_complete_def bindE_eq_Inr)
  note m = job_complete_moves [OF s(1) q, THEN conjunct1] job_complete_moves [OF s(1) q, THEN conjunct2]
  have "call_moves i Agent_RUNNING (if res_is_safe_refusal r then Agent_SAFE_REFUSAL else Agent_SUCCEEDED) j' d d'"
    by (rule call_movesI [OF assms(1) _ m(1) q _ s(2)]) (use j in \<open>simp_all add: store_get_job_Some\<close>)
  with m(2) show ?thesis by simp
qed

lemma store_complete_None: "store_complete uuid5 now i r owner d = Inr (None, d') \<Longrightarrow> d' = d"
  by (auto simp: store_complete_def bindE_eq_Inr split: option.splits if_splits)

lemma store_fail_Some:
  assumes "agents_ok d" and "store_fail uuid5 now i code owner d = Inr (Some j', d')"
  shows "call_moves i Agent_RUNNING Agent_FAILED j' d d' \<and> aj_error_code j' = Some code"
proof -
  obtain j where j: "store_get_job d i owner = Some j"
    using assms(2) by (auto simp: store_fail_def split: option.splits)
  have q: "aj_status j = Agent_RUNNING"
    using assms(2) j by (auto simp: store_fail_def split: if_splits)
  have s: "agent_job_fail j code (now 0) = Inr j'"
    "advance uuid5 i Kind_FAILED (failed_payload code) (now 1) j' d = Inr d'"
    using assms(2) j q by (auto simp: store_fail_def bindE_eq_Inr)
  note m = agent_job_fail_moves [OF s(1) q, THEN conjunct1] agent_job_fail_moves [OF s(1) q, THEN conjunct2]
  have "call_moves i Agent_RUNNING Agent_FAILED j' d d'"
    by (rule call_movesI [OF assms(1) _ m(1) q _ s(2)]) (use j in \<open>simp_all add: store_get_job_Some\<close>)
  with m(2) show ?thesis by simp
qed

lemma store_fail_None: "store_fail uuid5 now i code owner d = Inr (None, d') \<Longrightarrow> d' = d"
  by (auto simp: store_fail_def bindE_eq_Inr split: option.splits if_splits)

lemma store_reject_Some:
  assumes "agents_ok d" and "store_reject uuid5 now i code owner d = Inr (Some j', d')"
  shows "call_moves i Agent_QUEUED Agent_FAILED j' d d' \<and> aj_error_code j' = Some code"
proof -
  obtain j where j: "store_get_job d i owner = Some j"
    using assms(2) by (auto simp: store_reject_def split: option.splits)
  have q: "aj_status j = Agent_QUEUED"
    using assms(2) j by (auto simp: store_reject_def split: if_splits)
  have s: "job_reject j code (now 0) = Inr j'"
    "advance uuid5 i Kind_FAILED (failed_payload code) (now 1) j' d = Inr d'"
    using assms(2) j q by (auto simp: store_reject_def bindE_eq_Inr)
  note m = job_reject_moves [OF s(1), THEN conjunct2, THEN conjunct1] job_reject_moves [OF s(1), THEN conjunct2, THEN conjunct2]
  have "call_moves i Agent_QUEUED Agent_FAILED j' d d'"
    by (rule call_movesI [OF assms(1) _ m(1) q _ s(2)]) (use j in \<open>simp_all add: store_get_job_Some\<close>)
  with m(2) show ?thesis by simp
qed

lemma store_reject_None: "store_reject uuid5 now i code owner d = Inr (None, d') \<Longrightarrow> d' = d"
  by (auto simp: store_reject_def bindE_eq_Inr split: option.splits if_splits)

text \<open>A job that is created starts its log; a repeated request changes nothing.\<close>

lemma store_create_again:
  assumes "store_create uuid5 t job d = Inr ((stored, False), d')"
  shows "d' = d \<and> (\<exists>i. dict_get (ast_keys d) (aj_owner_profile_id job, aj_idempotency_key job) = Some i
    \<and> dict_get (ast_jobs d) i = Some stored) \<and> aj_fingerprint stored = aj_fingerprint job"
  using assms by (auto simp: store_create_def Let_def bindE_eq_Inr split: option.splits if_splits)

definition created :: "agent_job \<Rightarrow> agent_store \<Rightarrow> agent_store \<Rightarrow> bool" where
  "created job d d' \<longleftrightarrow>
     dict_get (ast_jobs d) (aj_job_id job) = None
     \<and> dict_get (ast_keys d) (aj_owner_profile_id job, aj_idempotency_key job) = None
     \<and> ast_jobs d' = dict_set (ast_jobs d) (aj_job_id job) job \<and> aj_status job = Agent_QUEUED
     \<and> ast_keys d' = dict_set (ast_keys d) (aj_owner_profile_id job, aj_idempotency_key job) (aj_job_id job)
     \<and> (\<forall>k. k \<noteq> aj_job_id job \<longrightarrow> log_of d' k = log_of d k)"

lemma store_create_new:
  assumes ok: "agents_ok d" and v: "agent_job_post_init job = Inr job"
    and c: "store_create uuid5 t job d = Inr ((stored, True), d')"
  shows "agents_ok d' \<and> created job d d' \<and> stored = job"
proof -
  let ?i = "aj_job_id job" and ?key = "(aj_owner_profile_id job, aj_idempotency_key job)"
  have fresh_key: "dict_get (ast_keys d) ?key = None"
    using c by (auto simp: store_create_def Let_def split: option.splits if_splits)
  then have fresh_id: "dict_get (ast_jobs d) ?i = None" and st: "stored = job"
    and a: "append_locked uuid5 ?i Kind_QUEUED queued_payload t
        \<lparr>ast_jobs = dict_set (ast_jobs d) ?i job, ast_events = dict_set (ast_events d) ?i [],
         ast_keys = dict_set (ast_keys d) ?key ?i\<rparr> = Inr d'"
    using c by (auto simp: store_create_def Let_def bindE_eq_Inr split: if_splits)
  from a obtain j e where j: "dict_get (dict_set (ast_jobs d) ?i job) ?i = Some j"
      "Kind_QUEUED = kind_of_status (aj_status j)"
    and e: "e = new_event uuid5 ?i Kind_QUEUED queued_payload t 0" and np: "\<not> private_members queued_payload"
    and d': "d' = \<lparr>ast_jobs = dict_set (ast_jobs d) ?i job, ast_events = dict_set (dict_set (ast_events d) ?i []) ?i [e],
       ast_keys = dict_set (ast_keys d) ?key ?i\<rparr>"
    by (rule append_locked_Inr) (simp_all add: log_of_def dict_simps)
  have q: "aj_status job = Agent_QUEUED"
    using j by (cases "aj_status job") (simp_all add: dict_simps)
  have jobs: "ast_jobs d' = dict_set (ast_jobs d) ?i job" and keys: "ast_keys d' = dict_set (ast_keys d) ?key ?i"
    by (simp_all add: d')
  have logs: "log_of d' k = (if k = ?i then [e] else log_of d k)" for k
    by (simp add: d' log_of_def dict_get_set)
  have l: "log_ok job [e]"
    using np by (simp add: log_ok_def e new_event_def q)
  have stored: "job_stored d' k x" if k: "dict_get (ast_jobs d') k = Some x" for k x
  proof (cases "k = ?i")
    case True
    then have "x = job" using k by (simp add: jobs dict_simps)
    with True l v show ?thesis by (simp add: job_stored_def logs keys dict_simps)
  next
    case False
    then have x: "job_stored d k x" using k agents_okD(2) [OF ok] by (simp add: jobs dict_simps)
    moreover have "(aj_owner_profile_id x, aj_idempotency_key x) \<noteq> ?key"
      using x fresh_key by (auto simp: job_stored_def)
    ultimately show ?thesis using False by (simp add: job_stored_def logs keys dict_get_set)
  qed
  have origin: "\<exists>x. dict_get (ast_jobs d') k = Some x \<and> aj_owner_profile_id x = p \<and> aj_idempotency_key x = key"
    if k: "dict_get (ast_keys d') (p, key) = Some k" for p key k
  proof (cases "(p, key) = ?key")
    case True
    with k show ?thesis by (auto simp: jobs keys dict_simps)
  next
    case False
    then have "dict_get (ast_keys d) (p, key) = Some k"
      using k by (auto simp: keys dict_get_set split: if_splits)
    from agents_okD(3) [OF ok this] fresh_id show ?thesis by (auto simp: jobs dict_get_set)
  qed
  have "agents_ok d'"
    using agents_okD(1) [OF ok] stored origin by (simp add: agents_ok_def jobs dict_ok_set)
  with fresh_key fresh_id q st show ?thesis by (simp add: created_def jobs keys logs)
qed


section \<open>Histories\<close>

text \<open>The steps a store makes: a job is created, or one job advances.\<close>

definition store_moves :: "agent_store \<Rightarrow> agent_store \<Rightarrow> bool" where
  "store_moves d d' \<longleftrightarrow> (\<exists>job. created job d d') \<or> (\<exists>i j j'. advanced i j j' d d')"

text \<open>What a reader of a job's log sees: nothing before the job exists.\<close>

definition history :: "agent_store \<Rightarrow> uuid \<Rightarrow> agent_job_event list" where
  "history d i = (if dict_get (ast_jobs d) i = None then [] else log_of d i)"

lemma history_appends:
  assumes "store_moves d d'"
  shows "\<exists>es. history d' i = history d i @ es"
  using assms unfolding store_moves_def
proof (elim disjE exE)
  fix job assume c: "created job d d'"
  show ?thesis
  proof (cases "dict_get (ast_jobs d) i")
    case None
    then show ?thesis by (simp add: history_def)
  next
    case (Some j)
    then have "i \<noteq> aj_job_id job" using c by (auto simp: created_def)
    with c Some show ?thesis by (simp add: created_def history_def dict_get_set)
  qed
next
  fix k j0 j' assume a: "advanced k j0 j' d d'"
  show ?thesis
  proof (cases "k = i")
    case True
    with a show ?thesis by (auto simp: advanced_def history_def dict_get_set)
  next
    case False
    with a show ?thesis by (simp add: advanced_def history_def dict_get_set)
  qed
qed

interpretation agent_log: append_only_log store_moves history
  by unfold_locales (rule history_appends)

text \<open>What survives a step: the request of a job, and a finished job altogether.\<close>

definition job_persists :: "agent_store \<Rightarrow> uuid \<Rightarrow> agent_job \<Rightarrow> agent_store \<Rightarrow> bool" where
  "job_persists d i j d' \<longleftrightarrow>
     (\<exists>j'. dict_get (ast_jobs d') i = Some j' \<and> as_submitted j' = as_submitted j
        \<and> (terminal (aj_status j) \<longrightarrow> j' = j \<and> log_of d' i = log_of d i))"

lemma move_persists:
  assumes "store_moves d d'" and j: "dict_get (ast_jobs d) i = Some j"
  shows "job_persists d i j d'"
  using assms(1) unfolding store_moves_def
proof (elim disjE exE)
  fix job assume "created job d d'"
  with j show ?thesis by (auto simp: created_def job_persists_def dict_get_set)
next
  fix k j0 j' assume a: "advanced k j0 j' d d'"
  show ?thesis
  proof (cases "k = i")
    case True
    have "\<not> terminal (aj_status j0)"
      using a next_kind_not_terminal [of "kind_of_status (aj_status j0)"] by (auto simp: advanced_def)
    with True a j show ?thesis by (simp add: advanced_def job_persists_def dict_get_set)
  next
    case False
    with a j show ?thesis by (simp add: advanced_def job_persists_def dict_get_set)
  qed
qed

lemma moves_persist:
  assumes "store_moves\<^sup>*\<^sup>* d d'" and "dict_get (ast_jobs d) i = Some j"
  shows "job_persists d i j d'"
  using assms(1)
proof (induction rule: rtranclp_induct)
  case base
  with assms(2) show ?case by (simp add: job_persists_def)
next
  case (step e f)
  from step.IH obtain j' where j': "dict_get (ast_jobs e) i = Some j'" "as_submitted j' = as_submitted j"
    "terminal (aj_status j) \<longrightarrow> j' = j \<and> log_of e i = log_of d i"
    by (auto simp: job_persists_def)
  from move_persists [OF step.hyps(2) j'(1)] j'(2,3) show ?case
    by (auto simp: job_persists_def)
qed

lemma call_moves_step: "call_moves i st st' j' d d' \<Longrightarrow> agents_ok d' \<and> store_moves d d'"
  by (auto simp: call_moves_def store_moves_def)

text \<open>Requeueing a batch of running jobs advances each of them.\<close>

lemma requeue_locked_moves:
  "requeue_locked uuid5 now n js d = Inr (us, d') \<Longrightarrow> agents_ok d \<Longrightarrow> distinct (map aj_job_id js) \<Longrightarrow>
   \<forall>j \<in> set js. dict_get (ast_jobs d) (aj_job_id j) = Some j \<Longrightarrow>
     agents_ok d' \<and> store_moves\<^sup>*\<^sup>* d d' \<and> us = map as_submitted js
     \<and> (\<forall>k. dict_get (ast_jobs d') k = (if k \<in> aj_job_id ` set js
            then map_option as_submitted (dict_get (ast_jobs d) k) else dict_get (ast_jobs d) k))"
proof (induction js arbitrary: n d us)
  case (Cons j js)
  from Cons.prems(1) obtain u d1 vs where u: "job_requeue j = Inr u"
    and d1: "advance uuid5 (aj_job_id j) Kind_QUEUED recovered_payload (now (n + 1)) u d = Inr d1"
    and vs: "requeue_locked uuid5 now (n + 2) js d1 = Inr (vs, d')" and us: "us = u # vs"
    by (auto simp: bindE_eq_Inr)
  have j: "dict_get (ast_jobs d) (aj_job_id j) = Some j" using Cons.prems(4) by simp
  note m = job_requeue_moves [OF u]
  have "agent_job_post_init j = Inr j"
    using agents_okD(2) [OF Cons.prems(2) j] by (simp add: job_stored_def)
  then have eq: "u = as_submitted j" using job_requeue_valid m u by simp
  have a: "agents_ok d1 \<and> advanced (aj_job_id j) j u d d1"
    by (rule advance_ok [OF Cons.prems(2) j m [THEN conjunct2] _ d1]) (use m in simp_all)
  then have s: "store_moves d d1"
    unfolding store_moves_def by blast
  have jobs: "ast_jobs d1 = dict_set (ast_jobs d) (aj_job_id j) u"
    using a by (simp add: advanced_def)
  have rest: "\<forall>x \<in> set js. dict_get (ast_jobs d1) (aj_job_id x) = Some x"
  proof
    fix x assume x: "x \<in> set js"
    then have "aj_job_id x \<noteq> aj_job_id j" using Cons.prems(3)
      by (metis distinct.simps(2) imageI list.simps(9) set_map)
    moreover have "dict_get (ast_jobs d) (aj_job_id x) = Some x" using Cons.prems(4) x by simp
    ultimately show "dict_get (ast_jobs d1) (aj_job_id x) = Some x" by (simp add: jobs dict_get_set)
  qed
  have ih: "agents_ok d' \<and> store_moves\<^sup>*\<^sup>* d1 d' \<and> vs = map as_submitted js
     \<and> (\<forall>k. dict_get (ast_jobs d') k = (if k \<in> aj_job_id ` set js
            then map_option as_submitted (dict_get (ast_jobs d1) k) else dict_get (ast_jobs d1) k))"
    using Cons.IH [OF vs _ _ rest] a Cons.prems(3) by simp
  have "store_moves\<^sup>*\<^sup>* d d'" using s ih by (simp add: converse_rtranclp_into_rtranclp)
  moreover have "dict_get (ast_jobs d') k = (if k \<in> aj_job_id ` set (j # js)
            then map_option as_submitted (dict_get (ast_jobs d) k) else dict_get (ast_jobs d) k)" for k
  proof (cases "k = aj_job_id j")
    case True
    then have "k \<notin> aj_job_id ` set js" using Cons.prems(3) by auto
    with True ih j show ?thesis by (simp add: jobs dict_get_set eq)
  next
    case False
    with ih show ?thesis by (simp add: jobs dict_get_set)
  qed
  ultimately show ?case using ih us eq by simp
qed simp

lemma dict_ok_values_distinct:
  assumes "agents_ok d"
  shows "distinct (map aj_job_id (filter P (dict_values (ast_jobs d))))"
    and "j \<in> set (dict_values (ast_jobs d)) \<Longrightarrow> dict_get (ast_jobs d) (aj_job_id j) = Some j"
proof -
  have id: "fst p = aj_job_id (snd p)" if "p \<in> set (ast_jobs d)" for p
    using agents_okD(1) [OF assms] agents_okD(2) [OF assms, of "fst p" "snd p"] that
    by (simp add: dict_get_def dict_ok_def job_stored_def)
  then have "map aj_job_id (dict_values (ast_jobs d)) = map fst (ast_jobs d)"
    by (simp add: dict_values_def)
  then have "distinct (map aj_job_id (dict_values (ast_jobs d)))"
    using agents_okD(1) [OF assms] by (simp add: dict_ok_def)
  then show "distinct (map aj_job_id (filter P (dict_values (ast_jobs d))))"
    by (rule distinct_map_filter)
  show "dict_get (ast_jobs d) (aj_job_id j) = Some j" if "j \<in> set (dict_values (ast_jobs d))"
    using dict_values_get [OF agents_okD(1) [OF assms] that] agents_okD(2) [OF assms]
    by (auto simp: job_stored_def)
qed

lemma running_jobs_ok:
  assumes "agents_ok d"
  shows "distinct (map aj_job_id (running_jobs d))"
    and "j \<in> set (running_jobs d) \<longleftrightarrow> dict_get (ast_jobs d) (aj_job_id j) = Some j \<and> aj_status j = Agent_RUNNING"
proof -
  have "mset (map aj_job_id (running_jobs d)) =
      mset (map aj_job_id (filter (\<lambda>j. aj_status j = Agent_RUNNING) (dict_values (ast_jobs d))))"
    by (simp add: running_jobs_def)
  then show "distinct (map aj_job_id (running_jobs d))"
    using dict_ok_values_distinct(1) [OF assms] mset_eq_imp_distinct_iff by blast
  show "j \<in> set (running_jobs d) \<longleftrightarrow> dict_get (ast_jobs d) (aj_job_id j) = Some j \<and> aj_status j = Agent_RUNNING"
    using dict_ok_values_distinct(2) [OF assms] dict_get_in_values by (auto simp: running_jobs_def)
qed

lemma store_requeue_running_moves:
  assumes "agents_ok d" and "store_requeue_running uuid5 now limit d = Inr (us, d')"
  shows "agents_ok d' \<and> store_moves\<^sup>*\<^sup>* d d' \<and> us = map as_submitted (take (nat limit) (running_jobs d))
     \<and> (\<forall>k. dict_get (ast_jobs d') k = (if k \<in> aj_job_id ` set (take (nat limit) (running_jobs d))
            then map_option as_submitted (dict_get (ast_jobs d) k) else dict_get (ast_jobs d) k))"
proof (rule requeue_locked_moves)
  show "requeue_locked uuid5 now 0 (take (nat limit) (running_jobs d)) d = Inr (us, d')"
    using assms(2) by (auto simp: store_requeue_running_def bindE_eq_Inr)
  show "distinct (map aj_job_id (take (nat limit) (running_jobs d)))"
    using running_jobs_ok(1) [OF assms(1)] by (simp flip: take_map)
  show "\<forall>j \<in> set (take (nat limit) (running_jobs d)). dict_get (ast_jobs d) (aj_job_id j) = Some j"
    using running_jobs_ok(2) [OF assms(1)] by (auto dest: in_set_takeD)
qed (rule assms(1))

lemma store_requeue_job_moves:
  assumes "agents_ok d" and "store_requeue_job uuid5 now i d = Inr (r, d')"
  shows "agents_ok d' \<and> store_moves\<^sup>*\<^sup>* d d'"
proof (cases "\<exists>j. dict_get (ast_jobs d) i = Some j \<and> aj_status j = Agent_RUNNING")
  case True
  then obtain j us where j: "dict_get (ast_jobs d) i = Some j"
    and r: "requeue_locked uuid5 now 0 [j] d = Inr (us, d')"
    using assms(2) by (auto simp: store_requeue_job_def bindE_eq_Inr simp del: requeue_locked.simps)
  from requeue_locked_moves [OF r assms(1)] agents_okD(2) [OF assms(1) j] j show ?thesis
    by (simp add: job_stored_def)
next
  case False
  then have "d' = d" using assms(2) by (auto simp: store_requeue_job_def split: option.splits if_splits)
  with assms(1) show ?thesis by simp
qed

section \<open>Reachable stores\<close>

inductive agent_step :: "(uuid \<Rightarrow> string \<Rightarrow> uuid) \<Rightarrow> agent_store \<Rightarrow> agent_store \<Rightarrow> bool" for uuid5 where
  Create: "agent_job_post_init job = Inr job \<Longrightarrow> store_create uuid5 t job d = Inr (r, d') \<Longrightarrow> agent_step uuid5 d d'"
| Claim: "store_claim uuid5 now i owner d = Inr (r, d') \<Longrightarrow> agent_step uuid5 d d'"
| Complete: "store_complete uuid5 now i res owner d = Inr (r, d') \<Longrightarrow> agent_step uuid5 d d'"
| Fail: "store_fail uuid5 now i code owner d = Inr (r, d') \<Longrightarrow> agent_step uuid5 d d'"
| Reject: "store_reject uuid5 now i code owner d = Inr (r, d') \<Longrightarrow> agent_step uuid5 d d'"
| Requeue_running: "store_requeue_running uuid5 now limit d = Inr (us, d') \<Longrightarrow> agent_step uuid5 d d'"
| Requeue_job: "store_requeue_job uuid5 now i d = Inr (r', d') \<Longrightarrow> agent_step uuid5 d d'"

lemma one_step: "agents_ok d' \<and> store_moves d d' \<Longrightarrow> agents_ok d' \<and> store_moves\<^sup>*\<^sup>* d d'"
  by blast

lemma agent_step_moves: "agent_step uuid5 d d' \<Longrightarrow> agents_ok d \<Longrightarrow> agents_ok d' \<and> store_moves\<^sup>*\<^sup>* d d'"
proof (induction rule: agent_step.induct)
  case (Create job t d r d')
  obtain j b where r: "r = (j, b)" by (cases r)
  show ?case
  proof (cases b)
    case True
    with store_create_new [OF Create.prems Create.hyps(1)] Create.hyps(2) r show ?thesis
      by (metis one_step store_moves_def)
  next
    case False
    with store_create_again Create.hyps(2) Create.prems r show ?thesis by (metis rtranclp.rtrancl_refl)
  qed
next
  case (Claim now i owner d r d')
  then show ?case
    by (cases r) (metis store_claim_None rtranclp.rtrancl_refl, metis store_claim_Some call_moves_step one_step)
next
  case (Complete now i res owner d r d')
  then show ?case
    by (cases r) (metis store_complete_None rtranclp.rtrancl_refl, metis store_complete_Some call_moves_step one_step)
next
  case (Fail now i code owner d r d')
  then show ?case
    by (cases r) (metis store_fail_None rtranclp.rtrancl_refl, metis store_fail_Some call_moves_step one_step)
next
  case (Reject now i code owner d r d')
  then show ?case
    by (cases r) (metis store_reject_None rtranclp.rtrancl_refl, metis store_reject_Some call_moves_step one_step)
qed (use store_requeue_running_moves store_requeue_job_moves in blast)+

interpretation agents: invariant_system "\<lambda>d. d = empty_agent_store" "agent_step uuid5" agents_ok
  by unfold_locales (simp_all add: agents_ok_empty agent_step_moves)

lemma steps_move: "(agent_step uuid5)\<^sup>*\<^sup>* d d' \<Longrightarrow> agents_ok d \<Longrightarrow> agents_ok d' \<and> store_moves\<^sup>*\<^sup>* d d'"
proof (induction rule: rtranclp_induct)
  case (step e f)
  then show ?case using agent_step_moves by (metis rtranclp_trans)
qed simp


section \<open>Demo states\<close>

lemma demo_payloads_public:
  "\<not> private_members queued_payload" "\<not> private_members running_payload" "\<not> private_members recovered_payload"
  by code_simp+

lemma demo_failed_public: "\<not> private_members (failed_payload ''agent_execution_failed'')"
  by code_simp


definition demo_agent_job :: agent_job where
  "demo_agent_job = \<lparr>aj_job_id = 5, aj_owner_profile_id = 7, aj_thread_id = 8, aj_series_id = 1,
     aj_question = ''Who?'', aj_candidates = [demo_ref 1], aj_scope = demo_scope, aj_scope_revision = ''v1'',
     aj_idempotency_key = ''00000000-0000-0000-0000-000000000001'', aj_fingerprint = replicate 64 CHR ''a'',
     aj_created_at = 100, aj_status = Agent_QUEUED, aj_started_at = None, aj_finished_at = None, aj_result = None,
     aj_error_code = None, aj_request_id = None, aj_spoiler_mode = RELAXED, aj_safe_through = None\<rparr>"

lemma demo_agent_job_valid: "agent_job_post_init demo_agent_job = Inr demo_agent_job"
proof -
  have key: "canonical_uuid ''00000000-0000-0000-0000-000000000001''" by code_simp
  have fp: "sha256_pattern (replicate 64 CHR ''a'')" by code_simp
  have al: "allows_all demo_scope [demo_ref 1] = Inr True" by code_simp
  have q: "\<not> untrimmed ''Who?''" by code_simp
  have f: "ref_series_id (demo_ref 1) = 1" "cas_revision demo_scope = ''v1''"
    by (simp_all add: demo_ref_def demo_scope_def)
  have s: "agent_job_static demo_agent_job = Inr ()"
    using key fp al q f by (simp add: agent_job_static_def demo_agent_job_def opt_holds_def)
  show ?thesis
    by (simp add: agent_job_post_init_iff s)
      (simp add: agent_job_times_def agent_job_state_def demo_agent_job_def opt_holds_def)
qed

text \<open>The demo job created, and then claimed; identifiers of events count up from the job's.\<close>

definition agent_uuid5 :: "uuid \<Rightarrow> string \<Rightarrow> uuid" where
  "agent_uuid5 i s = i + sum_list (map of_char s)"

definition demo_event :: "agent_job_event_kind \<Rightarrow> payload \<Rightarrow> int \<Rightarrow> nat \<Rightarrow> agent_job_event" where
  "demo_event kind pl t n = new_event agent_uuid5 5 kind pl t n"

definition demo_created :: agent_store where
  "demo_created = \<lparr>ast_jobs = [(5, demo_agent_job)], ast_events = [(5, [demo_event Kind_QUEUED queued_payload 101 0])],
     ast_keys = [((7, ''00000000-0000-0000-0000-000000000001''), 5)]\<rparr>"

definition demo_running_job :: agent_job where
  "demo_running_job = demo_agent_job\<lparr>aj_status := Agent_RUNNING, aj_started_at := Some 102\<rparr>"

definition demo_claimed :: agent_store where
  "demo_claimed = demo_created\<lparr>ast_jobs := [(5, demo_running_job)],
     ast_events := [(5, [demo_event Kind_QUEUED queued_payload 101 0, demo_event Kind_RUNNING running_payload 103 1])]\<rparr>"

lemmas demo_store_defs = demo_created_def demo_claimed_def demo_event_def new_event_def dict_get_def dict_set_def
  append_event_locked_def append_locked_def agent_event_post_init_def log_of_def Let_def

lemma demo_event_ids: "agent_uuid5 5 (''agent-job-event:'' @ decimal 1) \<noteq> agent_uuid5 5 (''agent-job-event:'' @ decimal 2)"
  by code_simp

lemma demo_agent_create:
  "store_create agent_uuid5 101 demo_agent_job empty_agent_store = Inr ((demo_agent_job, True), demo_created)"
  by (simp add: store_create_def empty_agent_store_def demo_store_defs demo_agent_job_def terminal_kind_def
      demo_payloads_public)

lemma demo_agent_claim:
  "store_claim agent_uuid5 (\<lambda>n. 102 + int n) 5 None demo_created = Inr (Some demo_running_job, demo_claimed)"
proof -
  have g: "store_get_job demo_created 5 None = Some demo_agent_job"
    by (simp add: store_get_job_def demo_store_defs opt_holds_def)
  have q: "aj_status demo_agent_job = Agent_QUEUED" "aj_created_at demo_agent_job = 100"
    by (simp_all add: demo_agent_job_def)
  have s: "job_start demo_agent_job 102 = Inr demo_running_job"
    using job_start_valid [OF demo_agent_job_valid q(1), of 102] q by (simp add: demo_running_job_def)
  have "advance agent_uuid5 5 Kind_RUNNING running_payload 103 demo_running_job demo_created = Inr demo_claimed"
    using demo_event_ids
    by (simp add: advance_def demo_store_defs demo_running_job_def terminal_kind_def demo_payloads_public
        numeral_2_eq_2)
  with g q s show ?thesis by (simp add: store_claim_def)
qed

lemma demo_agent_reach:
  "reach (\<lambda>d. d = empty_agent_store) (agent_step agent_uuid5) demo_created"
  "agent_step agent_uuid5 demo_created demo_claimed"
  "reach (\<lambda>d. d = empty_agent_store) (agent_step agent_uuid5) demo_claimed"
proof -
  show a: "reach (\<lambda>d. d = empty_agent_store) (agent_step agent_uuid5) demo_created"
    by (rule reach_step [OF reach_init]) (rule refl, rule Create [OF demo_agent_job_valid demo_agent_create])
  show b: "agent_step agent_uuid5 demo_created demo_claimed"
    by (rule Claim [OF demo_agent_claim])
  show "reach (\<lambda>d. d = empty_agent_store) (agent_step agent_uuid5) demo_claimed"
    by (rule reach_step [OF a b])
qed

section \<open>Properties\<close>

text \<open>
  C27: the event log of every job of a reachable store is its history.  It begins with the job
  being queued and ends with the job's present status; each event follows its predecessor in the
  state machine (queued to running or failed, running back to queued or to an outcome); the events
  are numbered 1, 2, ... and dated in order; their payloads hold no private key or text; and an
  outcome is recorded once, as the last event.
\<close>

theorem agent_log_is_history:
  assumes "reach (\<lambda>d. d = empty_agent_store) (agent_step uuid5) d" and "dict_get (ast_jobs d) i = Some j"
  shows "\<exists>es. list_events_after d i 0 None = Inr es \<and> es \<noteq> [] \<and> aje_kind (hd es) = Kind_QUEUED
    \<and> aje_kind (last es) = kind_of_status (aj_status j)
    \<and> (\<forall>k. Suc k < length es \<longrightarrow> next_kind (aje_kind (es ! k)) (aje_kind (es ! Suc k)))
    \<and> (\<forall>k < length es. aje_sequence (es ! k) = int k + 1 \<and> aje_job_id (es ! k) = i
         \<and> \<not> private_members (aje_payload (es ! k))
         \<and> (terminal_kind (aje_kind (es ! k)) \<longrightarrow> Suc k = length es))
    \<and> sorted (map aje_occurred_at es)"
proof -
  have ok: "agents_ok d" by (rule agents.reach_inv [OF assms(1)])
  have l: "log_ok j (log_of d i)" and id: "aj_job_id j = i"
    using agents_okD(2) [OF ok assms(2)] by (simp_all add: job_stored_def)
  have "\<forall>e \<in> set (log_of d i). 0 < aje_sequence e"
    using sequence_nth [OF l] by (auto simp: in_set_conv_nth)
  then have "list_events_after d i 0 None = Inr (log_of d i)"
    using assms(2) by (simp add: list_events_after_def store_get_job_Some store_get_job_def opt_holds_def)
  moreover have "aje_job_id (log_of d i ! k) = i \<and> \<not> private_members (aje_payload (log_of d i ! k))"
    if "k < length (log_of d i)" for k
    using l id that by (simp add: log_ok_def)
  ultimately show ?thesis
    using l kinds_successive [OF l] sequence_nth [OF l] terminal_event_last [OF l]
    by (intro exI [of _ "log_of d i"]) (simp add: log_ok_def)
qed

theorem agent_log_is_history_witness:
  "\<exists>es. list_events_after demo_claimed 5 0 None = Inr es \<and> aje_kind (hd es) = Kind_QUEUED
     \<and> aje_kind (last es) = Kind_RUNNING"
proof -
  have "dict_get (ast_jobs demo_claimed) 5 = Some demo_running_job"
    by (simp add: demo_store_defs)
  from agent_log_is_history [OF demo_agent_reach(3) this] show ?thesis
    by (auto simp: demo_running_job_def)
qed


lemma list_events_after_history:
  assumes "agents_ok d" and "store_get_job d i owner = Some j" and "0 \<le> c"
  shows "list_events_after d i c owner = Inr (drop (nat c) (history d i))"
proof -
  have j: "dict_get (ast_jobs d) i = Some j" using assms(2) by (simp add: store_get_job_Some)
  have l: "log_ok j (log_of d i)" using agents_okD(2) [OF assms(1) j] by (simp add: job_stored_def)
  have "filter (\<lambda>e. c < aje_sequence e) es = drop (nat c - m) es"
    if "\<forall>k < length es. aje_sequence (es ! k) = int (m + k) + 1" for es :: "agent_job_event list" and m
    using that
  proof (induction es arbitrary: m)
    case (Cons e es)
    have "\<forall>k < length es. aje_sequence (es ! k) = int (Suc m + k) + 1"
      using Cons.prems by fastforce
    note ih = Cons.IH [OF this]
    have e: "aje_sequence e = int m + 1" using Cons.prems by force
    show ?case
    proof (cases "c < int m + 1")
      case True
      then have "nat c - m = 0" "nat c - Suc m = 0" using assms(3) by auto
      with ih e True show ?thesis by simp
    next
      case False
      then have "nat c - m = Suc (nat c - Suc m)" using assms(3) by linarith
      with ih e False show ?thesis by simp
    qed
  qed simp
  from this [of "log_of d i" 0] have "filter (\<lambda>e. c < aje_sequence e) (log_of d i) = drop (nat c) (log_of d i)"
    using sequence_nth [OF l] by simp
  with assms(2,3) j show ?thesis by (simp add: list_events_after_def history_def)
qed

text \<open>
  C28: replaying a log from a cursor loses nothing and repeats nothing.  A reader that has seen the
  events of a job, and later asks for the events after the number of the last one it saw, receives
  what completes its list to the whole log at that time, however the store moved in between.
\<close>

theorem event_cursor_replay:
  assumes "reach (\<lambda>d. d = empty_agent_store) (agent_step uuid5) d" and "(agent_step uuid5)\<^sup>*\<^sup>* d d'"
    and "list_events_after d i 0 owner = Inr seen"
    and "list_events_after d' i (int (length seen)) owner = Inr unseen"
  shows "list_events_after d' i 0 owner = Inr (seen @ unseen)"
proof (cases "store_get_job d i owner")
  case None
  then have "seen = []" using assms(3) by (simp add: list_events_after_def)
  with assms(4) show ?thesis by simp
next
  case (Some j)
  have ok: "agents_ok d" by (rule agents.reach_inv [OF assms(1)])
  note m = steps_move [OF assms(2) ok]
  have j: "dict_get (ast_jobs d) i = Some j" using Some by (simp add: store_get_job_Some)
  obtain j' where j': "dict_get (ast_jobs d') i = Some j'" "as_submitted j' = as_submitted j"
    using moves_persist [OF _ j] m by (auto simp: job_persists_def)
  have s': "store_get_job d' i owner = Some j'"
    using Some j' as_submitted_fields(2) [OF j'(2)] by (simp add: store_get_job_Some)
  have seen: "seen = history d i" using list_events_after_history [OF ok Some] assms(3) by simp
  have "unseen = drop (length seen) (history d' i)"
    using list_events_after_history [OF _ s', of "int (length seen)"] m assms(4) by simp
  then have "history d' i = seen @ unseen"
    using agent_log.reader_catches_up [of d d' i] m seen by simp
  with list_events_after_history [OF _ s', of 0] m show ?thesis by simp
qed

theorem event_cursor_replay_witness:
  "list_events_after demo_claimed 5 0 (Some 7)
     = Inr ([demo_event Kind_QUEUED queued_payload 101 0] @ [demo_event Kind_RUNNING running_payload 103 1])"
proof (rule event_cursor_replay [OF demo_agent_reach(1)])
  show "(agent_step agent_uuid5)\<^sup>*\<^sup>* demo_created demo_claimed"
    using demo_agent_reach(2) by simp
qed (simp_all add: list_events_after_def store_get_job_def demo_store_defs opt_holds_def demo_agent_job_def
    demo_running_job_def)

text \<open>
  C29: every stored job satisfies the checks of its class, for ever: a later version of it
  also does, keeps every field of the request that was submitted, and equals it with its log
  unchanged once its status is terminal.
\<close>

theorem stored_jobs_well_formed:
  assumes "reach (\<lambda>d. d = empty_agent_store) (agent_step uuid5) d" and "(agent_step uuid5)\<^sup>*\<^sup>* d d'"
    and "dict_get (ast_jobs d) i = Some j"
  shows "agent_job_post_init j = Inr j \<and> aj_job_id j = i
    \<and> (\<exists>j'. dict_get (ast_jobs d') i = Some j' \<and> agent_job_post_init j' = Inr j'
         \<and> as_submitted j' = as_submitted j
         \<and> (terminal (aj_status j) \<longrightarrow> j' = j \<and> list_events_after d' i 0 None = list_events_after d i 0 None))"
proof -
  have ok: "agents_ok d" by (rule agents.reach_inv [OF assms(1)])
  note m = steps_move [OF assms(2) ok]
  obtain j' where j': "dict_get (ast_jobs d') i = Some j'" "as_submitted j' = as_submitted j"
    "terminal (aj_status j) \<longrightarrow> j' = j \<and> log_of d' i = log_of d i"
    using moves_persist [OF _ assms(3)] m by (auto simp: job_persists_def)
  have v: "agent_job_post_init j' = Inr j'"
    using agents_okD(2) [OF _ j'(1)] m by (simp add: job_stored_def)
  have "list_events_after d' i 0 None = list_events_after d i 0 None" if "log_of d' i = log_of d i"
    using that j'(1) assms(3) by (simp add: list_events_after_def store_get_job_def opt_holds_def)
  with j' v agents_okD(2) [OF ok assms(3)] show ?thesis by (simp add: job_stored_def)
qed

theorem stored_jobs_well_formed_witness:
  "\<exists>j'. dict_get (ast_jobs demo_claimed) 5 = Some j' \<and> agent_job_post_init j' = Inr j'
     \<and> as_submitted j' = demo_agent_job"
proof -
  have j: "dict_get (ast_jobs demo_created) 5 = Some demo_agent_job"
    by (simp add: demo_store_defs)
  have s: "(agent_step agent_uuid5)\<^sup>*\<^sup>* demo_created demo_claimed"
    using demo_agent_reach(2) by simp
  have "as_submitted demo_agent_job = demo_agent_job"
    by (simp add: as_submitted_def demo_agent_job_def)
  with stored_jobs_well_formed [OF demo_agent_reach(1) s j] show ?thesis by auto
qed

text \<open>
  Creating a job is idempotent per owner and key.  Once a job was created, every later request
  of the same owner with the same key changes nothing: it is answered by that job in its present
  state when the fingerprints agree, and refused as a conflict when they differ.
\<close>

theorem agent_create_idempotent:
  assumes "reach (\<lambda>d. d = empty_agent_store) (agent_step uuid5) d0" and "agent_job_post_init job = Inr job"
    and "store_create uuid5 t job d0 = Inr ((stored, True), d)" and "(agent_step uuid5)\<^sup>*\<^sup>* d d'"
    and "aj_owner_profile_id again = aj_owner_profile_id job"
    and "aj_idempotency_key again = aj_idempotency_key job"
  shows "\<exists>now. dict_get (ast_jobs d') (aj_job_id job) = Some now \<and> as_submitted now = job
    \<and> (aj_fingerprint again = aj_fingerprint job
         \<longrightarrow> store_create uuid5 t' again d' = Inr ((now, False), d'))
    \<and> (aj_fingerprint again \<noteq> aj_fingerprint job
         \<longrightarrow> store_create uuid5 t' again d' = Inl (AgentJobIdempotencyConflictError STR ''IDEMPOTENCY_CONFLICT''))"
proof -
  have ok0: "agents_ok d0" by (rule agents.reach_inv [OF assms(1)])
  note c = store_create_new [OF ok0 assms(2,3)]
  have j: "dict_get (ast_jobs d) (aj_job_id job) = Some job" and q: "aj_status job = Agent_QUEUED"
    using c by (simp_all add: created_def dict_get_set)
  note m = steps_move [OF assms(4)]
  obtain j' where j': "dict_get (ast_jobs d') (aj_job_id job) = Some j'" "as_submitted j' = as_submitted job"
    using moves_persist [OF _ j] m c by (auto simp: job_persists_def)
  note f = as_submitted_fields [OF j'(2)]
  have "dict_get (ast_keys d') (aj_owner_profile_id job, aj_idempotency_key job) = Some (aj_job_id job)"
    using agents_okD(2) [OF _ j'(1)] m c f by (simp add: job_stored_def)
  with j' f assms(5,6) valid_queued [OF assms(2) q] show ?thesis
    by (simp add: store_create_def)
qed

theorem agent_create_idempotent_witness:
  "store_create agent_uuid5 900 demo_agent_job demo_claimed = Inr ((demo_running_job, False), demo_claimed)"
proof -
  have s: "(agent_step agent_uuid5)\<^sup>*\<^sup>* demo_created demo_claimed"
    using demo_agent_reach(2) by simp
  have "dict_get (ast_jobs demo_claimed) (aj_job_id demo_agent_job) = Some demo_running_job"
    by (simp add: demo_store_defs demo_agent_job_def)
  have e: "reach (\<lambda>d. d = empty_agent_store) (agent_step agent_uuid5) empty_agent_store"
    by (rule reach_init) (rule refl)
  from agent_create_idempotent [OF e demo_agent_job_valid demo_agent_create s refl refl, of 900]
    \<open>dict_get _ _ = _\<close>
  show ?thesis by simp
qed

end
