(* ===== verification/Agent_Request.thy ===== *)
theory Agent_Request
  imports Agent_Job "HOL-Library.Product_Lexorder" "HOL-Library.Multiset"
begin

text \<open>
  A request to the series agent: the bounds of \<open>config/agent_jobs.py\<close>, the command, the canonical
  payload whose digest is the request's fingerprint (\<open>common/identifiers/agent_jobs.py\<close>), the job
  \<open>submit\<close> builds from it, and the query a worker runs (\<open>application/models/conversation.py\<close>).
\<close>

section \<open>Configuration\<close>

text \<open>Seconds are finite floats, which are rational numbers.\<close>

record agent_job_config =
  ajc_question_min :: int
  ajc_question_max :: int
  ajc_candidate_max :: int
  ajc_key_max :: int
  ajc_worker_limit :: int
  ajc_pending_limit :: int
  ajc_sse_poll :: rat
  ajc_sse_heartbeat :: rat
  ajc_sse_max_duration :: rat
  ajc_client_poll :: rat
  ajc_transport_grace :: int
  ajc_recovery_scan :: rat
  ajc_recovery_batch :: int
  ajc_recovery_shutdown :: rat
  ajc_sse_max_events :: int
  ajc_sse_replay_batch :: int
  ajc_provider_timeout :: rat
  ajc_evidence_limit :: int
  ajc_evidence_max_chars :: int
  ajc_evidence_cache_control :: string
  ajc_sse_media_type :: string
  ajc_sse_cache_control :: string
  ajc_sse_accel_buffering :: string
  ajc_sse_connection :: string

definition DEFAULT_AGENT_JOB_CONFIGURATION :: agent_job_config where
  "DEFAULT_AGENT_JOB_CONFIGURATION =
     \<lparr>ajc_question_min = 2, ajc_question_max = 2000, ajc_candidate_max = 256, ajc_key_max = 36,
      ajc_worker_limit = 4, ajc_pending_limit = 32, ajc_sse_poll = 1 / 20, ajc_sse_heartbeat = 15,
      ajc_sse_max_duration = 120, ajc_client_poll = 12 / 10, ajc_transport_grace = 15, ajc_recovery_scan = 5,
      ajc_recovery_batch = 32, ajc_recovery_shutdown = 5, ajc_sse_max_events = 128, ajc_sse_replay_batch = 64,
      ajc_provider_timeout = 60, ajc_evidence_limit = 32, ajc_evidence_max_chars = 4000,
      ajc_evidence_cache_control = ''private, no-store'', ajc_sse_media_type = ''text/event-stream'',
      ajc_sse_cache_control = ''no-cache, no-transform'', ajc_sse_accel_buffering = ''no'',
      ajc_sse_connection = ''keep-alive''\<rparr>"

definition agent_job_config_post_init :: "agent_job_config \<Rightarrow> agent_job_config result" where
  "agent_job_config_post_init c =
     (if list_ex (\<lambda>v. v < 1) [ajc_question_min c, ajc_question_max c, ajc_candidate_max c, ajc_key_max c,
          ajc_worker_limit c, ajc_pending_limit c, ajc_sse_max_events c, ajc_sse_replay_batch c,
          ajc_evidence_limit c, ajc_evidence_max_chars c, ajc_transport_grace c, ajc_recovery_batch c]
        then Inl (ValueError STR ''CONFIG_INTEGER_LIMITS'')
      else if ajc_key_max c \<noteq> 36 then Inl (ValueError STR ''CONFIG_IDEMPOTENCY_UUID'')
      else if ajc_question_min c > ajc_question_max c then Inl (ValueError STR ''CONFIG_QUESTION_LIMITS'')
      else if list_ex (\<lambda>v. v \<le> 0) [ajc_sse_poll c, ajc_sse_heartbeat c, ajc_sse_max_duration c, ajc_client_poll c,
          ajc_recovery_scan c, ajc_recovery_shutdown c, ajc_provider_timeout c]
        then Inl (ValueError STR ''CONFIG_TIMING_LIMITS'')
      else if ajc_sse_replay_batch c > ajc_sse_max_events c then Inl (ValueError STR ''CONFIG_REPLAY_LIMIT'')
      else if ajc_recovery_batch c > ajc_pending_limit c then Inl (ValueError STR ''CONFIG_RECOVERY_BATCH'')
      else if \<not> (ajc_sse_poll c \<le> ajc_sse_heartbeat c \<and> ajc_sse_heartbeat c \<le> ajc_sse_max_duration c)
        then Inl (ValueError STR ''CONFIG_TIMING_RELATION'')
      else if ajc_client_poll c * 1000 < 1 then Inl (ValueError STR ''CONFIG_TIMING_LIMITS'')
      else if list_ex untrimmed [ajc_sse_media_type c, ajc_sse_cache_control c, ajc_sse_accel_buffering c,
          ajc_sse_connection c, ajc_evidence_cache_control c]
        then Inl (ValueError STR ''CONFIG_SSE_HEADERS'')
      else Inr c)"

section \<open>Commands and fingerprints\<close>

record submit_command =
  sub_owner_profile_id :: uuid
  sub_thread_id :: uuid
  sub_series_id :: uuid
  sub_question :: string
  sub_scope_revision :: string
  sub_scope :: corpus_access_scope
  sub_candidates :: "episode_ref list"
  sub_idempotency_key :: string
  sub_request_id :: "string option"
  sub_spoiler_mode :: spoiler_mode
  sub_safe_through :: "uuid option"

fun spoiler_mode_value :: "spoiler_mode \<Rightarrow> string" where
  "spoiler_mode_value STRICT = ''strict''"
| "spoiler_mode_value SEQUENTIAL = ''sequential''"
| "spoiler_mode_value RELAXED = ''relaxed''"

fun corpus_mode_value :: "corpus_access_mode \<Rightarrow> string" where
  "corpus_mode_value Corpus_GUEST = ''guest''"
| "corpus_mode_value Corpus_AUTHENTICATED = ''authenticated''"

text \<open>
  \<open>sorted((str(series_id), season_number), ...)\<close>: the texts of UUIDs have one length and one layout,
  so they are ordered as the UUIDs are.
\<close>

definition season_pairs :: "corpus_access_scope \<Rightarrow> (uuid \<times> int) list" where
  "season_pairs s = sorted_list_of_set ((\<lambda>a. (csa_series_id a, csa_season_number a)) ` cas_allowed_seasons s)"

definition scope_payload :: "corpus_access_scope \<Rightarrow> json" where
  "scope_payload s = JObj
     [(''mode'', JStr (corpus_mode_value (cas_mode s))),
      (''seasons'', JList (map (\<lambda>(i, n). JList [JStr (uuid_str i), JInt n]) (season_pairs s))),
      (''unrestricted'', JBool (cas_unrestricted s))]"

text \<open>The dictionary with its keys in sorted order, which is the order in which the code writes them.\<close>

definition request_payload ::
    "uuid \<Rightarrow> uuid \<Rightarrow> uuid \<Rightarrow> string \<Rightarrow> string \<Rightarrow> corpus_access_scope \<Rightarrow> episode_ref list \<Rightarrow> spoiler_mode
      \<Rightarrow> uuid option \<Rightarrow> json" where
  "request_payload owner thread series question revision scope candidates mode safe_through = JObj
     [(''candidates'', JList (map (\<lambda>i. JStr (uuid_str i)) (sort (map ref_episode_id candidates)))),
      (''profile'', JStr (uuid_str owner)),
      (''question'', JStr question),
      (''revision'', JStr revision),
      (''safe_through_episode_id'', case safe_through of None \<Rightarrow> JNull | Some i \<Rightarrow> JStr (uuid_str i)),
      (''scope'', scope_payload scope),
      (''series'', JStr (uuid_str series)),
      (''spoiler_mode'', JStr (spoiler_mode_value mode)),
      (''thread'', JStr (uuid_str thread))]"

definition canonical_request_fingerprint ::
    "(string \<Rightarrow> string) \<Rightarrow> uuid \<Rightarrow> uuid \<Rightarrow> uuid \<Rightarrow> string \<Rightarrow> string \<Rightarrow> corpus_access_scope \<Rightarrow> episode_ref list
      \<Rightarrow> spoiler_mode \<Rightarrow> uuid option \<Rightarrow> string result" where
  "canonical_request_fingerprint sha owner thread series question revision scope candidates mode safe_through =
     (if untrimmed question then Inl (ValueError STR ''question must be trimmed'')
      else if has_duplicates (map ref_episode_id candidates) then Inl (ValueError STR ''candidates must be unique'')
      else Inr (sha (json_dumps
        (request_payload owner thread series question revision scope candidates mode safe_through))))"

definition stable_agent_job_id :: "(string \<Rightarrow> uuid) \<Rightarrow> uuid \<Rightarrow> string \<Rightarrow> string \<Rightarrow> uuid" where
  "stable_agent_job_id uuid5 owner key fingerprint = uuid5 (uuid_str owner @ '':'' @ key @ '':'' @ fingerprint)"

section \<open>The job of a command\<close>

definition candidate_key :: "episode_ref \<Rightarrow> int \<times> int \<times> uuid" where
  "candidate_key e = (season_number (ref_position e), episode_number (ref_position e), ref_episode_id e)"

definition command_fingerprint :: "(string \<Rightarrow> string) \<Rightarrow> submit_command \<Rightarrow> string result" where
  "command_fingerprint sha c =
     canonical_request_fingerprint sha (sub_owner_profile_id c) (sub_thread_id c) (sub_series_id c)
       (sub_question c) (sub_scope_revision c) (sub_scope c) (sort_key candidate_key (sub_candidates c))
       (sub_spoiler_mode c) (sub_safe_through c)"

text \<open>The checks of \<open>submit\<close> and the job it hands to the repository, at the time its clock shows.\<close>

definition command_job ::
    "agent_job_config \<Rightarrow> (string \<Rightarrow> string) \<Rightarrow> (string \<Rightarrow> uuid) \<Rightarrow> int \<Rightarrow> submit_command \<Rightarrow> agent_job result" where
  "command_job cfg sha uuid5 now c =
     (if \<not> canonical_uuid (sub_idempotency_key c) then Inl (ValueError STR ''IDEMPOTENCY_INVALID'')
      else if \<not> (ajc_question_min cfg \<le> int (length (sub_question c))
          \<and> int (length (sub_question c)) \<le> ajc_question_max cfg)
        then Inl (ValueError STR ''QUESTION_BOUNDS'')
      else if int (length (sub_candidates c)) > ajc_candidate_max cfg then Inl (ValueError STR ''CANDIDATE_LIMIT'')
      else if has_duplicates (map ref_episode_id (sub_candidates c)) then Inl (ValueError STR ''CANDIDATES_UNIQUE'')
      else bindE (command_fingerprint sha c) (\<lambda>fingerprint.
        agent_job_post_init
          \<lparr>aj_job_id = stable_agent_job_id uuid5 (sub_owner_profile_id c) (sub_idempotency_key c) fingerprint,
           aj_owner_profile_id = sub_owner_profile_id c, aj_thread_id = sub_thread_id c,
           aj_series_id = sub_series_id c, aj_question = sub_question c,
           aj_candidates = sort_key candidate_key (sub_candidates c), aj_scope = sub_scope c,
           aj_scope_revision = sub_scope_revision c, aj_idempotency_key = sub_idempotency_key c,
           aj_fingerprint = fingerprint, aj_created_at = now, aj_status = Agent_QUEUED, aj_started_at = None,
           aj_finished_at = None, aj_result = None, aj_error_code = None, aj_request_id = sub_request_id c,
           aj_spoiler_mode = sub_spoiler_mode c, aj_safe_through = sub_safe_through c\<rparr>))"

section \<open>The query of a job\<close>

record series_chat_query =
  scq_thread_id :: uuid
  scq_profile_id :: uuid
  scq_scope_revision :: string
  scq_question :: string
  scq_series_id :: uuid
  scq_candidates :: "episode_ref list"
  scq_scope :: corpus_access_scope
  scq_watch_state :: "profile_watch_state option"

definition SERIES_QUESTION_MAX_LENGTH :: nat where
  "SERIES_QUESTION_MAX_LENGTH = 2000"

definition SERIES_MAX_CANDIDATE_EPISODES :: nat where
  "SERIES_MAX_CANDIDATE_EPISODES = 256"

definition series_query_post_init :: "series_chat_query \<Rightarrow> series_chat_query result" where
  "series_query_post_init q =
     (if untrimmed (scq_scope_revision q)
        then Inl (InvalidModelError STR ''SERIES_QUERY_SCOPE_REVISION_MUST_BE_TRIMMED'')
      else if untrimmed (scq_question q) \<or> length (scq_question q) > SERIES_QUESTION_MAX_LENGTH
        then Inl (InvalidModelError STR ''SERIES_QUERY_QUESTION_MUST_BE_BOUNDED'')
      else if scq_candidates q = [] then Inl (InvalidModelError STR ''SERIES_QUERY_CANDIDATES_MUST_BE_VALID'')
      else if scq_scope_revision q \<noteq> cas_revision (scq_scope q)
        then Inl (InvalidModelError STR ''BINDING_PERMISSION_SCOPE_REVISION_MUST_MATCH_ACCESS_SCOPE'')
      else if length (scq_candidates q) > SERIES_MAX_CANDIDATE_EPISODES
        then Inl (InvalidModelError STR ''SERIES_QUERY_CANDIDATE_LIMIT_EXCEEDED'')
      else if list_ex (\<lambda>e. ref_series_id e \<noteq> scq_series_id q) (scq_candidates q)
          \<or> has_duplicates (map ref_episode_id (scq_candidates q))
        then Inl (InvalidModelError STR ''SERIES_QUERY_CANDIDATES_MUST_SHARE_SERIES'')
      else Inr q)"

definition job_watch_state :: "agent_job \<Rightarrow> profile_watch_state result" where
  "job_watch_state j =
     build_bounded_watch_state (aj_owner_profile_id j) ''API session'' (aj_series_id j) (aj_candidates j)
       (aj_spoiler_mode j) (aj_safe_through j)"

definition job_query :: "agent_job \<Rightarrow> series_chat_query result" where
  "job_query j =
     bindE (job_watch_state j) (\<lambda>w. series_query_post_init
       \<lparr>scq_thread_id = aj_thread_id j, scq_profile_id = aj_owner_profile_id j,
        scq_scope_revision = aj_scope_revision j, scq_question = aj_question j, scq_series_id = aj_series_id j,
        scq_candidates = aj_candidates j, scq_scope = aj_scope j, scq_watch_state = Some w\<rparr>)"


section \<open>Fingerprints identify requests\<close>

text \<open>What a fingerprint covers: everything but the order of the candidates and the request's trace id.\<close>

definition same_agent_request :: "submit_command \<Rightarrow> submit_command \<Rightarrow> bool" where
  "same_agent_request c d \<longleftrightarrow>
     sub_owner_profile_id c = sub_owner_profile_id d \<and> sub_thread_id c = sub_thread_id d
     \<and> sub_series_id c = sub_series_id d \<and> sub_question c = sub_question d
     \<and> sub_scope_revision c = sub_scope_revision d
     \<and> cas_mode (sub_scope c) = cas_mode (sub_scope d)
     \<and> cas_unrestricted (sub_scope c) = cas_unrestricted (sub_scope d)
     \<and> cas_allowed_seasons (sub_scope c) = cas_allowed_seasons (sub_scope d)
     \<and> ref_episode_id ` set (sub_candidates c) = ref_episode_id ` set (sub_candidates d)
     \<and> sub_spoiler_mode c = sub_spoiler_mode d \<and> sub_safe_through c = sub_safe_through d"

definition command_uuids :: "submit_command \<Rightarrow> uuid set" where
  "command_uuids c = {sub_owner_profile_id c, sub_thread_id c, sub_series_id c}
     \<union> csa_series_id ` cas_allowed_seasons (sub_scope c) \<union> ref_episode_id ` set (sub_candidates c)
     \<union> set_option (sub_safe_through c)"

definition request_ids_ok :: "submit_command \<Rightarrow> bool" where
  "request_ids_ok c \<longleftrightarrow> (\<forall>u \<in> command_uuids c. u < 2 ^ 128) \<and> finite (cas_allowed_seasons (sub_scope c))"

lemma request_ids_okD:
  assumes "request_ids_ok c"
  shows "sub_owner_profile_id c < 2 ^ 128" "sub_thread_id c < 2 ^ 128" "sub_series_id c < 2 ^ 128"
    and "finite (cas_allowed_seasons (sub_scope c))"
    and "a \<in> cas_allowed_seasons (sub_scope c) \<Longrightarrow> csa_series_id a < 2 ^ 128"
    and "e \<in> set (sub_candidates c) \<Longrightarrow> ref_episode_id e < 2 ^ 128"
    and "sub_safe_through c = Some i \<Longrightarrow> i < 2 ^ 128"
  using assms unfolding request_ids_ok_def command_uuids_def by auto

lemma uuid_json_inj:
  "map (\<lambda>i. JStr (uuid_str i)) xs = map (\<lambda>i. JStr (uuid_str i)) ys \<Longrightarrow> \<forall>u \<in> set xs \<union> set ys. u < 2 ^ 128 \<Longrightarrow> xs = ys"
  by (rule map_inj_on [where f = "\<lambda>i. JStr (uuid_str i)"]) (auto intro!: inj_onI dest: uuid_str_inj)

lemma season_json_inj:
  assumes "map (\<lambda>(i, n). JList [JStr (uuid_str i), JInt n]) ps = map (\<lambda>(i, n). JList [JStr (uuid_str i), JInt n]) qs"
    and "\<forall>p \<in> set ps \<union> set qs. fst p < 2 ^ 128"
  shows "ps = qs"
proof (rule map_inj_on [OF assms(1)], rule inj_onI)
  fix x y
  assume m: "x \<in> set ps \<union> set qs" "y \<in> set ps \<union> set qs"
    and e: "(case x of (i, n) \<Rightarrow> JList [JStr (uuid_str i), JInt n]) = (case y of (i, n) \<Rightarrow> JList [JStr (uuid_str i), JInt n])"
  have "uuid_str (fst x) = uuid_str (fst y)" "snd x = snd y" using e by (simp_all add: case_prod_beta)
  moreover have "fst x < 2 ^ 128" "fst y < 2 ^ 128" using m assms(2) by blast+
  ultimately show "x = y" using uuid_str_inj by (simp add: prod_eq_iff)
qed

lemma season_pairs_inj:
  assumes "season_pairs s = season_pairs t" and "finite (cas_allowed_seasons s)" and "finite (cas_allowed_seasons t)"
  shows "cas_allowed_seasons s = cas_allowed_seasons t"
proof -
  let ?f = "\<lambda>a :: corpus_season_access. (csa_series_id a, csa_season_number a)"
  have "?f ` cas_allowed_seasons s = ?f ` cas_allowed_seasons t"
    using assms by (metis (no_types, lifting) finite_imageI season_pairs_def set_sorted_list_of_set)
  moreover have "inj ?f" by (intro injI) (simp add: corpus_season_access.equality)
  ultimately show ?thesis by (simp add: inj_image_eq_iff)
qed

lemma scope_payload_inj:
  assumes "scope_payload s = scope_payload t" and "finite (cas_allowed_seasons s)" "finite (cas_allowed_seasons t)"
    and "\<forall>a \<in> cas_allowed_seasons s \<union> cas_allowed_seasons t. csa_series_id a < 2 ^ 128"
  shows "cas_mode s = cas_mode t \<and> cas_unrestricted s = cas_unrestricted t
    \<and> cas_allowed_seasons s = cas_allowed_seasons t"
proof -
  have "corpus_mode_value (cas_mode s) = corpus_mode_value (cas_mode t)"
    and u: "cas_unrestricted s = cas_unrestricted t"
    and m: "map (\<lambda>(i, n). JList [JStr (uuid_str i), JInt n]) (season_pairs s)
      = map (\<lambda>(i, n). JList [JStr (uuid_str i), JInt n]) (season_pairs t)"
    using assms(1) by (simp_all add: scope_payload_def)
  then have "cas_mode s = cas_mode t"
    by (cases "cas_mode s"; cases "cas_mode t") simp_all
  moreover have "season_pairs s = season_pairs t"
    by (rule season_json_inj [OF m]) (use assms(2-4) in \<open>auto simp: season_pairs_def\<close>)
  ultimately show ?thesis using u season_pairs_inj assms(2,3) by blast
qed

lemma spoiler_value_inj: "spoiler_mode_value a = spoiler_mode_value b \<longleftrightarrow> a = b"
  by (cases a; cases b) simp_all

definition payload_of :: "submit_command \<Rightarrow> json" where
  "payload_of c = request_payload (sub_owner_profile_id c) (sub_thread_id c) (sub_series_id c) (sub_question c)
     (sub_scope_revision c) (sub_scope c) (sort_key candidate_key (sub_candidates c)) (sub_spoiler_mode c)
     (sub_safe_through c)"

lemma sorted_ids: "sort (map ref_episode_id (sort_key candidate_key es)) = sort (map ref_episode_id es)"
  by (rule properties_for_sort) simp_all

lemma payload_of_inj:
  assumes "payload_of c = payload_of d" and "request_ids_ok c" and "request_ids_ok d"
  shows "same_agent_request c d"
proof -
  note ids = request_ids_okD [OF assms(2)] request_ids_okD [OF assms(3)]
  note p = assms(1) [unfolded payload_of_def request_payload_def sorted_ids]
  have "map (\<lambda>i. JStr (uuid_str i)) (sort (map ref_episode_id (sub_candidates c)))
      = map (\<lambda>i. JStr (uuid_str i)) (sort (map ref_episode_id (sub_candidates d)))"
    using p by simp
  then have "sort (map ref_episode_id (sub_candidates c)) = sort (map ref_episode_id (sub_candidates d))"
    by (rule uuid_json_inj) (use ids(6,13) in auto)
  then have "set (map ref_episode_id (sub_candidates c)) = set (map ref_episode_id (sub_candidates d))"
    by (metis set_sort)
  moreover have "scope_payload (sub_scope c) = scope_payload (sub_scope d)" using p by simp
  then have "cas_mode (sub_scope c) = cas_mode (sub_scope d)
      \<and> cas_unrestricted (sub_scope c) = cas_unrestricted (sub_scope d)
      \<and> cas_allowed_seasons (sub_scope c) = cas_allowed_seasons (sub_scope d)"
    by (rule scope_payload_inj) (use ids(4,11,5,12) in auto)
  moreover have "sub_safe_through c = sub_safe_through d"
    using p ids(7,14) by (cases "sub_safe_through c"; cases "sub_safe_through d") (simp_all add: uuid_str_eq)
  moreover have "uuid_str (sub_owner_profile_id c) = uuid_str (sub_owner_profile_id d)"
    "uuid_str (sub_thread_id c) = uuid_str (sub_thread_id d)" "uuid_str (sub_series_id c) = uuid_str (sub_series_id d)"
    "sub_question c = sub_question d" "sub_scope_revision c = sub_scope_revision d"
    "sub_spoiler_mode c = sub_spoiler_mode d"
    using p by (simp_all add: spoiler_value_inj)
  ultimately show ?thesis using ids(1-3,8-10) uuid_str_inj by (simp add: same_agent_request_def)
qed

lemma payload_of_same:
  assumes "same_agent_request c d" and "distinct (map ref_episode_id (sub_candidates c))"
    and "distinct (map ref_episode_id (sub_candidates d))"
  shows "payload_of c = payload_of d"
proof -
  have s: "set (map ref_episode_id (sub_candidates c)) = set (map ref_episode_id (sub_candidates d))"
    using assms(1) by (simp add: same_agent_request_def)
  have "mset (map ref_episode_id (sub_candidates c)) = mset (map ref_episode_id (sub_candidates d))"
    by (metis s assms(2,3) set_eq_iff_mset_eq_distinct)
  then have "sort (map ref_episode_id (sub_candidates c)) = sort (map ref_episode_id (sub_candidates d))"
    by (metis mset_sort properties_for_sort sorted_sort)
  with assms(1) show ?thesis
    by (simp add: payload_of_def request_payload_def sorted_ids scope_payload_def season_pairs_def same_agent_request_def)
qed


lemma command_fingerprint_iff:
  "command_fingerprint sha c = Inr f \<longleftrightarrow>
     \<not> untrimmed (sub_question c) \<and> distinct (map ref_episode_id (sub_candidates c))
     \<and> f = sha (json_dumps (payload_of c))"
proof -
  have "distinct (map ref_episode_id (sort_key candidate_key (sub_candidates c)))
      \<longleftrightarrow> distinct (map ref_episode_id (sub_candidates c))"
    by (simp add: distinct_map)
  then show ?thesis
    by (auto simp: command_fingerprint_def canonical_request_fingerprint_def payload_of_def)
qed

text \<open>
  The fingerprint of a request identifies it.  Two commands with equal fingerprints ask the
  same question about the same candidates under the same spoiler and access policy, unless
  \<open>sha256\<close> collides on two different payloads; and commands that differ only in the order of
  their candidates, in the idempotency key or in the trace id have equal fingerprints.
\<close>

theorem fingerprint_identifies_request:
  assumes "request_ids_ok c" and "request_ids_ok d"
    and "command_fingerprint sha c = Inr f" and "command_fingerprint sha d = Inr g"
  shows "(same_agent_request c d \<longrightarrow> f = g) \<and> (f = g \<longrightarrow> same_agent_request c d \<or> (\<exists>s t. s \<noteq> t \<and> sha s = sha t))"
proof -
  have f: "f = sha (json_dumps (payload_of c))" and c: "distinct (map ref_episode_id (sub_candidates c))"
    using assms(3) by (simp_all add: command_fingerprint_iff)
  have g: "g = sha (json_dumps (payload_of d))" and d: "distinct (map ref_episode_id (sub_candidates d))"
    using assms(4) by (simp_all add: command_fingerprint_iff)
  have "same_agent_request c d" if "json_dumps (payload_of c) = json_dumps (payload_of d)"
    using payload_of_inj [OF json_dumps_inj [OF that] assms(1,2)] .
  with payload_of_same [OF _ c d] f g show ?thesis by auto
qed

definition demo_submit :: "episode_ref list \<Rightarrow> submit_command" where
  "demo_submit es =
     \<lparr>sub_owner_profile_id = 7, sub_thread_id = 8, sub_series_id = 1, sub_question = ''Who?'',
      sub_scope_revision = ''v1'', sub_scope = demo_scope, sub_candidates = es,
      sub_idempotency_key = ''00000000-0000-0000-0000-000000000001'', sub_request_id = None,
      sub_spoiler_mode = RELAXED, sub_safe_through = None\<rparr>"

theorem fingerprint_identifies_request_witness:
  "command_fingerprint id (demo_submit [demo_ref 1, demo_ref 2]) = command_fingerprint id (demo_submit [demo_ref 2, demo_ref 1])"
proof -
  let ?c = "demo_submit [demo_ref 1, demo_ref 2]" and ?d = "demo_submit [demo_ref 2, demo_ref 1]"
  have "\<not> untrimmed ''Who?''" by code_simp
  then have "\<exists>f. command_fingerprint id ?c = Inr f" "\<exists>g. command_fingerprint id ?d = Inr g"
    by (simp_all add: command_fingerprint_iff demo_submit_def demo_ref_def)
  then obtain f g where f: "command_fingerprint id ?c = Inr f" "command_fingerprint id ?d = Inr g" by blast
  have "request_ids_ok ?c" "request_ids_ok ?d"
    by (simp_all add: request_ids_ok_def command_uuids_def demo_submit_def demo_ref_def demo_scope_def)
  moreover have "same_agent_request ?c ?d"
    by (simp add: same_agent_request_def demo_submit_def insert_commute)
  ultimately show ?thesis using fingerprint_identifies_request [OF _ _ f] f by simp
qed

end
