(* ===== verification/Agent_Service.thy ===== *)
theory Agent_Service
  imports Agent_Store Agent_Request
begin

text \<open>
  Submission, execution and recovery of agent jobs (\<open>application/service/agent_job_service.py\<close>) over
  the repository port (\<open>ports/agent_jobs/agent_job_repository.py\<close>) and the dispatchers
  (\<open>ports/agent_jobs/dispatcher.py\<close>).  The conversation service, the lease, the readiness probe, the
  executor, the clocks and the hashes are parameters; the telemetry sink swallows its own failures and
  is left out.  Threads are steps: what a method does between two waits is one step.
\<close>

section \<open>The repository port\<close>

text \<open>Each call takes the readings of the clock during that call.\<close>

record 's agent_port =
  ap_create :: "(nat \<Rightarrow> int) \<Rightarrow> agent_job \<Rightarrow> ('s, agent_job \<times> bool) prog"
  ap_get :: "uuid \<Rightarrow> ('s, agent_job option) prog"
  ap_claim :: "(nat \<Rightarrow> int) \<Rightarrow> uuid \<Rightarrow> ('s, agent_job option) prog"
  ap_complete :: "(nat \<Rightarrow> int) \<Rightarrow> uuid \<Rightarrow> agent_result \<Rightarrow> ('s, agent_job option) prog"
  ap_fail :: "(nat \<Rightarrow> int) \<Rightarrow> uuid \<Rightarrow> string \<Rightarrow> ('s, agent_job option) prog"
  ap_reject :: "(nat \<Rightarrow> int) \<Rightarrow> uuid \<Rightarrow> string \<Rightarrow> ('s, agent_job option) prog"
  ap_requeue_job :: "(nat \<Rightarrow> int) \<Rightarrow> uuid \<Rightarrow> ('s, agent_job option \<times> bool) prog"
  ap_requeue_running :: "(nat \<Rightarrow> int) \<Rightarrow> int \<Rightarrow> ('s, agent_job list) prog"
  ap_list_queued :: "int \<Rightarrow> ('s, agent_job list) prog"

text \<open>The in-memory repository as such a port.\<close>

definition memory_port :: "(uuid \<Rightarrow> string \<Rightarrow> uuid) \<Rightarrow> agent_store agent_port" where
  "memory_port uuid5 =
     \<lparr>ap_create = (\<lambda>now job. runE (store_create uuid5 (now 0) job)),
      ap_get = (\<lambda>i. gets (\<lambda>d. store_get_job d i None)),
      ap_claim = (\<lambda>now i. runE (store_claim uuid5 now i None)),
      ap_complete = (\<lambda>now i r. runE (store_complete uuid5 now i r None)),
      ap_fail = (\<lambda>now i code. runE (store_fail uuid5 now i code None)),
      ap_reject = (\<lambda>now i code. runE (store_reject uuid5 now i code None)),
      ap_requeue_job = (\<lambda>now i. runE (store_requeue_job uuid5 now i)),
      ap_requeue_running = (\<lambda>now limit. runE (store_requeue_running uuid5 now limit)),
      ap_list_queued = (\<lambda>limit. asks (store_list_queued limit))\<rparr>"

section \<open>Executing a job\<close>

text \<open>How a conversation ends: with a result, or with one of the exceptions \<open>execute\<close> tells apart.\<close>

datatype exception_class = Timed_out | Unreachable | Unclassified

datatype conversation_end =
    Answered agent_result
  | Budget_exceeded
  | Runtime_failure runtime_failure_code
  | Raised exception_class

fun classify_runtime_failure :: "exception_class \<Rightarrow> runtime_failure_code option" where
  "classify_runtime_failure Timed_out = Some EXECUTION_TIMEOUT"
| "classify_runtime_failure Unreachable = Some PROVIDER_UNAVAILABLE"
| "classify_runtime_failure Unclassified = None"

fun failure_of :: "conversation_end \<Rightarrow> runtime_failure_code option" where
  "failure_of (Answered r) = None"
| "failure_of Budget_exceeded = Some BUDGET_EXCEEDED"
| "failure_of (Runtime_failure c) = Some c"
| "failure_of (Raised x) = (case classify_runtime_failure x of None \<Rightarrow> Some EXECUTION_FAILED | Some c \<Rightarrow> Some c)"

text \<open>Up to the call of the conversation service: nothing to do, or a claimed job's query.\<close>

datatype begun = Settled "agent_job option" | Claimed series_chat_query

definition execute_begin :: "('s, 'm) agent_port_scheme \<Rightarrow> (nat \<Rightarrow> int) \<Rightarrow> uuid \<Rightarrow> ('s, begun) prog" where
  "execute_begin p now i =
     andThen (ap_get p i) (\<lambda>current.
       if current = None \<or> opt_holds (\<lambda>j. terminal (aj_status j)) current then ret (Settled current)
       else andThen (ap_claim p now i) (\<lambda>claimed.
         case claimed of
           None \<Rightarrow> andThen (ap_get p i) (\<lambda>j. ret (Settled j))
         | Some job \<Rightarrow> andThen (lift (job_query job)) (\<lambda>q. ret (Claimed q))))"

definition execute_end :: "('s, 'm) agent_port_scheme \<Rightarrow> (nat \<Rightarrow> int) \<Rightarrow> uuid \<Rightarrow> conversation_end
    \<Rightarrow> ('s, agent_job option) prog" where
  "execute_end p now i out =
     (case out of Answered r \<Rightarrow> ap_complete p now i r
      | _ \<Rightarrow> ap_fail p now i (failure_code_value (the (failure_of out))))"

definition execute :: "('s, 'm) agent_port_scheme \<Rightarrow> (series_chat_query \<Rightarrow> conversation_end) \<Rightarrow> (nat \<Rightarrow> nat \<Rightarrow> int)
    \<Rightarrow> uuid \<Rightarrow> ('s, agent_job option) prog" where
  "execute p conversation now i =
     andThen (execute_begin p (now 0) i) (\<lambda>b.
       case b of Settled j \<Rightarrow> ret j | Claimed q \<Rightarrow> execute_end p (now 1) i (conversation q))"

section \<open>The service\<close>

text \<open>
  \<open>sv_pending\<close> are the callbacks the dispatcher has accepted and not finished, each for a job, one
  slot of its semaphore each; \<open>sv_active\<close> are those of them whose conversation is under way.
\<close>

record 's agent_service =
  sv_repo :: 's
  sv_scheduled :: "uuid set"
  sv_interrupted :: "uuid list"
  sv_supervisor_failed :: bool
  sv_thread :: bool
  sv_recovery_stop :: bool
  sv_closed :: bool
  sv_pending :: "uuid list"
  sv_active :: "(uuid \<times> series_chat_query) list"
  sv_dispatcher_closed :: bool

definition new_service :: "'s \<Rightarrow> 's agent_service" where
  "new_service d = \<lparr>sv_repo = d, sv_scheduled = {}, sv_interrupted = [], sv_supervisor_failed = False,
     sv_thread = False, sv_recovery_stop = False, sv_closed = False, sv_pending = [], sv_active = [],
     sv_dispatcher_closed = False\<rparr>"

definition on_repo :: "('s, 'a) prog \<Rightarrow> ('s agent_service, 'a) prog" where
  "on_repo m = (\<lambda>s. case m (sv_repo s) of (r, d) \<Rightarrow> (r, s\<lparr>sv_repo := d\<rparr>))"

text \<open>A Python set read in its iteration order: elements are added once.\<close>

definition add_once :: "'a \<Rightarrow> 'a list \<Rightarrow> 'a list" where
  "add_once x xs = (if x \<in> set xs then xs else xs @ [x])"

subsection \<open>Callbacks\<close>

text \<open>The end of \<open>_execute_scheduled\<close>: how \<open>execute\<close> came out decides what is remembered.\<close>

definition after_execute :: "uuid \<Rightarrow> 'a result \<Rightarrow> 's agent_service \<Rightarrow> unit result \<times> 's agent_service" where
  "after_execute i r s =
     (let s1 = s\<lparr>sv_scheduled := sv_scheduled s - {i}\<rparr>
      in case r of
           Inr x \<Rightarrow> (Inr (), s1)
         | Inl e \<Rightarrow>
             if e = AgentJobUnavailableError then (Inr (), s1\<lparr>sv_interrupted := add_once i (sv_interrupted s)\<rparr>)
             else (Inl e, s1))"

definition execute_scheduled :: "('s, 'm) agent_port_scheme \<Rightarrow> (series_chat_query \<Rightarrow> conversation_end)
    \<Rightarrow> (nat \<Rightarrow> nat \<Rightarrow> int) \<Rightarrow> uuid \<Rightarrow> ('s agent_service, unit) prog" where
  "execute_scheduled p conversation now i =
     (\<lambda>s. case on_repo (execute p conversation now i) s of (r, s') \<Rightarrow> after_execute i r s')"

subsection \<open>Dispatchers\<close>

definition inline_dispatch :: "('s, 'm) agent_port_scheme \<Rightarrow> (series_chat_query \<Rightarrow> conversation_end)
    \<Rightarrow> (nat \<Rightarrow> nat \<Rightarrow> int) \<Rightarrow> uuid \<Rightarrow> ('s agent_service, bool) prog" where
  "inline_dispatch p conversation now i =
     (\<lambda>s. if sv_dispatcher_closed s then (Inr False, s)
          else andThen (execute_scheduled p conversation now i) (\<lambda>_. ret True) s)"

definition dispatcher_limits :: "int \<Rightarrow> int \<Rightarrow> unit result" where
  "dispatcher_limits max_workers max_pending =
     (if max_workers < 1 \<or> max_pending < 1 then Inl (ValueError STR ''DISPATCHER_LIMITS'') else Inr ())"

text \<open>The bounded pool; \<open>accepts\<close> tells whether the executor takes the callback or raises.\<close>

definition pool_dispatch :: "int \<Rightarrow> bool \<Rightarrow> uuid \<Rightarrow> ('s agent_service, bool) prog" where
  "pool_dispatch max_pending accepts i =
     (\<lambda>s. if sv_dispatcher_closed s \<or> max_pending \<le> int (length (sv_pending s)) then (Inr False, s)
          else if \<not> accepts then (Inr False, s)
          else (Inr True, s\<lparr>sv_pending := sv_pending s @ [i]\<rparr>))"

text \<open>A worker of the pool takes a callback up, and ends it, releasing its slot.\<close>

definition end_callback :: "uuid \<Rightarrow> 'a result \<Rightarrow> 's agent_service \<Rightarrow> 's agent_service" where
  "end_callback i r s = (snd (after_execute i r s))
     \<lparr>sv_pending := filter (\<lambda>k. k \<noteq> i) (sv_pending s), sv_active := filter (\<lambda>a. fst a \<noteq> i) (sv_active s)\<rparr>"

definition worker_begin :: "('s, 'm) agent_port_scheme \<Rightarrow> (nat \<Rightarrow> int) \<Rightarrow> uuid \<Rightarrow> 's agent_service \<Rightarrow> 's agent_service" where
  "worker_begin p now i s =
     (case on_repo (execute_begin p now i) s of (r, s') \<Rightarrow>
        (case r of
           Inl e \<Rightarrow> end_callback i r s'
         | Inr (Settled j) \<Rightarrow> end_callback i r s'
         | Inr (Claimed q) \<Rightarrow> s'\<lparr>sv_active := (i, q) # sv_active s'\<rparr>))"

definition worker_end :: "('s, 'm) agent_port_scheme \<Rightarrow> (nat \<Rightarrow> int) \<Rightarrow> uuid \<Rightarrow> conversation_end
    \<Rightarrow> 's agent_service \<Rightarrow> 's agent_service" where
  "worker_end p now i out s =
     (case on_repo (execute_end p now i out) s of (r, s') \<Rightarrow> end_callback i r s')"

subsection \<open>Scheduling\<close>

text \<open>What the lease and the readiness probe answer; \<open>None\<close> when they raise.\<close>

record schedule_env =
  en_lease_held :: "bool option"
  en_ready :: "bool option"

definition schedule :: "schedule_env \<Rightarrow> (uuid \<Rightarrow> ('s agent_service, bool) prog) \<Rightarrow> uuid
    \<Rightarrow> ('s agent_service, bool option) prog" where
  "schedule env dispatch i =
     (\<lambda>s. if sv_supervisor_failed s then (Inr None, s)
          else if i \<in> sv_scheduled s then (Inr None, s)
          else if en_lease_held env \<noteq> Some True
            then (Inr None, if sv_thread s then s\<lparr>sv_supervisor_failed := True\<rparr> else s)
          else if en_ready env \<noteq> Some True then (Inr None, s)
          else case dispatch i (s\<lparr>sv_scheduled := insert i (sv_scheduled s)\<rparr>) of
            (r, s') \<Rightarrow>
              if r = Inr True then (Inr (Some True), s')
              else (Inr (Some False), s'\<lparr>sv_scheduled := sv_scheduled s' - {i}\<rparr>))"

definition reject_dispatch :: "('s, 'm) agent_port_scheme \<Rightarrow> (nat \<Rightarrow> int) \<Rightarrow> uuid \<Rightarrow> ('s agent_service, unit) prog" where
  "reject_dispatch p now i =
     (\<lambda>s. case on_repo (ap_reject p now i DISPATCH_UNAVAILABLE) s of (r, s') \<Rightarrow>
        (case r of
           Inl (AgentJobTransitionError m) \<Rightarrow> andThen (on_repo (ap_get p i)) (\<lambda>_. ret ()) s'
         | Inl e \<Rightarrow> (Inl e, s')
         | Inr j \<Rightarrow> (Inr (), s')))"

definition submit :: "('s, 'm) agent_port_scheme \<Rightarrow> agent_job_config \<Rightarrow> (string \<Rightarrow> string) \<Rightarrow> (string \<Rightarrow> uuid)
    \<Rightarrow> schedule_env \<Rightarrow> (uuid \<Rightarrow> ('s agent_service, bool) prog) \<Rightarrow> int \<Rightarrow> (nat \<Rightarrow> nat \<Rightarrow> int) \<Rightarrow> submit_command
    \<Rightarrow> ('s agent_service, agent_job) prog" where
  "submit p cfg sha uuid5 env dispatch created_at now c =
     andThen (lift (command_job cfg sha uuid5 created_at c)) (\<lambda>job.
     andThen (on_repo (ap_create p (now 0) job)) (\<lambda>(stored, created).
     andThen (if created
              then andThen (schedule env dispatch (aj_job_id stored)) (\<lambda>scheduled.
                if scheduled = Some False then reject_dispatch p (now 1) (aj_job_id stored) else ret ())
              else ret ()) (\<lambda>_.
     andThen (on_repo (ap_get p (aj_job_id stored))) (\<lambda>j.
       ret (case j of None \<Rightarrow> stored | Some x \<Rightarrow> x)))))"

fun dispatch_each :: "(nat \<Rightarrow> schedule_env) \<Rightarrow> (nat \<Rightarrow> uuid \<Rightarrow> ('s agent_service, bool) prog) \<Rightarrow> nat \<Rightarrow> agent_job list
    \<Rightarrow> nat \<Rightarrow> ('s agent_service, nat) prog" where
  "dispatch_each env dispatch n [] dispatched = ret dispatched"
| "dispatch_each env dispatch n (j # js) dispatched =
     andThen (schedule (env n) (dispatch n) (aj_job_id j)) (\<lambda>scheduled.
       if scheduled = Some False then ret dispatched
       else dispatch_each env dispatch (n + 1) js (if scheduled = Some True then dispatched + 1 else dispatched))"

definition dispatch_queued_once :: "('s, 'm) agent_port_scheme \<Rightarrow> agent_job_config \<Rightarrow> (nat \<Rightarrow> schedule_env)
    \<Rightarrow> (nat \<Rightarrow> uuid \<Rightarrow> ('s agent_service, bool) prog) \<Rightarrow> ('s agent_service, nat) prog" where
  "dispatch_queued_once p cfg env dispatch =
     andThen (on_repo (ap_list_queued p (ajc_recovery_batch cfg))) (\<lambda>js. dispatch_each env dispatch 0 js 0)"

subsection \<open>Recovery\<close>

text \<open>\<open>_recover_interrupted_jobs\<close>: a \<open>while True\<close> loop, so possibly without an end.\<close>

partial_function (option) recover_loop :: "('s, 'm) agent_port_scheme \<Rightarrow> int \<Rightarrow> (nat \<Rightarrow> nat \<Rightarrow> int) \<Rightarrow> nat \<Rightarrow> nat
    \<Rightarrow> 's \<Rightarrow> (nat result \<times> 's) option" where
  "recover_loop p batch now n recovered d =
     (case ap_requeue_running p (now n) batch d of (r, d') \<Rightarrow>
        (case r of
           Inl e \<Rightarrow> Some (Inl e, d')
         | Inr js \<Rightarrow>
             if int (length js) < batch then Some (Inr (recovered + length js), d')
             else recover_loop p batch now (n + 1) (recovered + length js) d'))"

definition recover_interrupted_jobs :: "('s, 'm) agent_port_scheme \<Rightarrow> agent_job_config \<Rightarrow> (nat \<Rightarrow> nat \<Rightarrow> int) \<Rightarrow> 's
    \<Rightarrow> (nat result \<times> 's) option" where
  "recover_interrupted_jobs p cfg now d = recover_loop p (ajc_recovery_batch cfg) now 0 0 d"

fun recover_each :: "('s, 'm) agent_port_scheme \<Rightarrow> (nat \<Rightarrow> nat \<Rightarrow> int) \<Rightarrow> nat \<Rightarrow> uuid list \<Rightarrow> nat
    \<Rightarrow> ('s agent_service, nat) prog" where
  "recover_each p now n [] so_far = ret so_far"
| "recover_each p now n (i # ids) so_far =
     andThen (on_repo (ap_requeue_job p (now n) i)) (\<lambda>(job, recovered).
     andThen (put (\<lambda>s. s\<lparr>sv_interrupted := filter (\<lambda>k. k \<noteq> i) (sv_interrupted s)\<rparr>)) (\<lambda>_.
       recover_each p now (n + 1) ids (if recovered \<and> job \<noteq> None then so_far + 1 else so_far)))"

definition recover_local_interruptions_once :: "('s, 'm) agent_port_scheme \<Rightarrow> (nat \<Rightarrow> nat \<Rightarrow> int)
    \<Rightarrow> ('s agent_service, nat) prog" where
  "recover_local_interruptions_once p now = andThen (gets sv_interrupted) (\<lambda>ids. recover_each p now 0 ids 0)"

text \<open>\<open>recovery_ready\<close>; \<open>alive\<close> is \<open>thread.is_alive()\<close>.\<close>

definition recovery_ready :: "schedule_env \<Rightarrow> bool \<Rightarrow> 's agent_service \<Rightarrow> bool \<times> 's agent_service" where
  "recovery_ready env alive s =
     (if \<not> sv_thread s \<or> sv_supervisor_failed s then (False, s)
      else let held = (en_lease_held env = Some True);
               s1 = (if held then s else s\<lparr>sv_supervisor_failed := True\<rparr>)
           in (held \<and> alive \<and> \<not> sv_recovery_stop s1, s1))"

text \<open>The dispatcher and the service close; the pool drops the callbacks it has not started.\<close>

definition close_service :: "('s agent_service, unit) prog" where
  "close_service =
     put (\<lambda>s. if sv_closed s then s
              else s\<lparr>sv_closed := True, sv_recovery_stop := True, sv_dispatcher_closed := True\<rparr>)"

definition start_failed :: "'s agent_service \<Rightarrow> 's agent_service" where
  "start_failed s = s\<lparr>sv_recovery_stop := True, sv_thread := False, sv_closed := True, sv_dispatcher_closed := True\<rparr>"

definition start_recovery_supervisor :: "('s, 'm) agent_port_scheme \<Rightarrow> agent_job_config \<Rightarrow> schedule_env \<Rightarrow> bool \<Rightarrow> bool
    \<Rightarrow> (nat \<Rightarrow> schedule_env) \<Rightarrow> (nat \<Rightarrow> uuid \<Rightarrow> ('s agent_service, bool) prog) \<Rightarrow> (nat \<Rightarrow> nat \<Rightarrow> int)
    \<Rightarrow> 's agent_service \<Rightarrow> (unit result \<times> 's agent_service) option" where
  "start_recovery_supervisor p cfg env0 alive acquired env dispatch now s =
     (if sv_closed s then Some (Inl (RuntimeError STR ''SERVICE_CLOSED''), s)
      else case recovery_ready env0 alive s of (ready, s0) \<Rightarrow>
        if ready then Some (Inr (), s0)
        else if sv_thread s0 then Some (Inl (RuntimeError STR ''SUPERVISOR_RESTART_UNSAFE''), s0)
        else if \<not> acquired then Some (Inl (RuntimeError STR ''SUPERVISOR_LEASE_UNAVAILABLE''), s0)
        else let s1 = s0\<lparr>sv_recovery_stop := False, sv_supervisor_failed := False\<rparr>
          in case recover_interrupted_jobs p cfg now (sv_repo s1) of
               None \<Rightarrow> None
             | Some (r, d) \<Rightarrow>
                 let s2 = s1\<lparr>sv_repo := d\<rparr>
                 in case r of
                      Inl e \<Rightarrow> Some (Inl e, start_failed s2)
                    | Inr n \<Rightarrow>
                        (case dispatch_queued_once p cfg env dispatch s2 of
                           (Inl e, s3) \<Rightarrow> Some (Inl e, start_failed s3)
                         | (Inr m, s3) \<Rightarrow> Some (Inr (), s3\<lparr>sv_thread := True\<rparr>)))"

text \<open>One turn of \<open>_recovery_loop\<close> after a wait that was not a stop: whether the loop goes on.\<close>

definition recovery_turn :: "('s, 'm) agent_port_scheme \<Rightarrow> agent_job_config \<Rightarrow> schedule_env \<Rightarrow> (nat \<Rightarrow> schedule_env)
    \<Rightarrow> (nat \<Rightarrow> uuid \<Rightarrow> ('s agent_service, bool) prog) \<Rightarrow> (nat \<Rightarrow> nat \<Rightarrow> int) \<Rightarrow> ('s agent_service, bool) prog" where
  "recovery_turn p cfg env0 env dispatch now =
     (\<lambda>s. case en_lease_held env0 of
            None \<Rightarrow> (Inl (RuntimeError STR ''lease''), s)
          | Some False \<Rightarrow> (Inr False, s\<lparr>sv_supervisor_failed := True, sv_recovery_stop := True\<rparr>)
          | Some True \<Rightarrow>
              (case andThen (recover_local_interruptions_once p now) (\<lambda>_. dispatch_queued_once p cfg env dispatch) s of
                 (Inr n, s') \<Rightarrow> (Inr True, s')
               | (Inl e, s') \<Rightarrow> if e = AgentJobUnavailableError then (Inr True, s') else (Inl e, s')))"


section \<open>The contract of a repository\<close>

text \<open>
  What the service relies on: \<open>job_at\<close> is the job stored under an identifier.  A call either raises
  or finds nothing to do, and then leaves the store alone, or moves one job from one status to another.
\<close>

definition turns :: "('s \<Rightarrow> uuid \<Rightarrow> agent_job option) \<Rightarrow> uuid \<Rightarrow> agent_job_status \<Rightarrow> agent_job_status
    \<Rightarrow> agent_job option result \<Rightarrow> 's \<Rightarrow> 's \<Rightarrow> bool" where
  "turns job_at i st st' r s s' \<longleftrightarrow>
     (case r of
        Inl e \<Rightarrow> s' = s
      | Inr None \<Rightarrow> s' = s \<and> (\<forall>j. job_at s i = Some j \<longrightarrow> st \<noteq> Agent_RUNNING \<and> aj_status j = Agent_RUNNING)
      | Inr (Some j') \<Rightarrow>
          (\<exists>j. job_at s i = Some j \<and> aj_status j = st \<and> moved j st' j') \<and> job_at s' i = Some j'
          \<and> (\<forall>k. k \<noteq> i \<longrightarrow> job_at s' k = job_at s k))"

definition running_ids :: "('s \<Rightarrow> uuid \<Rightarrow> agent_job option) \<Rightarrow> 's \<Rightarrow> uuid set" where
  "running_ids job_at s = {k. \<exists>j. job_at s k = Some j \<and> aj_status j = Agent_RUNNING}"

definition requeued :: "agent_job \<Rightarrow> agent_job" where
  "requeued j = (if aj_status j = Agent_RUNNING then as_submitted j else j)"

locale agent_repository =
  fixes p :: "'s agent_port"
    and job_at :: "'s \<Rightarrow> uuid \<Rightarrow> agent_job option"
    and ok :: "'s \<Rightarrow> bool"
  assumes get_law: "ok s \<Longrightarrow> ap_get p i s = (r, s') \<Longrightarrow> s' = s \<and> (r = Inr (job_at s i) \<or> (\<exists>e. r = Inl e))"
    and claim_law: "ok s \<Longrightarrow> ap_claim p now i s = (r, s') \<Longrightarrow> ok s' \<and> turns job_at i Agent_QUEUED Agent_RUNNING r s s'"
    and complete_law: "ok s \<Longrightarrow> ap_complete p now i res s = (r, s') \<Longrightarrow> ok s' \<and>
      turns job_at i Agent_RUNNING (if res_is_safe_refusal res then Agent_SAFE_REFUSAL else Agent_SUCCEEDED) r s s'"
    and fail_law: "ok s \<Longrightarrow> ap_fail p now i code s = (r, s') \<Longrightarrow> ok s' \<and> turns job_at i Agent_RUNNING Agent_FAILED r s s'"
    and requeue_law: "ok s \<Longrightarrow> ap_requeue_running p now limit s = (Inr js, s') \<Longrightarrow>
      1 \<le> limit \<and> ok s' \<and> (\<exists>A. A \<subseteq> running_ids job_at s \<and> card A = length js
        \<and> int (length js) = min limit (int (card (running_ids job_at s)))
        \<and> (\<forall>k. job_at s' k = (if k \<in> A then map_option as_submitted (job_at s k) else job_at s k)))"
    and finite_running: "ok s \<Longrightarrow> finite (running_ids job_at s)"
begin

text \<open>A job is left alone, or is executed to an outcome that is returned, or stays claimed and an error is raised.\<close>

lemma execute_end_turns:
  assumes "ok s" and "execute_end p now i out s = (r, s')"
  shows "\<exists>st. terminal st \<and> ok s' \<and> turns job_at i Agent_RUNNING st r s s'"
proof (cases out)
  case (Answered res)
  with assms complete_law [of s now i res r s'] show ?thesis
    by (intro exI [of _ "if res_is_safe_refusal res then Agent_SAFE_REFUSAL else Agent_SUCCEEDED"])
      (simp add: execute_end_def)
qed (use assms fail_law in \<open>intro exI [of _ Agent_FAILED]; simp add: execute_end_def; blast\<close>)+

lemma execute_begin_turns:
  assumes "ok s" and "execute_begin p now i s = (r, s')"
  shows "s' = s \<and> (\<forall>q. r \<noteq> Inr (Claimed q))
    \<or> ok s' \<and> (\<exists>j. turns job_at i Agent_QUEUED Agent_RUNNING (Inr (Some j)) s s'
          \<and> (r = map_sum id Claimed (job_query j)))"
proof -
  obtain g s1 where g: "ap_get p i s = (g, s1)" by (cases "ap_get p i s")
  have s1: "s1 = s" using get_law [OF assms(1) g] by simp
  show ?thesis
  proof (cases g)
    case (Inl e)
    with assms(2) g s1 show ?thesis by (auto simp: execute_begin_def andThen_def)
  next
    case (Inr current)
    show ?thesis
    proof (cases "current = None \<or> opt_holds (\<lambda>j. terminal (aj_status j)) current")
      case True
      with assms(2) g s1 Inr show ?thesis by (auto simp: execute_begin_def andThen_def ret_def)
    next
      case False
      obtain c s2 where c: "ap_claim p now i s = (c, s2)" by (cases "ap_claim p now i s")
      note t = claim_law [OF assms(1) c]
      consider e where "c = Inl e" | "c = Inr None" | j where "c = Inr (Some j)"
        by (metis option.exhaust sum.exhaust)
      then show ?thesis
      proof cases
        case 1
        with assms(2) g s1 Inr False c t show ?thesis
          by (auto simp: execute_begin_def andThen_def turns_def)
      next
        case 2
        have "s2 = s" using t 2 by (simp add: turns_def)
        with assms(2) g s1 Inr False c 2 show ?thesis
          by (cases current) (auto simp: execute_begin_def andThen_def ret_def)
      next
        case 3
        have "r = map_sum id Claimed (job_query j) \<and> s' = s2"
          using assms(2) g s1 Inr False c 3
          by (cases "job_query j") (auto simp: execute_begin_def andThen_def ret_def lift_def)
        with t 3 show ?thesis by blast
      qed
    qed
  qed
qed

lemma repository_execute_outcome:
  assumes "ok s" and "execute p conversation now i s = (r, s')"
  shows "ok s' \<and> (\<forall>k. k \<noteq> i \<longrightarrow> job_at s' k = job_at s k)
    \<and> (s' = s \<or> (\<exists>j j'. job_at s i = Some j \<and> aj_status j = Agent_QUEUED \<and> job_at s' i = Some j'
         \<and> as_submitted j' = as_submitted j
         \<and> (aj_status j' = Agent_RUNNING \<and> (\<exists>e. r = Inl e) \<or> terminal (aj_status j') \<and> r = Inr (Some j'))))"
proof -
  obtain b s1 where b: "execute_begin p (now 0) i s = (b, s1)" by (cases "execute_begin p (now 0) i s")
  from execute_begin_turns [OF assms(1) b] show ?thesis
  proof (elim disjE conjE exE)
    assume n: "s1 = s" "\<forall>q. b \<noteq> Inr (Claimed q)"
    then have "s' = s" using assms(2) b
      by (cases b) (auto simp: execute_def andThen_def ret_def split: begun.splits)
    with assms(1) show ?thesis by simp
  next
    fix j assume ok1: "ok s1" and t: "turns job_at i Agent_QUEUED Agent_RUNNING (Inr (Some j)) s s1"
      and q: "b = map_sum id Claimed (job_query j)"
    obtain j0 where j0: "job_at s i = Some j0" "aj_status j0 = Agent_QUEUED" "moved j0 Agent_RUNNING j"
      and j: "job_at s1 i = Some j" and others: "\<forall>k. k \<noteq> i \<longrightarrow> job_at s1 k = job_at s k"
      using t by (auto simp: turns_def)
    have m: "as_submitted j = as_submitted j0" "aj_status j = Agent_RUNNING"
      using j0(3) by (simp_all add: moved_def)
    show ?thesis
    proof (cases "job_query j")
      case (Inl e)
      then have "r = Inl e" "s' = s1" using assms(2) b q by (simp_all add: execute_def andThen_def)
      with ok1 others j j0 m show ?thesis by blast
    next
      case (Inr query)
      then have e: "execute_end p (now 1) i (conversation query) s1 = (r, s')"
        using assms(2) b q by (simp add: execute_def andThen_def)
      obtain st where st: "terminal st" "ok s'" "turns job_at i Agent_RUNNING st r s1 s'"
        using execute_end_turns [OF ok1 e] by blast
      consider x where "r = Inl x" "s' = s1" | j' where "r = Inr (Some j')"
        using st(3) j by (auto simp: turns_def split: sum.splits option.splits)
      then show ?thesis
      proof cases
        case 1
        with st ok1 others j j0 m show ?thesis by blast
      next
        case (2 j')
        then have j': "job_at s' i = Some j'" "moved j st j'" "\<forall>k. k \<noteq> i \<longrightarrow> job_at s' k = job_at s1 k"
          using st(3) j by (auto simp: turns_def)
        then have "aj_status j' = st" "as_submitted j' = as_submitted j0" using m by (simp_all add: moved_def)
        with 2 st j' others j0 show ?thesis by simp
      qed
    qed
  qed
qed

text \<open>The recovery loop ends: a full batch leaves fewer running jobs.\<close>

lemma recover_loop_terminates:
  "ok s \<Longrightarrow> \<exists>r s'. recover_loop p batch now n c s = Some (r, s')
     \<and> (\<forall>m. r = Inr m \<longrightarrow> m = c + card (running_ids job_at s) \<and> ok s'
          \<and> (\<forall>k. job_at s' k = map_option requeued (job_at s k)))"
proof (induction "card (running_ids job_at s)" arbitrary: n c s rule: less_induct)
  case less
  obtain r s1 where q: "ap_requeue_running p (now n) batch s = (r, s1)"
    by (cases "ap_requeue_running p (now n) batch s")
  show ?case
  proof (cases r)
    case (Inl e)
    with q show ?thesis by (simp add: recover_loop.simps)
  next
    case (Inr js)
    let ?R = "running_ids job_at s"
    obtain A where l: "1 \<le> batch" and ok1: "ok s1" and A: "A \<subseteq> ?R" "card A = length js"
      and len: "int (length js) = min batch (int (card ?R))"
      and s1: "\<forall>k. job_at s1 k = (if k \<in> A then map_option as_submitted (job_at s k) else job_at s k)"
      using requeue_law [OF less.prems q [unfolded Inr]] by blast
    have fin: "finite ?R" by (rule finite_running [OF less.prems])
    have R1: "running_ids job_at s1 = ?R - A"
      using s1 by (auto simp: running_ids_def as_submitted_def)
    have c1: "card (running_ids job_at s1) = card ?R - length js"
      using A fin by (simp add: R1 card_Diff_subset finite_subset)
    have same: "map_option requeued (job_at s1 k) = map_option requeued (job_at s k)" for k
    proof (cases "k \<in> A")
      case True
      then obtain j where "job_at s k = Some j" "aj_status j = Agent_RUNNING"
        using A(1) by (auto simp: running_ids_def)
      with spec [OF s1, of k] True show ?thesis by (simp add: requeued_def as_submitted_def)
    next
      case False
      with spec [OF s1, of k] show ?thesis by simp
    qed
    show ?thesis
    proof (cases "int (length js) < batch")
      case True
      then have "length js = card ?R" using len by simp
      then have "A = ?R" using A fin card_subset_eq by metis
      have "job_at s1 k = map_option requeued (job_at s k)" for k
      proof (cases "job_at s k")
        case (Some j)
        have "k \<in> A \<longleftrightarrow> aj_status j = Agent_RUNNING"
          using \<open>A = ?R\<close> Some by (simp add: running_ids_def)
        with spec [OF s1, of k] Some show ?thesis by (simp add: requeued_def)
      next
        case None
        with spec [OF s1, of k] show ?thesis by simp
      qed
      with True q Inr ok1 \<open>length js = card ?R\<close> show ?thesis by (simp add: recover_loop.simps)
    next
      case False
      then have "0 < length js" using l by linarith
      then have "card (running_ids job_at s1) < card ?R" using c1 len by linarith
      from less.hyps [OF this ok1, of "n + 1" "c + length js"] obtain r' s' where
        r': "recover_loop p batch now (n + 1) (c + length js) s1 = Some (r', s')"
        "\<forall>m. r' = Inr m \<longrightarrow> m = c + length js + card (running_ids job_at s1) \<and> ok s'
          \<and> (\<forall>k. job_at s' k = map_option requeued (job_at s1 k))" by blast
      have "recover_loop p batch now n c s = Some (r', s')"
        using q Inr False r'(1) by (subst recover_loop.simps) simp
      moreover have "length js \<le> card ?R" using len by simp
      ultimately show ?thesis using r'(2) c1 same by simp
    qed
  qed
qed

end


section \<open>The in-memory repository keeps the contract\<close>

definition job_of :: "agent_store \<Rightarrow> uuid \<Rightarrow> agent_job option" where
  "job_of d i = dict_get (ast_jobs d) i"

lemma store_get_job_of [simp]: "store_get_job d i None = job_of d i"
  by (simp add: store_get_job_def job_of_def opt_holds_def split: option.split)

lemma call_moves_turns: "call_moves i st st' j' d d' \<Longrightarrow> turns job_of i st st' (Inr (Some j')) d d'"
  by (auto simp: call_moves_def turns_def advanced_def moved_def job_of_def dict_get_set)

lemma runE_turns:
  assumes "agents_ok d" and "runE f d = (r, d')"
    and "\<And>d1. f d = Inr (None, d1) \<Longrightarrow>
      d1 = d \<and> (\<forall>j. job_of d i = Some j \<longrightarrow> st \<noteq> Agent_RUNNING \<and> aj_status j = Agent_RUNNING)"
    and "\<And>j d1. f d = Inr (Some j, d1) \<Longrightarrow> call_moves i st st' j d d1"
  shows "agents_ok d' \<and> turns job_of i st st' r d d'"
proof (cases "f d")
  case (Inl e)
  with assms(2) have "r = Inl e" "d' = d" by (simp_all add: runE_def)
  with assms(1) show ?thesis by (simp add: turns_def)
next
  case (Inr x)
  obtain y e where x: "x = (y, e)" by (cases x)
  have r: "r = Inr y" "d' = e" using assms(2) Inr x by (simp_all add: runE_def)
  show ?thesis
  proof (cases y)
    case None
    with assms(1,3) Inr x r show ?thesis by (simp add: turns_def)
  next
    case (Some j)
    then have "call_moves i st st' j d e" using assms(4) Inr x by simp
    with r Some show ?thesis using call_moves_turns call_moves_step by blast
  qed
qed

lemma claim_turns:
  assumes "agents_ok d" and "runE (store_claim uuid5 now i None) d = (r, d')"
  shows "agents_ok d' \<and> turns job_of i Agent_QUEUED Agent_RUNNING r d d'"
proof (rule runE_turns [OF assms])
  show "d1 = d \<and> (\<forall>j. job_of d i = Some j \<longrightarrow> Agent_QUEUED \<noteq> Agent_RUNNING \<and> aj_status j = Agent_RUNNING)"
    if "store_claim uuid5 now i None d = Inr (None, d1)" for d1
    using that by (auto simp: store_claim_def bindE_eq_Inr split: option.splits if_splits)
qed (use store_claim_Some [OF assms(1)] in blast)

lemma complete_turns:
  assumes "agents_ok d" and "runE (store_complete uuid5 now i res None) d = (r, d')"
  shows "agents_ok d' \<and>
    turns job_of i Agent_RUNNING (if res_is_safe_refusal res then Agent_SAFE_REFUSAL else Agent_SUCCEEDED) r d d'"
proof (rule runE_turns [OF assms])
  show "d1 = d \<and> (\<forall>j. job_of d i = Some j \<longrightarrow> Agent_RUNNING \<noteq> Agent_RUNNING \<and> aj_status j = Agent_RUNNING)"
    if "store_complete uuid5 now i res None d = Inr (None, d1)" for d1
    using that by (auto simp: store_complete_def bindE_eq_Inr split: option.splits if_splits)
qed (use store_complete_Some [OF assms(1)] in blast)

lemma fail_turns:
  assumes "agents_ok d" and "runE (store_fail uuid5 now i code None) d = (r, d')"
  shows "agents_ok d' \<and> turns job_of i Agent_RUNNING Agent_FAILED r d d'"
proof (rule runE_turns [OF assms])
  show "d1 = d \<and> (\<forall>j. job_of d i = Some j \<longrightarrow> Agent_RUNNING \<noteq> Agent_RUNNING \<and> aj_status j = Agent_RUNNING)"
    if "store_fail uuid5 now i code None d = Inr (None, d1)" for d1
    using that by (auto simp: store_fail_def bindE_eq_Inr split: option.splits if_splits)
qed (use store_fail_Some [OF assms(1)] in blast)

lemma running_ids_jobs: "agents_ok d \<Longrightarrow> running_ids job_of d = aj_job_id ` set (running_jobs d)"
proof -
  assume ok: "agents_ok d"
  have "k \<in> aj_job_id ` set (running_jobs d)" if "job_of d k = Some j" "aj_status j = Agent_RUNNING" for k j
  proof -
    have "aj_job_id j = k" using agents_okD(2) [OF ok] that(1) by (simp add: job_of_def job_stored_def)
    with that running_jobs_ok(2) [OF ok, of j] show ?thesis by (simp add: job_of_def image_iff) blast
  qed
  then show ?thesis using running_jobs_ok(2) [OF ok] by (auto simp: running_ids_def job_of_def)
qed

lemma requeue_running_batch:
  assumes ok: "agents_ok d" and r: "runE (store_requeue_running uuid5 now limit) d = (Inr js, d')"
  shows "1 \<le> limit \<and> agents_ok d' \<and> (\<exists>A. A \<subseteq> running_ids job_of d \<and> card A = length js
    \<and> int (length js) = min limit (int (card (running_ids job_of d)))
    \<and> (\<forall>k. job_of d' k = (if k \<in> A then map_option as_submitted (job_of d k) else job_of d k)))"
proof -
  have s: "store_requeue_running uuid5 now limit d = Inr (js, d')"
    using r by (auto simp: runE_def split: sum.splits prod.splits)
  have l: "1 \<le> limit"
    using s by (auto simp: store_requeue_running_def require_recovery_limit_def bindE_eq_Inr split: if_splits)
  note m = store_requeue_running_moves [OF ok s]
  let ?T = "take (nat limit) (running_jobs d)"
  have d: "distinct (map aj_job_id (running_jobs d))" by (rule running_jobs_ok(1) [OF ok])
  then have "distinct (map aj_job_id ?T)" by (simp flip: take_map)
  then have "card (aj_job_id ` set ?T) = length ?T" by (metis distinct_card length_map set_map)
  moreover have "length js = length ?T" using m by simp
  moreover have "card (running_ids job_of d) = length (running_jobs d)"
    using running_ids_jobs [OF ok] distinct_card [OF d] by simp
  moreover have "aj_job_id ` set ?T \<subseteq> running_ids job_of d"
    using running_ids_jobs [OF ok] set_take_subset [of "nat limit" "running_jobs d"] by blast
  ultimately show ?thesis using l m unfolding job_of_def
    by (intro conjI exI [of _ "aj_job_id ` set ?T"]) auto
qed

interpretation memory: agent_repository "memory_port uuid5" job_of agents_ok
proof
  fix i :: uuid and s s' :: agent_store and r :: "agent_job option result"
  assume "agents_ok s" "ap_get (memory_port uuid5) i s = (r, s')"
  then show "s' = s \<and> (r = Inr (job_of s i) \<or> (\<exists>e. r = Inl e))"
    by (auto simp: memory_port_def gets_apply)
next
  fix s :: agent_store assume "agents_ok s"
  then show "finite (running_ids job_of s)" by (simp add: running_ids_jobs)
qed (simp_all only: memory_port_def agent_port.select_convs,
    (rule claim_turns complete_turns fail_turns requeue_running_batch; assumption)+)


section \<open>When calls succeed\<close>

definition last_time :: "agent_store \<Rightarrow> uuid \<Rightarrow> int" where
  "last_time d i = aje_occurred_at (last (log_of d i))"

definition event_ids :: "agent_store \<Rightarrow> uuid \<Rightarrow> uuid set" where
  "event_ids d i = aje_event_id ` set (log_of d i)"

definition next_event_id :: "(uuid \<Rightarrow> string \<Rightarrow> uuid) \<Rightarrow> agent_store \<Rightarrow> uuid \<Rightarrow> uuid" where
  "next_event_id uuid5 d i = uuid5 i (''agent-job-event:'' @ decimal (length (log_of d i) + 1))"

text \<open>No outcome is recorded for a job that has none.\<close>

lemma live_log_open:
  assumes ok: "agents_ok d" and j: "job_of d i = Some j" and live: "\<not> terminal (aj_status j)" and k: "terminal_kind kind"
  shows "\<not> list_ex (\<lambda>e. aje_kind e = kind) (log_of d i)"
proof -
  have l: "log_ok j (log_of d i)"
    using agents_okD(2) [OF ok] j by (simp add: job_of_def job_stored_def)
  have "\<not> terminal_kind (aje_kind e)" if e: "e \<in> set (log_of d i)" for e
  proof
    assume ends: "terminal_kind (aje_kind e)"
    from e obtain n where n: "n < length (log_of d i)" "log_of d i ! n = e" by (auto simp: in_set_conv_nth)
    then have "e = last (log_of d i)"
      using terminal_event_last [OF l n(1)] ends by (metis diff_Suc_1 last_conv_nth list.size(3) nat.simps(3))
    with ends live l show False by (simp add: log_ok_def)
  qed
  with k show ?thesis by (auto simp: list_ex_iff)
qed

lemma advance_private:
  assumes "agents_ok d" and "job_of d i = Some j" and "\<not> terminal (aj_status j)"
    and "aj_status j' = st" and "private_members pl"
  shows "advance uuid5 i (kind_of_status st) pl t j' d = Inl (ValueError STR ''EVENT_PAYLOAD_PRIVATE'')"
proof -
  have once: "\<not> (terminal_kind (kind_of_status st) \<and> list_ex (\<lambda>e. aje_kind e = kind_of_status st) (log_of d i))"
    using live_log_open [OF assms(1-3)] by blast
  with assms(4,5) show ?thesis
    by (simp add: advance_def append_locked_def dict_get_set agent_event_post_init_def new_event_def)
qed

lemma advance_succeeds:
  assumes ok: "agents_ok d" and j: "job_of d i = Some j" and live: "\<not> terminal (aj_status j)"
    and st: "aj_status j' = st" and pub: "\<not> private_members pl"
    and new: "next_event_id uuid5 d i \<notin> event_ids d i" and t: "last_time d i \<le> t"
  shows "advance uuid5 i (kind_of_status st) pl t j' d = Inr
    (d\<lparr>ast_jobs := dict_set (ast_jobs d) i j',
       ast_events := dict_set (ast_events d) i
         (log_of d i @ [new_event uuid5 i (kind_of_status st) pl t (length (log_of d i))])\<rparr>)"
proof -
  have once: "\<not> (terminal_kind (kind_of_status st) \<and> list_ex (\<lambda>e. aje_kind e = kind_of_status st) (log_of d i))"
    using live_log_open [OF ok j live] by blast
  have fresh: "\<forall>e \<in> set (log_of d i). aje_event_id e \<noteq> uuid5 i (''agent-job-event:'' @ decimal (length (log_of d i) + 1))"
    using new unfolding event_ids_def next_event_id_def by (metis image_eqI)
  show ?thesis
    using once pub fresh t st
    by (auto simp: advance_def append_locked_def append_event_locked_def agent_event_post_init_def new_event_def
        dict_get_set Let_def last_time_def list_ex_iff [of "\<lambda>e. aje_event_id e = _"])
qed

lemma job_finish_valid:
  assumes "agent_job_post_init j = Inr j" and "aj_status j = Agent_RUNNING" and "opt_holds (\<lambda>s. s \<le> t) (aj_started_at j)"
  shows "job_complete j r t = Inr (j\<lparr>aj_status := if res_is_safe_refusal r then Agent_SAFE_REFUSAL else Agent_SUCCEEDED,
        aj_finished_at := Some t, aj_result := Some r\<rparr>)"
    and "agent_job_fail j (failure_code_value c) t = Inr (j\<lparr>aj_status := Agent_FAILED, aj_finished_at := Some t,
        aj_error_code := Some (failure_code_value c)\<rparr>)"
proof -
  obtain s where s: "aj_started_at j = Some s" "aj_created_at j \<le> s" "s \<le> t"
    using valid_running [OF assms(1,2)] assms(3) by (auto simp: opt_holds_def)
  note n = valid_running(2-4) [OF assms(1,2)]
  let ?a = "j\<lparr>aj_status := if res_is_safe_refusal r then Agent_SAFE_REFUSAL else Agent_SUCCEEDED,
        aj_finished_at := Some t, aj_result := Some r\<rparr>"
  let ?b = "j\<lparr>aj_status := Agent_FAILED, aj_finished_at := Some t, aj_error_code := Some (failure_code_value c)\<rparr>"
  have "agent_job_static ?a = agent_job_static j" "agent_job_static ?b = agent_job_static j"
    by (rule agent_job_static_cong, simp add: as_submitted_def)+
  then have st: "agent_job_static ?a = Inr ()" "agent_job_static ?b = Inr ()"
    using assms(1) by (simp_all add: agent_job_post_init_iff)
  have "agent_job_post_init ?a = Inr ?a"
    using n s by (simp add: agent_job_post_init_iff st)
      (simp add: agent_job_times_def agent_job_state_def opt_holds_def)
  then show "job_complete j r t = Inr ?a" using assms(2) by (simp add: job_complete_def)
  have "failure_code_value c \<in> set ALLOWED_AGENT_JOB_FAILURE_CODES" "failure_code_value c \<noteq> []"
    by (cases c; simp add: ALLOWED_AGENT_JOB_FAILURE_CODES_def)+
  then have "agent_job_post_init ?b = Inr ?b"
    using n s by (simp add: agent_job_post_init_iff st)
      (simp add: agent_job_times_def agent_job_state_def opt_holds_def)
  moreover have "\<not> bad_error_code (failure_code_value c)"
    by (induction c) code_simp+
  ultimately show "agent_job_fail j (failure_code_value c) t = Inr ?b" using assms(2) by (simp add: agent_job_fail_def)
qed

lemma running_public: "\<not> private_members running_payload"
  by code_simp

lemma failure_public: "\<not> private_members (failed_payload (failure_code_value c))"
  by (induction c) code_simp+

text \<open>A queued job whose query can be built is claimed.\<close>

definition claimed_by :: "(uuid \<Rightarrow> string \<Rightarrow> uuid) \<Rightarrow> (nat \<Rightarrow> int) \<Rightarrow> uuid \<Rightarrow> agent_job \<Rightarrow> agent_store \<Rightarrow> agent_store" where
  "claimed_by uuid5 now i j d =
     d\<lparr>ast_jobs := dict_set (ast_jobs d) i (j\<lparr>aj_status := Agent_RUNNING, aj_started_at := Some (now 0)\<rparr>),
       ast_events := dict_set (ast_events d) i
         (log_of d i @ [new_event uuid5 i Kind_RUNNING running_payload (now 1) (length (log_of d i))])\<rparr>"

lemma execute_begin_claims:
  assumes ok: "agents_ok d" and j: "job_of d i = Some j" and st: "aj_status j = Agent_QUEUED"
    and t: "aj_created_at j \<le> now 0" "last_time d i \<le> now 1"
    and new: "next_event_id uuid5 d i \<notin> event_ids d i" and q: "job_query j = Inr q"
  shows "execute_begin (memory_port uuid5) now i d = (Inr (Claimed q), claimed_by uuid5 now i j d)
    \<and> agents_ok (claimed_by uuid5 now i j d)
    \<and> job_of (claimed_by uuid5 now i j d) i = Some (j\<lparr>aj_status := Agent_RUNNING, aj_started_at := Some (now 0)\<rparr>)"
proof -
  let ?j = "j\<lparr>aj_status := Agent_RUNNING, aj_started_at := Some (now 0)\<rparr>"
  have v: "agent_job_post_init j = Inr j"
    using agents_okD(2) [OF ok] j by (simp add: job_of_def job_stored_def)
  have s: "job_start j (now 0) = Inr ?j" by (rule job_start_valid [OF v st t(1)])
  have a: "advance uuid5 i Kind_RUNNING running_payload (now 1) ?j d = Inr (claimed_by uuid5 now i j d)"
    using advance_succeeds [OF ok j _ _ running_public new t(2), of ?j Agent_RUNNING] st
    by (simp add: claimed_by_def)
  have c: "store_claim uuid5 now i None d = Inr (Some ?j, claimed_by uuid5 now i j d)"
    using j st s a by (simp add: store_claim_def)
  have q': "job_query ?j = Inr q" using q by (simp add: job_query_def job_watch_state_def)
  have "execute_begin (memory_port uuid5) now i d = (Inr (Claimed q), claimed_by uuid5 now i j d)"
    using j st c q'
    by (simp add: execute_begin_def memory_port_def andThen_gets opt_holds_def andThen_runE andThen_lift ret_apply)
  moreover have "agents_ok (claimed_by uuid5 now i j d)"
    using store_claim_Some [OF ok c] by (simp add: call_moves_def)
  ultimately show ?thesis by (simp add: claimed_by_def job_of_def dict_get_set)
qed


text \<open>The end of an execution: the status, and what is stored with it.\<close>

fun end_status :: "conversation_end \<Rightarrow> agent_job_status" where
  "end_status (Answered r) = (if res_is_safe_refusal r then Agent_SAFE_REFUSAL else Agent_SUCCEEDED)"
| "end_status _ = Agent_FAILED"

fun end_payload :: "conversation_end \<Rightarrow> payload" where
  "end_payload (Answered r) = result_event_payload r"
| "end_payload out = failed_payload (failure_code_value (the (failure_of out)))"

fun ended_job :: "agent_job \<Rightarrow> int \<Rightarrow> conversation_end \<Rightarrow> agent_job" where
  "ended_job j t (Answered r) = j\<lparr>aj_status := if res_is_safe_refusal r then Agent_SAFE_REFUSAL else Agent_SUCCEEDED,
     aj_finished_at := Some t, aj_result := Some r\<rparr>"
| "ended_job j t out = j\<lparr>aj_status := Agent_FAILED, aj_finished_at := Some t,
     aj_error_code := Some (failure_code_value (the (failure_of out)))\<rparr>"

lemma end_status_terminal [simp]: "terminal (end_status out)"
  by (cases out) simp_all

lemma ended_job_status [simp]: "aj_status (ended_job j t out) = end_status out"
  by (cases out) simp_all

lemma ended_in_failure:
  assumes "\<forall>r. out \<noteq> Answered r"
  shows "execute_end p now i out = ap_fail p now i (failure_code_value (the (failure_of out)))"
    and "end_status out = Agent_FAILED" and "end_payload out = failed_payload (failure_code_value (the (failure_of out)))"
    and "ended_job j t out = j\<lparr>aj_status := Agent_FAILED, aj_finished_at := Some t,
     aj_error_code := Some (failure_code_value (the (failure_of out)))\<rparr>"
  using assms by (cases out; simp add: execute_end_def)+

text \<open>The end of an execution is the storing of the ended job with the event of its status, or an error.\<close>

lemma execute_end_memory:
  assumes ok: "agents_ok d" and j: "job_of d i = Some j" and st: "aj_status j = Agent_RUNNING"
    and t: "opt_holds (\<lambda>s. s \<le> now 0) (aj_started_at j)"
  shows "execute_end (memory_port uuid5) now i out d =
    (case advance uuid5 i (kind_of_status (end_status out)) (end_payload out) (now 1) (ended_job j (now 0) out) d of
       Inl e \<Rightarrow> (Inl e, d) | Inr d' \<Rightarrow> (Inr (Some (ended_job j (now 0) out)), d'))"
proof -
  have v: "agent_job_post_init j = Inr j"
    using agents_okD(2) [OF ok] j by (simp add: job_of_def job_stored_def)
  note f = job_finish_valid [OF v st t]
  show ?thesis
  proof (cases "\<exists>r. out = Answered r")
    case True
    then obtain r where "out = Answered r" ..
    then show ?thesis using j st f(1) [of r]
      by (simp add: execute_end_def memory_port_def runE_def store_complete_def split: sum.splits)
  next
    case False
    then have n: "\<forall>r. out \<noteq> Answered r" by simp
    show ?thesis unfolding ended_in_failure [OF n]
      using j st f(2) [of "the (failure_of out)"]
      by (simp add: memory_port_def runE_def store_fail_def split: sum.splits)
  qed
qed

section \<open>Properties\<close>

text \<open>
  C33: recovery after a crash ends.  On every reachable store \<open>_recover_interrupted_jobs\<close> returns,
  whatever the batch size and the clock; and when it returns a number rather than an error, that is
  the number of jobs that were running, each of them is queued again as exactly the request that was
  submitted, no other job has changed, and no job is running any more.
\<close>

theorem recovery_terminates:
  assumes "reach (\<lambda>d. d = empty_agent_store) (agent_step uuid5) d"
  shows "\<exists>r d'. recover_interrupted_jobs (memory_port uuid5) cfg now d = Some (r, d')
    \<and> (\<forall>m. r = Inr m \<longrightarrow> m = card {i. \<exists>j. store_get_job d i None = Some j \<and> aj_status j = Agent_RUNNING}
         \<and> (\<forall>i. store_get_job d' i None = map_option requeued (store_get_job d i None))
         \<and> (\<forall>i j. store_get_job d' i None = Some j \<longrightarrow> aj_status j \<noteq> Agent_RUNNING))"
proof -
  have ok: "agents_ok d" by (rule agents.reach_inv [OF assms])
  have "aj_status (requeued j) \<noteq> Agent_RUNNING" for j
    by (simp add: requeued_def as_submitted_def)
  with memory.recover_loop_terminates [OF ok, where batch = "ajc_recovery_batch cfg" and now = now
      and n = 0 and c = 0] show ?thesis
    unfolding recover_interrupted_jobs_def running_ids_def store_get_job_of by fastforce
qed

theorem recovery_terminates_witness:
  "\<exists>r d'. recover_interrupted_jobs (memory_port agent_uuid5) DEFAULT_AGENT_JOB_CONFIGURATION (\<lambda>_ _. 200) demo_claimed
     = Some (r, d')"
  using recovery_terminates [OF demo_agent_reach(3)] by blast

text \<open>
  C34: executing a job touches that job only, and at most once: if the job was not queued, nothing
  changes; otherwise either nothing changes, or the job ends with an outcome, which is what the call
  returns, or it is left claimed and the call raises.  What was submitted is never altered.
\<close>

theorem execute_at_most_once:
  assumes "reach (\<lambda>d. d = empty_agent_store) (agent_step uuid5) d"
    and "execute (memory_port uuid5) conversation now i d = (r, d')"
  shows "(\<forall>k. k \<noteq> i \<longrightarrow> store_get_job d' k None = store_get_job d k None)
    \<and> (d' = d \<or> (\<exists>j j'. store_get_job d i None = Some j \<and> aj_status j = Agent_QUEUED
         \<and> store_get_job d' i None = Some j' \<and> as_submitted j' = j
         \<and> (terminal (aj_status j') \<and> r = Inr (Some j') \<or> aj_status j' = Agent_RUNNING \<and> (\<exists>e. r = Inl e))))"
proof -
  have ok: "agents_ok d" by (rule agents.reach_inv [OF assms(1)])
  have "as_submitted j = j" if "store_get_job d i None = Some j" "aj_status j = Agent_QUEUED" for j
    using agents_okD(2) [OF ok, of i j] that valid_queued by (simp add: job_stored_def job_of_def)
  with memory.repository_execute_outcome [OF ok assms(2)] show ?thesis unfolding store_get_job_of by metis
qed

text \<open>
  C35: a queued job that can run does run to its end.  When its query can be built, the clock does not
  run backwards, the two event identifiers are new and the answer, if there is one, may be shown, then
  executing the job stores and returns it with the status, result or failure code of the
  conversation, and its log gains exactly the events of being claimed and of ending.
\<close>

theorem execute_reaches_outcome:
  assumes "reach (\<lambda>d. d = empty_agent_store) (agent_step uuid5) d"
    and "store_get_job d i None = Some j" and "aj_status j = Agent_QUEUED" and "job_query j = Inr q"
    and "aj_created_at j \<le> now 0 0" and "last_time d i \<le> now 0 1"
    and "now 0 0 \<le> now 1 0" and "now 0 1 \<le> now 1 1"
    and "next_event_id uuid5 d i \<notin> event_ids d i"
    and "next_event_id uuid5 (claimed_by uuid5 (now 0) i j d) i \<notin> insert (next_event_id uuid5 d i) (event_ids d i)"
    and "\<forall>r. conversation q = Answered r \<longrightarrow> \<not> private_members (result_event_payload r)"
  shows "\<exists>j' d' claim end. execute (memory_port uuid5) conversation now i d = (Inr (Some j'), d')
    \<and> store_get_job d' i None = Some j' \<and> j' = ended_job (j\<lparr>aj_status := Agent_RUNNING,
        aj_started_at := Some (now 0 0)\<rparr>) (now 1 0) (conversation q)
    \<and> aj_status j' = end_status (conversation q) \<and> terminal (aj_status j')
    \<and> log_of d' i = log_of d i @ [claim, end]
    \<and> aje_kind claim = Kind_RUNNING \<and> aje_kind end = kind_of_status (aj_status j')"
proof -
  have ok: "agents_ok d" by (rule agents.reach_inv [OF assms(1)])
  have j: "job_of d i = Some j" using assms(2) by simp
  let ?c = "claimed_by uuid5 (now 0) i j d" and ?out = "conversation q"
  let ?j = "j\<lparr>aj_status := Agent_RUNNING, aj_started_at := Some (now 0 0)\<rparr>"
  let ?claim = "new_event uuid5 i Kind_RUNNING running_payload (now 0 1) (length (log_of d i))"
  note b = execute_begin_claims [OF ok j assms(3,5,6,9,4)]
  have cl: "log_of ?c i = log_of d i @ [?claim]" by (simp add: claimed_by_def log_of_def dict_get_set)
  have ids: "event_ids ?c i = insert (next_event_id uuid5 d i) (event_ids d i)"
    by (simp add: event_ids_def cl new_event_def next_event_id_def)
  have pub: "\<not> private_members (end_payload ?out)"
    using assms(11) failure_public ended_in_failure(3) [of ?out]
    by (cases "\<exists>r. ?out = Answered r") auto
  have e: "execute_end (memory_port uuid5) (now 1) i ?out ?c =
      (case advance uuid5 i (kind_of_status (end_status ?out)) (end_payload ?out) (now 1 1)
          (ended_job ?j (now 1 0) ?out) ?c of
       Inl e \<Rightarrow> (Inl e, ?c) | Inr d' \<Rightarrow> (Inr (Some (ended_job ?j (now 1 0) ?out)), d'))"
    by (rule execute_end_memory) (use b assms(7) in \<open>simp_all add: opt_holds_def\<close>)
  have last: "last_time ?c i = now 0 1" by (simp add: last_time_def cl new_event_def)
  have "advance uuid5 i (kind_of_status (end_status ?out)) (end_payload ?out) (now 1 1) (ended_job ?j (now 1 0) ?out) ?c
    = Inr (?c\<lparr>ast_jobs := dict_set (ast_jobs ?c) i (ended_job ?j (now 1 0) ?out),
       ast_events := dict_set (ast_events ?c) i (log_of ?c i
         @ [new_event uuid5 i (kind_of_status (end_status ?out)) (end_payload ?out) (now 1 1) (length (log_of ?c i))])\<rparr>)"
    by (rule advance_succeeds [where j = ?j]) (use b pub last assms(8,10) ids in simp_all)
  then have "\<exists>d'. advance uuid5 i (kind_of_status (end_status ?out)) (end_payload ?out) (now 1 1)
      (ended_job ?j (now 1 0) ?out) ?c = Inr d' \<and> job_of d' i = Some (ended_job ?j (now 1 0) ?out)
      \<and> (\<exists>ev. log_of d' i = log_of ?c i @ [ev] \<and> aje_kind ev = kind_of_status (end_status ?out))"
    by (simp add: job_of_def dict_get_set log_of_def new_event_def)
  then obtain d' ev where d': "advance uuid5 i (kind_of_status (end_status ?out)) (end_payload ?out) (now 1 1)
      (ended_job ?j (now 1 0) ?out) ?c = Inr d'" "job_of d' i = Some (ended_job ?j (now 1 0) ?out)"
      "log_of d' i = log_of ?c i @ [ev]" "aje_kind ev = kind_of_status (end_status ?out)"
    by blast
  have "execute (memory_port uuid5) conversation now i d = (Inr (Some (ended_job ?j (now 1 0) ?out)), d')"
    using b e d'(1) by (simp add: execute_def andThen_def)
  with d'(2-4) cl show ?thesis
    by (intro exI [of _ "ended_job ?j (now 1 0) ?out"] exI [of _ d'] exI [of _ ?claim] exI [of _ ev])
      (simp add: new_event_def)
qed


definition demo_citation :: agent_citation where
  "demo_citation = \<lparr>cit_kind = Cite_transcript, cit_episode = demo_ref 1, cit_start_ms = 1000, cit_end_ms = 2000,
     cit_segment_id = Some 9, cit_claim_id = None, cit_evidence_id = None, cit_source_version_id = None,
     cit_transcript_chunk_id = None, cit_subject_entity_id = None, cit_subject_kind = None,
     cit_subject_display_name = None, cit_predicate = None, cit_object_entity_id = None, cit_object_kind = None,
     cit_object_display_name = None, cit_polarity = None, cit_hop_distance = None, cit_score = None\<rparr>"

definition demo_answer :: "string \<Rightarrow> agent_result" where
  "demo_answer answer = \<lparr>res_answer = Some answer, res_is_safe_refusal = False, res_citations = [demo_citation],
     res_used_tools = [''grounded_transcript_answer'']\<rparr>"

lemma demo_answer_valid:
  "citation_post_init id (\<lambda>s. 0) demo_citation = Inr demo_citation"
  "result_post_init (demo_answer ''The butler.'') = Inr (demo_answer ''The butler.'')"
  "result_post_init (demo_answer ''The pallbearer did.'') = Inr (demo_answer ''The pallbearer did.'')"
  by (code_simp, code_simp, code_simp)

lemma demo_answer_public: "\<not> private_members (result_event_payload (demo_answer ''The butler.''))"
  by code_simp

lemma demo_answer_private: "private_members (result_event_payload (demo_answer ''The pallbearer did.''))"
  by code_simp

lemma demo_query: "\<exists>q. job_query demo_agent_job = Inr q"
proof -
  have q: "\<not> untrimmed ''Who?''" "\<not> untrimmed ''v1''" and name: "\<not> untrimmed ''API session''"
    by code_simp+
  have f: "ref_series_id (demo_ref 1) = 1" "cas_revision demo_scope = ''v1''"
    by (simp_all add: demo_ref_def demo_scope_def)
  have "\<exists>w. job_watch_state demo_agent_job = Inr w"
    using name by (simp add: job_watch_state_def build_bounded_watch_state_def demo_agent_job_def profile_post_init_iff)
  then show ?thesis using q f
    by (auto simp: job_query_def series_query_post_init_def demo_agent_job_def SERIES_QUESTION_MAX_LENGTH_def
        SERIES_MAX_CANDIDATE_EPISODES_def)
qed

lemma demo_event_ids_fresh:
  "next_event_id agent_uuid5 demo_created 5 \<notin> event_ids demo_created 5"
  "next_event_id agent_uuid5 (claimed_by agent_uuid5 now 5 demo_agent_job demo_created) 5
     \<notin> insert (next_event_id agent_uuid5 demo_created 5) (event_ids demo_created 5)"
proof -
  have n: "agent_uuid5 5 (''agent-job-event:'' @ decimal 1) \<noteq> agent_uuid5 5 (''agent-job-event:'' @ decimal 2)"
    "agent_uuid5 5 (''agent-job-event:'' @ decimal 1) \<noteq> agent_uuid5 5 (''agent-job-event:'' @ decimal 3)"
    "agent_uuid5 5 (''agent-job-event:'' @ decimal 2) \<noteq> agent_uuid5 5 (''agent-job-event:'' @ decimal 3)"
    by code_simp+
  have l: "log_of demo_created 5 = [demo_event Kind_QUEUED queued_payload 101 0]"
    "length (log_of (claimed_by agent_uuid5 now 5 demo_agent_job demo_created) 5) = 2"
    by (simp_all add: log_of_def demo_created_def dict_get_def claimed_by_def dict_set_def)
  have i: "next_event_id agent_uuid5 demo_created 5 = agent_uuid5 5 (''agent-job-event:'' @ decimal 2)"
    "next_event_id agent_uuid5 (claimed_by agent_uuid5 now 5 demo_agent_job demo_created) 5
       = agent_uuid5 5 (''agent-job-event:'' @ decimal 3)"
    "event_ids demo_created 5 = {agent_uuid5 5 (''agent-job-event:'' @ decimal 1)}"
    by (simp_all only: next_event_id_def event_ids_def l demo_event_def new_event_def)
      (simp_all add: numeral_2_eq_2 numeral_3_eq_3)
  show "next_event_id agent_uuid5 demo_created 5 \<notin> event_ids demo_created 5"
    "next_event_id agent_uuid5 (claimed_by agent_uuid5 now 5 demo_agent_job demo_created) 5
       \<notin> insert (next_event_id agent_uuid5 demo_created 5) (event_ids demo_created 5)"
    using n by (simp_all only: i) auto
qed

theorem execute_reaches_outcome_witness:
  "\<exists>j' d'. execute (memory_port agent_uuid5) (\<lambda>q. Answered (demo_answer ''The butler.'')) (\<lambda>m n. 200 + int m) 5 demo_created
     = (Inr (Some j'), d') \<and> aj_status j' = Agent_SUCCEEDED"
proof -
  obtain q where q: "job_query demo_agent_job = Inr q" using demo_query by blast
  have j: "store_get_job demo_created 5 None = Some demo_agent_job"
    by (simp add: job_of_def demo_created_def dict_get_def)
  have f: "aj_status demo_agent_job = Agent_QUEUED" "aj_created_at demo_agent_job = 100"
    by (simp_all add: demo_agent_job_def)
  have t: "last_time demo_created 5 = 101"
    by (simp add: last_time_def log_of_def demo_created_def dict_get_def demo_event_def new_event_def)
  from execute_reaches_outcome [OF demo_agent_reach(1) j f(1) q, of "\<lambda>m n. 200 + int m"
      "\<lambda>q. Answered (demo_answer ''The butler.'')"] f t demo_event_ids_fresh demo_answer_public
  show ?thesis by (auto simp: demo_answer_def)
qed

theorem execute_at_most_once_witness:
  "\<exists>r d'. execute (memory_port agent_uuid5) (\<lambda>q. Budget_exceeded) (\<lambda>m n. 200 + int m) 5 demo_claimed = (r, d')
     \<and> d' = demo_claimed"
proof -
  obtain r d' where e: "execute (memory_port agent_uuid5) (\<lambda>q. Budget_exceeded) (\<lambda>m n. 200 + int m) 5 demo_claimed = (r, d')"
    by (cases "execute (memory_port agent_uuid5) (\<lambda>q. Budget_exceeded) (\<lambda>m n. 200 + int m) 5 demo_claimed")
  have "store_get_job demo_claimed 5 None = Some demo_running_job"
    by (simp add: job_of_def demo_claimed_def dict_get_def)
  with execute_at_most_once [OF demo_agent_reach(3) e] have "d' = demo_claimed"
    by (auto simp: demo_running_job_def)
  with e show ?thesis by blast
qed

text \<open>
  C36: a claimed job whose answer holds a forbidden marker is neither completed nor failed.  The store
  refuses the event of such an answer, \<open>execute\<close> does not catch that error, and the job stays
  running: recovery inside the process does not pick it up, since only unavailable stores are
  remembered, and executing it again does nothing.  A valid grounded answer that merely contains
  "pallbearer " is such an answer.
\<close>

theorem private_answer_stays_running:
  assumes "reach (\<lambda>d. d = empty_agent_store) (agent_step uuid5) d"
    and "store_get_job d i None = Some j" and "aj_status j = Agent_QUEUED" and "job_query j = Inr q"
    and "aj_created_at j \<le> now 0 0" and "last_time d i \<le> now 0 1" and "now 0 0 \<le> now 1 0"
    and "next_event_id uuid5 d i \<notin> event_ids d i"
    and "conversation q = Answered r" and "private_members (result_event_payload r)"
  shows "\<exists>j' d'. execute (memory_port uuid5) conversation now i d = (Inl (ValueError STR ''EVENT_PAYLOAD_PRIVATE''), d')
    \<and> store_get_job d' i None = Some j' \<and> aj_status j' = Agent_RUNNING
    \<and> (\<forall>s. sv_interrupted (snd (execute_scheduled (memory_port uuid5) conversation now i (s\<lparr>sv_repo := d\<rparr>)))
         = sv_interrupted s)
    \<and> (\<forall>conversation' now'. snd (execute (memory_port uuid5) conversation' now' i d') = d')"
proof -
  have ok: "agents_ok d" by (rule agents.reach_inv [OF assms(1)])
  have j: "job_of d i = Some j" using assms(2) by simp
  let ?c = "claimed_by uuid5 (now 0) i j d" and ?out = "conversation q"
  let ?j = "j\<lparr>aj_status := Agent_RUNNING, aj_started_at := Some (now 0 0)\<rparr>"
  note b = execute_begin_claims [OF ok j assms(3,5,6,8,4)]
  have okc: "agents_ok ?c" and jc: "job_of ?c i = Some ?j" using b by simp_all
  have "execute_end (memory_port uuid5) (now 1) i ?out ?c =
      (case advance uuid5 i (kind_of_status (end_status ?out)) (end_payload ?out) (now 1 1)
          (ended_job ?j (now 1 0) ?out) ?c of
       Inl e \<Rightarrow> (Inl e, ?c) | Inr d' \<Rightarrow> (Inr (Some (ended_job ?j (now 1 0) ?out)), d'))"
    by (rule execute_end_memory) (use b assms(7) in \<open>simp_all add: opt_holds_def\<close>)
  moreover have "advance uuid5 i (kind_of_status (end_status ?out)) (end_payload ?out) (now 1 1)
      (ended_job ?j (now 1 0) ?out) ?c = Inl (ValueError STR ''EVENT_PAYLOAD_PRIVATE'')"
    by (rule advance_private [OF okc jc]) (use assms(9,10) in simp_all)
  ultimately have e: "execute (memory_port uuid5) conversation now i d
      = (Inl (ValueError STR ''EVENT_PAYLOAD_PRIVATE''), ?c)"
    using b by (simp add: execute_def andThen_def)
  have s: "sv_interrupted (snd (execute_scheduled (memory_port uuid5) conversation now i (s\<lparr>sv_repo := d\<rparr>)))
      = sv_interrupted s" for s :: "agent_store agent_service"
    using e by (simp add: execute_scheduled_def on_repo_def after_execute_def)
  have "snd (execute (memory_port uuid5) conversation' now' i ?c) = ?c" for conversation' now'
  proof -
    obtain x y where xy: "execute (memory_port uuid5) conversation' now' i ?c = (x, y)"
      by (cases "execute (memory_port uuid5) conversation' now' i ?c")
    with memory.repository_execute_outcome [OF okc xy] jc show ?thesis by auto
  qed
  with e s jc show ?thesis by auto
qed


theorem private_answer_stays_running_witness:
  "\<exists>j' d'. execute (memory_port agent_uuid5) (\<lambda>q. Answered (demo_answer ''The pallbearer did.'')) (\<lambda>m n. 200 + int m) 5
       demo_created = (Inl (ValueError STR ''EVENT_PAYLOAD_PRIVATE''), d')
     \<and> store_get_job d' 5 None = Some j' \<and> aj_status j' = Agent_RUNNING"
proof -
  obtain q where q: "job_query demo_agent_job = Inr q" using demo_query by blast
  have j: "store_get_job demo_created 5 None = Some demo_agent_job"
    by (simp add: job_of_def demo_created_def dict_get_def)
  have f: "aj_status demo_agent_job = Agent_QUEUED" "aj_created_at demo_agent_job = 100"
    by (simp_all add: demo_agent_job_def)
  have t: "last_time demo_created 5 = 101"
    by (simp add: last_time_def log_of_def demo_created_def dict_get_def demo_event_def new_event_def)
  from private_answer_stays_running [OF demo_agent_reach(1) j f(1) q, of "\<lambda>m n. 200 + int m"
      "\<lambda>q. Answered (demo_answer ''The pallbearer did.'')" "demo_answer ''The pallbearer did.''"]
    f t demo_event_ids_fresh(1) demo_answer_private
  show ?thesis by auto
qed

end
