(* ===== verification/Agent_Pool.thy ===== *)
theory Agent_Pool
  imports Agent_Service
begin

text \<open>
  The agent job service over the bounded thread pool (\<open>BoundedThreadPoolAgentJobDispatcher\<close> of
  \<open>ports/agent_jobs/dispatcher.py\<close>): its interleaved steps, their limits, and what becomes of a
  submission the pool refuses.
\<close>

section \<open>The pool\<close>

text \<open>
  The steps of the service over the bounded pool: calls of its methods, and what the workers and the
  supervisor thread do.  The executor runs at most \<open>worker_limit\<close> callbacks at a time.
\<close>

inductive pool_step :: "'s agent_port \<Rightarrow> agent_job_config \<Rightarrow> (string \<Rightarrow> string) \<Rightarrow> (string \<Rightarrow> uuid)
    \<Rightarrow> 's agent_service \<Rightarrow> 's agent_service \<Rightarrow> bool" for p cfg sha uuid5 where
  Submit: "submit p cfg sha uuid5 env (pool_dispatch (ajc_pending_limit cfg) accepts) t now c s = (r, s')
    \<Longrightarrow> pool_step p cfg sha uuid5 s s'"
| Start: "start_recovery_supervisor p cfg env0 alive acquired env (\<lambda>n. pool_dispatch (ajc_pending_limit cfg) (takes n)) now s
      = Some (u, s') \<Longrightarrow> pool_step p cfg sha uuid5 s s'"
| Turn: "recovery_turn p cfg env0 env (\<lambda>n. pool_dispatch (ajc_pending_limit cfg) (takes n)) now s = (b, s')
    \<Longrightarrow> pool_step p cfg sha uuid5 s s'"
| Begin: "i \<in> set (sv_pending s) \<Longrightarrow> i \<notin> fst ` set (sv_active s) \<Longrightarrow> int (length (sv_active s)) < ajc_worker_limit cfg
    \<Longrightarrow> \<not> sv_dispatcher_closed s \<Longrightarrow> s' = worker_begin p clk i s \<Longrightarrow> pool_step p cfg sha uuid5 s s'"
| End: "(i, q) \<in> set (sv_active s) \<Longrightarrow> s' = worker_end p clk i out s \<Longrightarrow> pool_step p cfg sha uuid5 s s'"
| Close: "close_service s = (v, s') \<Longrightarrow> pool_step p cfg sha uuid5 s s'"

definition pool_ok :: "agent_job_config \<Rightarrow> 's agent_service \<Rightarrow> bool" where
  "pool_ok cfg s \<longleftrightarrow>
     distinct (sv_pending s) \<and> sv_scheduled s = set (sv_pending s)
     \<and> int (length (sv_pending s)) \<le> ajc_pending_limit cfg
     \<and> distinct (map fst (sv_active s)) \<and> fst ` set (sv_active s) \<subseteq> set (sv_pending s)
     \<and> int (length (sv_active s)) \<le> ajc_worker_limit cfg"

text \<open>The invariant is kept by what touches only the repository or the flags.\<close>

definition same_pool :: "'s agent_service \<Rightarrow> 's agent_service \<Rightarrow> bool" where
  "same_pool s s' \<longleftrightarrow> sv_pending s' = sv_pending s \<and> sv_scheduled s' = sv_scheduled s \<and> sv_active s' = sv_active s"

lemma same_pool_ok: "same_pool s s' \<Longrightarrow> pool_ok cfg s' = pool_ok cfg s"
  by (simp add: same_pool_def pool_ok_def)

lemma same_pool_keeps: "same_pool s s' \<Longrightarrow> pool_ok cfg s \<Longrightarrow> pool_ok cfg s'"
  by (simp add: same_pool_ok)

lemma same_pool_refl [simp]: "same_pool s s"
  by (simp add: same_pool_def)

lemma same_pool_trans: "same_pool s t \<Longrightarrow> same_pool t u \<Longrightarrow> same_pool s u"
  by (simp add: same_pool_def)

lemma same_pool_on_repo: "on_repo m s = (r, s') \<Longrightarrow> same_pool s s'"
  by (auto simp: on_repo_def same_pool_def split: prod.splits)

lemma andThen_keeps:
  assumes "andThen m f s = (r, s')" and "P s" and "\<And>x t. m s = (x, t) \<Longrightarrow> P t"
    and "\<And>x t u. m s = (Inr x, t) \<Longrightarrow> P t \<Longrightarrow> f x t = (r, u) \<Longrightarrow> P u"
  shows "P s'"
proof -
  obtain x t where m: "m s = (x, t)" by (cases "m s")
  show ?thesis
  proof (cases x)
    case (Inl e)
    with assms(1,3) m show ?thesis by (simp add: andThen_def)
  next
    case (Inr y)
    then have "f y t = (r, s')" using assms(1) m by (simp add: andThen_def)
    with assms(3,4) m Inr show ?thesis by blast
  qed
qed

lemma same_pool_reject: "reject_dispatch p now i s = (r, s') \<Longrightarrow> same_pool s s'"
proof -
  assume a: "reject_dispatch p now i s = (r, s')"
  obtain x t where x: "on_repo (ap_reject p now i DISPATCH_UNAVAILABLE) s = (x, t)"
    by (cases "on_repo (ap_reject p now i DISPATCH_UNAVAILABLE) s")
  note st = same_pool_on_repo [OF x]
  have "s' = t \<or> (\<exists>y. on_repo (ap_get p i) t = (y, s'))"
    using a x by (auto simp: reject_dispatch_def andThen_def ret_def split: sum.splits py_error.splits prod.splits)
  with st same_pool_on_repo same_pool_trans show ?thesis by blast
qed

lemma same_pool_recover_each: "recover_each p now n ids m s = (r, s') \<Longrightarrow> same_pool s s'"
proof (induction ids arbitrary: n m s)
  case (Cons i ids)
  obtain x t where x: "on_repo (ap_requeue_job p (now n) i) s = (x, t)"
    by (cases "on_repo (ap_requeue_job p (now n) i) s")
  note st = same_pool_on_repo [OF x]
  show ?case
  proof (cases x)
    case (Inl e)
    with Cons.prems x st show ?thesis by (simp add: andThen_Inl)
  next
    case (Inr y)
    obtain job recovered where y: "y = (job, recovered)" by (cases y)
    let ?t = "t\<lparr>sv_interrupted := filter (\<lambda>k. k \<noteq> i) (sv_interrupted t)\<rparr>"
    have "same_pool s ?t" using st by (simp add: same_pool_def)
    moreover have "recover_each p now (n + 1) ids (if recovered \<and> job \<noteq> None then m + 1 else m) ?t = (r, s')"
      using Cons.prems x Inr y by (simp add: andThen_Inr andThen_put)
    ultimately show ?thesis using Cons.IH same_pool_trans by blast
  qed
qed (simp add: ret_def)

lemma pool_ok_schedule:
  assumes "pool_ok cfg s" and "schedule env (pool_dispatch (ajc_pending_limit cfg) accepts) i s = (r, s')"
  shows "pool_ok cfg s'"
proof (cases "sv_supervisor_failed s \<or> i \<in> sv_scheduled s \<or> en_lease_held env \<noteq> Some True \<or> en_ready env \<noteq> Some True")
  case True
  then have "same_pool s s'" using assms(2) by (auto simp: schedule_def same_pool_def split: if_splits)
  with assms(1) show ?thesis by (simp add: same_pool_ok)
next
  case False
  let ?s = "s\<lparr>sv_scheduled := insert i (sv_scheduled s)\<rparr>"
  have new: "i \<notin> set (sv_pending s)" using False assms(1) by (simp add: pool_ok_def)
  show ?thesis
  proof (cases "sv_dispatcher_closed s \<or> ajc_pending_limit cfg \<le> int (length (sv_pending s)) \<or> \<not> accepts")
    case True
    then have "pool_dispatch (ajc_pending_limit cfg) accepts i ?s = (Inr False, ?s)"
      by (auto simp: pool_dispatch_def)
    then have "s' = ?s\<lparr>sv_scheduled := insert i (sv_scheduled s) - {i}\<rparr>"
      using False assms(2) by (simp add: schedule_def)
    with assms(1) False show ?thesis by (simp add: pool_ok_def)
  next
    case free: False
    then have "pool_dispatch (ajc_pending_limit cfg) accepts i ?s = (Inr True, ?s\<lparr>sv_pending := sv_pending s @ [i]\<rparr>)"
      by (simp add: pool_dispatch_def)
    then have "s' = ?s\<lparr>sv_pending := sv_pending s @ [i]\<rparr>"
      using False assms(2) by (simp add: schedule_def)
    with assms(1) new free show ?thesis by (auto simp: pool_ok_def)
  qed
qed

lemma pool_ok_dispatch_each:
  "dispatch_each env (\<lambda>n. pool_dispatch (ajc_pending_limit cfg) (takes n)) n js m s = (r, s') \<Longrightarrow> pool_ok cfg s
     \<Longrightarrow> pool_ok cfg s'"
proof (induction js arbitrary: n m s)
  case (Cons j js)
  obtain x t where x: "schedule (env n) (pool_dispatch (ajc_pending_limit cfg) (takes n)) (aj_job_id j) s = (x, t)"
    by (cases "schedule (env n) (pool_dispatch (ajc_pending_limit cfg) (takes n)) (aj_job_id j) s")
  note ok = pool_ok_schedule [OF Cons.prems(2) x]
  show ?case
  proof (cases x)
    case (Inl e)
    with Cons.prems x ok show ?thesis by (simp add: andThen_Inl)
  next
    case (Inr y)
    with Cons.prems x ok Cons.IH show ?thesis by (auto simp: andThen_Inr ret_def split: if_splits)
  qed
qed (simp add: ret_def)

lemma pool_ok_dispatch_queued:
  assumes "dispatch_queued_once p cfg env (\<lambda>n. pool_dispatch (ajc_pending_limit cfg) (takes n)) s = (r, s')" and "pool_ok cfg s"
  shows "pool_ok cfg s'"
  using assms unfolding dispatch_queued_once_def
  by (rule andThen_keeps) (use assms(2) same_pool_on_repo same_pool_ok pool_ok_dispatch_each in blast)+

lemma pool_ok_end_callback:
  assumes "pool_ok cfg s"
  shows "pool_ok cfg (end_callback i r s)"
proof -
  have "sv_scheduled (snd (after_execute i r s)) = sv_scheduled s - {i}"
    "sv_pending (snd (after_execute i r s)) = sv_pending s" "sv_active (snd (after_execute i r s)) = sv_active s"
    by (cases r; simp add: after_execute_def Let_def)+
  moreover have "int (length (filter (\<lambda>k. k \<noteq> i) (sv_pending s))) \<le> ajc_pending_limit cfg"
    "int (length (filter (\<lambda>a. fst a \<noteq> i) (sv_active s))) \<le> ajc_worker_limit cfg"
    using assms length_filter_le [of "\<lambda>k. k \<noteq> i" "sv_pending s"] length_filter_le [of "\<lambda>a. fst a \<noteq> i" "sv_active s"]
    unfolding pool_ok_def by linarith+
  moreover have "distinct (map fst (filter (\<lambda>a. fst a \<noteq> i) (sv_active s)))"
    by (rule distinct_map_filter) (use assms in \<open>simp add: pool_ok_def\<close>)
  ultimately show ?thesis using assms by (auto simp: end_callback_def pool_ok_def)
qed


lemma pool_ok_on_repo: "on_repo m s = (r, s') \<Longrightarrow> pool_ok cfg s \<Longrightarrow> pool_ok cfg s'"
  using same_pool_on_repo same_pool_ok by blast

lemma pool_ok_submit:
  assumes "submit p cfg sha uuid5 env (pool_dispatch (ajc_pending_limit cfg) accepts) t now c s = (r, s')" and "pool_ok cfg s"
  shows "pool_ok cfg s'"
proof -
  have tail: "pool_ok cfg v" if "andThen (on_repo (ap_get p k)) (\<lambda>j. ret (f j)) u = (r, v)" and "pool_ok cfg u"
    for k f u v and r :: "agent_job result"
    by (rule andThen_keeps [where P = "pool_ok cfg", OF that(1,2)]) (use that(2) pool_ok_on_repo in \<open>auto simp: ret_def\<close>)
  have hand: "pool_ok cfg v" if "(if created
        then andThen (schedule env (pool_dispatch (ajc_pending_limit cfg) accepts) k) (\<lambda>scheduled.
          if scheduled = Some False then reject_dispatch p clk k else ret ())
        else ret ()) u = (x, v)" and "pool_ok cfg u" for created clk k u x v
  proof (cases created)
    case True
    with that(1) have "andThen (schedule env (pool_dispatch (ajc_pending_limit cfg) accepts) k) (\<lambda>scheduled.
          if scheduled = Some False then reject_dispatch p clk k else ret ()) u = (x, v)" by simp
    then show ?thesis
      by (rule andThen_keeps [where P = "pool_ok cfg", OF _ that(2)])
        (use pool_ok_schedule [OF that(2)] in \<open>auto simp: ret_def split: if_splits intro: same_pool_keeps same_pool_reject\<close>)
  qed (use that in \<open>simp add: ret_def\<close>)
  show ?thesis
    using assms(1) unfolding submit_def
    apply (rule andThen_keeps [where P = "pool_ok cfg", OF _ assms(2)])
     apply (use assms(2) in \<open>auto simp: lift_def split: sum.splits\<close>)[1]
    subgoal for job u v
      apply (rule andThen_keeps [where P = "pool_ok cfg"], assumption, assumption)
       apply (use pool_ok_on_repo in blast)
      subgoal for y w z
        apply (cases y)
        apply simp
        apply (rule andThen_keeps [where P = "pool_ok cfg"], assumption, assumption)
         apply (use hand in blast)
        apply (use tail in blast)
        done
      done
    done
qed

lemma pool_ok_end:
  "worker_end p clk i out s = s' \<Longrightarrow> pool_ok cfg s \<Longrightarrow> pool_ok cfg s'"
  by (cases "on_repo (execute_end p clk i out) s") (auto simp: worker_end_def dest: pool_ok_on_repo intro: pool_ok_end_callback)

lemma pool_ok_begin:
  assumes "i \<in> set (sv_pending s)" and "i \<notin> fst ` set (sv_active s)" and "int (length (sv_active s)) < ajc_worker_limit cfg"
    and "pool_ok cfg s"
  shows "pool_ok cfg (worker_begin p clk i s)"
proof -
  obtain r t where x: "on_repo (execute_begin p clk i) s = (r, t)" by (cases "on_repo (execute_begin p clk i) s")
  have t: "pool_ok cfg t" by (rule pool_ok_on_repo [OF x assms(4)])
  have same: "sv_pending t = sv_pending s" "sv_active t = sv_active s"
    using same_pool_on_repo [OF x] by (simp_all add: same_pool_def)
  have "pool_ok cfg (t\<lparr>sv_active := (i, q) # sv_active t\<rparr>)" for q
    using t assms(1-3) same by (auto simp: pool_ok_def)
  moreover note pool_ok_end_callback [OF t]
  ultimately show ?thesis
    using x by (auto simp: worker_begin_def split: sum.splits begun.splits)
qed

lemma pool_ok_flags [simp]:
  "pool_ok cfg (s\<lparr>sv_supervisor_failed := b\<rparr>) = pool_ok cfg s"
  "pool_ok cfg (s\<lparr>sv_recovery_stop := b\<rparr>) = pool_ok cfg s"
  "pool_ok cfg (s\<lparr>sv_thread := b\<rparr>) = pool_ok cfg s"
  "pool_ok cfg (start_failed s) = pool_ok cfg s"
  by (simp_all add: start_failed_def pool_ok_def)

lemma pool_ok_turn:
  assumes "recovery_turn p cfg env0 env (\<lambda>n. pool_dispatch (ajc_pending_limit cfg) (takes n)) now s = (b, s')"
    and "pool_ok cfg s"
  shows "pool_ok cfg s'"
proof -
  have each: "pool_ok cfg v" if "recover_local_interruptions_once p now s = (x, v)" for x v
    using that assms(2) same_pool_keeps same_pool_recover_each [of p now 0 "sv_interrupted s" 0 s x v]
    by (simp add: recover_local_interruptions_once_def andThen_def gets_def)
  have body: "pool_ok cfg v" if "andThen (recover_local_interruptions_once p now)
      (\<lambda>_. dispatch_queued_once p cfg env (\<lambda>n. pool_dispatch (ajc_pending_limit cfg) (takes n))) s = (x, v)" for x v
    by (rule andThen_keeps [where P = "pool_ok cfg", OF that assms(2) each]) (use pool_ok_dispatch_queued in blast)+
  show ?thesis
    using assms body
    by (auto simp: recovery_turn_def split: option.splits bool.splits prod.splits sum.splits if_splits)
qed

lemma pool_ok_start:
  assumes "start_recovery_supervisor p cfg env0 alive acquired env (\<lambda>n. pool_dispatch (ajc_pending_limit cfg) (takes n)) now s
      = Some (u, s')" and "pool_ok cfg s"
  shows "pool_ok cfg s'"
proof -
  obtain ready s0 where r: "recovery_ready env0 alive s = (ready, s0)" by (cases "recovery_ready env0 alive s")
  have "same_pool s s0" using r by (auto simp: recovery_ready_def same_pool_def Let_def split: if_splits)
  then have s0: "pool_ok cfg s0" using assms(2) by (simp add: same_pool_ok)
  show ?thesis
  proof (cases "sv_closed s \<or> ready \<or> sv_thread s0 \<or> \<not> acquired")
    case True
    with assms s0 r show ?thesis by (auto simp: start_recovery_supervisor_def split: if_splits)
  next
    case False
    let ?s1 = "s0\<lparr>sv_recovery_stop := False, sv_supervisor_failed := False\<rparr>"
    obtain x d where d: "recover_interrupted_jobs p cfg now (sv_repo ?s1) = Some (x, d)"
      using assms(1) False r
      by (cases "recover_interrupted_jobs p cfg now (sv_repo ?s1)") (auto simp: start_recovery_supervisor_def)
    let ?s2 = "?s1\<lparr>sv_repo := d\<rparr>"
    have s2: "pool_ok cfg ?s2" using s0 by (simp add: pool_ok_def)
    obtain y s3 where y: "dispatch_queued_once p cfg env (\<lambda>n. pool_dispatch (ajc_pending_limit cfg) (takes n)) ?s2 = (y, s3)"
      by (cases "dispatch_queued_once p cfg env (\<lambda>n. pool_dispatch (ajc_pending_limit cfg) (takes n)) ?s2")
    note s3 = pool_ok_dispatch_queued [OF y s2]
    have "s' = start_failed ?s2 \<or> s' = start_failed s3 \<or> s' = s3\<lparr>sv_thread := True\<rparr>"
      using assms(1) False r d y by (auto simp: start_recovery_supervisor_def Let_def split: sum.splits)
    with s2 s3 show ?thesis by auto
  qed
qed

lemma pool_step_ok: "pool_step p cfg sha uuid5 s s' \<Longrightarrow> pool_ok cfg s \<Longrightarrow> pool_ok cfg s'"
proof (induction rule: pool_step.induct)
  case (Close s v s')
  then have "same_pool s s'" by (auto simp: close_service_def put_def same_pool_def split: if_splits)
  then show ?case using Close.prems by (rule same_pool_keeps)
qed (blast intro: pool_ok_submit pool_ok_start pool_ok_turn pool_ok_begin pool_ok_end)+


lemma pool_ok_new:
  "agent_job_config_post_init cfg = Inr cfg \<Longrightarrow> pool_ok cfg (new_service d)"
  by (auto simp: pool_ok_def new_service_def agent_job_config_post_init_def split: if_splits)

interpretation pool: invariant_system
  "\<lambda>s. agent_job_config_post_init cfg = Inr cfg \<and> (\<exists>d. s = new_service d)" "pool_step p cfg sha uuid5" "pool_ok cfg"
  by unfold_locales (auto intro: pool_ok_new pool_step_ok)


lemma demo_config_valid: "agent_job_config_post_init DEFAULT_AGENT_JOB_CONFIGURATION = Inr DEFAULT_AGENT_JOB_CONFIGURATION"
  by code_simp


section \<open>Refused submissions\<close>

lemma command_job_any_time:
  assumes "command_job cfg sha uuid5 t c = Inr job"
  shows "command_job cfg sha uuid5 t' c = Inr (job\<lparr>aj_created_at := t'\<rparr>)"
  using assms
  by (auto simp: command_job_def agent_job_post_init_iff agent_job_static_def agent_job_times_def agent_job_state_def
      opt_holds_def bindE_def split: if_splits sum.splits)


lemma job_reject_valid:
  assumes "agent_job_post_init j = Inr j" and "aj_status j = Agent_QUEUED" and "aj_created_at j \<le> t"
  shows "job_reject j DISPATCH_UNAVAILABLE t
    = Inr (j\<lparr>aj_status := Agent_FAILED, aj_finished_at := Some t, aj_error_code := Some DISPATCH_UNAVAILABLE\<rparr>)"
proof -
  let ?j = "j\<lparr>aj_status := Agent_FAILED, aj_finished_at := Some t, aj_error_code := Some DISPATCH_UNAVAILABLE\<rparr>"
  have "agent_job_static ?j = agent_job_static j"
    by (rule agent_job_static_cong, simp add: as_submitted_def)
  then have st: "agent_job_static ?j = Inr ()" using assms(1) by (simp add: agent_job_post_init_iff)
  note n = valid_queued_fields [OF assms(1,2)]
  have "agent_job_post_init ?j = Inr ?j"
    using n assms(3) by (simp add: agent_job_post_init_iff st)
      (simp add: agent_job_times_def agent_job_state_def opt_holds_def DISPATCH_UNAVAILABLE_def ALLOWED_AGENT_JOB_FAILURE_CODES_def)
  moreover have "\<not> bad_error_code DISPATCH_UNAVAILABLE" by code_simp
  ultimately show ?thesis using assms(2) by (simp add: job_reject_def)
qed


lemma store_reject_succeeds:
  assumes ok: "agents_ok d" and j: "job_of d i = Some j" and q: "aj_status j = Agent_QUEUED"
    and t: "aj_created_at j \<le> now 0" "last_time d i \<le> now 1" and new: "next_event_id uuid5 d i \<notin> event_ids d i"
  shows "\<exists>d'. store_reject uuid5 now i DISPATCH_UNAVAILABLE None d
      = Inr (Some (j\<lparr>aj_status := Agent_FAILED, aj_finished_at := Some (now 0), aj_error_code := Some DISPATCH_UNAVAILABLE\<rparr>), d')
    \<and> agents_ok d' \<and> ast_keys d' = ast_keys d
    \<and> job_of d' i = Some (j\<lparr>aj_status := Agent_FAILED, aj_finished_at := Some (now 0), aj_error_code := Some DISPATCH_UNAVAILABLE\<rparr>)"
proof -
  let ?j = "j\<lparr>aj_status := Agent_FAILED, aj_finished_at := Some (now 0), aj_error_code := Some DISPATCH_UNAVAILABLE\<rparr>"
  have v: "agent_job_post_init j = Inr j"
    using agents_okD(2) [OF ok] j by (simp add: job_of_def job_stored_def)
  have pub: "\<not> private_members (failed_payload DISPATCH_UNAVAILABLE)" by code_simp
  obtain d' where a: "advance uuid5 i Kind_FAILED (failed_payload DISPATCH_UNAVAILABLE) (now 1) ?j d = Inr d'"
    and f: "ast_keys d' = ast_keys d" "job_of d' i = Some ?j"
    using advance_succeeds [OF ok j _ _ pub new t(2), of ?j Agent_FAILED] q
    by (simp add: job_of_def dict_get_set)
  have r: "store_reject uuid5 now i DISPATCH_UNAVAILABLE None d = Inr (Some ?j, d')"
    using j q job_reject_valid [OF v q t(1)] a by (simp add: store_reject_def)
  moreover have "agents_ok d'" using store_reject_Some [OF ok r] by (simp add: call_moves_def)
  ultimately show ?thesis using f by blast
qed

text \<open>
  C38: a submission the pool has no room for is a failed job, not a queued one.  The job is stored, ends
  FAILED with the dispatch failure code, is returned like that, takes no place in the pool, and is in no
  list of queued jobs, so that recovery never retries it; submitting the same request again, whatever
  the pool says by then, returns that job and changes nothing.
\<close>

theorem refused_submission_fails:
  assumes "reach (\<lambda>d. d = empty_agent_store) (agent_step ev5) (sv_repo s)"
    and "command_job cfg sha uuid5 t c = Inr job" and "aj_created_at job \<le> now 1 0" and "now 0 0 \<le> now 1 1"
    and "store_create ev5 (now 0 0) job (sv_repo s) = Inr ((stored, True), d1)" and "last_time d1 (aj_job_id job) \<le> now 1 1"
    and "next_event_id ev5 d1 (aj_job_id job) \<notin> event_ids d1 (aj_job_id job)"
    and "en_lease_held env = Some True" and "en_ready env = Some True" and "\<not> sv_supervisor_failed s"
    and "aj_job_id job \<notin> sv_scheduled s"
    and "sv_dispatcher_closed s \<or> ajc_pending_limit cfg \<le> int (length (sv_pending s))"
  shows "\<exists>j s'. submit (memory_port ev5) cfg sha uuid5 env (pool_dispatch (ajc_pending_limit cfg) accepts) t now c s = (Inr j, s')
    \<and> aj_status j = Agent_FAILED \<and> aj_error_code j = Some DISPATCH_UNAVAILABLE \<and> as_submitted j = job
    \<and> store_get_job (sv_repo s') (aj_job_id job) None = Some j
    \<and> sv_pending s' = sv_pending s \<and> sv_scheduled s' = sv_scheduled s
    \<and> (\<forall>limit js. store_list_queued limit (sv_repo s') = Inr js \<longrightarrow> j \<notin> set js)
    \<and> (\<forall>env' dispatch' t' now'. submit (memory_port ev5) cfg sha uuid5 env' dispatch' t' now' c s' = (Inr j, s'))"
proof -
  let ?i = "aj_job_id job" and ?s1 = "s\<lparr>sv_repo := d1\<rparr>" and ?disp = "pool_dispatch (ajc_pending_limit cfg) accepts"
  let ?j = "job\<lparr>aj_status := Agent_FAILED, aj_finished_at := Some (now 1 0), aj_error_code := Some DISPATCH_UNAVAILABLE\<rparr>"
  have v: "agent_job_post_init job = Inr job"
    using assms(2) by (auto simp: command_job_def agent_job_post_init_iff bindE_eq_Inr split: if_splits)
  note c = store_create_new [OF agents.reach_inv [OF assms(1)] v assms(5)]
  have ok1: "agents_ok d1" and j1: "job_of d1 ?i = Some job" and q: "aj_status job = Agent_QUEUED"
    and st: "stored = job" and key: "dict_get (ast_keys d1) (aj_owner_profile_id job, aj_idempotency_key job) = Some ?i"
    using c by (simp_all add: created_def job_of_def dict_get_set)
  obtain d2 where r: "store_reject ev5 (now 1) ?i DISPATCH_UNAVAILABLE None d1 = Inr (Some ?j, d2)"
    and k2: "ast_keys d2 = ast_keys d1" and j2: "job_of d2 ?i = Some ?j"
    using store_reject_succeeds [OF ok1 j1 q assms(3,6,7)] by blast
  let ?s2 = "s\<lparr>sv_repo := d2\<rparr>"
  have sched: "schedule env ?disp ?i ?s1 = (Inr (Some False), ?s1)"
    using assms(8-12) by (auto simp: schedule_def pool_dispatch_def)
  have "reject_dispatch (memory_port ev5) (now 1) ?i ?s1 = (Inr (), ?s2)"
    using r by (simp add: reject_dispatch_def on_repo_def memory_port_def runE_def)
  moreover have "on_repo (ap_create (memory_port ev5) (now 0) job) s = (Inr (job, True), ?s1)"
    using assms(5) st by (simp add: on_repo_def memory_port_def runE_def)
  moreover have "on_repo (ap_get (memory_port ev5) ?i) ?s2 = (Inr (Some ?j), ?s2)"
    using j2 by (simp add: on_repo_def memory_port_def gets_def)
  ultimately have sub: "submit (memory_port ev5) cfg sha uuid5 env ?disp t now c s = (Inr ?j, ?s2)"
    using assms(2) sched by (simp add: submit_def andThen_def lift_def ret_def)
  have again: "submit (memory_port ev5) cfg sha uuid5 env' dispatch' t' now' c ?s2 = (Inr ?j, ?s2)"
    for env' dispatch' t' now'
  proof -
    have "store_create ev5 (now' 0 0) (job\<lparr>aj_created_at := t'\<rparr>) d2 = Inr ((?j, False), d2)"
      using key k2 j2 by (simp add: store_create_def job_of_def)
    with command_job_any_time [OF assms(2), of t'] j2 show ?thesis
      by (simp add: submit_def andThen_def lift_def on_repo_def memory_port_def runE_def gets_def ret_def)
  qed
  have "\<forall>limit js. store_list_queued limit d2 = Inr js \<longrightarrow> ?j \<notin> set js"
    by (auto simp: store_list_queued_def bindE_eq_Inr dest: in_set_takeD)
  moreover have "as_submitted ?j = job" using valid_queued [OF v q] by (simp add: as_submitted_def)
  ultimately show ?thesis using sub again j2 by auto
qed


definition demo_full :: "agent_store agent_service" where
  "demo_full = (new_service empty_agent_store)\<lparr>sv_pending := map nat [101..132], sv_scheduled := set (map nat [101..132])\<rparr>"

theorem refused_submission_fails_witness:
  "\<exists>j s'. submit (memory_port agent_uuid5) DEFAULT_AGENT_JOB_CONFIGURATION (\<lambda>_. replicate 64 CHR ''a'') (\<lambda>_. 5)
       \<lparr>en_lease_held = Some True, en_ready = Some True\<rparr> (pool_dispatch 32 True) 100
       (\<lambda>m n. if m = 0 then 101 else 200) (demo_submit [demo_ref 1])
       demo_full = (Inr j, s') \<and> aj_status j = Agent_FAILED"
proof -
  let ?cfg = DEFAULT_AGENT_JOB_CONFIGURATION and ?sha = "\<lambda>_. replicate 64 CHR ''a''"
  have "canonical_uuid ''00000000-0000-0000-0000-000000000001''" "\<not> untrimmed ''Who?''" by code_simp+
  then have "command_job ?cfg ?sha (\<lambda>_. 5) 100 (demo_submit [demo_ref 1]) = agent_job_post_init demo_agent_job"
    by (simp add: command_job_def demo_submit_def DEFAULT_AGENT_JOB_CONFIGURATION_def command_fingerprint_def
        canonical_request_fingerprint_def stable_agent_job_id_def demo_agent_job_def)
  then have j: "command_job ?cfg ?sha (\<lambda>_. 5) 100 (demo_submit [demo_ref 1]) = Inr demo_agent_job"
    by (simp add: demo_agent_job_valid)
  have c: "store_create agent_uuid5 101 demo_agent_job (sv_repo demo_full) = Inr ((demo_agent_job, True), demo_created)"
    using demo_agent_create by (simp add: demo_full_def new_service_def)
  have e: "reach (\<lambda>d. d = empty_agent_store) (agent_step agent_uuid5) (sv_repo demo_full)"
    by (rule reach_init) (simp add: demo_full_def new_service_def)
  have f: "aj_job_id demo_agent_job = 5" "aj_created_at demo_agent_job = 100" by (simp_all add: demo_agent_job_def)
  have t: "last_time demo_created 5 = 101"
    by (simp add: last_time_def log_of_def demo_created_def dict_get_def demo_event_def new_event_def)
  have p: "ajc_pending_limit ?cfg = 32" by (simp add: DEFAULT_AGENT_JOB_CONFIGURATION_def)
  have "\<exists>j s'. submit (memory_port agent_uuid5) ?cfg ?sha (\<lambda>_. 5) \<lparr>en_lease_held = Some True, en_ready = Some True\<rparr>
      (pool_dispatch (ajc_pending_limit ?cfg) True) 100 (\<lambda>m n. if m = 0 then 101 else 200) (demo_submit [demo_ref 1]) demo_full
      = (Inr j, s') \<and> aj_status j = Agent_FAILED"
    using refused_submission_fails [OF e j, where now = "\<lambda>m n. if m = 0 then 101 else 200" and stored = demo_agent_job
        and ?d1.0 = demo_created and env = "\<lparr>en_lease_held = Some True, en_ready = Some True\<rparr>" and accepts = True]
      c f t p demo_event_ids_fresh(1) by (auto simp: demo_full_def new_service_def)
  then show ?thesis by (simp add: p)
qed

end
