(* ===== verification/Source_Model.thy ===== *)
theory Source_Model
  imports Identifiers Complex_Main
begin

text \<open>
  Governed sources and what is derived from them: documents, versions and their review
  (\<open>domain/models/source\<close>), episode summaries (\<open>domain/models/episode_summary\<close>), transcript
  segments and retrieval chunks (\<open>domain/models/transcript\<close>).  Fields are of the types the code
  checks with \<open>isinstance\<close>; scores are rationals, so that they are finite by type.
\<close>

section \<open>Review\<close>

definition is_final_source_review_status :: "source_review_status \<Rightarrow> bool" where
  "is_final_source_review_status s =
     (s \<in> {Review_AUTOMATED, Review_HYBRID, Review_REVIEWED, Review_REJECTED})"

definition is_source_version_approved :: "source_review_status \<Rightarrow> bool" where
  "is_source_version_approved s = (s \<in> {Review_AUTOMATED, Review_HYBRID, Review_REVIEWED})"

section \<open>Documents and versions\<close>

record source_document =
  sd_document_id :: uuid
  sd_title :: string
  sd_kind :: source_kind
  sd_origin :: string

definition document_post_init :: "source_document \<Rightarrow> source_document result" where
  "document_post_init d =
     (if untrimmed (sd_title d) then Inl (InvalidModelError STR ''SOURCE_DOCUMENT_TITLE_MUST_BE_TRIMMED'')
      else if untrimmed (sd_origin d) then Inl (InvalidModelError STR ''SOURCE_DOCUMENT_ORIGIN_MUST_BE_TRIMMED'')
      else Inr d)"

record source_version =
  sv_version_id :: uuid
  sv_document_id :: uuid
  sv_content_hash :: string
  sv_rights :: rights_status
  sv_acquisition :: source_acquisition_method
  sv_review :: source_review_status
  sv_status :: source_version_status
  sv_acquired_at :: datetime
  sv_parent :: "uuid option"
  sv_reviewed_by :: "string option"
  sv_reviewed_at :: "datetime option"

definition validate_review_metadata :: "source_version \<Rightarrow> unit result" where
  "validate_review_metadata v =
     (let has_reviewer = (sv_reviewed_by v \<noteq> None); was_reviewed_at = (sv_reviewed_at v \<noteq> None)
      in if is_final_source_review_status (sv_review v) then
           (if \<not> has_reviewer \<or> \<not> was_reviewed_at
              then Inl (InvalidModelError STR ''SOURCE_VERSION_REVIEWED_REQUIRES_REVIEW_METADATA'')
            else if untrimmed (the (sv_reviewed_by v))
              then Inl (InvalidModelError STR ''SOURCE_VERSION_REVIEWER_MUST_BE_TRIMMED'')
            else Inr ())
         else if has_reviewer \<or> was_reviewed_at
           then Inl (InvalidModelError STR ''SOURCE_VERSION_NON_REVIEWED_CANNOT_HAVE_REVIEW_METADATA'')
         else Inr ())"

definition version_post_init :: "source_version \<Rightarrow> source_version result" where
  "version_post_init v =
     (if \<not> sha256_pattern (sv_content_hash v)
        then Inl (InvalidModelError STR ''SOURCE_VERSION_CONTENT_HASH_MUST_BE_SHA256'')
      else if \<not> is_aware (sv_acquired_at v)
        then Inl (InvalidModelError STR ''SOURCE_VERSION_ACQUIRED_AT_MUST_BE_TIMEZONE_AWARE'')
      else if opt_holds (\<lambda>t. \<not> is_aware t) (sv_reviewed_at v)
        then Inl (InvalidModelError STR ''SOURCE_VERSION_REVIEWED_AT_MUST_BE_TIMEZONE_AWARE'')
      else if sv_parent v = Some (sv_version_id v)
        then Inl (InvalidModelError STR ''SOURCE_VERSION_PARENT_CANNOT_EQUAL_SELF'')
      else bindE (validate_review_metadata v) (\<lambda>_. Inr v))"

section \<open>Episode summaries\<close>

record episode_summary =
  es_summary_id :: uuid
  es_version_id :: uuid
  es_episode :: episode_ref
  es_text :: string
  es_language :: language
  es_rights :: rights_status
  es_canonical_url :: string
  es_revision_id :: int
  es_revision_timestamp :: datetime
  es_attribution :: string

definition summary_post_init :: "episode_summary \<Rightarrow> episode_summary result" where
  "summary_post_init s =
     (if untrimmed (es_text s) then Inl (InvalidModelError STR ''EPISODE_SUMMARY_TEXT_MUST_BE_TRIMMED'')
      else if untrimmed (es_canonical_url s)
        then Inl (InvalidModelError STR ''EPISODE_SUMMARY_CANONICAL_URL_MUST_BE_TRIMMED'')
      else if es_revision_id s < 1
        then Inl (InvalidModelError STR ''EPISODE_SUMMARY_REVISION_ID_MUST_BE_POSITIVE'')
      else if \<not> is_aware (es_revision_timestamp s)
        then Inl (InvalidModelError STR ''EPISODE_SUMMARY_REVISION_TIMESTAMP_MUST_BE_TIMEZONE_AWARE'')
      else if untrimmed (es_attribution s)
        then Inl (InvalidModelError STR ''EPISODE_SUMMARY_ATTRIBUTION_MUST_BE_TRIMMED'')
      else Inr s)"

section \<open>Transcript segments and chunks\<close>

record speaker_candidate =
  sc_speaker_id :: uuid
  sc_name :: string
  sc_confidence :: rat

definition candidate_post_init :: "speaker_candidate \<Rightarrow> speaker_candidate result" where
  "candidate_post_init c =
     (if untrimmed (sc_name c) then Inl (InvalidModelError STR ''SPEAKER_CANDIDATE_NAME_MUST_BE_TRIMMED'')
      else if sc_confidence c < 0 \<or> sc_confidence c > 1
        then Inl (InvalidModelError STR ''SPEAKER_CANDIDATE_CONFIDENCE_MUST_BE_FINITE'')
      else Inr c)"

record transcript_segment =
  ts_segment_id :: uuid
  ts_version_id :: uuid
  ts_episode :: episode_ref
  ts_start_ms :: int
  ts_end_ms :: int
  ts_text :: string
  ts_language :: language
  ts_rights :: rights_status
  ts_style_removed :: bool
  ts_speakers :: "speaker_candidate list"

definition segment_post_init :: "transcript_segment \<Rightarrow> transcript_segment result" where
  "segment_post_init s =
     (if ts_start_ms s < 0 then Inl (InvalidModelError STR ''TRANSCRIPT_SEGMENT_START_MS_MUST_BE_NON_NEGATIVE'')
      else if ts_end_ms s \<le> ts_start_ms s
        then Inl (InvalidModelError STR ''TRANSCRIPT_SEGMENT_END_MS_MUST_FOLLOW_START_MS'')
      else if untrimmed (ts_text s) then Inl (InvalidModelError STR ''TRANSCRIPT_SEGMENT_TEXT_MUST_BE_TRIMMED'')
      else if has_duplicates (map (\<lambda>c. casefold (sc_name c)) (ts_speakers s))
        then Inl (InvalidModelError STR ''TRANSCRIPT_SEGMENT_CANNOT_HAVE_DUPLICATE_SPEAKER_CANDIDATES'')
      else Inr s)"

record retrieval_chunk =
  rc_chunk_id :: uuid
  rc_version_id :: uuid
  rc_episode :: episode_ref
  rc_ordinal :: int
  rc_members :: "uuid list"
  rc_start_ms :: int
  rc_end_ms :: int
  rc_text :: string
  rc_language :: language
  rc_rights :: rights_status
  rc_revision :: string

definition chunk_post_init :: "retrieval_chunk \<Rightarrow> retrieval_chunk result" where
  "chunk_post_init c =
     (if rc_members c = [] \<or> has_duplicates (rc_members c)
        then Inl (InvalidModelError STR ''TRANSCRIPT_CHUNK_SEGMENTS_MUST_BE_NONEMPTY_UNIQUE'')
      else if rc_ordinal c < 0 then Inl (InvalidModelError STR ''TRANSCRIPT_CHUNK_ORDINAL_MUST_BE_NON_NEGATIVE'')
      else if rc_start_ms c < 0 \<or> rc_end_ms c \<le> rc_start_ms c
        then Inl (InvalidModelError STR ''TRANSCRIPT_CHUNK_TIMING_MUST_BE_VALID'')
      else if untrimmed (rc_text c) then Inl (InvalidModelError STR ''TRANSCRIPT_CHUNK_TEXT_MUST_BE_TRIMMED'')
      else if untrimmed (rc_revision c)
        then Inl (InvalidModelError STR ''TRANSCRIPT_CHUNK_SOURCE_FIELDS_MUST_BE_VALID'')
      else Inr c)"

section \<open>Lemmas\<close>

text \<open>A valid value is one its constructor accepts.\<close>

definition segment_ok :: "transcript_segment \<Rightarrow> bool" where
  "segment_ok s \<longleftrightarrow> segment_post_init s = Inr s"

lemma segment_ok_iff:
  "segment_ok s \<longleftrightarrow> 0 \<le> ts_start_ms s \<and> ts_start_ms s < ts_end_ms s \<and> \<not> untrimmed (ts_text s)
     \<and> distinct (map (\<lambda>c. casefold (sc_name c)) (ts_speakers s))"
  by (auto simp: segment_ok_def segment_post_init_def has_duplicates_iff)

lemma approved_is_final: "is_source_version_approved s \<Longrightarrow> is_final_source_review_status s"
  by (auto simp: is_source_version_approved_def is_final_source_review_status_def)

text \<open>An approved version names who reviewed it and when.\<close>

lemma approved_version_reviewed:
  assumes "version_post_init v = Inr v" and "is_source_version_approved (sv_review v)"
  shows "\<exists>who t. sv_reviewed_by v = Some who \<and> \<not> untrimmed who \<and> sv_reviewed_at v = Some t \<and> is_aware t"
  using assms approved_is_final [OF assms(2)]
  by (cases "sv_reviewed_by v"; cases "sv_reviewed_at v")
    (auto simp: version_post_init_def validate_review_metadata_def bindE_eq_Inr opt_holds_def split: if_splits)

end
