(* ===== verification/Source_Store.thy ===== *)
theory Source_Store
  imports Source_Model "HOL-Library.Product_Lexorder"
begin

text \<open>
  The in-memory stores of governed sources and the services that fill them: transcripts
  (\<open>in_memory_transcript_ingestion_repository.py\<close>, \<open>ingest_reviewed_subtitle_service.py\<close>), episode
  summaries (\<open>in_memory_episode_summary_ingestion_repository.py\<close> with its ingestion and review
  services) and series metadata (\<open>in_memory_series_metadata_ingestion_repository.py\<close>).  They share one
  shape: documents, versions, the active version of a document, and what a version contains.
  \<open>sha256\<close>, \<open>uuid5\<close>, the reader, the canonicaliser and the provider are parameters.
\<close>

section \<open>Stores\<close>

record 'a source_store =
  ss_documents :: "(uuid, source_document) dict"
  ss_versions :: "(uuid, source_version) dict"
  ss_active :: "(uuid, uuid) dict"
  ss_contents :: "(uuid, 'a) dict"

definition empty_source_store :: "'a source_store" where
  "empty_source_store = \<lparr>ss_documents = [], ss_versions = [], ss_active = [], ss_contents = []\<rparr>"

definition get_active_version :: "'a source_store \<Rightarrow> uuid \<Rightarrow> source_version option" where
  "get_active_version d doc =
     (case dict_get (ss_active d) doc of None \<Rightarrow> None | Some v \<Rightarrow> dict_get (ss_versions d) v)"

text \<open>The transcript store indexes its versions, so that a missing one would raise.\<close>

definition transcript_active_version :: "'a source_store \<Rightarrow> uuid \<Rightarrow> source_version option result" where
  "transcript_active_version d doc =
     (case dict_get (ss_active d) doc of None \<Rightarrow> Inr None
      | Some i \<Rightarrow> (case dict_get (ss_versions d) i of None \<Rightarrow> Inl (KeyError STR ''version'') | Some v \<Rightarrow> Inr (Some v)))"

definition with_hash :: "string \<Rightarrow> source_version option \<Rightarrow> source_version option" where
  "with_hash h active = (case active of None \<Rightarrow> None | Some v \<Rightarrow> if sv_content_hash v \<noteq> h then None else Some v)"

definition remember_document :: "source_document \<Rightarrow> ('a source_store, unit) prog" where
  "remember_document doc =
     (\<lambda>d. case dict_get (ss_documents d) (sd_document_id doc) of
        None \<Rightarrow> (Inr (), d\<lparr>ss_documents := dict_set (ss_documents d) (sd_document_id doc) doc\<rparr>)
      | Some x \<Rightarrow> if x \<noteq> doc then (Inl (ValueError STR ''SOURCE_DOCUMENT_ID_METADATA_CONFLICT''), d) else (Inr (), d))"

text \<open>\<open>replace(previous, status=RETIRED)\<close> runs the constructor again.\<close>

definition retire_version :: "source_version option \<Rightarrow> 'a source_store \<Rightarrow> 'a source_store result" where
  "retire_version previous d =
     (case previous of None \<Rightarrow> Inr d
      | Some v \<Rightarrow> bindE (version_post_init (v\<lparr>sv_status := Version_RETIRED\<rparr>)) (\<lambda>r.
          Inr (d\<lparr>ss_versions := dict_set (ss_versions d) (sv_version_id v) r\<rparr>)))"

definition activate_version :: "uuid \<Rightarrow> source_version \<Rightarrow> 'a \<Rightarrow> 'a source_store \<Rightarrow> 'a source_store" where
  "activate_version doc v content d =
     d\<lparr>ss_versions := dict_set (ss_versions d) (sv_version_id v) v,
       ss_active := dict_set (ss_active d) doc (sv_version_id v),
       ss_contents := dict_set (ss_contents d) (sv_version_id v) content\<rparr>"

definition persist_new_subtitle_ingestion :: "source_document \<Rightarrow> source_version \<Rightarrow> source_version option
    \<Rightarrow> transcript_segment list \<Rightarrow> (transcript_segment list source_store, unit) prog" where
  "persist_new_subtitle_ingestion doc v previous segments =
     andThen (remember_document doc) (\<lambda>_.
     andThen (asks (\<lambda>d. transcript_active_version d (sd_document_id doc))) (\<lambda>active.
       if active \<noteq> previous then raise (RuntimeError STR ''ACTIVE_SOURCE_VERSION_CONFLICT'')
       else if list_ex (\<lambda>s. ts_version_id s \<noteq> sv_version_id v) segments
         then raise (ValueError STR ''TRANSCRIPT_SEGMENT_SOURCE_VERSION_MISMATCH'')
       else andThen (updE (retire_version previous)) (\<lambda>_. put (activate_version (sd_document_id doc) v segments))))"

definition persist_new_episode_summary_ingestion :: "source_document \<Rightarrow> source_version \<Rightarrow> source_version option
    \<Rightarrow> episode_summary \<Rightarrow> (episode_summary source_store, unit) prog" where
  "persist_new_episode_summary_ingestion doc v previous summary =
     andThen (remember_document doc) (\<lambda>_.
     andThen (gets (\<lambda>d. get_active_version d (sd_document_id doc))) (\<lambda>active.
       if active \<noteq> previous then raise (RuntimeError STR ''ACTIVE_SOURCE_VERSION_CONFLICT'')
       else if es_version_id summary \<noteq> sv_version_id v
         then raise (ValueError STR ''EPISODE_SUMMARY_SOURCE_VERSION_MISMATCH'')
       else andThen (updE (retire_version previous)) (\<lambda>_. put (activate_version (sd_document_id doc) v summary))))"

text \<open>The metadata store checks everything before it changes anything; \<open>version_of\<close> reads the snapshot's version.\<close>

definition persist_new_series_metadata_ingestion :: "('a \<Rightarrow> uuid) \<Rightarrow> source_document \<Rightarrow> source_version
    \<Rightarrow> source_version option \<Rightarrow> 'a \<Rightarrow> ('a source_store, unit) prog" where
  "persist_new_series_metadata_ingestion version_of doc v previous snapshot =
     andThen (gets (\<lambda>d. (dict_get (ss_documents d) (sd_document_id doc), get_active_version d (sd_document_id doc))))
       (\<lambda>(stored, active).
       if stored \<noteq> None \<and> stored \<noteq> Some doc then raise (ValueError STR ''SOURCE_DOCUMENT_ID_METADATA_CONFLICT'')
       else if active \<noteq> previous then raise (RuntimeError STR ''ACTIVE_SOURCE_VERSION_CONFLICT'')
       else if version_of snapshot \<noteq> sv_version_id v
         then raise (ValueError STR ''SERIES_METADATA_SOURCE_VERSION_MISMATCH'')
       else andThen (remember_document doc) (\<lambda>_.
         andThen (updE (retire_version previous)) (\<lambda>_. put (activate_version (sd_document_id doc) v snapshot))))"

section \<open>Review\<close>

definition reviewed_version ::
    "source_version \<Rightarrow> source_review_status \<Rightarrow> string \<Rightarrow> datetime \<Rightarrow> source_version result" where
  "reviewed_version v st reviewer t =
     version_post_init (v\<lparr>sv_review := st, sv_reviewed_by := Some reviewer, sv_reviewed_at := Some t\<rparr>)"

definition update_review_status :: "uuid \<Rightarrow> source_review_status \<Rightarrow> string \<Rightarrow> datetime
    \<Rightarrow> ('a source_store, source_version) prog" where
  "update_review_status i st reviewer t =
     andThen (gets (\<lambda>d. dict_get (ss_versions d) i)) (\<lambda>found.
       case found of None \<Rightarrow> raise (KeyError STR ''SOURCE_VERSION_NOT_FOUND'')
       | Some v \<Rightarrow> andThen (lift (reviewed_version v st reviewer t)) (\<lambda>v'.
           andThen (put (\<lambda>d. d\<lparr>ss_versions := dict_set (ss_versions d) i v'\<rparr>)) (\<lambda>_. ret v')))"

definition update_metadata_review_status :: "uuid \<Rightarrow> source_review_status \<Rightarrow> string \<Rightarrow> datetime
    \<Rightarrow> ('a source_store, source_version) prog" where
  "update_metadata_review_status i st reviewer t =
     andThen (gets (\<lambda>d. dict_get (ss_versions d) i)) (\<lambda>found.
       if found = None then raise (KeyError STR ''SOURCE_VERSION_NOT_FOUND'')
       else if \<not> is_final_source_review_status st
         then raise (ValueError STR ''SOURCE_VERSION_REVIEW_REQUIRES_FINAL_DECISION'')
       else update_review_status i st reviewer t)"

text \<open>\<open>ReviewEpisodeSummaryService.execute\<close>: the version and whether it was reviewed already.\<close>

definition review_episode_summary :: "uuid \<Rightarrow> source_review_status \<Rightarrow> string \<Rightarrow> datetime
    \<Rightarrow> ('a source_store, source_version \<times> bool) prog" where
  "review_episode_summary i st reviewer t =
     (if \<not> is_final_source_review_status st
        then raise (ValueError STR ''SOURCE_VERSION_REVIEW_REQUIRES_FINAL_DECISION'')
      else andThen (gets (\<lambda>d. dict_get (ss_versions d) i)) (\<lambda>found.
        case found of None \<Rightarrow> raise (LookupError STR ''SOURCE_VERSION_NOT_FOUND'')
        | Some v \<Rightarrow>
            if sv_review v = st then ret (v, True)
            else andThen (update_review_status i st reviewer t) (\<lambda>v'. ret (v', False))))"

section \<open>Reading\<close>

fun collect_segments :: "transcript_segment list source_store \<Rightarrow> episode_ref \<Rightarrow> uuid list
    \<Rightarrow> transcript_segment list result" where
  "collect_segments d e [] = Inr []"
| "collect_segments d e (i # ids) =
     (case dict_get (ss_versions d) i of None \<Rightarrow> Inl (KeyError STR ''version'')
      | Some v \<Rightarrow>
          if \<not> is_source_version_approved (sv_review v) then collect_segments d e ids
          else (case dict_get (ss_contents d) i of None \<Rightarrow> Inl (KeyError STR ''segments'')
            | Some ss \<Rightarrow> bindE (collect_segments d e ids) (\<lambda>rest.
                Inr (filter (\<lambda>s. ts_episode s = e) ss @ rest))))"

definition segment_order :: "transcript_segment \<Rightarrow> int \<times> int \<times> uuid" where
  "segment_order s = (ts_start_ms s, ts_end_ms s, ts_segment_id s)"

definition get_active_reviewed_segments ::
    "transcript_segment list source_store \<Rightarrow> episode_ref \<Rightarrow> transcript_segment list result" where
  "get_active_reviewed_segments d e =
     bindE (collect_segments d e (dict_values (ss_active d))) (\<lambda>ss. Inr (sort_key segment_order ss))"

definition get_active_reviewed_summary :: "episode_summary source_store \<Rightarrow> uuid \<Rightarrow> episode_summary option" where
  "get_active_reviewed_summary d doc =
     (case get_active_version d doc of None \<Rightarrow> None
      | Some v \<Rightarrow>
          if sv_status v \<noteq> Version_ACTIVE then None
          else if \<not> is_final_source_review_status (sv_review v) then None
          else if sv_review v \<noteq> Review_REVIEWED then None
          else dict_get (ss_contents d) (sv_version_id v))"

definition get_active_reviewed_series_metadata :: "'a source_store \<Rightarrow> uuid \<Rightarrow> 'a option" where
  "get_active_reviewed_series_metadata d doc =
     (case get_active_version d doc of None \<Rightarrow> None
      | Some v \<Rightarrow>
          if sv_status v \<noteq> Version_ACTIVE \<or> \<not> is_source_version_approved (sv_review v) then None
          else dict_get (ss_contents d) (sv_version_id v))"


section \<open>Ingestion\<close>

record subtitle_command =
  sbc_document :: source_document
  sbc_locator :: string
  sbc_episode :: episode_ref
  sbc_language :: language
  sbc_rights :: rights_status
  sbc_acquisition :: source_acquisition_method
  sbc_reviewed_by :: string
  sbc_reviewed_at :: datetime
  sbc_review :: source_review_status

record 'r subtitle_result =
  sbr_version :: source_version
  sbr_segments :: "transcript_segment list"
  sbr_report :: "'r option"
  sbr_already :: bool

text \<open>Text, locator, version, episode, language and rights to segments and a report.\<close>

type_synonym 'r canonicaliser =
  "string \<Rightarrow> string \<Rightarrow> uuid \<Rightarrow> episode_ref \<Rightarrow> language \<Rightarrow> rights_status \<Rightarrow> (transcript_segment list \<times> 'r) result"

definition subtitle_version :: "(string \<Rightarrow> uuid) \<Rightarrow> string \<Rightarrow> source_version option \<Rightarrow> datetime \<Rightarrow> subtitle_command
    \<Rightarrow> source_version result" where
  "subtitle_version uuid5 hash previous now c =
     version_post_init
       \<lparr>sv_version_id = source_version_id uuid5 (sd_document_id (sbc_document c)) hash,
        sv_document_id = sd_document_id (sbc_document c), sv_content_hash = hash, sv_rights = sbc_rights c,
        sv_acquisition = sbc_acquisition c, sv_review = sbc_review c, sv_status = Version_ACTIVE,
        sv_acquired_at = now, sv_parent = map_option sv_version_id previous,
        sv_reviewed_by = Some (sbc_reviewed_by c), sv_reviewed_at = Some (sbc_reviewed_at c)\<rparr>"

definition ingest_reviewed_subtitle :: "(string \<Rightarrow> string) \<Rightarrow> (string \<Rightarrow> uuid) \<Rightarrow> (string \<Rightarrow> string result)
    \<Rightarrow> 'r canonicaliser \<Rightarrow> datetime \<Rightarrow> subtitle_command \<Rightarrow> (transcript_segment list source_store, 'r subtitle_result) prog" where
  "ingest_reviewed_subtitle sha uuid5 read canonicalize now c =
     (if \<not> is_source_version_approved (sbc_review c)
        then raise (ValueError STR ''SUBTITLE_INGESTION_REQUIRES_APPROVED_REVIEW_STATUS'')
      else andThen (lift (read (sbc_locator c))) (\<lambda>raw.
        let hash = sha raw; doc = sbc_document c
        in andThen (asks (\<lambda>d. transcript_active_version d (sd_document_id doc))) (\<lambda>active.
          case with_hash hash active of
            Some v \<Rightarrow> ret \<lparr>sbr_version = v, sbr_segments = [], sbr_report = None, sbr_already = True\<rparr>
          | None \<Rightarrow>
              andThen (asks (\<lambda>d. transcript_active_version d (sd_document_id doc))) (\<lambda>previous.
              andThen (lift (subtitle_version uuid5 hash previous now c)) (\<lambda>v.
              andThen (lift (canonicalize raw (sbc_locator c) (sv_version_id v) (sbc_episode c) (sbc_language c)
                  (sbc_rights c))) (\<lambda>(segments, report).
              andThen (persist_new_subtitle_ingestion doc v previous segments) (\<lambda>_.
                ret \<lparr>sbr_version = v, sbr_segments = segments, sbr_report = Some report, sbr_already = False\<rparr>)))))))"

record fetched_summary =
  fs_canonical_url :: string
  fs_revision_id :: int
  fs_revision_timestamp :: datetime
  fs_retrieved_at :: datetime
  fs_text :: string
  fs_language :: language
  fs_attribution :: string

record summary_command =
  smc_document :: source_document
  smc_page_title :: string
  smc_episode :: episode_ref
  smc_language :: language
  smc_rights :: rights_status

definition summary_version ::
    "(string \<Rightarrow> uuid) \<Rightarrow> string \<Rightarrow> source_version option \<Rightarrow> fetched_summary \<Rightarrow> summary_command \<Rightarrow> source_version result" where
  "summary_version uuid5 hash previous f c =
     version_post_init
       \<lparr>sv_version_id = source_version_id uuid5 (sd_document_id (smc_document c)) hash,
        sv_document_id = sd_document_id (smc_document c), sv_content_hash = hash, sv_rights = smc_rights c,
        sv_acquisition = Acquired_MEDIAWIKI_API, sv_review = Review_PENDING, sv_status = Version_ACTIVE,
        sv_acquired_at = fs_retrieved_at f, sv_parent = map_option sv_version_id previous,
        sv_reviewed_by = None, sv_reviewed_at = None\<rparr>"

definition summary_of_fetched ::
    "(string \<Rightarrow> uuid) \<Rightarrow> source_version \<Rightarrow> fetched_summary \<Rightarrow> summary_command \<Rightarrow> episode_summary result" where
  "summary_of_fetched uuid5 v f c =
     summary_post_init
       \<lparr>es_summary_id = episode_summary_document_id uuid5 (sv_version_id v) (ref_episode_id (smc_episode c)) (fs_language f),
        es_version_id = sv_version_id v, es_episode = smc_episode c, es_text = fs_text f, es_language = fs_language f,
        es_rights = smc_rights c, es_canonical_url = fs_canonical_url f, es_revision_id = fs_revision_id f,
        es_revision_timestamp = fs_revision_timestamp f, es_attribution = fs_attribution f\<rparr>"

text \<open>The version, the summary if it is new, and whether it was there already.\<close>

definition ingest_episode_summary :: "(string \<Rightarrow> string) \<Rightarrow> (string \<Rightarrow> uuid) \<Rightarrow> (string \<Rightarrow> language \<Rightarrow> fetched_summary result)
    \<Rightarrow> summary_command \<Rightarrow> (episode_summary source_store, source_version \<times> episode_summary option \<times> bool) prog" where
  "ingest_episode_summary sha uuid5 fetch c =
     andThen (lift (fetch (smc_page_title c) (smc_language c))) (\<lambda>f.
       let hash = sha (fs_text f); doc = smc_document c
       in andThen (gets (\<lambda>d. get_active_version d (sd_document_id doc))) (\<lambda>active.
         case with_hash hash active of
           Some v \<Rightarrow> ret (v, None, True)
         | None \<Rightarrow>
             andThen (gets (\<lambda>d. get_active_version d (sd_document_id doc))) (\<lambda>previous.
             andThen (lift (summary_version uuid5 hash previous f c)) (\<lambda>v.
             andThen (lift (summary_of_fetched uuid5 v f c)) (\<lambda>summary.
             andThen (persist_new_episode_summary_ingestion doc v previous summary) (\<lambda>_.
               ret (v, Some summary, False)))))))"

section \<open>The invariant of a store\<close>

text \<open>
  Each document has at most one active version, which is the one the store points to and has contents;
  versions are valid and stand under their identifiers, contents belong to their versions.
\<close>

definition governed :: "(uuid \<Rightarrow> 'a \<Rightarrow> bool) \<Rightarrow> 'a source_store \<Rightarrow> bool" where
  "governed belongs d \<longleftrightarrow>
     dict_ok (ss_active d)
     \<and> (\<forall>doc i. dict_get (ss_active d) doc = Some i \<longrightarrow>
          (\<exists>v c. dict_get (ss_versions d) i = Some v \<and> sv_document_id v = doc \<and> sv_status v = Version_ACTIVE
             \<and> dict_get (ss_contents d) i = Some c))
     \<and> (\<forall>i v. dict_get (ss_versions d) i = Some v \<longrightarrow>
          sv_version_id v = i \<and> version_post_init v = Inr v
          \<and> (sv_status v = Version_ACTIVE \<longrightarrow> dict_get (ss_active d) (sv_document_id v) = Some i))
     \<and> (\<forall>i c. dict_get (ss_contents d) i = Some c \<longrightarrow> belongs i c)"

lemma governedD:
  assumes "governed belongs d"
  shows "dict_ok (ss_active d)"
    and "dict_get (ss_active d) doc = Some i \<Longrightarrow> \<exists>v c. dict_get (ss_versions d) i = Some v \<and> sv_document_id v = doc
      \<and> sv_status v = Version_ACTIVE \<and> dict_get (ss_contents d) i = Some c"
    and "dict_get (ss_versions d) i = Some v \<Longrightarrow> sv_version_id v = i \<and> version_post_init v = Inr v
      \<and> (sv_status v = Version_ACTIVE \<longrightarrow> dict_get (ss_active d) (sv_document_id v) = Some i)"
    and "dict_get (ss_contents d) i = Some c \<Longrightarrow> belongs i c"
  using assms unfolding governed_def by blast+

lemma governed_empty: "governed belongs empty_source_store"
  by (simp add: governed_def empty_source_store_def dict_simps)

lemma active_version_governed:
  assumes "governed belongs d"
  shows "transcript_active_version d doc = Inr (get_active_version d doc)"
    and "get_active_version d doc = Some v \<longleftrightarrow>
      dict_get (ss_active d) doc = Some (sv_version_id v) \<and> dict_get (ss_versions d) (sv_version_id v) = Some v"
proof -
  show "transcript_active_version d doc = Inr (get_active_version d doc)"
    using governedD(2) [OF assms, of doc]
    by (fastforce simp: transcript_active_version_def get_active_version_def split: option.splits)
  show "get_active_version d doc = Some v \<longleftrightarrow>
      dict_get (ss_active d) doc = Some (sv_version_id v) \<and> dict_get (ss_versions d) (sv_version_id v) = Some v"
    using governedD(3) [OF assms] by (auto simp: get_active_version_def split: option.splits)
qed

lemma governed_documents [simp]: "governed belongs (d\<lparr>ss_documents := x\<rparr>) = governed belongs d"
  by (simp add: governed_def)

text \<open>
  A new version takes over: the active one of its document retires.  No other document may have a
  version of the same identifier.
\<close>

definition takes_over :: "uuid \<Rightarrow> source_version \<Rightarrow> 'a \<Rightarrow> 'a source_store \<Rightarrow> 'a source_store \<Rightarrow> bool" where
  "takes_over doc v c d d' \<longleftrightarrow>
     (\<exists>d1. retire_version (get_active_version d doc) d = Inr d1
        \<and> ss_active d' = dict_set (ss_active d1) doc (sv_version_id v)
        \<and> ss_versions d' = dict_set (ss_versions d1) (sv_version_id v) v
        \<and> ss_contents d' = dict_set (ss_contents d1) (sv_version_id v) c)"

lemma retired_valid: "version_post_init v = Inr v \<Longrightarrow> version_post_init (v\<lparr>sv_status := st\<rparr>) = Inr (v\<lparr>sv_status := st\<rparr>)"
  by (simp add: version_post_init_def validate_review_metadata_def Let_def bindE_eq_Inr split: if_splits)

lemma retire_version_governed:
  assumes "governed belongs d"
  shows "\<exists>d1. retire_version (get_active_version d doc) d = Inr d1 \<and> ss_active d1 = ss_active d
    \<and> ss_contents d1 = ss_contents d \<and> ss_documents d1 = ss_documents d
    \<and> (\<forall>i. dict_get (ss_versions d1) i = map_option (\<lambda>v. if dict_get (ss_active d) doc = Some i
         then v\<lparr>sv_status := Version_RETIRED\<rparr> else v) (dict_get (ss_versions d) i))"
proof (cases "get_active_version d doc")
  case None
  then have "dict_get (ss_active d) doc = None"
    using governedD(2) [OF assms, of doc] by (fastforce simp: get_active_version_def split: option.splits)
  with None show ?thesis by (simp add: retire_version_def option.map_ident)
next
  case (Some v)
  note a = Some [unfolded active_version_governed(2) [OF assms]]
  have "version_post_init v = Inr v" using governedD(3) [OF assms] a by blast
  from retired_valid [OF this] Some a show ?thesis
    by (auto simp: retire_version_def dict_get_set option.map_ident)
qed

lemma takes_over_governed:
  assumes ok: "governed belongs d" and t: "takes_over doc v c d d'"
    and v: "version_post_init v = Inr v" "sv_status v = Version_ACTIVE" "sv_document_id v = doc" and c: "belongs (sv_version_id v) c"
    and own: "\<forall>w. dict_get (ss_versions d) (sv_version_id v) = Some w \<longrightarrow> sv_document_id w = doc"
  shows "governed belongs d'"
proof -
  obtain d1 where r: "retire_version (get_active_version d doc) d = Inr d1"
    and d': "ss_active d' = dict_set (ss_active d1) doc (sv_version_id v)"
      "ss_versions d' = dict_set (ss_versions d1) (sv_version_id v) v"
      "ss_contents d' = dict_set (ss_contents d1) (sv_version_id v) c"
    using t by (auto simp: takes_over_def)
  have d1: "ss_active d1 = ss_active d" "ss_contents d1 = ss_contents d"
    and vs: "dict_get (ss_versions d1) i = map_option (\<lambda>v. if dict_get (ss_active d) doc = Some i
         then v\<lparr>sv_status := Version_RETIRED\<rparr> else v) (dict_get (ss_versions d) i)" for i
    using retire_version_governed [OF ok, of doc] r by auto
  note get = d' d1 dict_get_set vs
  have act: "\<exists>w x. dict_get (ss_versions d') i = Some w \<and> sv_document_id w = k \<and> sv_status w = Version_ACTIVE
      \<and> dict_get (ss_contents d') i = Some x" if "dict_get (ss_active d') k = Some i" for k i
  proof (cases "k = doc")
    case True
    with that v show ?thesis by (simp add: get)
  next
    case False
    then have "dict_get (ss_active d) k = Some i" using that by (simp add: get)
    then obtain w x where w: "dict_get (ss_versions d) i = Some w" "sv_document_id w = k" "sv_status w = Version_ACTIVE"
      "dict_get (ss_contents d) i = Some x"
      using governedD(2) [OF ok] by blast
    then have "i \<noteq> sv_version_id v" "dict_get (ss_active d) doc \<noteq> Some i"
      using own False governedD(2) [OF ok, of doc i] by auto
    with w show ?thesis by (simp add: get)
  qed
  have ver: "sv_version_id w = i \<and> version_post_init w = Inr w
      \<and> (sv_status w = Version_ACTIVE \<longrightarrow> dict_get (ss_active d') (sv_document_id w) = Some i)"
    if "dict_get (ss_versions d') i = Some w" for i w
  proof (cases "i = sv_version_id v")
    case True
    with that v show ?thesis by (simp add: get)
  next
    case False
    then have "dict_get (ss_versions d1) i = Some w" using that by (simp add: d' dict_get_set)
    then obtain u where u: "dict_get (ss_versions d) i = Some u"
      "w = (if dict_get (ss_active d) doc = Some i then u\<lparr>sv_status := Version_RETIRED\<rparr> else u)"
      by (auto simp only: vs map_option_eq_Some)
    with governedD(3) [OF ok u(1)] retired_valid [of u] show ?thesis by (auto simp: get)
  qed
  have "belongs i x" if "dict_get (ss_contents d') i = Some x" for i x
    using that governedD(4) [OF ok, of i x] c by (simp add: get split: if_splits)
  moreover have "dict_ok (ss_active d')" using governedD(1) [OF ok] by (simp add: get dict_ok_set)
  ultimately show ?thesis unfolding governed_def using act ver by blast
qed


section \<open>Transcript ingestion keeps the invariant\<close>

abbreviation belongs_to :: "uuid \<Rightarrow> transcript_segment list \<Rightarrow> bool" where
  "belongs_to i ss \<equiv> (\<forall>s \<in> set ss. ts_version_id s = i)"

definition document_known :: "'a source_store \<Rightarrow> source_document \<Rightarrow> bool" where
  "document_known d doc \<longleftrightarrow> dict_get (ss_documents d) (sd_document_id doc) \<in> {None, Some doc}"

lemma remember_document_eq:
  "remember_document doc d =
     (if document_known d doc then (Inr (), d\<lparr>ss_documents := (case dict_get (ss_documents d) (sd_document_id doc) of
          None \<Rightarrow> dict_set (ss_documents d) (sd_document_id doc) doc | Some x \<Rightarrow> ss_documents d)\<rparr>)
      else (Inl (ValueError STR ''SOURCE_DOCUMENT_ID_METADATA_CONFLICT''), d))"
  by (auto simp: remember_document_def document_known_def split: option.splits)

lemma takes_over_documents:
  assumes "governed belongs d" and "d1 = d\<lparr>ss_documents := x\<rparr>"
  shows "get_active_version d1 doc = get_active_version d doc"
    and "transcript_active_version d1 doc = transcript_active_version d doc"
    and "\<exists>d2. retire_version (get_active_version d doc) d1 = Inr d2 \<and> takes_over doc v c d (activate_version doc v c d2)"
proof -
  show "get_active_version d1 doc = get_active_version d doc"
    "transcript_active_version d1 doc = transcript_active_version d doc"
    using assms(2) by (auto simp: get_active_version_def transcript_active_version_def split: option.split)
  obtain r where r: "retire_version (get_active_version d doc) d = Inr r"
    using retire_version_governed [OF assms(1)] by blast
  have "retire_version (get_active_version d doc) d1 = Inr (r\<lparr>ss_documents := x\<rparr>)"
    using r assms(2) by (auto simp: retire_version_def bindE_eq_Inr split: option.splits)
  with r show "\<exists>d2. retire_version (get_active_version d doc) d1 = Inr d2
      \<and> takes_over doc v c d (activate_version doc v c d2)"
    by (auto simp: takes_over_def activate_version_def)
qed

text \<open>
  What persisting against the version just read does: it takes over, or it raises and changes no more
  than the record of the document.
\<close>

lemma persist_subtitle_outcome:
  assumes ok: "governed belongs_to d"
    and p: "persist_new_subtitle_ingestion doc v (get_active_version d (sd_document_id doc)) ss d = (r, d')"
  shows "(if document_known d doc \<and> belongs_to (sv_version_id v) ss
      then r = Inr () \<and> takes_over (sd_document_id doc) v ss d d'
      else (\<exists>e. r = Inl e) \<and> (\<exists>x. d' = d\<lparr>ss_documents := x\<rparr>))"
proof (cases "document_known d doc")
  case False
  then have "d' = d" "\<exists>e. r = Inl e"
    using p by (auto simp: persist_new_subtitle_ingestion_def andThen_def remember_document_eq)
  then show ?thesis using False by (auto intro: exI [of _ "ss_documents d"])
next
  case True
  define x where "x = (case dict_get (ss_documents d) (sd_document_id doc) of
      None \<Rightarrow> dict_set (ss_documents d) (sd_document_id doc) doc | Some x \<Rightarrow> ss_documents d)"
  let ?d = "d\<lparr>ss_documents := x\<rparr>" and ?prev = "get_active_version d (sd_document_id doc)"
  obtain d2 where d2: "retire_version ?prev ?d = Inr d2"
    and t: "takes_over (sd_document_id doc) v ss d (activate_version (sd_document_id doc) v ss d2)"
    using takes_over_documents(3) [OF ok refl, of "sd_document_id doc" x v ss] by blast
  have rem: "remember_document doc d = (Inr (), ?d)" using True by (simp add: remember_document_eq x_def)
  have act: "transcript_active_version ?d (sd_document_id doc) = Inr ?prev"
    using takes_over_documents(2) [OF ok refl] active_version_governed(1) [OF ok] by simp
  show ?thesis
  proof (cases "belongs_to (sv_version_id v) ss")
    case False
    then have "list_ex (\<lambda>s. ts_version_id s \<noteq> sv_version_id v) ss" by (auto simp: list_ex_iff)
    then have "(r, d') = (Inl (ValueError STR ''TRANSCRIPT_SEGMENT_SOURCE_VERSION_MISMATCH''), ?d)"
      using p rem act by (simp add: persist_new_subtitle_ingestion_def andThen_Inr andThen_asks raise_def)
    with False show ?thesis by auto
  next
    case belong: True
    then have "\<not> list_ex (\<lambda>s. ts_version_id s \<noteq> sv_version_id v) ss" by (auto simp: list_ex_iff)
    then have "(r, d') = (Inr (), activate_version (sd_document_id doc) v ss d2)"
      using p rem act d2 by (simp add: persist_new_subtitle_ingestion_def andThen_Inr andThen_asks andThen_updE put_def)
    with True belong t show ?thesis by simp
  qed
qed

text \<open>What a call of the ingestion service comes to.\<close>

definition new_subtitle :: "(string \<Rightarrow> string) \<Rightarrow> (string \<Rightarrow> uuid) \<Rightarrow> 'r canonicaliser \<Rightarrow> datetime \<Rightarrow> subtitle_command \<Rightarrow> string
    \<Rightarrow> transcript_segment list source_store \<Rightarrow> source_version \<Rightarrow> transcript_segment list \<Rightarrow> 'r \<Rightarrow> bool" where
  "new_subtitle sha uuid5 canonicalize now c raw d v ss report \<longleftrightarrow>
     with_hash (sha raw) (get_active_version d (sd_document_id (sbc_document c))) = None
     \<and> subtitle_version uuid5 (sha raw) (get_active_version d (sd_document_id (sbc_document c))) now c = Inr v
     \<and> canonicalize raw (sbc_locator c) (sv_version_id v) (sbc_episode c) (sbc_language c) (sbc_rights c) = Inr (ss, report)
     \<and> document_known d (sbc_document c) \<and> belongs_to (sv_version_id v) ss"

lemma ingest_subtitle_outcome:
  assumes ok: "governed belongs_to d"
    and i: "ingest_reviewed_subtitle sha uuid5 read canonicalize now c d = (r, d')"
  shows "(\<exists>e x. r = Inl e \<and> d' = d\<lparr>ss_documents := x\<rparr>)
    \<or> is_source_version_approved (sbc_review c) \<and> (\<exists>raw. read (sbc_locator c) = Inr raw
        \<and> ((\<exists>v. with_hash (sha raw) (get_active_version d (sd_document_id (sbc_document c))) = Some v \<and> d' = d
              \<and> r = Inr \<lparr>sbr_version = v, sbr_segments = [], sbr_report = None, sbr_already = True\<rparr>)
         \<or> (\<exists>v ss report. new_subtitle sha uuid5 canonicalize now c raw d v ss report
              \<and> takes_over (sd_document_id (sbc_document c)) v ss d d'
              \<and> r = Inr \<lparr>sbr_version = v, sbr_segments = ss, sbr_report = Some report, sbr_already = False\<rparr>)))"
    (is "?raises \<or> ?returns")
proof -
  let ?doc = "sbc_document c" and ?prev = "get_active_version d (sd_document_id (sbc_document c))"
  have raised: "?raises" if "(r, d') = (Inl e, d)" for e
    using that by (intro exI [of _ e] exI [of _ "ss_documents d"]) simp
  note act = active_version_governed(1) [OF ok, of "sd_document_id ?doc"]
  show ?thesis
  proof (cases "is_source_version_approved (sbc_review c)")
    case False
    with i have "(r, d') = (Inl (ValueError STR ''SUBTITLE_INGESTION_REQUIRES_APPROVED_REVIEW_STATUS''), d)"
      by (simp add: ingest_reviewed_subtitle_def raise_def)
    then show ?thesis using raised by blast
  next
    case True
    show ?thesis
    proof (cases "read (sbc_locator c)")
      case (Inl e)
      with True i have "(r, d') = (Inl e, d)" by (simp add: ingest_reviewed_subtitle_def andThen_lift)
      then show ?thesis using raised by blast
    next
      case (Inr raw)
      note start = True Inr
      show ?thesis
      proof (cases "with_hash (sha raw) ?prev")
        case (Some v)
        with start i act show ?thesis
          by (simp add: ingest_reviewed_subtitle_def andThen_lift Let_def andThen_asks ret_def)
      next
        case None
        show ?thesis
        proof (cases "subtitle_version uuid5 (sha raw) ?prev now c")
          case (Inl e)
          with start None i act have "(r, d') = (Inl e, d)"
            by (simp add: ingest_reviewed_subtitle_def andThen_lift Let_def andThen_asks)
          then show ?thesis using raised by blast
        next
          case (Inr v)
          note version = Inr
          show ?thesis
          proof (cases "canonicalize raw (sbc_locator c) (sv_version_id v) (sbc_episode c) (sbc_language c) (sbc_rights c)")
            case (Inl e)
            with start None version i act have "(r, d') = (Inl e, d)"
              by (simp add: ingest_reviewed_subtitle_def andThen_lift Let_def andThen_asks)
            then show ?thesis using raised by blast
          next
            case (Inr z)
            obtain ss report where z: "z = (ss, report)" by (cases z)
            obtain q d2 where q: "persist_new_subtitle_ingestion ?doc v ?prev ss d = (q, d2)"
              by (cases "persist_new_subtitle_ingestion ?doc v ?prev ss d")
            have rd: "(r, d') = (case q of Inl e \<Rightarrow> (Inl e, d2)
                | Inr u \<Rightarrow> (Inr \<lparr>sbr_version = v, sbr_segments = ss, sbr_report = Some report, sbr_already = False\<rparr>, d2))"
            proof -
              let ?out = "\<lparr>sbr_version = v, sbr_segments = ss, sbr_report = Some report, sbr_already = False\<rparr>"
              have "(r, d') = andThen (persist_new_subtitle_ingestion ?doc v ?prev ss) (\<lambda>_. ret ?out) d"
                using start None version Inr z i act
                by (simp add: ingest_reviewed_subtitle_def andThen_lift Let_def andThen_asks)
              with q show ?thesis by (simp add: andThen_def ret_def)
            qed
            show ?thesis
            proof (cases "document_known d ?doc \<and> belongs_to (sv_version_id v) ss")
              case True
              with persist_subtitle_outcome [OF ok q] start None version Inr z rd show ?thesis
                by (intro disjI2 conjI exI [of _ raw]) (auto simp: new_subtitle_def)
            next
              case False
              with persist_subtitle_outcome [OF ok q] obtain e x where "q = Inl e" "d2 = d\<lparr>ss_documents := x\<rparr>"
                by (auto split: if_splits)
              with rd show ?thesis by auto
            qed
          qed
        qed
      qed
    qed
  qed
qed


text \<open>The states of the transcript store: service calls, one after the other.\<close>

inductive corpus_step :: "(string \<Rightarrow> string) \<Rightarrow> (string \<Rightarrow> uuid) \<Rightarrow> (string \<Rightarrow> string result) \<Rightarrow> 'r canonicaliser
    \<Rightarrow> transcript_segment list source_store \<Rightarrow> transcript_segment list source_store \<Rightarrow> bool"
  for sha uuid5 read canonicalize where
  Ingest: "ingest_reviewed_subtitle sha uuid5 read canonicalize now c d = (r, d') \<Longrightarrow>
    (\<And>raw v. read (sbc_locator c) = Inr raw \<Longrightarrow>
       dict_get (ss_versions d) (source_version_id uuid5 (sd_document_id (sbc_document c)) (sha raw)) = Some v \<Longrightarrow>
       sv_document_id v = sd_document_id (sbc_document c)) \<Longrightarrow>
    corpus_step sha uuid5 read canonicalize d d'"

lemma subtitle_version_fields:
  assumes "subtitle_version uuid5 h previous now c = Inr v"
  shows "version_post_init v = Inr v" "sv_status v = Version_ACTIVE" "sv_document_id v = sd_document_id (sbc_document c)"
    "sv_version_id v = source_version_id uuid5 (sd_document_id (sbc_document c)) h" "sv_content_hash v = h"
    "sv_review v = sbc_review c" "sv_parent v = map_option sv_version_id previous"
proof -
  have e: "v = \<lparr>sv_version_id = source_version_id uuid5 (sd_document_id (sbc_document c)) h,
        sv_document_id = sd_document_id (sbc_document c), sv_content_hash = h, sv_rights = sbc_rights c,
        sv_acquisition = sbc_acquisition c, sv_review = sbc_review c, sv_status = Version_ACTIVE,
        sv_acquired_at = now, sv_parent = map_option sv_version_id previous,
        sv_reviewed_by = Some (sbc_reviewed_by c), sv_reviewed_at = Some (sbc_reviewed_at c)\<rparr>"
    using assms by (auto simp: subtitle_version_def version_post_init_def bindE_eq_Inr split: if_splits)
  show "version_post_init v = Inr v" using assms by (simp add: subtitle_version_def e)
  show "sv_status v = Version_ACTIVE" "sv_document_id v = sd_document_id (sbc_document c)"
    "sv_version_id v = source_version_id uuid5 (sd_document_id (sbc_document c)) h" "sv_content_hash v = h"
    "sv_review v = sbc_review c" "sv_parent v = map_option sv_version_id previous"
    by (simp_all add: e)
qed

lemma corpus_step_governed:
  assumes "corpus_step sha uuid5 read canonicalize d d'" and ok: "governed belongs_to d"
  shows "governed belongs_to d'"
  using assms(1)
proof cases
  case (Ingest now c r)
  from ingest_subtitle_outcome [OF ok Ingest(1)] consider
      (raised) x where "d' = d\<lparr>ss_documents := x\<rparr>" | (already) "d' = d"
    | (new) raw v ss report where "read (sbc_locator c) = Inr raw" "new_subtitle sha uuid5 canonicalize now c raw d v ss report"
        "takes_over (sd_document_id (sbc_document c)) v ss d d'"
    by blast
  then show ?thesis
  proof cases
    case new
    have v: "subtitle_version uuid5 (sha raw) (get_active_version d (sd_document_id (sbc_document c))) now c = Inr v"
      and b: "belongs_to (sv_version_id v) ss"
      using new(2) by (simp_all add: new_subtitle_def)
    note f = subtitle_version_fields [OF v]
    show ?thesis
      by (rule takes_over_governed [OF ok new(3) f(1-3)]) (use b Ingest(2) new(1) f(4) in auto)
  qed (use ok in simp_all)
qed

interpretation corpus: invariant_system "\<lambda>d. d = empty_source_store" "corpus_step sha uuid5 read canonicalize"
  "governed belongs_to"
  by unfold_locales (auto simp: governed_empty intro: corpus_step_governed)

section \<open>What the readers return\<close>

lemma collect_segments_governed:
  assumes ok: "governed belongs_to d"
  shows "set ids \<subseteq> set (dict_values (ss_active d)) \<Longrightarrow>
    \<exists>ss. collect_segments d e ids = Inr ss \<and> set ss = {s. \<exists>i v us. i \<in> set ids \<and> dict_get (ss_versions d) i = Some v
       \<and> is_source_version_approved (sv_review v) \<and> dict_get (ss_contents d) i = Some us \<and> s \<in> set us \<and> ts_episode s = e}"
proof (induction ids)
  case (Cons i ids)
  have "i \<in> set (dict_values (ss_active d))" using Cons.prems by simp
  then obtain doc where "dict_get (ss_active d) doc = Some i"
    using dict_values_get governedD(1) [OF ok] by metis
  then obtain v us where v: "dict_get (ss_versions d) i = Some v" "dict_get (ss_contents d) i = Some us"
    using governedD(2) [OF ok] by blast
  obtain ss where ss: "collect_segments d e ids = Inr ss" and set: "set ss = {s. \<exists>i v us. i \<in> set ids
       \<and> dict_get (ss_versions d) i = Some v \<and> is_source_version_approved (sv_review v)
       \<and> dict_get (ss_contents d) i = Some us \<and> s \<in> set us \<and> ts_episode s = e}"
    using Cons by auto
  show ?case
  proof (cases "is_source_version_approved (sv_review v)")
    case True
    with v ss have "collect_segments d e (i # ids) = Inr (filter (\<lambda>s. ts_episode s = e) us @ ss)" by simp
    moreover have "set (filter (\<lambda>s. ts_episode s = e) us @ ss) = {s. \<exists>k v us. k \<in> set (i # ids)
       \<and> dict_get (ss_versions d) k = Some v \<and> is_source_version_approved (sv_review v)
       \<and> dict_get (ss_contents d) k = Some us \<and> s \<in> set us \<and> ts_episode s = e}"
      unfolding set_append set set_filter using v True by auto
    ultimately show ?thesis by blast
  next
    case False
    with v ss have "collect_segments d e (i # ids) = Inr ss" by simp
    moreover have "set ss = {s. \<exists>k v us. k \<in> set (i # ids)
       \<and> dict_get (ss_versions d) k = Some v \<and> is_source_version_approved (sv_review v)
       \<and> dict_get (ss_contents d) k = Some us \<and> s \<in> set us \<and> ts_episode s = e}"
      unfolding set using v False by auto
    ultimately show ?thesis by blast
  qed
qed simp

text \<open>A segment is served if an approved active version of some document contains it.\<close>

definition served :: "transcript_segment list source_store \<Rightarrow> transcript_segment \<Rightarrow> bool" where
  "served d s \<longleftrightarrow> (\<exists>doc v us. get_active_version d doc = Some v \<and> is_source_version_approved (sv_review v)
     \<and> dict_get (ss_contents d) (sv_version_id v) = Some us \<and> s \<in> set us)"

lemma reviewed_segments_governed:
  assumes ok: "governed belongs_to d"
  shows "\<exists>ss. get_active_reviewed_segments d e = Inr ss \<and> sorted (map segment_order ss)
    \<and> (\<forall>s. s \<in> set ss \<longleftrightarrow> served d s \<and> ts_episode s = e)"
proof -
  obtain ss where ss: "collect_segments d e (dict_values (ss_active d)) = Inr ss"
    and set: "set ss = {s. \<exists>i v us. i \<in> set (dict_values (ss_active d)) \<and> dict_get (ss_versions d) i = Some v
       \<and> is_source_version_approved (sv_review v) \<and> dict_get (ss_contents d) i = Some us \<and> s \<in> set us \<and> ts_episode s = e}"
    using collect_segments_governed [OF ok subset_refl] by blast
  have "s \<in> set ss \<longleftrightarrow> served d s \<and> ts_episode s = e" for s
  proof
    assume "s \<in> set ss"
    then obtain i v us where i: "i \<in> set (dict_values (ss_active d))" "dict_get (ss_versions d) i = Some v"
        "is_source_version_approved (sv_review v)" "dict_get (ss_contents d) i = Some us" "s \<in> set us" "ts_episode s = e"
      using set by blast
    obtain doc where doc: "dict_get (ss_active d) doc = Some i"
      using dict_values_get governedD(1) [OF ok] i(1) by metis
    have vi: "sv_version_id v = i" using governedD(3) [OF ok i(2)] by simp
    then have "get_active_version d doc = Some v"
      using doc i(2) by (simp add: active_version_governed(2) [OF ok])
    with i vi show "served d s \<and> ts_episode s = e" unfolding served_def by blast
  next
    assume "served d s \<and> ts_episode s = e"
    then obtain doc v us where v: "get_active_version d doc = Some v" "is_source_version_approved (sv_review v)"
        "dict_get (ss_contents d) (sv_version_id v) = Some us" "s \<in> set us" "ts_episode s = e"
      by (auto simp: served_def)
    then show "s \<in> set ss"
      unfolding set using active_version_governed(2) [OF ok, of doc v] dict_get_in_values [of "ss_active d" doc]
      by blast
  qed
  with ss show ?thesis by (simp add: get_active_reviewed_segments_def)
qed


lemma takes_over_reads:
  assumes ok: "governed belongs d" and t: "takes_over doc v c d d'"
    and own: "\<forall>w. dict_get (ss_versions d) (sv_version_id v) = Some w \<longrightarrow> sv_document_id w = doc"
  shows "get_active_version d' doc = Some v" "dict_get (ss_contents d') (sv_version_id v) = Some c"
    and "k \<noteq> doc \<Longrightarrow> get_active_version d' k = get_active_version d k"
    and "k \<noteq> doc \<Longrightarrow> get_active_version d k = Some w \<Longrightarrow> dict_get (ss_contents d') (sv_version_id w)
      = dict_get (ss_contents d) (sv_version_id w)"
    and "get_active_version d doc = Some w \<Longrightarrow> sv_version_id w \<noteq> sv_version_id v
      \<Longrightarrow> dict_get (ss_versions d') (sv_version_id w) = Some (w\<lparr>sv_status := Version_RETIRED\<rparr>)"
proof -
  obtain d1 where r: "retire_version (get_active_version d doc) d = Inr d1"
    and d': "ss_active d' = dict_set (ss_active d1) doc (sv_version_id v)"
      "ss_versions d' = dict_set (ss_versions d1) (sv_version_id v) v"
      "ss_contents d' = dict_set (ss_contents d1) (sv_version_id v) c"
    using t by (auto simp: takes_over_def)
  have d1: "ss_active d1 = ss_active d" "ss_contents d1 = ss_contents d"
    and vs: "dict_get (ss_versions d1) i = map_option (\<lambda>v. if dict_get (ss_active d) doc = Some i
         then v\<lparr>sv_status := Version_RETIRED\<rparr> else v) (dict_get (ss_versions d) i)" for i
    using retire_version_governed [OF ok, of doc] r by auto
  show "get_active_version d' doc = Some v" "dict_get (ss_contents d') (sv_version_id v) = Some c"
    by (simp_all add: get_active_version_def d' d1 dict_get_set)
  have other: "i \<noteq> sv_version_id v \<and> dict_get (ss_active d) doc \<noteq> Some i"
    if "k \<noteq> doc" "dict_get (ss_active d) k = Some i" for k i
    using governedD(2) [OF ok that(2)] governedD(2) [OF ok, of doc i] own that(1) by auto
  show "get_active_version d' k = get_active_version d k" if "k \<noteq> doc"
  proof (cases "dict_get (ss_active d) k")
    case None
    with that show ?thesis by (simp add: get_active_version_def d' d1 dict_get_set)
  next
    case (Some i)
    with other [OF that Some] that show ?thesis
      by (simp add: get_active_version_def d' d1 dict_get_set vs option.map_ident)
  qed
  show "dict_get (ss_contents d') (sv_version_id w) = dict_get (ss_contents d) (sv_version_id w)"
    if "k \<noteq> doc" "get_active_version d k = Some w"
    using other [OF that(1), of "sv_version_id w"] that(2)
    by (simp add: active_version_governed(2) [OF ok] d' d1 dict_get_set)
  show "dict_get (ss_versions d') (sv_version_id w) = Some (w\<lparr>sv_status := Version_RETIRED\<rparr>)"
    if "get_active_version d doc = Some w" "sv_version_id w \<noteq> sv_version_id v"
    using that by (simp add: active_version_governed(2) [OF ok] d' dict_get_set vs)
qed

lemma ex_or_other: "(\<exists>k. P k) \<longleftrightarrow> P x \<or> (\<exists>k. k \<noteq> x \<and> P k)"
  by auto

lemma served_after:
  assumes ok: "governed belongs_to d" and t: "takes_over doc v ss d d'" and "is_source_version_approved (sv_review v)"
    and own: "\<forall>w. dict_get (ss_versions d) (sv_version_id v) = Some w \<longrightarrow> sv_document_id w = doc"
  shows "served d' s \<longleftrightarrow> s \<in> set ss \<or> (\<exists>k w us. k \<noteq> doc \<and> get_active_version d k = Some w
    \<and> is_source_version_approved (sv_review w) \<and> dict_get (ss_contents d) (sv_version_id w) = Some us \<and> s \<in> set us)"
proof -
  note r = takes_over_reads [OF ok t own]
  have "served d' s \<longleftrightarrow> (\<exists>w us. get_active_version d' doc = Some w \<and> is_source_version_approved (sv_review w)
      \<and> dict_get (ss_contents d') (sv_version_id w) = Some us \<and> s \<in> set us)
    \<or> (\<exists>k w us. k \<noteq> doc \<and> get_active_version d' k = Some w \<and> is_source_version_approved (sv_review w)
      \<and> dict_get (ss_contents d') (sv_version_id w) = Some us \<and> s \<in> set us)"
    unfolding served_def by (subst ex_or_other [of _ doc]) simp
  also have "\<dots> \<longleftrightarrow> s \<in> set ss \<or> (\<exists>k w us. k \<noteq> doc \<and> get_active_version d k = Some w
    \<and> is_source_version_approved (sv_review w) \<and> dict_get (ss_contents d) (sv_version_id w) = Some us \<and> s \<in> set us)"
    using r(1,2) assms(3) r(3,4) by auto
  finally show ?thesis .
qed

section \<open>Properties\<close>

text \<open>
  C39: only governed transcripts are served.  After any sequence of ingestion calls, reading the
  segments of an episode never raises and returns, in time order, exactly the segments of the approved
  active versions that belong to the episode; each of them comes from a version that is active, approved
  and says by whom and when it was reviewed; and no document has two active versions.
\<close>

theorem only_governed_segments_served:
  assumes "reach (\<lambda>d. d = empty_source_store) (corpus_step sha uuid5 read canonicalize) d"
  shows "(\<exists>ss. get_active_reviewed_segments d e = Inr ss \<and> sorted (map segment_order ss)
      \<and> (\<forall>s. s \<in> set ss \<longleftrightarrow> served d s \<and> ts_episode s = e)
      \<and> (\<forall>s \<in> set ss. \<exists>v who t. dict_get (ss_versions d) (ts_version_id s) = Some v \<and> sv_status v = Version_ACTIVE
           \<and> is_source_version_approved (sv_review v) \<and> sv_reviewed_by v = Some who \<and> \<not> untrimmed who
           \<and> sv_reviewed_at v = Some t))
    \<and> (\<forall>i j v w. dict_get (ss_versions d) i = Some v \<and> dict_get (ss_versions d) j = Some w
         \<and> sv_status v = Version_ACTIVE \<and> sv_status w = Version_ACTIVE \<and> sv_document_id v = sv_document_id w \<longrightarrow> i = j)"
proof -
  have ok: "governed belongs_to d" by (rule corpus.reach_inv [OF assms])
  obtain ss where ss: "get_active_reviewed_segments d e = Inr ss" "sorted (map segment_order ss)"
      "\<forall>s. s \<in> set ss \<longleftrightarrow> served d s \<and> ts_episode s = e"
    using reviewed_segments_governed [OF ok] by blast
  have from_version: "\<exists>v who t. dict_get (ss_versions d) (ts_version_id s) = Some v \<and> sv_status v = Version_ACTIVE
           \<and> is_source_version_approved (sv_review v) \<and> sv_reviewed_by v = Some who \<and> \<not> untrimmed who
           \<and> sv_reviewed_at v = Some t" if "served d s" for s
  proof -
    obtain doc v us where v: "get_active_version d doc = Some v" "is_source_version_approved (sv_review v)"
        "dict_get (ss_contents d) (sv_version_id v) = Some us" "s \<in> set us"
      using \<open>served d s\<close> by (auto simp: served_def)
    note a = v(1) [unfolded active_version_governed(2) [OF ok]]
    have "ts_version_id s = sv_version_id v" using governedD(4) [OF ok v(3)] v(4) by blast
    moreover have "sv_status v = Version_ACTIVE" using governedD(2) [OF ok, of doc] a by auto
    moreover note approved_version_reviewed [OF _ v(2)] governedD(3) [OF ok, of "sv_version_id v" v]
    ultimately show ?thesis using a v(2) by metis
  qed
  have "i = j" if "dict_get (ss_versions d) i = Some v" "dict_get (ss_versions d) j = Some w"
      "sv_status v = Version_ACTIVE" "sv_status w = Version_ACTIVE" "sv_document_id v = sv_document_id w" for i j v w
    using governedD(3) [OF ok that(1)] governedD(3) [OF ok that(2)] that(3-5) by simp
  with ss from_version show ?thesis by blast
qed

text \<open>
  C40: ingesting a reviewed subtitle replaces what its document served, once.  When the call returns,
  the given text is the active version of the document: if it was already, nothing has changed;
  otherwise the version before it is retired, what is served afterwards is the new segments and what
  other documents served, and other documents are as they were.  The same call again changes nothing.
\<close>

theorem subtitle_ingestion_replaces:
  assumes "reach (\<lambda>d. d = empty_source_store) (corpus_step sha uuid5 read canonicalize) d"
    and "ingest_reviewed_subtitle sha uuid5 read canonicalize now c d = (Inr res, d')"
    and "read (sbc_locator c) = Inr raw" and "doc = sd_document_id (sbc_document c)"
    and "\<forall>v. dict_get (ss_versions d) (source_version_id uuid5 doc (sha raw)) = Some v \<longrightarrow> sv_document_id v = doc"
  shows "get_active_version d' doc = Some (sbr_version res) \<and> sv_content_hash (sbr_version res) = sha raw
    \<and> (sbr_already res \<longrightarrow> d' = d)
    \<and> (\<not> sbr_already res \<longrightarrow>
         (\<forall>v. get_active_version d doc = Some v \<and> sv_version_id v \<noteq> sv_version_id (sbr_version res) \<longrightarrow>
            dict_get (ss_versions d') (sv_version_id v) = Some (v\<lparr>sv_status := Version_RETIRED\<rparr>))
         \<and> (\<forall>s. served d' s \<longleftrightarrow> s \<in> set (sbr_segments res) \<or> (\<exists>k w us. k \<noteq> doc \<and> get_active_version d k = Some w
              \<and> is_source_version_approved (sv_review w) \<and> dict_get (ss_contents d) (sv_version_id w) = Some us \<and> s \<in> set us)))
    \<and> (\<forall>k. k \<noteq> doc \<longrightarrow> get_active_version d' k = get_active_version d k)
    \<and> (\<forall>now'. ingest_reviewed_subtitle sha uuid5 read canonicalize now' c d'
         = (Inr \<lparr>sbr_version = sbr_version res, sbr_segments = [], sbr_report = None, sbr_already = True\<rparr>, d'))"
proof -
  have ok: "governed belongs_to d" by (rule corpus.reach_inv [OF assms(1)])
  have "corpus_step sha uuid5 read canonicalize d d'"
    by (rule Ingest [OF assms(2)]) (use assms(3-5) in auto)
  then have ok': "governed belongs_to d'" by (rule corpus_step_governed [OF _ ok])
  have again: "ingest_reviewed_subtitle sha uuid5 read canonicalize now' c d'
      = (Inr \<lparr>sbr_version = v, sbr_segments = [], sbr_report = None, sbr_already = True\<rparr>, d')"
    if "is_source_version_approved (sbc_review c)" "get_active_version d' doc = Some v" "sv_content_hash v = sha raw" for v now'
    using that assms(3,4) active_version_governed(1) [OF ok', of doc]
    by (simp add: ingest_reviewed_subtitle_def andThen_lift Let_def andThen_asks with_hash_def ret_def)
  from ingest_subtitle_outcome [OF ok assms(2)] assms(3) consider
      (already) v where "is_source_version_approved (sbc_review c)" "with_hash (sha raw) (get_active_version d doc) = Some v"
        "d' = d" "res = \<lparr>sbr_version = v, sbr_segments = [], sbr_report = None, sbr_already = True\<rparr>"
    | (new) v ss report where "is_source_version_approved (sbc_review c)"
        "new_subtitle sha uuid5 canonicalize now c raw d v ss report" "takes_over doc v ss d d'"
        "res = \<lparr>sbr_version = v, sbr_segments = ss, sbr_report = Some report, sbr_already = False\<rparr>"
    by (auto simp: assms(4))
  then show ?thesis
  proof cases
    case already
    then have "get_active_version d doc = Some v" "sv_content_hash v = sha raw"
      by (auto simp: with_hash_def split: option.splits if_splits)
    with already again show ?thesis by simp
  next
    case new
    have v: "subtitle_version uuid5 (sha raw) (get_active_version d (sd_document_id (sbc_document c))) now c = Inr v"
      using new(2) by (simp add: new_subtitle_def)
    note f = subtitle_version_fields [OF v]
    have own: "\<forall>w. dict_get (ss_versions d) (sv_version_id v) = Some w \<longrightarrow> sv_document_id w = doc"
      using assms(4,5) f(4) by simp
    note r = takes_over_reads [OF ok new(3) own]
    have "is_source_version_approved (sv_review v)" using new(1) f(6) by simp
    from served_after [OF ok new(3) this own] r again [OF new(1) r(1) f(5)] f(5) new(4)
    show ?thesis by simp
  qed
qed


definition demo_document :: source_document where
  "demo_document = \<lparr>sd_document_id = 70, sd_title = ''Pilot'', sd_kind = Kind_SUBTITLE, sd_origin = ''local''\<rparr>"

definition demo_subtitle :: subtitle_command where
  "demo_subtitle = \<lparr>sbc_document = demo_document, sbc_locator = ''a.srt'', sbc_episode = demo_ref 1, sbc_language = ENGLISH,
     sbc_rights = Rights_ALLOWED, sbc_acquisition = Acquired_LOCAL_FILESYSTEM, sbc_reviewed_by = ''Ann'',
     sbc_reviewed_at = Aware UTC 5, sbc_review = Review_REVIEWED\<rparr>"

definition demo_segment :: "uuid \<Rightarrow> transcript_segment" where
  "demo_segment v = \<lparr>ts_segment_id = 71, ts_version_id = v, ts_episode = demo_ref 1, ts_start_ms = 0, ts_end_ms = 900,
     ts_text = ''Hello there'', ts_language = ENGLISH, ts_rights = Rights_ALLOWED, ts_style_removed = False, ts_speakers = []\<rparr>"

definition demo_canonicaliser :: "unit canonicaliser" where
  "demo_canonicaliser = (\<lambda>t l v e g r. Inr ([demo_segment v], ()))"

definition demo_hash64 :: "string \<Rightarrow> string" where
  "demo_hash64 s = replicate 64 CHR ''a''"

definition demo_version :: source_version where
  "demo_version = \<lparr>sv_version_id = 9, sv_document_id = 70, sv_content_hash = replicate 64 CHR ''a'',
     sv_rights = Rights_ALLOWED, sv_acquisition = Acquired_LOCAL_FILESYSTEM, sv_review = Review_REVIEWED,
     sv_status = Version_ACTIVE, sv_acquired_at = Aware UTC 6, sv_parent = None, sv_reviewed_by = Some ''Ann'',
     sv_reviewed_at = Some (Aware UTC 5)\<rparr>"

definition demo_transcripts :: "transcript_segment list source_store" where
  "demo_transcripts = \<lparr>ss_documents = [(70, demo_document)], ss_versions = [(9, demo_version)], ss_active = [(70, 9)],
     ss_contents = [(9, [demo_segment 9])]\<rparr>"

lemma demo_ingest:
  "ingest_reviewed_subtitle demo_hash64 (\<lambda>_. 9) (\<lambda>_. Inr ''cues'') demo_canonicaliser (Aware UTC 6) demo_subtitle empty_source_store
     = (Inr \<lparr>sbr_version = demo_version, sbr_segments = [demo_segment 9], sbr_report = Some (), sbr_already = False\<rparr>,
        demo_transcripts)"
proof -
  have h: "sha256_pattern (replicate 64 CHR ''a'')" "\<not> untrimmed ''Ann''" by code_simp+
  have "subtitle_version (\<lambda>_. 9) (demo_hash64 ''cues'') None (Aware UTC 6) demo_subtitle = Inr demo_version"
    using h by (simp add: subtitle_version_def version_post_init_def validate_review_metadata_def demo_hash64_def
        demo_subtitle_def demo_version_def source_version_id_def demo_document_def opt_holds_def
        is_final_source_review_status_def)
  moreover have "sbc_document demo_subtitle = demo_document" "is_source_version_approved (sbc_review demo_subtitle)"
    "sd_document_id demo_document = 70" "sv_version_id demo_version = 9" "ts_version_id (demo_segment 9) = 9"
    by (simp_all add: demo_subtitle_def demo_document_def demo_version_def demo_segment_def is_source_version_approved_def)
  moreover have "transcript_active_version d 70 = Inr None" if "ss_active d = []" for d :: "transcript_segment list source_store"
    using that by (simp add: transcript_active_version_def dict_get_Nil)
  ultimately show ?thesis
    by (simp add: ingest_reviewed_subtitle_def lift_def Let_def asks_def empty_source_store_def dict_get_Nil with_hash_def
        demo_canonicaliser_def persist_new_subtitle_ingestion_def remember_document_def andThen_def updE_def
        retire_version_def put_def ret_def activate_version_def demo_transcripts_def dict_set_def)
qed

lemma demo_transcripts_reach:
  "reach (\<lambda>d. d = empty_source_store) (corpus_step demo_hash64 (\<lambda>_. 9) (\<lambda>_. Inr ''cues'') demo_canonicaliser) demo_transcripts"
proof -
  have "corpus_step demo_hash64 (\<lambda>_. 9) (\<lambda>_. Inr ''cues'') demo_canonicaliser empty_source_store demo_transcripts"
    by (rule Ingest [OF demo_ingest]) (simp add: empty_source_store_def dict_get_Nil)
  then show ?thesis by (rule reach_step [rotated]) (rule reach_init, rule refl)
qed

theorem only_governed_segments_served_witness:
  "\<exists>ss. get_active_reviewed_segments demo_transcripts (demo_ref 1) = Inr ss \<and> demo_segment 9 \<in> set ss"
proof -
  have "served demo_transcripts (demo_segment 9)"
    by (auto simp: served_def get_active_version_def demo_transcripts_def dict_get_def demo_version_def
        is_source_version_approved_def intro!: exI [of _ 70])
  moreover have "ts_episode (demo_segment 9) = demo_ref 1" by (simp add: demo_segment_def)
  ultimately show ?thesis
    using only_governed_segments_served [OF demo_transcripts_reach, of "demo_ref 1"] by blast
qed

theorem subtitle_ingestion_replaces_witness:
  "ingest_reviewed_subtitle demo_hash64 (\<lambda>_. 9) (\<lambda>_. Inr ''cues'') demo_canonicaliser (Aware UTC 8) demo_subtitle
     demo_transcripts = (Inr \<lparr>sbr_version = demo_version, sbr_segments = [], sbr_report = None, sbr_already = True\<rparr>,
       demo_transcripts)"
proof -
  have e: "reach (\<lambda>d. d = empty_source_store)
      (corpus_step demo_hash64 (\<lambda>_. 9) (\<lambda>_. Inr ''cues'') demo_canonicaliser) empty_source_store"
    by (rule reach_init) (rule refl)
  show ?thesis
    using subtitle_ingestion_replaces [OF e demo_ingest refl refl]
    by (auto simp: empty_source_store_def dict_get_Nil)
qed

end
