(* ===== verification/Visible_Search.thy ===== *)
theory Visible_Search
  imports Source_Store
begin

text \<open>
  Spoiler-safe search: what a profile may see of an episode's summary and transcript
  (\<open>get_visible_episode_summary_service.py\<close>, \<open>get_visible_episode_context_service.py\<close>) and the lexical
  and hybrid searches over it (\<open>search_visible_episode_segments_service.py\<close>,
  \<open>search_visible_season_segments_service.py\<close>, \<open>search_visible_hybrid_segments_service.py\<close>,
  \<open>domain/retrieval/lexical.py\<close>).  The readers, the season catalogue, the vector encoder and the vector
  index are parameters.  Scores are rationals: the quotients the code computes as floats have the same
  denominator within a search and are ordered alike.
\<close>

section \<open>Lexical scores\<close>

definition token_char :: "char \<Rightarrow> bool" where
  "token_char c = char_in c (lower_chars @ digit_chars)"

text \<open>\<open>re.findall(r"[a-z0-9]+", s)\<close>\<close>

function find_tokens :: "string \<Rightarrow> string list" where
  "find_tokens [] = []"
| "find_tokens (c # s) =
     (if token_char c then (c # takeWhile token_char s) # find_tokens (dropWhile token_char s) else find_tokens s)"
  by pat_completeness auto

termination find_tokens
  by (relation "measure length") (auto simp: le_imp_less_Suc length_dropWhile_le)

definition normalize_tokens :: "string \<Rightarrow> string set" where
  "normalize_tokens s = set (find_tokens (casefold s))"

definition lexical_score :: "string \<Rightarrow> transcript_segment \<Rightarrow> rat" where
  "lexical_score q s =
     (let qt = normalize_tokens q; st = normalize_tokens (ts_text s)
      in if qt = {} \<or> st = {} then 0 else of_nat (card (qt \<inter> st)) / of_nat (card qt))"

section \<open>Visible summaries and contexts\<close>

record visible_summary =
  vs_summary :: "episode_summary option"
  vs_safe_until :: "int option"
  vs_model_only :: bool

abbreviation no_summary :: visible_summary where
  "no_summary \<equiv> \<lparr>vs_summary = None, vs_safe_until = None, vs_model_only = False\<rparr>"

definition get_visible_episode_summary :: "(uuid \<Rightarrow> episode_summary option) \<Rightarrow> uuid \<Rightarrow> profile_watch_state option
    \<Rightarrow> corpus_access_scope \<Rightarrow> visible_summary result" where
  "get_visible_episode_summary reader doc w scope =
     (case reader doc of None \<Rightarrow> Inr no_summary
      | Some s \<Rightarrow> bindE (allows_episode scope (es_episode s)) (\<lambda>allowed.
          if \<not> allowed then Inr no_summary
          else if can_access [es_episode s] w
            then Inr \<lparr>vs_summary = Some s, vs_safe_until = None, vs_model_only = False\<rparr>
          else case partial_safe_until_ms_for (es_episode s) w of
            None \<Rightarrow> Inr no_summary
          | Some ms \<Rightarrow> Inr \<lparr>vs_summary = Some s, vs_safe_until = Some ms, vs_model_only = True\<rparr>))"

record visible_context =
  vc_summary :: "episode_summary option"
  vc_segments :: "transcript_segment list"
  vc_safe_until :: "int option"
  vc_model_only :: bool

abbreviation no_context :: visible_context where
  "no_context \<equiv> \<lparr>vc_summary = None, vc_segments = [], vc_safe_until = None, vc_model_only = False\<rparr>"

definition get_visible_episode_context :: "(uuid \<Rightarrow> episode_summary option) \<Rightarrow> (episode_ref \<Rightarrow> transcript_segment list result)
    \<Rightarrow> episode_ref \<Rightarrow> uuid \<Rightarrow> profile_watch_state option \<Rightarrow> corpus_access_scope \<Rightarrow> visible_context result" where
  "get_visible_episode_context summaries read e doc w scope =
     bindE (allows_episode scope e) (\<lambda>allowed.
       if \<not> allowed then Inr no_context
       else bindE (get_visible_episode_summary summaries doc w scope) (\<lambda>vs.
         bindE (read e) (\<lambda>segments.
           if can_access [e] w
             then Inr \<lparr>vc_summary = vs_summary vs, vc_segments = segments, vc_safe_until = None, vc_model_only = False\<rparr>
           else case partial_safe_until_ms_for e w of
             None \<Rightarrow> Inr no_context
           | Some ms \<Rightarrow> Inr \<lparr>vc_summary = vs_summary vs, vc_segments = filter (\<lambda>s. ts_end_ms s \<le> ms) segments,
               vc_safe_until = Some ms, vc_model_only = vs_model_only vs\<rparr>)))"

section \<open>Searching an episode\<close>

record ranked_segment =
  rk_segment :: transcript_segment
  rk_score :: rat

definition score_segments :: "string \<Rightarrow> transcript_segment list \<Rightarrow> ranked_segment list" where
  "score_segments q ss = map (\<lambda>s. \<lparr>rk_segment = s, rk_score = lexical_score q s\<rparr>) ss"

definition episode_rank :: "ranked_segment \<Rightarrow> rat \<times> int \<times> uuid" where
  "episode_rank r = (- rk_score r, ts_start_ms (rk_segment r), ts_segment_id (rk_segment r))"

record episode_search =
  esr_summary :: "episode_summary option"
  esr_model_only :: bool
  esr_safe_until :: "int option"
  esr_matches :: "ranked_segment list"

definition search_visible_episode :: "(uuid \<Rightarrow> episode_summary option) \<Rightarrow> (episode_ref \<Rightarrow> transcript_segment list result)
    \<Rightarrow> string \<Rightarrow> episode_ref \<Rightarrow> uuid \<Rightarrow> profile_watch_state option \<Rightarrow> corpus_access_scope \<Rightarrow> int \<Rightarrow> episode_search result" where
  "search_visible_episode summaries read q e doc w scope limit =
     (if limit < 1 then Inl (ValueError STR ''SEARCH_LIMIT_MUST_BE_POSITIVE'')
      else bindE (get_visible_episode_context summaries read e doc w scope) (\<lambda>vc.
        Inr \<lparr>esr_summary = vc_summary vc, esr_model_only = vc_model_only vc, esr_safe_until = vc_safe_until vc,
             esr_matches = take (nat limit) (sort_key episode_rank
               (filter (\<lambda>r. rk_score r > 0) (score_segments q (vc_segments vc))))\<rparr>))"

section \<open>Searching a season\<close>

fun visible_segments :: "(episode_ref \<Rightarrow> transcript_segment list result) \<Rightarrow> profile_watch_state option
    \<Rightarrow> corpus_access_scope \<Rightarrow> episode_ref list \<Rightarrow> transcript_segment list result" where
  "visible_segments read w scope [] = Inr []"
| "visible_segments read w scope (e # es) =
     bindE (allows_episode scope e) (\<lambda>allowed.
       if \<not> allowed then visible_segments read w scope es
       else if can_access [e] w
         then bindE (read e) (\<lambda>ss. bindE (visible_segments read w scope es) (\<lambda>rest. Inr (ss @ rest)))
       else case partial_safe_until_ms_for e w of
         None \<Rightarrow> visible_segments read w scope es
       | Some ms \<Rightarrow> bindE (read e) (\<lambda>ss. bindE (visible_segments read w scope es) (\<lambda>rest.
           Inr (filter (\<lambda>s. ts_end_ms s \<le> ms) ss @ rest))))"

definition season_rank :: "ranked_segment \<Rightarrow> rat \<times> episode_position \<times> int \<times> uuid" where
  "season_rank r = (- rk_score r, ref_position (ts_episode (rk_segment r)), ts_start_ms (rk_segment r),
     ts_segment_id (rk_segment r))"

definition search_visible_season :: "(uuid \<Rightarrow> uuid \<Rightarrow> episode_ref list option) \<Rightarrow> (episode_ref \<Rightarrow> transcript_segment list result)
    \<Rightarrow> string \<Rightarrow> uuid \<Rightarrow> uuid \<Rightarrow> profile_watch_state option \<Rightarrow> corpus_access_scope \<Rightarrow> int \<Rightarrow> ranked_segment list result" where
  "search_visible_season catalogue read q series season w scope limit =
     (if limit < 1 then Inl (ValueError STR ''SEARCH_LIMIT_MUST_BE_POSITIVE'')
      else case catalogue series season of None \<Rightarrow> Inr []
        | Some es \<Rightarrow> bindE (visible_segments read w scope es) (\<lambda>ss.
            Inr (take (nat limit) (sort_key season_rank (filter (\<lambda>r. rk_score r > 0) (score_segments q ss))))))"

section \<open>Hybrid search\<close>

record retrieved_segment =
  rt_segment_id :: uuid
  rt_version_id :: uuid
  rt_episode :: episode_ref
  rt_start_ms :: int
  rt_end_ms :: int
  rt_text :: string
  rt_language :: language
  rt_rights :: rights_status
  rt_score :: rat
  rt_members :: "uuid list"
  rt_revision :: string
  rt_ordinal :: int

definition TRANSCRIPT_INDEX_REVISION :: string where
  "TRANSCRIPT_INDEX_REVISION = ''transcript-chunk-v1''"

definition retrieved_post_init :: "retrieved_segment \<Rightarrow> retrieved_segment result" where
  "retrieved_post_init r =
     (if rt_start_ms r < 0 \<or> rt_end_ms r \<le> rt_start_ms r
        then Inl (InvalidModelError STR ''RETRIEVED_SEGMENT_TIMING_MUST_BE_VALID'')
      else if untrimmed (rt_text r) then Inl (InvalidModelError STR ''RETRIEVED_SEGMENT_TEXT_MUST_BE_VALID'')
      else if rt_rights r \<noteq> Rights_ALLOWED
        then Inl (InvalidModelError STR ''RETRIEVED_SEGMENT_GOVERNANCE_MUST_BE_VALID'')
      else if rt_members r = [] \<or> has_duplicates (rt_members r)
        then Inl (InvalidModelError STR ''QDRANT_RESULT_MEMBER_SEGMENTS_MUST_BE_VALID'')
      else if rt_ordinal r < 0 \<or> rt_revision r \<noteq> TRANSCRIPT_INDEX_REVISION
        then Inl (InvalidModelError STR ''QDRANT_RESULT_INDEX_REVISION_MUST_MATCH'')
      else Inr r)"

definition validate_hybrid_query :: "string \<Rightarrow> int \<Rightarrow> episode_ref list \<Rightarrow> unit result" where
  "validate_hybrid_query q limit es =
     (if untrimmed q then Inl (ValueError STR ''SEARCH_QUERY_MUST_BE_TRIMMED_NONEMPTY'')
      else if limit < 1 then Inl (ValueError STR ''SEARCH_LIMIT_MUST_BE_POSITIVE'')
      else if has_duplicates (map ref_episode_id es)
        then Inl (ValueError STR ''CANDIDATE_EPISODE_IDS_MUST_BE_UNIQUE'')
      else Inr ())"

text \<open>The dictionary keeps the last scope of an episode identifier.\<close>

definition scope_by_episode :: "retrieval_scope \<Rightarrow> uuid \<Rightarrow> episode_visibility_scope option" where
  "scope_by_episode rs i = List.find (\<lambda>v. ref_episode_id (evs_episode v) = i) (rev (rs_episode_scopes rs))"

definition in_scope :: "retrieval_scope \<Rightarrow> retrieved_segment \<Rightarrow> bool" where
  "in_scope rs m =
     (case scope_by_episode rs (ref_episode_id (rt_episode m)) of None \<Rightarrow> False
      | Some v \<Rightarrow> evs_episode v = rt_episode m
          \<and> (case evs_safe_until_ms v of None \<Rightarrow> True | Some ms \<Rightarrow> rt_end_ms m \<le> ms))"

definition validate_hybrid_results :: "retrieved_segment list \<Rightarrow> retrieval_scope \<Rightarrow> int \<Rightarrow> unit result" where
  "validate_hybrid_results ms rs limit =
     (if int (length ms) > limit
        then Inl (InvalidModelError STR ''VECTOR_INDEX_RESULT_COUNT_MUST_NOT_EXCEED_LIMIT'')
      else if has_duplicates (map rt_segment_id ms)
        then Inl (InvalidModelError STR ''VECTOR_INDEX_RESULT_IDS_MUST_BE_UNIQUE'')
      else if list_ex (\<lambda>m. \<not> in_scope rs m) ms
        then Inl (InvalidModelError STR ''VECTOR_INDEX_RESULT_MUST_MATCH_SCOPE'')
      else Inr ())"

text \<open>The matches and the number of visible episodes.\<close>

definition search_visible_hybrid :: "(string \<Rightarrow> 'v result) \<Rightarrow> ('v \<Rightarrow> retrieval_scope \<Rightarrow> int \<Rightarrow> retrieved_segment list result)
    \<Rightarrow> string \<Rightarrow> uuid \<Rightarrow> episode_ref list \<Rightarrow> profile_watch_state option \<Rightarrow> corpus_access_scope \<Rightarrow> int
    \<Rightarrow> (retrieved_segment list \<times> nat) result" where
  "search_visible_hybrid encode search q series es w scope limit =
     bindE (validate_hybrid_query q limit es) (\<lambda>_.
     bindE (compile_scope series es w scope) (\<lambda>rs.
       if rs_episode_scopes rs = [] then Inr ([], 0)
       else bindE (encode q) (\<lambda>v.
         bindE (search v rs limit) (\<lambda>ms.
         bindE (validate_hybrid_results ms rs limit) (\<lambda>_. Inr (ms, length (rs_episode_scopes rs)))))))"


section \<open>What may be seen\<close>

text \<open>
  The specification: a passage of an episode that ends at a given time may be shown if the corpus grant
  covers the episode and the profile has access to it, or has watched it beyond the end of the passage.
\<close>

definition may_see :: "profile_watch_state option \<Rightarrow> corpus_access_scope \<Rightarrow> episode_ref \<Rightarrow> int \<Rightarrow> bool" where
  "may_see w scope e until \<longleftrightarrow> allows_episode scope e = Inr True
     \<and> (can_access [e] w \<or> (\<exists>ms. partial_safe_until_ms_for e w = Some ms \<and> until \<le> ms))"

text \<open>
  The contract of a transcript reader: it returns segments of the episode it was asked for.
\<close>

locale segment_reader =
  fixes read :: "episode_ref \<Rightarrow> transcript_segment list result"
  assumes read_episode: "read e = Inr ss \<Longrightarrow> s \<in> set ss \<Longrightarrow> ts_episode s = e"
begin

lemma context_visible:
  assumes "get_visible_episode_context summaries read e doc w scope = Inr vc"
  shows "(\<forall>s \<in> set (vc_segments vc). ts_episode s = e \<and> may_see w scope e (ts_end_ms s))
    \<and> (\<forall>ss s. read e = Inr ss \<and> s \<in> set ss \<and> may_see w scope e (ts_end_ms s) \<longrightarrow> s \<in> set (vc_segments vc))"
  using assms read_episode
  by (auto simp: get_visible_episode_context_def bindE_eq_Inr may_see_def partial_safe_until_ms_for_def can_access_single
      split: if_splits option.splits)

lemma visible_segments_exact:
  "visible_segments read w scope es = Inr vis \<Longrightarrow>
     (\<forall>s. s \<in> set vis \<longleftrightarrow> (\<exists>e ss. e \<in> set es \<and> may_see w scope e (ts_end_ms s) \<and> read e = Inr ss \<and> s \<in> set ss))"
proof (induction es arbitrary: vis)
  case (Cons e es)
  obtain allowed where a: "allows_episode scope e = Inr allowed"
    using Cons.prems by (auto simp: bindE_eq_Inr)
  have skip: ?case if "visible_segments read w scope es = Inr vis" "\<And>t. \<not> may_see w scope e t"
    using Cons.IH [OF that(1)] that(2) by auto
  show ?case
  proof (cases "allowed \<and> (can_access [e] w \<or> partial_safe_until_ms_for e w \<noteq> None)")
    case False
    then have "\<And>t. \<not> may_see w scope e t" using a by (auto simp: may_see_def)
    moreover have "visible_segments read w scope es = Inr vis"
      using Cons.prems False a by (cases allowed) auto
    ultimately show ?thesis by (rule skip [rotated])
  next
    case True
    then obtain ss rest where ss: "read e = Inr ss" "visible_segments read w scope es = Inr rest"
      and vis: "vis = (if can_access [e] w then ss
        else filter (\<lambda>s. ts_end_ms s \<le> the (partial_safe_until_ms_for e w)) ss) @ rest"
      using Cons.prems a by (auto simp: bindE_eq_Inr split: if_splits option.splits)
    have "s \<in> set vis \<longleftrightarrow> s \<in> set ss \<and> may_see w scope e (ts_end_ms s) \<or> s \<in> set rest" for s
      using True a unfolding vis may_see_def by auto
    with Cons.IH [OF ss(2)] ss(1) show ?thesis by auto
  qed
qed simp

end

lemma collect_segments_episode: "collect_segments d e ids = Inr ss \<Longrightarrow> s \<in> set ss \<Longrightarrow> ts_episode s = e"
  by (induction ids arbitrary: ss) (auto simp: bindE_eq_Inr split: option.splits if_splits)

interpretation stored: segment_reader "get_active_reviewed_segments d"
  by unfold_locales (auto simp: get_active_reviewed_segments_def bindE_eq_Inr dest: collect_segments_episode)

section \<open>Ranking\<close>

text \<open>The first \<open>n\<close> of a list in the order of a key: sorted, and nothing left out comes before them.\<close>

definition best :: "('a \<Rightarrow> 'k :: linorder) \<Rightarrow> nat \<Rightarrow> 'a set \<Rightarrow> 'a list \<Rightarrow> bool" where
  "best key n A xs \<longleftrightarrow> sorted (map key xs) \<and> set xs \<subseteq> A \<and> length xs \<le> n
     \<and> (\<forall>a \<in> A - set xs. length xs = n \<and> (\<forall>x \<in> set xs. key x \<le> key a))"

lemma best_take_sort: "best key n (set ys) (take n (sort_key key ys))"
proof -
  let ?s = "sort_key key ys"
  have sorted: "sorted (map key (take n ?s))" by (metis sorted_sort_key sorted_wrt_take take_map)
  have "length (take n ?s) = n \<and> (\<forall>x \<in> set (take n ?s). key x \<le> key a)" if a: "a \<in> set ys - set (take n ?s)" for a
  proof -
    have "a \<in> set (drop n ?s)"
      using a by (metis DiffD1 DiffD2 append_take_drop_id set_append set_sort Un_iff)
    moreover from this have "n < length ?s" by (metis drop_eq_Nil2 empty_iff linorder_not_le list.set(1))
    moreover have "sorted (map key (take n ?s) @ map key (drop n ?s))"
      by (metis append_take_drop_id map_append sorted_sort_key)
    ultimately show ?thesis by (auto simp: sorted_append)
  qed
  with sorted show ?thesis using set_take_subset [of n ?s] by (simp add: best_def)
qed

lemma set_score_segments: "set (score_segments q ss) = (\<lambda>s. \<lparr>rk_segment = s, rk_score = lexical_score q s\<rparr>) ` set ss"
  by (simp add: score_segments_def)

lemma score_segments_mem:
  "r \<in> set (score_segments q ss) \<longleftrightarrow> rk_segment r \<in> set ss \<and> rk_score r = lexical_score q (rk_segment r)"
  by (cases r) (simp add: set_score_segments image_iff)

lemma set_positive_matches:
  assumes "\<And>s. s \<in> set ss \<longleftrightarrow> P s"
  shows "set (filter (\<lambda>r. 0 < rk_score r) (score_segments q ss))
    = {r. P (rk_segment r) \<and> rk_score r = lexical_score q (rk_segment r) \<and> 0 < rk_score r}"
  by (simp only: set_filter score_segments_mem assms conj_assoc)


lemma visible_segments_total:
  assumes "\<forall>e \<in> set es. valid_ref e" and "\<And>e. \<exists>ss. read e = Inr ss"
  shows "\<exists>vis. visible_segments read w scope es = Inr vis"
  using assms(1)
proof (induction es)
  case (Cons e es)
  then obtain vis where "visible_segments read w scope es = Inr vis" by auto
  moreover obtain ss where "read e = Inr ss" using assms(2) by blast
  moreover have "allows_episode scope e = Inr (entitled scope e)"
    using Cons.prems by (simp add: allows_episode_entitled)
  ultimately show ?case by (simp split: option.split)
qed simp

section \<open>Properties\<close>

text \<open>
  C8: a season search finds exactly what may be shown, best first.  Over any store that ingestion can
  produce, a search with a positive limit returns the best \<open>limit\<close> matches, in order, out of the
  segments that approved active transcripts serve for the season's episodes, that the corpus grant
  covers, and that the profile has access to or has already watched past; no other segment can be
  returned, and none of these is left out while a worse one is kept or while there is room.
\<close>

theorem season_search_exact:
  assumes "reach (\<lambda>d. d = empty_source_store) (corpus_step sha uuid5 rd canonicalize) d"
    and "catalogue series season = Some es" and "\<forall>e \<in> set es. valid_ref e" and "1 \<le> limit"
  shows "\<exists>ms. search_visible_season catalogue (get_active_reviewed_segments d) q series season w scope limit = Inr ms
    \<and> best season_rank (nat limit)
        {r. ts_episode (rk_segment r) \<in> set es \<and> served d (rk_segment r)
          \<and> may_see w scope (ts_episode (rk_segment r)) (ts_end_ms (rk_segment r))
          \<and> rk_score r = lexical_score q (rk_segment r) \<and> 0 < rk_score r} ms"
proof -
  let ?read = "get_active_reviewed_segments d"
  have ok: "governed belongs_to d" by (rule corpus.reach_inv [OF assms(1)])
  have total: "\<exists>ss. ?read e = Inr ss" for e using reviewed_segments_governed [OF ok] by blast
  obtain vis where vis: "visible_segments ?read w scope es = Inr vis"
    using visible_segments_total [where read = ?read, OF assms(3) total] by blast
  have reads: "(\<exists>ss. ?read e = Inr ss \<and> s \<in> set ss) \<longleftrightarrow> served d s \<and> ts_episode s = e" for e s
  proof -
    obtain ss where "?read e = Inr ss" "\<forall>s. s \<in> set ss \<longleftrightarrow> served d s \<and> ts_episode s = e"
      using reviewed_segments_governed [OF ok, of e] by blast
    then show ?thesis by simp
  qed
  have mem: "s \<in> set vis \<longleftrightarrow> ts_episode s \<in> set es \<and> served d s \<and> may_see w scope (ts_episode s) (ts_end_ms s)" for s
  proof -
    have "s \<in> set vis \<longleftrightarrow> (\<exists>e. e \<in> set es \<and> may_see w scope e (ts_end_ms s) \<and> (\<exists>ss. ?read e = Inr ss \<and> s \<in> set ss))"
      using stored.visible_segments_exact [OF vis] by blast
    then show ?thesis unfolding reads by auto
  qed
  have "best season_rank (nat limit)
        {r. ts_episode (rk_segment r) \<in> set es \<and> served d (rk_segment r)
          \<and> may_see w scope (ts_episode (rk_segment r)) (ts_end_ms (rk_segment r))
          \<and> rk_score r = lexical_score q (rk_segment r) \<and> 0 < rk_score r}
        (take (nat limit) (sort_key season_rank (filter (\<lambda>r. 0 < rk_score r) (score_segments q vis))))"
    using best_take_sort [of season_rank "nat limit" "filter (\<lambda>r. 0 < rk_score r) (score_segments q vis)"]
    unfolding set_positive_matches [OF mem] conj_assoc .
  then show ?thesis using assms(2,4) vis by (simp add: search_visible_season_def)
qed

definition demo_watched :: "profile_watch_state option" where
  "demo_watched = Some (demo_profile STRICT)"

lemma demo_segment_matches: "lexical_score ''Hello'' (demo_segment 9) = 1"
proof -
  have "normalize_tokens ''Hello'' = {''hello''}" "normalize_tokens ''Hello there'' = {''hello'', ''there''}"
    by code_simp+
  then show ?thesis by (simp add: lexical_score_def demo_segment_def)
qed

theorem season_search_exact_witness:
  "\<exists>ms. search_visible_season (\<lambda>_ _. Some [demo_ref 1, demo_ref 3]) (get_active_reviewed_segments demo_transcripts) ''Hello'' 1 11
     demo_watched demo_scope 5 = Inr ms \<and> \<lparr>rk_segment = demo_segment 9, rk_score = 1\<rparr> \<in> set ms"
proof -
  let ?r = "\<lparr>rk_segment = demo_segment 9, rk_score = 1\<rparr>" and ?es = "[demo_ref 1, demo_ref 3]"
  have v: "\<forall>e \<in> set ?es. valid_ref e" by (simp add: valid_ref_def demo_ref_def)
  obtain ms where ms: "search_visible_season (\<lambda>_ _. Some ?es) (get_active_reviewed_segments demo_transcripts) ''Hello'' 1 11
      demo_watched demo_scope 5 = Inr ms"
    and b: "best season_rank 5 {r. ts_episode (rk_segment r) \<in> set ?es \<and> served demo_transcripts (rk_segment r)
          \<and> may_see demo_watched demo_scope (ts_episode (rk_segment r)) (ts_end_ms (rk_segment r))
          \<and> rk_score r = lexical_score ''Hello'' (rk_segment r) \<and> 0 < rk_score r} ms"
    using season_search_exact [OF demo_transcripts_reach, where catalogue = "\<lambda>_ _. Some ?es" and limit = 5 and q = "''Hello''"
        and series = 1 and season = 11 and w = demo_watched and scope = demo_scope, OF refl v] by auto
  have one: "s = demo_segment 9" if "served demo_transcripts s" for s
    using that by (auto simp: served_def get_active_version_def demo_transcripts_def dict_get_def split: if_splits)
  have "served demo_transcripts (demo_segment 9)"
    by (auto simp: served_def get_active_version_def demo_transcripts_def dict_get_def demo_version_def
        is_source_version_approved_def intro!: exI [of _ 70])
  moreover have "can_access [demo_ref 1] demo_watched" "allows_episode demo_scope (demo_ref 1) = Inr True"
    unfolding demo_watched_def by code_simp+
  moreover have "ts_episode (demo_segment 9) = demo_ref 1" by (simp add: demo_segment_def)
  ultimately have "?r \<in> {r. ts_episode (rk_segment r) \<in> set ?es \<and> served demo_transcripts (rk_segment r)
          \<and> may_see demo_watched demo_scope (ts_episode (rk_segment r)) (ts_end_ms (rk_segment r))
          \<and> rk_score r = lexical_score ''Hello'' (rk_segment r) \<and> 0 < rk_score r}" (is "_ \<in> ?A")
    by (simp add: may_see_def demo_segment_matches)
  moreover have "set ms \<subseteq> {?r}"
    using b one demo_segment_matches unfolding best_def by (force intro: ranked_segment.equality)
  moreover have "length ms = 5 \<and> (\<forall>x \<in> set ms. season_rank x \<le> season_rank ?r)" if "?r \<in> ?A - set ms"
    using b that unfolding best_def by blast
  ultimately have "?r \<in> set ms" by (cases ms) auto
  with ms show ?thesis by blast
qed


lemma scope_by_episode_mem:
  assumes "scope_by_episode rs i = Some v"
  shows "v \<in> set (rs_episode_scopes rs) \<and> ref_episode_id (evs_episode v) = i"
  using find_Some_mem [OF assms [unfolded scope_by_episode_def]] by simp

text \<open>
  C16: hybrid search trusts neither the encoder nor the index.  Whatever they return, a search that
  returns gives at most \<open>limit\<close> distinct matches, each of a candidate episode the grant covers and of
  which the profile may see everything up to the end of the match, and counts the candidates of which
  something may be seen; if there is none, it returns no match without asking either of them.
\<close>

theorem hybrid_search_in_scope:
  fixes encode :: "string \<Rightarrow> 'v result"
  assumes "profile_ok p" and "\<forall>e \<in> set es. valid_ref e \<and> ref_series_id e = series"
    and "search_visible_hybrid encode search q series es (Some p) scope limit = Inr (ms, n)"
  shows "int (length ms) \<le> limit \<and> distinct (map rt_segment_id ms)
    \<and> (\<forall>m \<in> set ms. rt_episode m \<in> set es \<and> may_see (Some p) scope (rt_episode m) (rt_end_ms m))
    \<and> n = length (filter (\<lambda>e. visibility_of (Some p) scope e \<noteq> None) es)
    \<and> (n = 0 \<longrightarrow> (\<forall>encode' :: string \<Rightarrow> 'v result. \<forall>search'. search_visible_hybrid encode' search' q series es (Some p) scope limit = Inr ([], 0)))"
proof -
  have q: "validate_hybrid_query q limit es = Inr ()"
    using assms(3) by (auto simp: search_visible_hybrid_def bindE_eq_Inr)
  then have d: "distinct (map ref_episode_id es)" and limit: "1 \<le> limit"
    by (auto simp: validate_hybrid_query_def split: if_splits)
  let ?vs = "List.map_filter (visibility_of (Some p) scope) es"
  let ?rs = "\<lparr>rs_series_id = series, rs_episode_scopes = ?vs\<rparr>"
  have rs: "compile_scope series es (Some p) scope = Inr ?rs"
    by (rule compile_scope_eq) (use assms(1,2) d in auto)
  have n: "length ?vs = length (filter (\<lambda>e. visibility_of (Some p) scope e \<noteq> None) es)"
    by (induction es) (auto simp: map_filter_simps split: option.split)
  have seen: "rt_episode m \<in> set es \<and> may_see (Some p) scope (rt_episode m) (rt_end_ms m)" if m: "in_scope ?rs m" for m
  proof -
    obtain v where v: "scope_by_episode ?rs (ref_episode_id (rt_episode m)) = Some v" "evs_episode v = rt_episode m"
      "case evs_safe_until_ms v of None \<Rightarrow> True | Some ms \<Rightarrow> rt_end_ms m \<le> ms"
      using m by (auto simp: in_scope_def split: option.splits)
    then obtain e where e: "e \<in> set es" "visibility_of (Some p) scope e = Some v"
      using scope_by_episode_mem [OF v(1)] by (auto simp: set_map_filter)
    have em: "e = rt_episode m" using visibility_of_episode [OF e(2)] v(2) by simp
    have "allows_episode scope e = Inr (entitled scope e)"
      using assms(2) e(1) by (simp add: allows_episode_entitled)
    then have "may_see (Some p) scope e (rt_end_ms m)"
      using e(2) v(3) by (auto simp: visibility_of_def may_see_def split: if_splits)
    with e(1) em show ?thesis by simp
  qed
  show ?thesis
  proof (cases "?vs = []")
    case True
    have none: "search_visible_hybrid encode' search' q series es (Some p) scope limit = Inr ([], 0)"
      for encode' :: "string \<Rightarrow> 'v result" and search'
      using q rs True by (simp add: search_visible_hybrid_def)
    moreover have "length (filter (\<lambda>e. visibility_of (Some p) scope e \<noteq> None) es) = 0" using n True by simp
    moreover have "ms = [] \<and> n = 0" using assms(3) none [of encode search] by simp
    ultimately show ?thesis using limit by simp
  next
    case False
    have len: "0 < length ?vs" using False by simp
    have "validate_hybrid_results ms ?rs limit = Inr () \<and> n = length ?vs"
      using assms(3) q rs False by (auto simp: search_visible_hybrid_def bindE_eq_Inr)
    with seen n len show ?thesis
      by (auto simp: validate_hybrid_results_def list_ex_iff split: if_splits)
  qed
qed

definition demo_hit :: "nat \<Rightarrow> int \<Rightarrow> retrieved_segment" where
  "demo_hit k until = \<lparr>rt_segment_id = k, rt_version_id = 9, rt_episode = demo_ref 2, rt_start_ms = 0, rt_end_ms = until,
     rt_text = ''Hello'', rt_language = ENGLISH, rt_rights = Rights_ALLOWED, rt_score = 1, rt_members = [71],
     rt_revision = TRANSCRIPT_INDEX_REVISION, rt_ordinal = 0\<rparr>"

theorem hybrid_search_in_scope_witness:
  "\<exists>ms n. search_visible_hybrid (\<lambda>_. Inr ()) (\<lambda>_ _ _. Inr [demo_hit 1 60000]) ''Hello'' 1 [demo_ref 1, demo_ref 2]
       demo_watched demo_scope 5 = Inr (ms, n) \<and> (\<forall>m \<in> set ms. rt_end_ms m \<le> 60000)
     \<and> search_visible_hybrid (\<lambda>_. Inr ()) (\<lambda>_ _ _. Inr [demo_hit 1 60001]) ''Hello'' 1 [demo_ref 1, demo_ref 2]
       demo_watched demo_scope 5 = Inl (InvalidModelError STR ''VECTOR_INDEX_RESULT_MUST_MATCH_SCOPE'')"
proof -
  let ?run = "\<lambda>t. search_visible_hybrid (\<lambda>_. Inr ()) (\<lambda>_ _ _. Inr [demo_hit 1 t]) ''Hello'' 1 [demo_ref 1, demo_ref 2]
       (Some (demo_profile STRICT)) demo_scope 5"
  have a: "?run 60000 = Inr ([demo_hit 1 60000], 2)" by code_simp
  have b: "?run 60001 = Inl (InvalidModelError STR ''VECTOR_INDEX_RESULT_MUST_MATCH_SCOPE'')" by code_simp
  have "\<forall>e \<in> set [demo_ref 1, demo_ref 2]. valid_ref e \<and> ref_series_id e = 1"
    by (simp add: valid_ref_def demo_ref_def)
  from hybrid_search_in_scope [OF demo_profile_ok this a]
  have "may_see (Some (demo_profile STRICT)) demo_scope (demo_ref 2) 60000" by (simp add: demo_hit_def)
  with a b show ?thesis unfolding demo_watched_def by (auto simp: demo_hit_def)
qed

section \<open>Search within an episode\<close>

text \<open>The same for one episode.\<close>

lemma episode_search_exact:
  assumes "reach (\<lambda>d. d = empty_source_store) (corpus_step sha uuid5 rd canonicalize) d"
    and "search_visible_episode summaries (get_active_reviewed_segments d) q e doc w scope limit = Inr res"
  shows "best episode_rank (nat limit)
        {r. ts_episode (rk_segment r) = e \<and> served d (rk_segment r) \<and> may_see w scope e (ts_end_ms (rk_segment r))
          \<and> rk_score r = lexical_score q (rk_segment r) \<and> 0 < rk_score r} (esr_matches res)"
proof -
  have ok: "governed belongs_to d" by (rule corpus.reach_inv [OF assms(1)])
  obtain vc where vc: "get_visible_episode_context summaries (get_active_reviewed_segments d) e doc w scope = Inr vc"
    and res: "esr_matches res = take (nat limit) (sort_key episode_rank
        (filter (\<lambda>r. rk_score r > 0) (score_segments q (vc_segments vc))))"
    using assms(2) by (auto simp: search_visible_episode_def bindE_eq_Inr split: if_splits)
  obtain ss where ss: "get_active_reviewed_segments d e = Inr ss" "\<forall>s. s \<in> set ss \<longleftrightarrow> served d s \<and> ts_episode s = e"
    using reviewed_segments_governed [OF ok, of e] by blast
  have mem: "s \<in> set (vc_segments vc) \<longleftrightarrow> ts_episode s = e \<and> served d s \<and> may_see w scope e (ts_end_ms s)" for s
  proof -
    have "s \<in> set (vc_segments vc) \<Longrightarrow> s \<in> set ss"
      using vc ss(1) by (auto simp: get_visible_episode_context_def bindE_eq_Inr split: if_splits option.splits)
    with stored.context_visible [OF vc] ss show ?thesis by blast
  qed
  show ?thesis
    using best_take_sort [of episode_rank "nat limit" "filter (\<lambda>r. 0 < rk_score r) (score_segments q (vc_segments vc))"]
    unfolding set_positive_matches [OF mem] conj_assoc res .
qed

text \<open>
  A summary is shown with an episode only if its own episode may be seen.  But whether it may be shown or
  only be given to the model is taken over from the episode asked for: with the identifier of the summary
  of an episode watched in part, the context of an accessible episode marks that summary as showable.
\<close>

lemma summary_visible:
  assumes "get_visible_episode_context summaries read e doc w scope = Inr vc" and "vc_summary vc = Some s"
  shows "allows_episode scope (es_episode s) = Inr True
    \<and> (can_access [es_episode s] w \<or> partial_safe_until_ms_for (es_episode s) w \<noteq> None)
    \<and> (es_episode s = e \<and> \<not> vc_model_only vc \<longrightarrow> can_access [es_episode s] w)"
  using assms
  by (auto simp: get_visible_episode_context_def get_visible_episode_summary_def bindE_eq_Inr
      split: if_splits option.splits)

lemma foreign_summary_marked_showable:
  assumes "allows_episode scope e = Inr True" and "can_access [e] w" and "read e = Inr ss"
    and "summaries doc = Some s" and "allows_episode scope (es_episode s) = Inr True"
    and "\<not> can_access [es_episode s] w" and "partial_safe_until_ms_for (es_episode s) w = Some ms"
  shows "get_visible_episode_context summaries read e doc w scope
    = Inr \<lparr>vc_summary = Some s, vc_segments = ss, vc_safe_until = None, vc_model_only = False\<rparr>"
  using assms by (simp add: get_visible_episode_context_def get_visible_episode_summary_def)

end
