(* ===== verification/Transcript_Chunking.thy ===== *)
theory Transcript_Chunking
  imports Visible_Search
begin

text \<open>
  Evidence chunks: the configuration (\<open>config/transcript_chunking.py\<close>), the service that cuts the
  segments of a transcript into overlapping chunks (\<open>transcript_chunking_service.py\<close>) and the one that
  hands them to the vector index (\<open>index_transcript_segments_service.py\<close>).  The encoder and the index
  writer are parameters, \<open>uuid5\<close> as elsewhere.
\<close>

section \<open>Configuration\<close>

record chunking_config =
  ck_revision :: string
  ck_max_segments :: int
  ck_overlap_segments :: int
  ck_max_characters :: int
  ck_max_duration_ms :: int
  ck_max_gap_ms :: int

definition chunking_post_init :: "chunking_config \<Rightarrow> chunking_config result" where
  "chunking_post_init c =
     (if untrimmed (ck_revision c)
        \<or> list_ex (\<lambda>v. v < 1) [ck_max_segments c, ck_max_characters c, ck_max_duration_ms c, ck_max_gap_ms c]
        \<or> ck_overlap_segments c < 0 \<or> ck_overlap_segments c \<ge> ck_max_segments c
      then Inl (ValueError STR ''TRANSCRIPT_CHUNK_CONFIGURATION_INVALID'') else Inr c)"

definition DEFAULT_CHUNKING :: chunking_config where
  "DEFAULT_CHUNKING = \<lparr>ck_revision = TRANSCRIPT_INDEX_REVISION, ck_max_segments = 8, ck_overlap_segments = 2,
     ck_max_characters = 1200, ck_max_duration_ms = 90000, ck_max_gap_ms = 10000\<rparr>"

section \<open>Rendering\<close>

fun add_names :: "string list \<Rightarrow> speaker_candidate list \<Rightarrow> string list" where
  "add_names names [] = names"
| "add_names names (c # cs) =
     add_names (if sc_name c \<in> set names then names else names @ [sc_name c]) cs"

fun join_by :: "string \<Rightarrow> string list \<Rightarrow> string" where
  "join_by sep [] = []"
| "join_by sep [x] = x"
| "join_by sep (x # y # xs) = x @ sep @ join_by sep (y # xs)"

definition render_line :: "transcript_segment \<Rightarrow> string" where
  "render_line s =
     (let names = add_names [] (ts_speakers s)
      in (if names \<noteq> [] then join_by '' / '' names @ '': '' else []) @ ts_text s)"

definition render :: "transcript_segment list \<Rightarrow> string" where
  "render ss = strip (join (CHR 0x0A) (map render_line ss))"

section \<open>Validation\<close>

text \<open>The last segment seen is given by its start, its end and its identifier (the empty string at first).\<close>

fun check_input :: "chunking_config \<Rightarrow> transcript_segment \<Rightarrow> uuid set \<Rightarrow> int \<Rightarrow> int \<Rightarrow> uuid option
    \<Rightarrow> transcript_segment list \<Rightarrow> unit result" where
  "check_input cfg first seen start until last_id [] = Inr ()"
| "check_input cfg first seen start until last_id (s # ss) =
     (if int (length (render [s])) > ck_max_characters cfg
        then Inl (InvalidModelError STR ''TRANSCRIPT_CHUNK_SEGMENT_EXCEEDS_CHARACTER_LIMIT'')
      else if ts_segment_id s \<in> seen \<or> ts_start_ms s < start
          \<or> (ts_start_ms s = start \<and> (ts_end_ms s < until \<or> (ts_end_ms s = until
               \<and> (case last_id of None \<Rightarrow> False | Some i \<Rightarrow> ts_segment_id s < i))))
        then Inl (InvalidModelError STR ''TRANSCRIPT_CHUNK_INPUT_MUST_BE_CHRONOLOGICAL'')
      else if ts_version_id s \<noteq> ts_version_id first \<or> ts_episode s \<noteq> ts_episode first
          \<or> ts_language s \<noteq> ts_language first \<or> ts_rights s \<noteq> ts_rights first
        then Inl (InvalidModelError STR ''TRANSCRIPT_CHUNK_INPUT_MUST_BE_CHRONOLOGICAL'')
      else check_input cfg first (insert (ts_segment_id s) seen) (ts_start_ms s) (ts_end_ms s)
             (Some (ts_segment_id s)) ss)"

definition validate_input :: "chunking_config \<Rightarrow> transcript_segment list \<Rightarrow> unit result" where
  "validate_input cfg ss = check_input cfg (hd ss) {} (-1) (-1) None ss"

section \<open>Cutting\<close>

text \<open>\<open>segments[a:b]\<close>\<close>

definition slice :: "'a list \<Rightarrow> nat \<Rightarrow> nat \<Rightarrow> 'a list" where
  "slice xs a b = take (b - a) (drop a xs)"

definition latest_end :: "transcript_segment list \<Rightarrow> int" where
  "latest_end ss = Max (set (map ts_end_ms ss))"

datatype split_reason = Split_end | Split_gap | Split_bound

text \<open>The inner loop: how far the chunk that starts at \<open>start\<close> reaches, and what ends it.\<close>

function extend_chunk :: "chunking_config \<Rightarrow> transcript_segment list \<Rightarrow> nat \<Rightarrow> nat \<Rightarrow> nat \<times> split_reason" where
  "extend_chunk cfg ss start stop =
     (if \<not> stop < length ss then (stop, Split_end)
      else let members = slice ss start (Suc stop) in
        if ts_start_ms (ss ! stop) - latest_end (slice ss start stop) > ck_max_gap_ms cfg then (stop, Split_gap)
        else if int (length members) > ck_max_segments cfg then (stop, Split_bound)
        else if latest_end members - ts_start_ms (hd members) > ck_max_duration_ms cfg then (stop, Split_bound)
        else if int (length (render members)) > ck_max_characters cfg \<and> length members > 1 then (stop, Split_bound)
        else extend_chunk cfg ss start (Suc stop))"
  by pat_completeness auto

termination extend_chunk
  by (relation "measure (\<lambda>(cfg, ss, start, stop). length ss - stop)") auto

definition next_start :: "chunking_config \<Rightarrow> nat \<Rightarrow> nat \<times> split_reason \<Rightarrow> nat" where
  "next_start cfg start e =
     (if snd e = Split_gap then fst e else nat (max (int start + 1) (int (fst e) - ck_overlap_segments cfg)))"

definition make_chunk :: "(string \<Rightarrow> uuid) \<Rightarrow> chunking_config \<Rightarrow> transcript_segment list \<Rightarrow> int \<Rightarrow> string
    \<Rightarrow> retrieval_chunk result" where
  "make_chunk uuid5 cfg members ordinal txt =
     (let first = hd members; e = ts_episode first; ids = map ts_segment_id members
      in chunk_post_init
           \<lparr>rc_chunk_id = transcript_chunk_id uuid5 (ck_revision cfg) (ts_version_id first) (ref_series_id e)
              (ref_season_id e) (ref_episode_id e) ids,
            rc_version_id = ts_version_id first, rc_episode = e, rc_ordinal = ordinal, rc_members = ids,
            rc_start_ms = ts_start_ms first, rc_end_ms = latest_end members, rc_text = txt,
            rc_language = ts_language first, rc_rights = ts_rights first, rc_revision = ck_revision cfg\<rparr>)"

lemma extend_chunk_reaches: "stop \<le> fst (extend_chunk cfg ss start stop)"
proof (induction cfg ss start stop rule: extend_chunk.induct)
  case (1 cfg ss start stop)
  then show ?case
    by (subst extend_chunk.simps) (auto simp: Let_def simp del: extend_chunk.simps)
qed

lemma next_start_later: "start < next_start cfg start (extend_chunk cfg ss start (Suc start))"
  using extend_chunk_reaches [of "Suc start" cfg ss start] by (auto simp: next_start_def)

text \<open>The outer loop.\<close>

function chunk_loop :: "(string \<Rightarrow> uuid) \<Rightarrow> chunking_config \<Rightarrow> transcript_segment list \<Rightarrow> nat \<Rightarrow> int
    \<Rightarrow> retrieval_chunk list result" where
  "chunk_loop uuid5 cfg ss start ordinal =
     (if \<not> start < length ss then Inr []
      else let e = extend_chunk cfg ss start (Suc start); members = slice ss start (fst e) in
        bindE (make_chunk uuid5 cfg members ordinal (render members)) (\<lambda>c.
          if fst e \<ge> length ss then Inr [c]
          else bindE (chunk_loop uuid5 cfg ss (next_start cfg start e) (ordinal + 1)) (\<lambda>cs. Inr (c # cs))))"
  by pat_completeness auto

termination chunk_loop
  by (relation "measure (\<lambda>(uuid5, cfg, ss, start, ordinal). length ss - start)")
    (auto simp: diff_less_mono2 next_start_later simp del: extend_chunk.simps)

definition chunk_segments :: "(string \<Rightarrow> uuid) \<Rightarrow> chunking_config \<Rightarrow> transcript_segment list \<Rightarrow> retrieval_chunk list result" where
  "chunk_segments uuid5 cfg ss =
     (if ss = [] then Inr [] else bindE (validate_input cfg ss) (\<lambda>_. chunk_loop uuid5 cfg ss 0 0))"

declare extend_chunk.simps [simp del] chunk_loop.simps [simp del]

section \<open>What is rendered\<close>

lemma not_untrimmed_strip: "\<not> untrimmed (strip s) \<longleftrightarrow> (\<exists>c \<in> set s. \<not> is_space c)"
proof (cases "\<exists>c \<in> set s. \<not> is_space c")
  case False
  then have "dropWhile is_space s = []" by (simp add: dropWhile_eq_Nil_conv)
  then have "strip s = []" by (simp only: strip_def lstrip_def rev.simps dropWhile.simps)
  with False show ?thesis by (simp add: untrimmed_def)
next
  case True
  let ?t = "dropWhile is_space s" and ?u = "dropWhile is_space (rev (dropWhile is_space s))"
  have t: "?t \<noteq> []" "\<not> is_space (hd ?t)" using True by (auto simp: dropWhile_eq_Nil_conv hd_dropWhile)
  then have "\<not> (\<forall>c \<in> set (rev ?t). is_space c)" using hd_in_set by fastforce
  then have u: "?u \<noteq> []" "\<not> is_space (hd ?u)" by (auto simp: dropWhile_eq_Nil_conv hd_dropWhile)
  have "last ?u = last (rev ?t)" by (metis takeWhile_dropWhile_id last_appendR u(1))
  then have "last ?u = hd ?t" using t(1) by (simp add: last_rev)
  with t u have "\<not> untrimmed (rev ?u)" by (simp add: untrimmed_iff hd_rev last_rev)
  with True show ?thesis by (simp add: strip_def lstrip_def)
qed

lemma set_join_mem: "x \<in> set xs \<Longrightarrow> set x \<subseteq> set (join sep xs)"
  by (induction sep xs rule: join.induct) auto

lemma render_untrimmed:
  assumes "ms \<noteq> []" and "\<forall>s \<in> set ms. segment_ok s"
  shows "\<not> untrimmed (render ms)"
proof -
  have s: "segment_ok (hd ms)" using assms by simp
  then have "ts_text (hd ms) \<noteq> []" "\<not> is_space (hd (ts_text (hd ms)))"
    by (simp_all add: segment_ok_iff untrimmed_iff)
  then have "\<exists>c \<in> set (render_line (hd ms)). \<not> is_space c"
    by (auto simp: render_line_def Let_def intro!: bexI [of _ "hd (ts_text (hd ms))"])
  moreover have "set (render_line (hd ms)) \<subseteq> set (join (CHR 0x0A) (map render_line ms))"
    using assms(1) by (auto intro!: set_join_mem)
  ultimately show ?thesis unfolding render_def not_untrimmed_strip by blast
qed

section \<open>Windows\<close>

lemma slice_facts:
  assumes "a < b" and "b \<le> length xs"
  shows "length (slice xs a b) = b - a" "slice xs a b \<noteq> []" "hd (slice xs a b) = xs ! a"
    "set (slice xs a b) \<subseteq> set xs"
  using assms set_take_subset set_drop_subset by (fastforce simp: slice_def hd_drop_conv_nth)+

lemma slice_single: "a < length xs \<Longrightarrow> slice xs a (Suc a) = [xs ! a]"
  by (simp add: slice_def Cons_nth_drop_Suc [symmetric])

lemma distinct_map_slice: "distinct (map f xs) \<Longrightarrow> distinct (map f (slice xs a b))"
  by (simp add: slice_def distinct_map distinct_take distinct_drop inj_on_subset [of f "set xs"]
      subset_trans [OF set_take_subset set_drop_subset])

lemma latest_end_ge: "s \<in> set ss \<Longrightarrow> ts_end_ms s \<le> latest_end ss"
  by (simp add: latest_end_def)

text \<open>
  The specification of a chunk: the segments \<open>a \<le> i < b\<close> may share one if they are few enough, no
  silence before one of them is too long and, unless there is only one, they span little enough time;
  and the text is short enough.
\<close>

definition permitted :: "chunking_config \<Rightarrow> transcript_segment list \<Rightarrow> nat \<Rightarrow> nat \<Rightarrow> bool" where
  "permitted cfg ss a b \<longleftrightarrow> a < b \<and> b \<le> length ss \<and> int (b - a) \<le> ck_max_segments cfg
     \<and> int (length (render (slice ss a b))) \<le> ck_max_characters cfg
     \<and> (b = Suc a \<or> latest_end (slice ss a b) - ts_start_ms (ss ! a) \<le> ck_max_duration_ms cfg)
     \<and> (\<forall>i. a < i \<and> i < b \<longrightarrow> ts_start_ms (ss ! i) - latest_end (slice ss a i) \<le> ck_max_gap_ms cfg)"

lemma permitted_single:
  assumes "chunking_post_init cfg = Inr cfg" and "a < length ss"
    and "int (length (render [ss ! a])) \<le> ck_max_characters cfg"
  shows "permitted cfg ss a (Suc a)"
  using assms by (auto simp: permitted_def slice_single chunking_post_init_def split: if_splits)

lemma extend_chunk_maximal:
  "permitted cfg ss a b \<Longrightarrow> (let e = fst (extend_chunk cfg ss a b) in
     permitted cfg ss a e \<and> (e < length ss \<longrightarrow> \<not> permitted cfg ss a (Suc e)))"
proof (induction cfg ss a b rule: extend_chunk.induct)
  case (1 cfg ss a b)
  have ab: "a < b" "b \<le> length ss" using "1.prems" by (auto simp: permitted_def)
  show ?case
  proof (cases "b < length ss")
    case False
    then have "extend_chunk cfg ss a b = (b, Split_end)" by (subst extend_chunk.simps) simp
    with "1.prems" False show ?thesis by simp
  next
    case True
    let ?m = "slice ss a (Suc b)"
    have m: "length ?m = Suc b - a" "hd ?m = ss ! a" using slice_facts [of a "Suc b" ss] ab True by auto
    let ?stop = "ts_start_ms (ss ! b) - latest_end (slice ss a b) > ck_max_gap_ms cfg
      \<or> int (length ?m) > ck_max_segments cfg \<or> latest_end ?m - ts_start_ms (hd ?m) > ck_max_duration_ms cfg
      \<or> int (length (render ?m)) > ck_max_characters cfg \<and> length ?m > 1"
    show ?thesis
    proof (cases ?stop)
      case stop: True
      have "fst (extend_chunk cfg ss a b) = b"
        using stop True by (subst extend_chunk.simps) (auto simp: Let_def)
      moreover have "\<not> permitted cfg ss a (Suc b)" using stop ab m by (auto simp: permitted_def)
      ultimately show ?thesis using "1.prems" by (simp add: Let_def)
    next
      case go: False
      then have e: "extend_chunk cfg ss a b = extend_chunk cfg ss a (Suc b)"
        using True by (subst extend_chunk.simps) (auto simp: Let_def)
      have "permitted cfg ss a (Suc b)"
        using "1.prems" go ab m True unfolding permitted_def by (auto simp: less_Suc_eq)
      then show ?thesis unfolding e by (intro "1.IH" [OF _ refl]) (use go True in auto)
    qed
  qed
qed

section \<open>Cutting a valid transcript\<close>

text \<open>What the service accepts: short enough segments of one source, without repetition and in order.\<close>

definition valid_input :: "chunking_config \<Rightarrow> transcript_segment list \<Rightarrow> bool" where
  "valid_input cfg ss \<longleftrightarrow> (\<forall>s \<in> set ss. int (length (render [s])) \<le> ck_max_characters cfg
       \<and> ts_version_id s = ts_version_id (hd ss) \<and> ts_episode s = ts_episode (hd ss)
       \<and> ts_language s = ts_language (hd ss) \<and> ts_rights s = ts_rights (hd ss))
     \<and> distinct (map ts_segment_id ss) \<and> sorted (map segment_order ss)"

lemma check_input_iff:
  "check_input cfg f seen (ts_start_ms p) (ts_end_ms p) (Some (ts_segment_id p)) ss = Inr () \<longleftrightarrow>
     (\<forall>s \<in> set ss. int (length (render [s])) \<le> ck_max_characters cfg
       \<and> ts_version_id s = ts_version_id f \<and> ts_episode s = ts_episode f
       \<and> ts_language s = ts_language f \<and> ts_rights s = ts_rights f)
     \<and> distinct (map ts_segment_id ss) \<and> set (map ts_segment_id ss) \<inter> seen = {}
     \<and> sorted (map segment_order (p # ss))"
proof (induction ss arbitrary: p seen)
  case (Cons s ss)
  have order: "sorted (map segment_order (p # s # ss))
    \<longleftrightarrow> segment_order p \<le> segment_order s \<and> sorted (map segment_order (s # ss))"
    by (simp only: list.map sorted2)
  have le: "segment_order p \<le> segment_order s \<longleftrightarrow> \<not> (ts_start_ms s < ts_start_ms p
      \<or> (ts_start_ms s = ts_start_ms p \<and> (ts_end_ms s < ts_end_ms p
           \<or> (ts_end_ms s = ts_end_ms p \<and> ts_segment_id s < ts_segment_id p))))"
    by (auto simp: segment_order_def less_eq_prod_def)
  show ?case unfolding order le by (simp del: list.map add: Cons.IH) auto
qed simp

lemma validate_input_iff:
  assumes "ss \<noteq> []" and "\<forall>s \<in> set ss. segment_ok s"
  shows "validate_input cfg ss = Inr () \<longleftrightarrow> valid_input cfg ss"
proof -
  obtain s ss' where ss: "ss = s # ss'" using assms(1) by (cases ss) auto
  have "0 \<le> ts_start_ms s" using assms(2) ss by (simp add: segment_ok_iff)
  then show ?thesis
    unfolding ss validate_input_def valid_input_def
    by (simp del: list.map(2) add: check_input_iff) auto
qed

text \<open>The chunk of a window, as a value.\<close>

definition chunk_of :: "(string \<Rightarrow> uuid) \<Rightarrow> chunking_config \<Rightarrow> transcript_segment list \<Rightarrow> int \<Rightarrow> retrieval_chunk" where
  "chunk_of uuid5 cfg ms n =
     \<lparr>rc_chunk_id = transcript_chunk_id uuid5 (ck_revision cfg) (ts_version_id (hd ms)) (ref_series_id (ts_episode (hd ms)))
        (ref_season_id (ts_episode (hd ms))) (ref_episode_id (ts_episode (hd ms))) (map ts_segment_id ms),
      rc_version_id = ts_version_id (hd ms), rc_episode = ts_episode (hd ms), rc_ordinal = n,
      rc_members = map ts_segment_id ms, rc_start_ms = ts_start_ms (hd ms), rc_end_ms = latest_end ms,
      rc_text = render ms, rc_language = ts_language (hd ms), rc_rights = ts_rights (hd ms),
      rc_revision = ck_revision cfg\<rparr>"

lemma make_chunk_ok:
  assumes "chunking_post_init cfg = Inr cfg" and "ms \<noteq> []" and "\<forall>s \<in> set ms. segment_ok s"
    and "distinct (map ts_segment_id ms)" and "0 \<le> n"
  shows "make_chunk uuid5 cfg ms n (render ms) = Inr (chunk_of uuid5 cfg ms n)"
proof -
  have h: "segment_ok (hd ms)" using assms(2,3) by simp
  have "ts_end_ms (hd ms) \<le> latest_end ms" using assms(2) by (simp add: latest_end_ge)
  moreover have "\<not> untrimmed (ck_revision cfg)" using assms(1) by (auto simp: chunking_post_init_def split: if_splits)
  moreover have "\<not> untrimmed (render ms)" by (rule render_untrimmed [OF assms(2,3)])
  ultimately show ?thesis
    using assms(2,4,5) h
    by (simp add: make_chunk_def chunk_of_def chunk_post_init_def Let_def segment_ok_iff)
qed

text \<open>A cut of the segments from \<open>start\<close> on: maximal permitted windows that leave nothing out.\<close>

definition cut_from :: "chunking_config \<Rightarrow> transcript_segment list \<Rightarrow> nat \<Rightarrow> (nat \<times> nat) list \<Rightarrow> bool" where
  "cut_from cfg ss start ws \<longleftrightarrow>
     (\<forall>(a, b) \<in> set ws. start \<le> a \<and> permitted cfg ss a b \<and> (b < length ss \<longrightarrow> \<not> permitted cfg ss a (Suc b)))
     \<and> sorted_wrt (<) (map fst ws)
     \<and> (\<forall>i. start \<le> i \<and> i < length ss \<longrightarrow> (\<exists>(a, b) \<in> set ws. a \<le> i \<and> i < b))"

lemma cut_from_Cons:
  assumes "permitted cfg ss a b" and "b < length ss \<longrightarrow> \<not> permitted cfg ss a (Suc b)"
    and "a < a'" and "a' \<le> b" and "cut_from cfg ss a' ws"
  shows "cut_from cfg ss a ((a, b) # ws)"
proof -
  have "\<exists>(x, y) \<in> set ((a, b) # ws). x \<le> i \<and> i < y" if "a \<le> i" "i < length ss" for i
    using that assms(4,5) by (cases "i < b") (auto simp: cut_from_def)
  moreover have "\<forall>x \<in> fst ` set ws. a < x" using assms(3,5) by (auto simp: cut_from_def)
  ultimately show ?thesis using assms unfolding cut_from_def by (auto intro: less_imp_le less_le_trans)
qed

lemma next_start_in_reach:
  assumes "0 \<le> ck_overlap_segments cfg" and "start < fst e"
  shows "next_start cfg start e \<le> fst e"
  using assms by (auto simp: next_start_def)

lemma chunk_loop_cuts:
  assumes "chunking_post_init cfg = Inr cfg" and "\<forall>s \<in> set ss. segment_ok s" and "valid_input cfg ss"
  shows "start < length ss \<Longrightarrow> \<exists>ws. cut_from cfg ss start ws
    \<and> chunk_loop uuid5 cfg ss start (int n) = Inr (map (\<lambda>(k, a, b). chunk_of uuid5 cfg (slice ss a b) (int k)) (enumerate n ws))"
proof (induction "length ss - start" arbitrary: start n rule: less_induct)
  case less
  let ?e = "extend_chunk cfg ss start (Suc start)" let ?b = "fst ?e" let ?m = "slice ss start ?b"
  have len: "int (length (render [ss ! start])) \<le> ck_max_characters cfg"
    using assms(3) less.prems by (simp add: valid_input_def)
  have p: "permitted cfg ss start ?b" and mx: "?b < length ss \<longrightarrow> \<not> permitted cfg ss start (Suc ?b)"
    using extend_chunk_maximal [OF permitted_single [OF assms(1) less.prems len]] by (simp_all add: Let_def)
  have b: "start < ?b" "?b \<le> length ss" using p by (simp_all add: permitted_def)
  have "distinct (map ts_segment_id ?m)" using assms(3) by (simp add: valid_input_def distinct_map_slice)
  moreover have "\<forall>s \<in> set ?m. segment_ok s" using assms(2) slice_facts(4) [OF b] by blast
  ultimately have mk: "make_chunk uuid5 cfg ?m (int n) (render ?m) = Inr (chunk_of uuid5 cfg ?m (int n))"
    by (intro make_chunk_ok [OF assms(1)]) (use slice_facts [OF b] in simp_all)
  have unfold: "chunk_loop uuid5 cfg ss start (int n) =
     (if ?b \<ge> length ss then Inr [chunk_of uuid5 cfg ?m (int n)]
      else bindE (chunk_loop uuid5 cfg ss (next_start cfg start ?e) (int n + 1)) (\<lambda>cs. Inr (chunk_of uuid5 cfg ?m (int n) # cs)))"
    using less.prems mk by (subst chunk_loop.simps) (simp add: Let_def)
  show ?case
  proof (cases "?b \<ge> length ss")
    case True
    have "cut_from cfg ss start [(start, ?b)]" using p mx b True by (auto simp: cut_from_def)
    with True unfold show ?thesis by (intro exI [of _ "[(start, ?b)]"]) simp
  next
    case False
    have ov: "0 \<le> ck_overlap_segments cfg" using assms(1) by (auto simp: chunking_post_init_def split: if_splits)
    let ?s = "next_start cfg start ?e"
    have s: "start < ?s" "?s \<le> ?b" using next_start_later next_start_in_reach [OF ov b(1)] by auto
    then obtain ws where ws: "cut_from cfg ss ?s ws" "chunk_loop uuid5 cfg ss ?s (int (Suc n))
        = Inr (map (\<lambda>(k, a, b). chunk_of uuid5 cfg (slice ss a b) (int k)) (enumerate (Suc n) ws))"
      using less.hyps [of ?s "Suc n"] False less.prems by fastforce
    have "cut_from cfg ss start ((start, ?b) # ws)" by (rule cut_from_Cons [OF p mx s ws(1)])
    moreover have "int (Suc n) = int n + 1" by simp
    ultimately show ?thesis using False unfold ws(2) by (intro exI [of _ "(start, ?b) # ws"]) (simp add: add.commute)
  qed
qed

lemma chunking_complete_iff:
  assumes "chunking_post_init cfg = Inr cfg" and "\<forall>s \<in> set ss. segment_ok s"
  shows "if valid_input cfg ss
    then \<exists>ws. cut_from cfg ss 0 ws \<and> chunk_segments uuid5 cfg ss
      = Inr (map (\<lambda>(k, a, b). chunk_of uuid5 cfg (slice ss a b) (int k)) (enumerate 0 ws))
    else \<exists>e. chunk_segments uuid5 cfg ss = Inl e"
proof (cases "ss = []")
  case True
  have "cut_from cfg [] 0 []" by (simp add: cut_from_def)
  with True show ?thesis
    by (auto simp: chunk_segments_def valid_input_def intro!: exI [of _ "[]"])
next
  case False
  have iff: "validate_input cfg ss = Inr () \<longleftrightarrow> valid_input cfg ss" by (rule validate_input_iff [OF False assms(2)])
  show ?thesis
  proof (cases "valid_input cfg ss")
    case True
    then show ?thesis
      using chunk_loop_cuts [OF assms True, of 0 uuid5 0] False iff by (simp add: chunk_segments_def)
  next
    case bad: False
    then obtain e where "validate_input cfg ss = Inl e" using iff by (cases "validate_input cfg ss") auto
    with bad False show ?thesis by (simp add: chunk_segments_def)
  qed
qed

section \<open>Properties\<close>


definition demo_cue :: "nat \<Rightarrow> transcript_segment" where
  "demo_cue i = \<lparr>ts_segment_id = i, ts_version_id = 9, ts_episode = demo_ref 1, ts_start_ms = int i * 1000,
     ts_end_ms = int i * 1000 + 900, ts_text = ''Hi'', ts_language = ENGLISH, ts_rights = Rights_ALLOWED,
     ts_style_removed = False, ts_speakers = [\<lparr>sc_speaker_id = 1, sc_name = ''Ann'', sc_confidence = 1\<rparr>]\<rparr>"

definition demo_chunking :: chunking_config where
  "demo_chunking = \<lparr>ck_revision = ''v1'', ck_max_segments = 2, ck_overlap_segments = 1, ck_max_characters = 40,
     ck_max_duration_ms = 5000, ck_max_gap_ms = 1000\<rparr>"


section \<open>Indexing\<close>

record index_payload =
  ip_version_id :: uuid
  ip_series_id :: uuid
  ip_season_id :: uuid
  ip_episode_id :: uuid
  ip_season_number :: int
  ip_episode_number :: int
  ip_start_ms :: int
  ip_end_ms :: int
  ip_text :: string
  ip_language :: language
  ip_rights :: rights_status
  ip_source_status :: source_version_status
  ip_review :: source_review_status
  ip_members :: "uuid list"
  ip_ordinal :: int
  ip_revision :: string

record 'v index_point =
  ix_chunk_id :: uuid
  ix_vector :: 'v
  ix_payload :: index_payload

definition payload_of_chunk :: "source_version \<Rightarrow> retrieval_chunk \<Rightarrow> index_payload" where
  "payload_of_chunk source c =
     (let e = rc_episode c in
      \<lparr>ip_version_id = rc_version_id c, ip_series_id = ref_series_id e, ip_season_id = ref_season_id e,
       ip_episode_id = ref_episode_id e, ip_season_number = season_number (ref_position e),
       ip_episode_number = episode_number (ref_position e), ip_start_ms = rc_start_ms c, ip_end_ms = rc_end_ms c,
       ip_text = rc_text c, ip_language = rc_language c, ip_rights = rc_rights c,
       ip_source_status = sv_status source, ip_review = sv_review source, ip_members = rc_members c,
       ip_ordinal = rc_ordinal c, ip_revision = rc_revision c\<rparr>)"

fun check_segments :: "source_version \<Rightarrow> uuid set \<Rightarrow> transcript_segment list \<Rightarrow> unit result" where
  "check_segments source seen [] = Inr ()"
| "check_segments source seen (s # ss) =
     (if ts_segment_id s \<in> seen then Inl (InvalidModelError STR ''TRANSCRIPT_SEGMENT_IDS_MUST_BE_UNIQUE'')
      else if ts_version_id s \<noteq> sv_version_id source
        then Inl (InvalidModelError STR ''TRANSCRIPT_SEGMENT_SOURCE_VERSION_MUST_MATCH'')
      else if ts_rights s \<noteq> Rights_ALLOWED \<or> ts_rights s \<noteq> sv_rights source
        then Inl (InvalidModelError STR ''TRANSCRIPT_SEGMENT_RIGHTS_STATUS_MUST_MATCH'')
      else check_segments source (insert (ts_segment_id s) seen) ss)"

text \<open>\<open>write\<close> is the index writer's \<open>replace_source_version\<close>; the result counts segments and chunks.\<close>

definition index_transcript_segments :: "(string \<Rightarrow> uuid) \<Rightarrow> chunking_config \<Rightarrow> (string list \<Rightarrow> 'v list result)
    \<Rightarrow> (uuid \<Rightarrow> uuid option \<Rightarrow> 'v index_point list \<Rightarrow> ('s, unit) prog) \<Rightarrow> source_version \<Rightarrow> transcript_segment list
    \<Rightarrow> ('s, nat \<times> nat) prog" where
  "index_transcript_segments uuid5 cfg encode write source segments =
     (let replace = write (sv_version_id source) (sv_parent source)
      in if sv_rights source \<noteq> Rights_ALLOWED
           then raise (InvalidModelError STR ''TRANSCRIPT_SOURCE_RIGHTS_STATUS_MUST_BE_ALLOWED'')
         else if sv_status source \<noteq> Version_ACTIVE \<or> \<not> is_source_version_approved (sv_review source)
           then raise (InvalidModelError STR ''SOURCE_VERSION_MUST_BE_ACTIVE_AND_REVIEWED'')
         else andThen (lift (check_segments source {} segments)) (\<lambda>_.
           andThen (lift (chunk_segments uuid5 cfg segments)) (\<lambda>chunks.
             if chunks = [] then andThen (replace []) (\<lambda>_. ret (0, 0))
             else andThen (lift (encode (map rc_text chunks))) (\<lambda>vectors.
               if length vectors \<noteq> length chunks
                 then raise (InvalidModelError STR ''TRANSCRIPT_INDEX_VECTOR_CARDINALITY_MUST_MATCH'')
               else let points = map (\<lambda>(c, v). \<lparr>ix_chunk_id = rc_chunk_id c, ix_vector = v,
                        ix_payload = payload_of_chunk source c\<rparr>) (zip chunks vectors)
                    in andThen (replace points) (\<lambda>_. ret (length segments, length points))))))"

text \<open>What the chunks of a transcript hold together, and where each comes from.\<close>

lemma chunks_hold_all:
  assumes "chunking_post_init cfg = Inr cfg" and "\<forall>s \<in> set ss. segment_ok s" and "chunk_segments uuid5 cfg ss = Inr cs"
  shows "(\<Union>c \<in> set cs. set (rc_members c)) = ts_segment_id ` set ss
    \<and> (\<forall>c \<in> set cs. \<exists>s \<in> set ss. rc_version_id c = ts_version_id s \<and> rc_rights c = ts_rights s)"
proof -
  have "valid_input cfg ss"
    by (cases "valid_input cfg ss") (use chunking_complete_iff [OF assms(1,2), of uuid5] assms(3) in auto)
  then obtain ws where ws: "cut_from cfg ss 0 ws"
    and cs: "cs = map (\<lambda>(k, a, b). chunk_of uuid5 cfg (slice ss a b) (int k)) (enumerate 0 ws)"
    using chunking_complete_iff [OF assms(1,2), of uuid5] assms(3) by auto
  have mem: "\<exists>a b k. (a, b) \<in> set ws \<and> c = chunk_of uuid5 cfg (slice ss a b) k" if "c \<in> set cs" for c
  proof -
    let ?chunk = "\<lambda>(k, a, b). chunk_of uuid5 cfg (slice ss a b) (int k)"
    have "c \<in> ?chunk ` set (enumerate 0 ws)" using that unfolding cs by (simp only: list.set_map)
    then obtain p where p: "c = ?chunk p" "p \<in> set (enumerate 0 ws)" by (rule imageE)
    obtain k a b where "p = (k, a, b)" by (rule prod_cases3)
    with p have k: "(k, a, b) \<in> set (enumerate 0 ws)" "c = chunk_of uuid5 cfg (slice ss a b) (int k)" by simp_all
    then have "k < length ws" "ws ! k = (a, b)" by (simp_all add: in_set_enumerate_eq)
    then have "(a, b) \<in> set ws" by (metis nth_mem)
    with k(2) show ?thesis by blast
  qed
  have win: "(a, b) \<in> set ws \<Longrightarrow> a < b \<and> b \<le> length ss" for a b :: nat
    using ws by (auto simp: cut_from_def permitted_def)
  have each: "set (rc_members c) \<subseteq> ts_segment_id ` set ss
      \<and> (\<exists>s \<in> set ss. rc_version_id c = ts_version_id s \<and> rc_rights c = ts_rights s)" if c_in: "c \<in> set cs" for c
  proof -
    obtain a b k where ab: "(a, b) \<in> set ws" and c: "c = chunk_of uuid5 cfg (slice ss a b) k" using mem [OF c_in] by blast
    have w: "a < b" "b \<le> length ss" using win [OF ab] by auto
    have "hd (slice ss a b) \<in> set ss" using slice_facts(2,4) [OF w] hd_in_set by blast
    then show ?thesis using slice_facts(4) [OF w] unfolding c by (auto simp: chunk_of_def)
  qed
  have "ts_segment_id s \<in> (\<Union>c \<in> set cs. set (rc_members c))" if s: "s \<in> set ss" for s
  proof -
    obtain i where i: "i < length ss" "ss ! i = s" using s by (auto simp: in_set_conv_nth)
    then obtain a b where ab: "(a, b) \<in> set ws" "a \<le> i" "i < b" using ws by (auto simp: cut_from_def)
    then obtain k where k: "k < length ws" "ws ! k = (a, b)" by (auto simp: in_set_conv_nth)
    have "chunk_of uuid5 cfg (slice ss a b) (int k) \<in> set cs"
      unfolding cs list.set_map using k
      by (intro image_eqI [of _ _ "(k, a, b)"]) (simp_all add: in_set_enumerate_eq)
    moreover have "slice ss a b ! (i - a) = s" "i - a < length (slice ss a b)"
      using ab i win [OF ab(1)] by (simp_all add: slice_def)
    then have "s \<in> set (slice ss a b)" by (metis nth_mem)
    ultimately show ?thesis by (force simp: chunk_of_def)
  qed
  with each show ?thesis by blast
qed

lemma check_segments_ok:
  "check_segments source seen ss = Inr () \<Longrightarrow>
     \<forall>s \<in> set ss. ts_version_id s = sv_version_id source \<and> ts_rights s = Rights_ALLOWED"
  by (induction ss arbitrary: seen) (auto split: if_splits)

text \<open>
  Indexing that returns has replaced the points of the version by points that carry every segment, all
  of them released for use and of the active approved version that was given.
\<close>

lemma indexing_replaces_all:
  assumes "chunking_post_init cfg = Inr cfg" and "\<forall>s \<in> set ss. segment_ok s"
    and "index_transcript_segments uuid5 cfg encode write source ss d = (Inr (n, m), d')"
  shows "\<exists>points. write (sv_version_id source) (sv_parent source) points d = (Inr (), d')
    \<and> n = length ss \<and> m = length points
    \<and> (\<Union>p \<in> set points. set (ip_members (ix_payload p))) = ts_segment_id ` set ss
    \<and> (\<forall>p \<in> set points. ip_version_id (ix_payload p) = sv_version_id source
        \<and> ip_rights (ix_payload p) = Rights_ALLOWED \<and> ip_source_status (ix_payload p) = Version_ACTIVE
        \<and> is_source_version_approved (ip_review (ix_payload p)))"
proof -
  let ?replace = "write (sv_version_id source) (sv_parent source)"
  let ?points = "\<lambda>cs vs. map (\<lambda>(c, v). \<lparr>ix_chunk_id = rc_chunk_id c, ix_vector = v, ix_payload = payload_of_chunk source c\<rparr>) (zip cs vs)"
  have ok: "sv_status source = Version_ACTIVE" "is_source_version_approved (sv_review source)"
    using assms(3) by (auto simp: index_transcript_segments_def Let_def prog_simps split: if_splits)
  obtain cs where check: "check_segments source {} ss = Inr ()" and cs: "chunk_segments uuid5 cfg ss = Inr cs"
    using assms(3) ok
    by (auto simp: index_transcript_segments_def Let_def prog_simps andThen_eq_Inr split: if_splits sum.splits)
  have run: "(if cs = [] then andThen (?replace []) (\<lambda>_. ret (0, 0)) d
     else andThen (lift (encode (map rc_text cs))) (\<lambda>vs.
       if length vs \<noteq> length cs then raise (InvalidModelError STR ''TRANSCRIPT_INDEX_VECTOR_CARDINALITY_MUST_MATCH'')
       else andThen (?replace (?points cs vs)) (\<lambda>_. ret (length ss, length (?points cs vs)))) d) = (Inr (n, m), d')"
    using assms(3) ok check cs unfolding index_transcript_segments_def Let_def
    by (simp add: andThen_lift raise_apply split: if_splits)
  note held = chunks_hold_all [OF assms(1,2) cs]
  have governed: "\<forall>c \<in> set cs. rc_version_id c = sv_version_id source \<and> rc_rights c = Rights_ALLOWED"
    using held check_segments_ok [OF check] by metis
  show ?thesis
  proof (cases "cs = []")
    case True
    then have "ss = []" using held by simp
    with True run show ?thesis by (intro exI [of _ "[]"]) (auto simp: andThen_eq_Inr prog_simps)
  next
    case False
    then obtain vs where e: "encode (map rc_text cs) = Inr vs"
      using run by (cases "encode (map rc_text cs)") (simp_all add: andThen_lift)
    have len: "length vs = length cs"
      by (rule ccontr) (use run False e in \<open>simp add: andThen_lift raise_apply\<close>)
    have "andThen (?replace (?points cs vs)) (\<lambda>_. ret (length ss, length (?points cs vs))) d = (Inr (n, m), d')"
      using run False e len by (simp add: andThen_lift)
    then have "?replace (?points cs vs) d = (Inr (), d')" "n = length ss" "m = length (?points cs vs)"
      unfolding andThen_eq_Inr by (auto simp: ret_apply)
    with len have vs: "length vs = length cs" "?replace (?points cs vs) d = (Inr (), d')" "n = length ss"
      "m = length cs" by simp_all
    have "map (\<lambda>p. ip_members (ix_payload p)) (?points cs vs) = map rc_members (map fst (zip cs vs))"
      by (simp add: payload_of_chunk_def Let_def case_prod_unfold)
    then have "map (\<lambda>p. ip_members (ix_payload p)) (?points cs vs) = map rc_members cs" using vs(1) by simp
    then have "\<Union> (set ` set (map (\<lambda>p. ip_members (ix_payload p)) (?points cs vs))) = \<Union> (set ` set (map rc_members cs))"
      by (rule arg_cong)
    then have "(\<Union>p \<in> set (?points cs vs). set (ip_members (ix_payload p))) = (\<Union>c \<in> set cs. set (rc_members c))"
      by (simp only: list.set_map image_image)
    then have all: "(\<Union>p \<in> set (?points cs vs). set (ip_members (ix_payload p))) = ts_segment_id ` set ss"
      using held by simp
    have "\<exists>c \<in> set cs. ix_payload p = payload_of_chunk source c" if "p \<in> set (?points cs vs)" for p
      using that by (auto dest: set_zip_leftD)
    then have "\<forall>p \<in> set (?points cs vs). ip_version_id (ix_payload p) = sv_version_id source
        \<and> ip_rights (ix_payload p) = Rights_ALLOWED \<and> ip_source_status (ix_payload p) = Version_ACTIVE
        \<and> is_source_version_approved (ip_review (ix_payload p))"
      using governed ok by (fastforce simp: payload_of_chunk_def Let_def)
    moreover have "m = length (?points cs vs)" using vs(1,4) by simp
    ultimately show ?thesis using vs(2,3) all by blast
  qed
qed

end
