(* ===== verification/Transcript_Srt.thy ===== *)
theory Transcript_Srt
  imports Transcript_Chunking
begin

text \<open>
  Import of finalised subtitles (\<open>ingestion/transcript_srt\<close>): the SRT parser, speaker labels,
  canonical dialogue, transcript segments and the report.  Each regular expression of
  \<open>patterns.py\<close> is written out as the function that computes its match; over Latin-1 its
  \<open>\d\<close> is \<open>0-9\<close> and its \<open>\s\<close> is \<open>str.isspace\<close>.  Files are read outside the model.
\<close>

section \<open>Text\<close>

abbreviation LF :: char where "LF \<equiv> CHR 0x0A"
abbreviation CR :: char where "CR \<equiv> CHR 0x0D"

definition is_digit :: "char \<Rightarrow> bool" where
  "is_digit c = char_in c digit_chars"

text \<open>\<open>str.splitlines\<close>\<close>

definition line_break :: "char \<Rightarrow> bool" where
  "line_break c = (of_char c \<in> {10, 11, 12, 13, 28, 29, 30, 133 :: nat})"

definition drop_break :: "string \<Rightarrow> string" where
  "drop_break s = (if hd s = CR \<and> tl s \<noteq> [] \<and> hd (tl s) = LF then tl (tl s) else tl s)"

function splitlines :: "string \<Rightarrow> string list" where
  "splitlines s =
     (if s = [] then []
      else let line = takeWhile (\<lambda>c. \<not> line_break c) s; rest = dropWhile (\<lambda>c. \<not> line_break c) s
           in line # (if rest = [] then [] else splitlines (drop_break rest)))"
  by pat_completeness auto

lemma drop_break_shorter:
  assumes "dropWhile P s \<noteq> []"
  shows "length (drop_break (dropWhile P s)) < length s"
proof -
  have "length (drop_break (dropWhile P s)) < length (dropWhile P s)" using assms by (auto simp: drop_break_def)
  then show ?thesis using length_dropWhile_le [of P s] by simp
qed

termination splitlines
  by (relation "measure length") (auto simp: drop_break_shorter simp del: dropWhile_eq_Nil_conv)

declare splitlines.simps [simp del]

text \<open>\<open>int(s)\<close>: an optional sign and digits, single underscores between digits, at most 4300 digits.\<close>

fun digits_of :: "bool \<Rightarrow> string \<Rightarrow> string option" where
  "digits_of after_digit [] = (if after_digit then Some [] else None)"
| "digits_of after_digit (c # s) =
     (if is_digit c then map_option ((#) c) (digits_of True s)
      else if c = CHR ''_'' \<and> after_digit then digits_of False s else None)"

definition digit_value :: "char \<Rightarrow> nat" where
  "digit_value c = of_char c - 48"

definition py_int :: "string \<Rightarrow> int option" where
  "py_int s =
     (let t = strip s; signed = (t \<noteq> [] \<and> hd t \<in> {CHR ''+'', CHR ''-''})
      in case digits_of False (if signed then tl t else t) of None \<Rightarrow> None
         | Some ds \<Rightarrow>
             if length ds > 4300 then None
             else let v = int (digits_value (map digit_value ds))
                  in Some (if signed \<and> hd t = CHR ''-'' then - v else v))"

text \<open>\<open>s.split(sep)\<close> for one character\<close>

fun split_char :: "char \<Rightarrow> string \<Rightarrow> string list" where
  "split_char sep [] = [[]]"
| "split_char sep (c # s) =
     (if c = sep then [] # split_char sep s
      else (c # hd (split_char sep s)) # tl (split_char sep s))"

section \<open>Patterns\<close>

text \<open>What follows a match of \<open>\r?\n\<close> at the beginning.\<close>

definition after_newline :: "string \<Rightarrow> string option" where
  "after_newline s =
     (if s \<noteq> [] \<and> hd s = LF then Some (tl s)
      else if s \<noteq> [] \<and> hd s = CR \<and> tl s \<noteq> [] \<and> hd (tl s) = LF then Some (tl (tl s)) else None)"

text \<open>
  \<open>CUE_SEPARATOR\<close> = \<open>\r?\n\s*\r?\n\<close> at the beginning: it takes the white space up to its last newline.
\<close>

definition after_last_newline :: "string \<Rightarrow> string" where
  "after_last_newline s =
     rev (takeWhile (\<lambda>c. c \<noteq> LF) (rev (takeWhile is_space s))) @ dropWhile is_space s"

definition cue_separator :: "string \<Rightarrow> string option" where
  "cue_separator s =
     (case after_newline s of None \<Rightarrow> None
      | Some rest \<Rightarrow> if LF \<in> set (takeWhile is_space rest) then Some (after_last_newline rest) else None)"

lemma after_newline_shorter: "after_newline s = Some r \<Longrightarrow> length r < length s"
  by (auto simp: after_newline_def split: if_splits)

lemma after_last_newline_le: "length (after_last_newline s) \<le> length s"
proof -
  have "length (takeWhile (\<lambda>c. c \<noteq> LF) (rev (takeWhile is_space s))) \<le> length (takeWhile is_space s)"
    using length_takeWhile_le [of _ "rev (takeWhile is_space s)"] by simp
  moreover have "length (takeWhile is_space s) + length (dropWhile is_space s) = length s"
    by (metis length_append takeWhile_dropWhile_id)
  ultimately show ?thesis by (simp add: after_last_newline_def)
qed

lemma cue_separator_shorter: "cue_separator s = Some r \<Longrightarrow> length r < length s"
  using after_last_newline_le
  by (auto simp: cue_separator_def dest!: after_newline_shorter intro: le_less_trans split: option.splits if_splits)

function split_cues :: "string \<Rightarrow> string list" where
  "split_cues s =
     (if s = [] then [[]]
      else case cue_separator s of
        Some r \<Rightarrow> [] # split_cues r
      | None \<Rightarrow> (let bs = split_cues (tl s) in (hd s # hd bs) # tl bs))"
  by pat_completeness auto

termination split_cues
  by (relation "measure length") (auto dest: cue_separator_shorter)

declare split_cues.simps [simp del]

text \<open>\<open>TIMECODE\<close>: the two time stamps\<close>

definition timestamp_shape :: "string \<Rightarrow> bool" where
  "timestamp_shape t =
     list_all2 (\<lambda>p c. if p = CHR ''d'' then is_digit c else c = p) ''dd:dd:dd,ddd'' t"

definition timecode :: "string \<Rightarrow> (string \<times> string) option" where
  "timecode s =
     (let start = take 12 s; gap1 = drop 12 s; arrow = dropWhile is_space gap1;
          gap2 = drop 3 arrow; from_end = dropWhile is_space gap2; until = take 12 from_end; rest = drop 12 from_end
      in if timestamp_shape start \<and> gap1 \<noteq> [] \<and> is_space (hd gap1) \<and> take 3 arrow = ''-->''
           \<and> gap2 \<noteq> [] \<and> is_space (hd gap2) \<and> timestamp_shape until
           \<and> (rest = [] \<or> (is_space (hd rest) \<and> LF \<notin> set (dropWhile is_space rest)))
         then Some (start, until) else None)"

text \<open>\<open>VERIFIED_SPEAKER_LABEL_PATTERN\<close>: the speaker and the text after the label\<close>

definition speaker_char :: "char \<Rightarrow> bool" where
  "speaker_char c = (char_in c (upper_chars @ lower_chars) \<or> c = CHR '' '' \<or> c = CHR ''-'')"

definition speaker_label :: "string \<Rightarrow> (string \<times> string) option" where
  "speaker_label line =
     (let speaker = takeWhile (\<lambda>c. c \<noteq> CHR '':'') line; rest = drop (length speaker + 1) line;
          words = dropWhile is_space rest; said = (if words = [] then drop (length rest - 1) rest else words)
      in if CHR '':'' \<in> set line \<and> speaker \<noteq> [] \<and> char_in (hd speaker) (upper_chars @ lower_chars)
           \<and> list_all speaker_char speaker \<and> length speaker \<le> 49 \<and> said \<noteq> [] \<and> LF \<notin> set said
         then Some (speaker, said) else None)"

text \<open>\<open>STYLE_TAG_PATTERN.sub(" ", s)\<close>\<close>

function strip_styles :: "string \<Rightarrow> string" where
  "strip_styles s =
     (if s = [] then []
      else let tag = takeWhile (\<lambda>c. c \<noteq> CHR ''>'') (tl s); rest = dropWhile (\<lambda>c. c \<noteq> CHR ''>'') (tl s)
           in if hd s = CHR ''<'' \<and> tag \<noteq> [] \<and> rest \<noteq> [] then CHR '' '' # strip_styles (tl rest)
              else hd s # strip_styles (tl s))"
  by pat_completeness auto

lemma tl_dropWhile_shorter: "s \<noteq> [] \<Longrightarrow> length (dropWhile P (tl s)) - Suc 0 < length s"
  using length_dropWhile_le [of P "tl s"] by (cases s) auto

termination strip_styles
  by (relation "measure length") (auto simp: tl_dropWhile_shorter)

declare strip_styles.simps [simp del]

text \<open>\<open>WHITESPACE_PATTERN.sub(" ", s)\<close>\<close>

function squeeze :: "string \<Rightarrow> string" where
  "squeeze s =
     (if s = [] then []
      else if is_space (hd s) then CHR '' '' # squeeze (dropWhile is_space s) else hd s # squeeze (tl s))"
  by pat_completeness auto

lemma dropWhile_space_shorter: "s \<noteq> [] \<Longrightarrow> is_space (hd s) \<Longrightarrow> length (dropWhile is_space s) < length s"
  using length_dropWhile_le [of is_space "tl s"] by (cases s) auto

termination squeeze
  by (relation "measure length") (auto simp: dropWhile_space_shorter)

declare squeeze.simps [simp del]

section \<open>Parsing\<close>

record parsed_cue =
  pc_number :: int
  pc_start_ms :: int
  pc_end_ms :: int
  pc_lines :: "string list"

definition parse_cue_number :: "string \<Rightarrow> int result" where
  "parse_cue_number v =
     (case py_int (strip v) of None \<Rightarrow> Inl (ValueError STR ''SRT_CUE_NUMBER_MUST_BE_POSITIVE'')
      | Some n \<Rightarrow> if n < 1 then Inl (ValueError STR ''SRT_CUE_NUMBER_MUST_BE_POSITIVE'') else Inr n)"

text \<open>\<open>int\<close> where a failure is not caught\<close>

definition int_or_raise :: "string \<Rightarrow> int result" where
  "int_or_raise s = (case py_int s of None \<Rightarrow> Inl (ValueError STR ''int'') | Some n \<Rightarrow> Inr n)"

definition timestamp_ms :: "string \<Rightarrow> int result" where
  "timestamp_ms v =
     (case split_char CHR '':'' v of [hours, minutes, rest] \<Rightarrow>
        (case split_char CHR '','' rest of [seconds, milliseconds] \<Rightarrow>
           bindE (int_or_raise hours) (\<lambda>h. bindE (int_or_raise minutes) (\<lambda>m.
           bindE (int_or_raise seconds) (\<lambda>s. bindE (int_or_raise milliseconds) (\<lambda>ms.
             if m > 59 \<or> s > 59 \<or> ms > 999 then Inl (ValueError STR ''SRT_TIMECODE_IS_INVALID'')
             else Inr (h * 3600000 + m * 60000 + s * 1000 + ms)))))
         | _ \<Rightarrow> Inl (ValueError STR ''unpack''))
      | _ \<Rightarrow> Inl (ValueError STR ''unpack''))"

definition parse_cue :: "string \<Rightarrow> parsed_cue result" where
  "parse_cue block =
     (case splitlines block of [] \<Rightarrow> Inl (LookupError STR ''lines[0]'')
      | number_line # more_lines \<Rightarrow>
          bindE (parse_cue_number number_line) (\<lambda>n.
            case more_lines of [] \<Rightarrow> Inl (ValueError STR ''SRT_CUE_MUST_HAVE_A_TIMECODE'')
            | time_line # text_lines \<Rightarrow>
                (case timecode (strip time_line) of None \<Rightarrow> Inl (ValueError STR ''SRT_TIMECODE_IS_INVALID'')
                 | Some (start, until) \<Rightarrow>
                     bindE (timestamp_ms start) (\<lambda>a. bindE (timestamp_ms until) (\<lambda>b.
                       if b \<le> a then Inl (ValueError STR ''SRT_CUE_END_MUST_FOLLOW_START'')
                       else let dialogue = filter (\<lambda>l. l \<noteq> []) (map strip text_lines)
                            in if dialogue = [] then Inl (ValueError STR ''SRT_CUE_MUST_HAVE_DIALOGUE'')
                               else Inr \<lparr>pc_number = n, pc_start_ms = a, pc_end_ms = b, pc_lines = dialogue\<rparr>)))))"

fun parse_blocks :: "string list \<Rightarrow> parsed_cue list result" where
  "parse_blocks [] = Inr []"
| "parse_blocks (b # bs) =
     (if strip b = [] then parse_blocks bs
      else bindE (parse_cue b) (\<lambda>c. bindE (parse_blocks bs) (\<lambda>cs. Inr (c # cs))))"

definition parse_srt :: "string \<Rightarrow> parsed_cue list result" where
  "parse_srt txt = parse_blocks (split_cues (strip txt))"

section \<open>Canonical segments\<close>

definition canonicalize_dialogue :: "string \<Rightarrow> string \<times> bool" where
  "canonicalize_dialogue v = (let u = strip_styles v in (strip (squeeze u), u \<noteq> v))"

text \<open>\<open>str.upper\<close> on the characters of a label\<close>

definition upper_char :: "char \<Rightarrow> char" where
  "upper_char c = (case map_of (zip lower_chars upper_chars) c of None \<Rightarrow> c | Some u \<Rightarrow> u)"

definition normalize_speaker_name :: "string \<Rightarrow> string" where
  "normalize_speaker_name v = map upper_char (strip (squeeze v))"

text \<open>The loop over the lines: speakers, dialogue and whether a style was removed, so far.\<close>

fun read_lines :: "(string \<Rightarrow> uuid) \<Rightarrow> uuid \<Rightarrow> string list \<Rightarrow> speaker_candidate list \<Rightarrow> string list \<Rightarrow> bool
    \<Rightarrow> (speaker_candidate list \<times> string list \<times> bool) result" where
  "read_lines uuid5 series [] speakers parts styled = Inr (speakers, parts, styled)"
| "read_lines uuid5 series (l # ls) speakers parts styled =
     (case speaker_label l of None \<Rightarrow> Inl (ValueError STR ''SRT_CUE_REQUIRES_VERIFIED_SPEAKER_LABEL'')
      | Some (label, said) \<Rightarrow>
          let name = normalize_speaker_name label; (dialogue, removed) = canonicalize_dialogue said;
              styled' = (styled \<or> removed)
          in if dialogue = [] then read_lines uuid5 series ls speakers parts styled'
             else if list_ex (\<lambda>c. sc_name c = name) speakers
               then read_lines uuid5 series ls speakers (parts @ [dialogue]) styled'
             else bindE (candidate_post_init
                 \<lparr>sc_speaker_id = speaker_id uuid5 series name, sc_name = name, sc_confidence = 1\<rparr>) (\<lambda>c.
               read_lines uuid5 series ls (speakers @ [c]) (parts @ [dialogue]) styled'))"

definition to_transcript_segment :: "(string \<Rightarrow> uuid) \<Rightarrow> uuid \<Rightarrow> episode_ref \<Rightarrow> language \<Rightarrow> rights_status \<Rightarrow> parsed_cue
    \<Rightarrow> transcript_segment option result" where
  "to_transcript_segment uuid5 version e lang rights c =
     bindE (read_lines uuid5 (ref_series_id e) (pc_lines c) [] [] False) (\<lambda>(speakers, parts, styled).
       if parts = [] then Inr None
       else let txt = join CHR '' '' parts
            in bindE (segment_post_init
                 \<lparr>ts_segment_id = transcript_segment_id uuid5 version (ref_episode_id e) (pc_number c) (pc_start_ms c) (pc_end_ms c) txt,
                  ts_version_id = version, ts_episode = e, ts_start_ms = pc_start_ms c, ts_end_ms = pc_end_ms c,
                  ts_text = txt, ts_language = lang, ts_rights = rights, ts_style_removed = styled,
                  ts_speakers = speakers\<rparr>) (\<lambda>s. Inr (Some s)))"

section \<open>The import and its report\<close>

record ingestion_report =
  ir_source_path :: string
  ir_cue_count :: nat
  ir_segment_count :: nat
  ir_multi_speaker :: nat
  ir_overlaps :: nat
  ir_style_removed :: nat
  ir_skipped :: int

definition build_report :: "string \<Rightarrow> parsed_cue list \<Rightarrow> transcript_segment list \<Rightarrow> ingestion_report" where
  "build_report path cues ss =
     \<lparr>ir_source_path = path, ir_cue_count = length cues, ir_segment_count = length ss,
      ir_multi_speaker = length (filter (\<lambda>s. length (ts_speakers s) > 1) ss),
      ir_overlaps = length (filter (\<lambda>(previous, current). ts_start_ms current < ts_end_ms previous) (zip ss (tl ss))),
      ir_style_removed = length (filter ts_style_removed ss),
      ir_skipped = int (length cues) - int (length ss)\<rparr>"

fun each_segment :: "(parsed_cue \<Rightarrow> transcript_segment option result) \<Rightarrow> parsed_cue list \<Rightarrow> transcript_segment option list result" where
  "each_segment f [] = Inr []"
| "each_segment f (c # cs) = bindE (f c) (\<lambda>s. bindE (each_segment f cs) (\<lambda>ss. Inr (s # ss)))"

definition ingest_finalized_srt_text :: "(string \<Rightarrow> uuid) \<Rightarrow> ingestion_report canonicaliser" where
  "ingest_finalized_srt_text uuid5 source_text path version e lang rights =
     bindE (parse_srt source_text) (\<lambda>cues.
     bindE (each_segment (to_transcript_segment uuid5 version e lang rights) cues) (\<lambda>mapped.
       let ss = List.map_filter (\<lambda>s. s) mapped in Inr (ss, build_report path cues ss)))"

text \<open>From a file, whose text \<open>read\<close> decodes.\<close>

definition ingest_finalized_srt :: "(string \<Rightarrow> uuid) \<Rightarrow> (string \<Rightarrow> string result) \<Rightarrow> string \<Rightarrow> uuid \<Rightarrow> episode_ref \<Rightarrow> language
    \<Rightarrow> rights_status \<Rightarrow> (transcript_segment list \<times> ingestion_report) result" where
  "ingest_finalized_srt uuid5 read path version e lang rights =
     bindE (read path) (\<lambda>t. ingest_finalized_srt_text uuid5 t path version e lang rights)"

section \<open>Printing\<close>

text \<open>The canonical rendering of cues, which the parser reads back.\<close>

definition padded :: "nat \<Rightarrow> nat \<Rightarrow> string" where
  "padded w n = map ((!) hex_chars) (digits_fixed 10 w n)"

definition stamp :: "int \<Rightarrow> string" where
  "stamp t =
     (let n = nat t in padded 2 (n div 3600000) @ CHR '':'' # padded 2 (n div 60000 mod 60)
        @ CHR '':'' # padded 2 (n div 1000 mod 60) @ CHR '','' # padded 3 (n mod 1000))"

definition time_line :: "parsed_cue \<Rightarrow> string" where
  "time_line c = stamp (pc_start_ms c) @ '' --> '' @ stamp (pc_end_ms c)"

definition print_cue :: "parsed_cue \<Rightarrow> string" where
  "print_cue c = int_str (pc_number c) @ LF # time_line c @ LF # join LF (pc_lines c)"

definition print_srt :: "parsed_cue list \<Rightarrow> string" where
  "print_srt cs = join_by [LF, LF] (map print_cue cs)"

definition plain_line :: "string \<Rightarrow> bool" where
  "plain_line l \<longleftrightarrow> \<not> untrimmed l \<and> (\<forall>c \<in> set l. \<not> line_break c)"

definition cue_ok :: "parsed_cue \<Rightarrow> bool" where
  "cue_ok c \<longleftrightarrow> 1 \<le> pc_number c \<and> length (int_str (pc_number c)) \<le> 4300
     \<and> 0 \<le> pc_start_ms c \<and> pc_start_ms c < pc_end_ms c \<and> pc_end_ms c < 360000000
     \<and> pc_lines c \<noteq> [] \<and> (\<forall>l \<in> set (pc_lines c). plain_line l)"

section \<open>Numbers\<close>

lemma hex_digit: "i < 10 \<Longrightarrow> is_digit (hex_chars ! i) \<and> digit_value (hex_chars ! i) = i
    \<and> \<not> is_space (hex_chars ! i) \<and> \<not> line_break (hex_chars ! i)"
proof -
  have "\<forall>i \<in> set [0..<10]. is_digit (hex_chars ! i) \<and> digit_value (hex_chars ! i) = i
      \<and> \<not> is_space (hex_chars ! i) \<and> \<not> line_break (hex_chars ! i)" by code_simp
  then show "i < 10 \<Longrightarrow> ?thesis" by simp
qed

lemma digit_facts: "is_digit c \<Longrightarrow> \<not> is_space c \<and> \<not> line_break c \<and> c \<notin> {CHR ''+'', CHR ''-'', CHR '':'', CHR '','', CHR ''d''}"
proof -
  have "\<forall>c \<in> set digit_chars. \<not> is_space c \<and> \<not> line_break c \<and> c \<notin> {CHR ''+'', CHR ''-'', CHR '':'', CHR '','', CHR ''d''}"
    by code_simp
  then show "is_digit c \<Longrightarrow> ?thesis" by (simp add: is_digit_def char_in_def)
qed

definition numeral_text :: "string \<Rightarrow> bool" where
  "numeral_text s \<longleftrightarrow> s \<noteq> [] \<and> (\<forall>c \<in> set s. is_digit c)"

lemma strip_trimmed: "\<not> untrimmed s \<Longrightarrow> strip s = s"
  by (simp add: untrimmed_def)

lemma numeral_text_trimmed: "numeral_text s \<Longrightarrow> \<not> untrimmed s"
  by (simp add: numeral_text_def untrimmed_iff digit_facts)

lemma digits_of_numeral: "\<forall>c \<in> set s. is_digit c \<Longrightarrow> s \<noteq> [] \<or> after \<Longrightarrow> digits_of after s = Some s"
  by (induction s arbitrary: after) auto

lemma py_int_numeral:
  assumes "numeral_text s" and "length s \<le> 4300"
  shows "py_int s = Some (int (digits_value (map digit_value s)))"
proof -
  have "hd s \<notin> {CHR ''+'', CHR ''-''}" using assms(1) digit_facts [of "hd s"] by (simp add: numeral_text_def)
  moreover have "digits_of False s = Some s" using assms(1) by (simp add: numeral_text_def digits_of_numeral)
  ultimately show ?thesis
    using assms strip_trimmed [OF numeral_text_trimmed] by (simp add: py_int_def Let_def)
qed

lemma digits_value_snoc: "digits_value (ds @ [d]) = digits_value ds * 10 + d"
  by (simp add: digits_value_def)

lemma digits_value_fixed: "digits_value (digits_fixed 10 w n) = n mod 10 ^ w"
proof (induction w arbitrary: n)
  case (Suc w)
  have "n mod 10 ^ Suc w = n div 10 mod 10 ^ w * 10 + n mod 10"
    by (simp add: mod_mult2_eq [of n 10 "10 ^ w", simplified])
  then show ?case by (simp add: digits_value_snoc Suc.IH)
qed (simp add: digits_value_def)

lemma numeral_text_digits:
  assumes "\<forall>d \<in> set ds. d < 10" and "ds \<noteq> []"
  shows "numeral_text (map ((!) hex_chars) ds)" "map digit_value (map ((!) hex_chars) ds) = ds"
  using assms by (auto simp: numeral_text_def hex_digit intro!: map_idI)

lemma padded_numeral:
  assumes "0 < w"
  shows "numeral_text (padded w n)" "map digit_value (padded w n) = digits_fixed 10 w n" "length (padded w n) = w"
proof -
  have "digits_fixed 10 w n \<noteq> []" using assms length_digits_fixed [of 10 w n] by (cases w) auto
  then show "numeral_text (padded w n)" "map digit_value (padded w n) = digits_fixed 10 w n"
    unfolding padded_def by (intro numeral_text_digits; auto dest: digits_fixed_bound [rotated])+
qed (simp add: padded_def)

lemma int_or_raise_padded: "0 < w \<Longrightarrow> w \<le> 4300 \<Longrightarrow> int_or_raise (padded w n) = Inr (int (n mod 10 ^ w))"
  by (simp add: int_or_raise_def py_int_numeral padded_numeral digits_value_fixed)

lemma decimal_numeral:
  shows "numeral_text (decimal n)" "map digit_value (decimal n) = digits10 n"
proof -
  have "digits10 n \<noteq> []" by (simp add: digits10.simps [of n])
  then show "numeral_text (decimal n)" "map digit_value (decimal n) = digits10 n"
    unfolding decimal_def by (intro numeral_text_digits; auto dest: digits10_bound)+
qed

lemma parse_cue_number_print:
  assumes "1 \<le> n" and "length (int_str n) \<le> 4300"
  shows "parse_cue_number (int_str n) = Inr n"
proof -
  have s: "int_str n = decimal (nat n)" using assms(1) by (simp add: int_str_def)
  have "strip (decimal (nat n)) = decimal (nat n)" by (simp add: strip_trimmed numeral_text_trimmed decimal_numeral)
  then show ?thesis
    using assms unfolding s
    by (simp add: parse_cue_number_def py_int_numeral decimal_numeral digits_value_digits10)
qed

section \<open>Time stamps\<close>

lemma split_char_append: "sep \<notin> set x \<Longrightarrow> split_char sep (x @ sep # y) = x # split_char sep y"
  by (induction x) auto

lemma split_char_none: "sep \<notin> set x \<Longrightarrow> split_char sep x = [x]"
  by (induction x) auto

lemma padded_no_sep: "c \<in> {CHR '':'', CHR '',''} \<Longrightarrow> c \<notin> set (padded w n)"
proof (cases w)
  case (Suc v)
  then show "c \<in> {CHR '':'', CHR '',''} \<Longrightarrow> c \<notin> set (padded w n)"
    using padded_numeral(1) [of w n] digit_facts [of c] by (auto simp: numeral_text_def)
qed (simp add: padded_def)

lemma time_parts:
  fixes n :: nat
  shows "n div 3600000 * 3600000 + n div 60000 mod 60 * 60000 + n div 1000 mod 60 * 1000 + n mod 1000 = n"
proof -
  have "n div 3600000 = n div 60000 div 60" "n div 60000 = n div 1000 div 60" by (simp_all add: div_mult2_eq)
  then have "n div 3600000 * 60 + n div 60000 mod 60 = n div 60000" "n div 60000 * 60 + n div 1000 mod 60 = n div 1000"
    by simp_all
  moreover have "n div 1000 * 1000 + n mod 1000 = n" by simp
  ultimately show ?thesis by linarith
qed

lemma timestamp_ms_parts:
  assumes "h < 100" and "m < 60" and "sec < 60" and "ms < 1000"
  shows "timestamp_ms (padded 2 h @ CHR '':'' # padded 2 m @ CHR '':'' # padded 2 sec @ CHR '','' # padded 3 ms)
    = Inr (int (h * 3600000 + m * 60000 + sec * 1000 + ms))"
proof -
  have "split_char CHR '':'' (padded 2 h @ CHR '':'' # padded 2 m @ CHR '':'' # padded 2 sec @ CHR '','' # padded 3 ms)
      = [padded 2 h, padded 2 m, padded 2 sec @ CHR '','' # padded 3 ms]"
    by (simp add: split_char_append split_char_none padded_no_sep)
  moreover have "split_char CHR '','' (padded 2 sec @ CHR '','' # padded 3 ms) = [padded 2 sec, padded 3 ms]"
    by (simp add: split_char_append split_char_none padded_no_sep)
  ultimately show ?thesis
    using assms by (simp add: timestamp_ms_def int_or_raise_padded)
qed

lemma timestamp_ms_stamp:
  assumes "0 \<le> t" and "t < 360000000"
  shows "timestamp_ms (stamp t) = Inr t"
proof -
  let ?n = "nat t"
  have "?n < 360000000" using assms by simp
  then have h: "?n div 3600000 < 100" by (simp add: less_mult_imp_div_less)
  have "timestamp_ms (stamp t) = Inr (int (?n div 3600000 * 3600000 + ?n div 60000 mod 60 * 60000
      + ?n div 1000 mod 60 * 1000 + ?n mod 1000))"
    unfolding stamp_def Let_def by (rule timestamp_ms_parts [OF h]) simp_all
  then show ?thesis unfolding time_parts using assms(1) by simp
qed

lemma padded2: "\<exists>a b. padded 2 n = [a, b] \<and> is_digit a \<and> is_digit b"
  using padded_numeral [of 2 n] by (auto simp: numeral_text_def length_Suc_conv numeral_2_eq_2)

lemma padded3: "\<exists>a b c. padded 3 n = [a, b, c] \<and> is_digit a \<and> is_digit b \<and> is_digit c"
  using padded_numeral [of 3 n] by (auto simp: numeral_text_def length_Suc_conv numeral_3_eq_3)

lemma stamp_shape: "timestamp_shape (stamp t)"
proof -
  let ?n = "nat t"
  obtain a b c d e f where "padded 2 (?n div 3600000) = [a, b]" "padded 2 (?n div 60000 mod 60) = [c, d]"
    "padded 2 (?n div 1000 mod 60) = [e, f]" "\<forall>x \<in> {a, b, c, d, e, f}. is_digit x"
    using padded2 [of "?n div 3600000"] padded2 [of "?n div 60000 mod 60"] padded2 [of "?n div 1000 mod 60"] by auto
  moreover obtain g h i where "padded 3 (?n mod 1000) = [g, h, i]" "\<forall>x \<in> {g, h, i}. is_digit x"
    using padded3 [of "?n mod 1000"] by auto
  ultimately show ?thesis by (simp add: timestamp_shape_def stamp_def Let_def)
qed

lemma length_stamp [simp]: "length (stamp t) = 12"
  using list_all2_lengthD [OF stamp_shape [of t, unfolded timestamp_shape_def]] by simp

lemma padded_plain: "0 < w \<Longrightarrow> \<forall>c \<in> set (padded w n). \<not> is_space c \<and> \<not> line_break c"
  using padded_numeral(1) [of w n] digit_facts by (auto simp: numeral_text_def)

lemma stamp_plain: "c \<in> set (stamp t) \<Longrightarrow> \<not> is_space c \<and> \<not> line_break c"
proof -
  have "\<not> is_space CHR '':'' \<and> \<not> line_break CHR '':''" "\<not> is_space CHR '','' \<and> \<not> line_break CHR '',''" by code_simp+
  moreover have "\<forall>c \<in> set (padded 2 n) \<union> set (padded 3 n). \<not> is_space c \<and> \<not> line_break c" for n
    using padded_plain [of 2 n] padded_plain [of 3 n] by auto
  ultimately show "c \<in> set (stamp t) \<Longrightarrow> ?thesis" unfolding stamp_def Let_def by auto
qed

lemma stamp_nonempty: "stamp t \<noteq> []"
  by (metis length_stamp list.size(3) zero_neq_numeral)

lemma dropWhile_space_stamp [simp]: "dropWhile is_space (stamp t) = stamp t"
  using stamp_plain [of "hd (stamp t)" t] stamp_nonempty [of t] by (cases "stamp t") auto

lemma timecode_time_line: "timecode (time_line c) = Some (stamp (pc_start_ms c), stamp (pc_end_ms c))"
proof -
  have sp: "is_space CHR '' ''" "\<not> is_space CHR ''-''" by code_simp+
  have "time_line c = stamp (pc_start_ms c) @ CHR '' '' # ''-->'' @ CHR '' '' # stamp (pc_end_ms c)"
    by (simp add: time_line_def)
  then show ?thesis by (simp add: timecode_def Let_def stamp_shape sp)
qed

lemma time_line_plain: "\<not> untrimmed (time_line c)" "\<forall>x \<in> set (time_line c). \<not> line_break x"
proof -
  have "\<not> is_space (hd (stamp t)) \<and> \<not> is_space (last (stamp t))" for t
    using stamp_plain stamp_nonempty hd_in_set last_in_set by blast
  then show "\<not> untrimmed (time_line c)" using stamp_nonempty by (simp add: untrimmed_iff time_line_def)
  have "\<forall>x \<in> set '' --> ''. \<not> line_break x" by code_simp
  then show "\<forall>x \<in> set (time_line c). \<not> line_break x" using stamp_plain by (auto simp: time_line_def)
qed

section \<open>Lines\<close>

lemma splitlines_append:
  assumes "\<forall>c \<in> set l. \<not> line_break c"
  shows "splitlines (l @ LF # s) = l # splitlines s"
proof -
  have lf: "line_break LF" by code_simp
  have "takeWhile (\<lambda>c. \<not> line_break c) (l @ LF # s) = l" "dropWhile (\<lambda>c. \<not> line_break c) (l @ LF # s) = LF # s"
    using assms lf by (simp_all add: takeWhile_append2 dropWhile_append2)
  then show ?thesis by (subst splitlines.simps) (simp add: drop_break_def splitlines.simps [of "[]"])
qed

lemma splitlines_single:
  assumes "\<forall>c \<in> set l. \<not> line_break c" and "l \<noteq> []"
  shows "splitlines l = [l]"
proof -
  have "takeWhile (\<lambda>c. \<not> line_break c) l = l" "dropWhile (\<lambda>c. \<not> line_break c) l = []" using assms(1) by simp_all
  with assms(2) show ?thesis by (subst splitlines.simps) simp
qed

lemma plain_line_nonempty: "plain_line l \<Longrightarrow> l \<noteq> []"
  by (auto simp: plain_line_def untrimmed_def)

lemma splitlines_join:
  "ls \<noteq> [] \<Longrightarrow> \<forall>l \<in> set ls. plain_line l \<Longrightarrow> splitlines (join LF ls) = ls"
proof (induction LF ls rule: join.induct)
  case (2 x)
  then show ?case using plain_line_nonempty [of x] by (simp add: splitlines_single plain_line_def)
next
  case (3 x y xs)
  then show ?case by (simp add: splitlines_append plain_line_def)
qed simp

lemma int_str_plain: "0 \<le> n \<Longrightarrow> plain_line (int_str n)"
  using decimal_numeral(1) [of "nat n"] numeral_text_trimmed [of "decimal (nat n)"] digit_facts
  by (auto simp: int_str_def plain_line_def numeral_text_def)

lemma parse_cue_print:
  assumes "cue_ok c"
  shows "parse_cue (print_cue c) = Inr c"
proof -
  have ok: "1 \<le> pc_number c" "length (int_str (pc_number c)) \<le> 4300" "0 \<le> pc_start_ms c" "pc_start_ms c < pc_end_ms c"
    "pc_end_ms c < 360000000" "pc_lines c \<noteq> []" "\<forall>l \<in> set (pc_lines c). plain_line l"
    using assms by (simp_all add: cue_ok_def)
  have lines: "splitlines (print_cue c) = int_str (pc_number c) # time_line c # pc_lines c"
    using ok int_str_plain [of "pc_number c"] time_line_plain(2) [of c]
    by (simp add: print_cue_def splitlines_append splitlines_join plain_line_def)
  have "map strip (pc_lines c) = pc_lines c"
    using ok(7) by (auto simp: plain_line_def strip_trimmed intro!: map_idI)
  moreover have "filter (\<lambda>l. l \<noteq> []) (pc_lines c) = pc_lines c"
    using ok(7) plain_line_nonempty by (auto simp: filter_id_conv)
  ultimately show ?thesis
    using ok lines parse_cue_number_print [OF ok(1,2)] strip_trimmed [OF time_line_plain(1)]
    by (simp add: parse_cue_def Let_def timecode_time_line timestamp_ms_stamp)
qed

section \<open>Cues\<close>

text \<open>A block without a blank line: no newline is followed by white space or ends it.\<close>

fun tight :: "string \<Rightarrow> bool" where
  "tight [] = True"
| "tight (c # s) = (c \<noteq> CR \<and> (c = LF \<longrightarrow> s \<noteq> [] \<and> \<not> is_space (hd s)) \<and> tight s)"

lemma space_LF: "is_space LF" by code_simp

lemma split_cues_step:
  assumes "cue_separator (c # s) = None"
  shows "split_cues (c # s) = (c # hd (split_cues s)) # tl (split_cues s)"
  using assms by (subst split_cues.simps) (simp add: Let_def)

lemma no_separator:
  assumes "c \<noteq> CR" and "c = LF \<longrightarrow> (s \<noteq> [] \<longrightarrow> \<not> is_space (hd s))"
  shows "cue_separator (c # s) = None"
  using assms by (cases s) (auto simp: cue_separator_def after_newline_def)

lemma split_cues_block:
  assumes "r \<noteq> []" and "\<not> is_space (hd r)"
  shows "tight b \<Longrightarrow> split_cues (b @ LF # LF # r) = b # split_cues r"
proof (induction b)
  case Nil
  have "dropWhile is_space r = r" "takeWhile is_space r = []" using assms by (cases r; simp)+
  then have "cue_separator (LF # LF # r) = Some r"
    using space_LF by (simp add: cue_separator_def after_newline_def after_last_newline_def)
  then show ?case by (subst split_cues.simps) simp
next
  case (Cons c b)
  have "cue_separator (c # b @ LF # LF # r) = None"
    using Cons.prems by (intro no_separator) (cases b; auto)+
  with Cons show ?case by (simp add: split_cues_step)
qed

lemma split_cues_last: "tight b \<Longrightarrow> split_cues b = [b]"
proof (induction b)
  case (Cons c b)
  then have "cue_separator (c # b) = None" by (intro no_separator) auto
  with Cons show ?case by (simp add: split_cues_step)
qed (simp add: split_cues.simps [of "[]"])

lemma plain_line_facts:
  assumes "plain_line l"
  shows "l \<noteq> []" "\<not> is_space (hd l)" "\<not> is_space (last l)" "CR \<notin> set l" "LF \<notin> set l"
proof -
  have "line_break CR" "line_break LF" by code_simp+
  then show "l \<noteq> []" "\<not> is_space (hd l)" "\<not> is_space (last l)" "CR \<notin> set l" "LF \<notin> set l"
    using assms by (auto simp: plain_line_def untrimmed_iff)
qed

lemma tight_flat: "CR \<notin> set l \<Longrightarrow> LF \<notin> set l \<Longrightarrow> tight l"
  by (induction l) auto

lemma tight_line:
  assumes "plain_line l" and "tight y" and "y \<noteq> []" and "\<not> is_space (hd y)"
  shows "tight (l @ LF # y)"
proof -
  have "CR \<notin> set l \<Longrightarrow> LF \<notin> set l \<Longrightarrow> tight (l @ LF # y)" using assms(2-4) by (induction l) auto
  then show ?thesis using plain_line_facts [OF assms(1)] by simp
qed

lemma join_plain:
  "ls \<noteq> [] \<Longrightarrow> \<forall>l \<in> set ls. plain_line l \<Longrightarrow>
     tight (join LF ls) \<and> join LF ls \<noteq> [] \<and> \<not> is_space (hd (join LF ls)) \<and> \<not> is_space (last (join LF ls))"
proof (induction LF ls rule: join.induct)
  case (2 x)
  then show ?case using plain_line_facts [of x] by (simp add: tight_flat)
next
  case (3 x y xs)
  then show ?case using plain_line_facts [of x] by (simp add: tight_line)
qed simp

lemma print_cue_shape:
  assumes "cue_ok c"
  shows "tight (print_cue c)" "print_cue c \<noteq> []" "\<not> is_space (hd (print_cue c))" "\<not> is_space (last (print_cue c))"
proof -
  let ?j = "join LF (pc_lines c)"
  have j: "tight ?j" "?j \<noteq> []" "\<not> is_space (hd ?j)" "\<not> is_space (last ?j)"
    using assms join_plain [of "pc_lines c"] by (simp_all add: cue_ok_def)
  have t: "plain_line (time_line c)" using time_line_plain by (simp add: plain_line_def)
  have n: "plain_line (int_str (pc_number c))" using assms by (simp add: cue_ok_def int_str_plain)
  have "tight (time_line c @ LF # ?j)" by (rule tight_line [OF t j(1-3)])
  then show "tight (print_cue c)"
    unfolding print_cue_def using plain_line_facts [OF t] by (intro tight_line [OF n]) simp_all
  show "print_cue c \<noteq> []" "\<not> is_space (hd (print_cue c))" "\<not> is_space (last (print_cue c))"
    using j plain_line_facts [OF n] by (simp_all add: print_cue_def)
qed

lemma print_srt_trimmed:
  "cs \<noteq> [] \<Longrightarrow> \<forall>c \<in> set cs. cue_ok c \<Longrightarrow>
     print_srt cs \<noteq> [] \<and> \<not> is_space (hd (print_srt cs)) \<and> \<not> is_space (last (print_srt cs))"
proof (induction cs)
  case (Cons c cs)
  then show ?case using print_cue_shape [of c] by (cases cs) (simp_all add: print_srt_def)
qed simp

lemma split_print: "cs \<noteq> [] \<Longrightarrow> \<forall>c \<in> set cs. cue_ok c \<Longrightarrow> split_cues (print_srt cs) = map print_cue cs"
proof (induction cs)
  case (Cons c cs)
  show ?case
  proof (cases cs)
    case Nil
    then show ?thesis using Cons.prems print_cue_shape [of c] by (simp add: print_srt_def split_cues_last)
  next
    case (Cons c' cs')
    then have e: "print_srt (c # cs) = print_cue c @ LF # LF # print_srt cs" by (simp add: print_srt_def)
    have "print_srt cs \<noteq> []" "\<not> is_space (hd (print_srt cs))"
      using print_srt_trimmed [of cs] Cons.prems Cons by auto
    then have "split_cues (print_srt (c # cs)) = print_cue c # split_cues (print_srt cs)"
      unfolding e using Cons.prems print_cue_shape [of c] by (simp add: split_cues_block)
    then show ?thesis using Cons.IH Cons.prems Cons by simp
  qed
qed simp

lemma parse_blocks_print: "\<forall>c \<in> set cs. cue_ok c \<Longrightarrow> parse_blocks (map print_cue cs) = Inr cs"
proof (induction cs)
  case (Cons c cs)
  have "\<not> untrimmed (print_cue c)" using Cons.prems print_cue_shape [of c] by (simp add: untrimmed_iff)
  then have "strip (print_cue c) \<noteq> []" by (simp add: untrimmed_def)
  then show ?case using Cons by (simp add: parse_cue_print)
qed simp

lemma parse_print: "\<forall>c \<in> set cs. cue_ok c \<Longrightarrow> parse_srt (print_srt cs) = Inr cs"
proof (cases cs)
  case Nil
  then show ?thesis
    by (simp add: parse_srt_def print_srt_def strip_def lstrip_def split_cues.simps [of "[]"])
next
  case (Cons c cs')
  assume ok: "\<forall>c \<in> set cs. cue_ok c"
  have "\<not> untrimmed (print_srt cs)" using print_srt_trimmed [OF _ ok] Cons by (simp add: untrimmed_iff)
  then show ?thesis
    using split_print [OF _ ok] parse_blocks_print [OF ok] Cons by (simp add: parse_srt_def strip_trimmed)
qed

section \<open>Names and dialogue\<close>

lemma squeeze_mem: "c \<in> set (squeeze s) \<Longrightarrow> c = CHR '' '' \<or> c \<in> set s"
proof (induction s rule: squeeze.induct)
  case (1 s)
  show ?case
  proof (cases s)
    case Nil
    with "1.prems" show ?thesis by (simp add: squeeze.simps)
  next
    case (Cons a t)
    have "c = CHR '' '' \<or> c = a \<or> c \<in> set (squeeze (if is_space a then dropWhile is_space s else t))"
      using "1.prems" Cons by (subst (asm) squeeze.simps) (auto split: if_splits)
    then show ?thesis using "1.IH" Cons by (auto split: if_splits dest: set_dropWhileD)
  qed
qed

lemma squeeze_keeps: "c \<in> set s \<Longrightarrow> \<not> is_space c \<Longrightarrow> c \<in> set (squeeze s)"
proof (induction s rule: squeeze.induct)
  case (1 s)
  show ?case
  proof (cases "is_space (hd s)")
    case True
    have "c \<in> set (takeWhile is_space s) \<or> c \<in> set (dropWhile is_space s)"
      using "1.prems"(1) by (metis Un_iff set_append takeWhile_dropWhile_id)
    then have "c \<in> set (dropWhile is_space s)" using "1.prems"(2) set_takeWhileD by metis
    then show ?thesis using 1 True by (subst squeeze.simps) auto
  next
    case False
    then show ?thesis using 1 by (subst squeeze.simps) (cases s; auto)
  qed
qed

lemma strip_mem: "c \<in> set (strip s) \<Longrightarrow> c \<in> set s"
  by (auto simp: strip_def lstrip_def dest!: set_dropWhileD)

lemma strip_nonempty_trimmed: "strip s \<noteq> [] \<Longrightarrow> \<not> untrimmed (strip s)"
  unfolding not_untrimmed_strip
  by (rule ccontr) (simp add: strip_def lstrip_def dropWhile_eq_Nil_conv [THEN iffD2])

lemma join_trimmed: "xs \<noteq> [] \<Longrightarrow> \<forall>x \<in> set xs. \<not> untrimmed x \<Longrightarrow> \<not> untrimmed (join sep xs)"
proof (induction sep xs rule: join.induct)
  case (3 sep x y xs)
  then show ?case by (simp add: untrimmed_iff)
qed simp_all

definition name_char :: "char \<Rightarrow> bool" where
  "name_char c \<longleftrightarrow> char_in c (upper_chars @ '' -'')"

definition name_ok :: "string \<Rightarrow> bool" where
  "name_ok n \<longleftrightarrow> \<not> untrimmed n \<and> (\<forall>c \<in> set n. name_char c)"

lemma lower_not_space: "\<forall>c \<in> set lower_chars. \<not> is_space (upper_char c) \<and> \<not> is_space c"
  by (simp add: upper_chars_def lower_chars_def is_space_def upper_char_def)

lemma upper_char_lower:
  assumes "c \<in> set lower_chars"
  shows "upper_char c \<in> set upper_chars"
proof -
  have "map_of (zip lower_chars upper_chars) c \<noteq> None"
    using assms map_of_zip_is_None [of lower_chars upper_chars c] by (simp add: upper_chars_def lower_chars_def)
  then obtain u where "map_of (zip lower_chars upper_chars) c = Some u" by blast
  then show ?thesis by (auto simp: upper_char_def dest!: map_of_SomeD set_zip_rightD)
qed

lemma upper_char_other: "c \<notin> set lower_chars \<Longrightarrow> upper_char c = c"
proof -
  have "map_of (zip lower_chars upper_chars) c = None \<longleftrightarrow> c \<notin> set lower_chars"
    by (rule map_of_zip_is_None) (simp add: upper_chars_def lower_chars_def)
  then show "c \<notin> set lower_chars \<Longrightarrow> upper_char c = c" by (simp add: upper_char_def)
qed

lemma upper_char_facts:
  "is_space (upper_char c) \<longleftrightarrow> is_space c" "speaker_char c \<Longrightarrow> name_char (upper_char c)"
  using lower_not_space upper_char_lower [of c] upper_char_other [of c]
  by (cases "c \<in> set lower_chars"; auto simp: speaker_char_def name_char_def char_in_def)+

lemma upper_fold: "\<forall>c \<in> set (upper_chars @ '' -''). map upper_char (fold_char c) = [c]"
  by (simp add: upper_chars_def lower_chars_def fold_char_def upper_char_def char_of_def bit_0)

lemma speaker_label_facts:
  assumes "speaker_label l = Some (label, said)"
  shows "\<exists>c \<in> set label. \<not> is_space c" "\<forall>c \<in> set label. speaker_char c"
proof -
  have "label \<noteq> []" "char_in (hd label) (upper_chars @ lower_chars)" "list_all speaker_char label"
    using assms by (auto simp: speaker_label_def Let_def split: if_splits)
  moreover have "\<forall>c \<in> set (upper_chars @ lower_chars). \<not> is_space c" by code_simp
  ultimately show "\<exists>c \<in> set label. \<not> is_space c" "\<forall>c \<in> set label. speaker_char c"
    by (auto simp: char_in_def list_all_iff intro!: bexI [of _ "hd label"])
qed

lemma normalized_name_ok:
  assumes "speaker_label l = Some (label, said)"
  shows "name_ok (normalize_speaker_name label)"
proof -
  let ?s = "strip (squeeze label)"
  have "\<exists>c \<in> set (squeeze label). \<not> is_space c" using speaker_label_facts(1) [OF assms] squeeze_keeps by blast
  then have t: "\<not> untrimmed ?s" unfolding not_untrimmed_strip .
  have "speaker_char c" if "c \<in> set ?s" for c
    using that speaker_label_facts(2) [OF assms] by (auto dest!: strip_mem squeeze_mem simp: speaker_char_def)
  then show ?thesis
    using t upper_char_facts by (simp add: name_ok_def normalize_speaker_name_def untrimmed_iff hd_map last_map)
qed

lemma casefold_name_inj:
  assumes "name_ok m" and "name_ok n" and "casefold m = casefold n"
  shows "m = n"
proof -
  have "map upper_char (fold_char c) = [c]" if "name_char c" for c
    using upper_fold that unfolding name_char_def char_in_def by blast
  then have "\<forall>c \<in> set s. name_char c \<Longrightarrow> map upper_char (casefold s) = s" for s
    by (induction s) (simp_all add: casefold_def)
  then show ?thesis using assms by (metis name_ok_def)
qed

lemma distinct_casefold_names:
  "\<forall>c \<in> set cs. name_ok (sc_name c) \<Longrightarrow> distinct (map sc_name cs) \<Longrightarrow> distinct (map (\<lambda>c. casefold (sc_name c)) cs)"
  by (induction cs) (auto dest: casefold_name_inj)

section \<open>Reading the lines of a cue\<close>

definition said_in :: "string \<Rightarrow> string" where
  "said_in l = fst (canonicalize_dialogue (snd (the (speaker_label l))))"

definition name_in :: "string \<Rightarrow> string" where
  "name_in l = normalize_speaker_name (fst (the (speaker_label l)))"

definition spoken :: "string list \<Rightarrow> string list" where
  "spoken ls = filter (\<lambda>d. d \<noteq> []) (map said_in ls)"

definition labelled :: "string list \<Rightarrow> bool" where
  "labelled ls \<longleftrightarrow> (\<forall>l \<in> set ls. speaker_label l \<noteq> None)"

definition speakers_in :: "string list \<Rightarrow> string set" where
  "speakers_in ls = name_in ` {l \<in> set ls. said_in l \<noteq> []}"

lemma speakers_in_Cons: "speakers_in (l # ls) = (if said_in l = [] then speakers_in ls else insert (name_in l) (speakers_in ls))"
proof -
  have "{x \<in> set (l # ls). said_in x \<noteq> []} = (if said_in l = [] then {} else {l}) \<union> {x \<in> set ls. said_in x \<noteq> []}"
    by auto
  then show ?thesis by (simp add: speakers_in_def)
qed

lemma said_in_trimmed: "said_in l \<noteq> [] \<Longrightarrow> \<not> untrimmed (said_in l)"
  by (simp add: said_in_def canonicalize_dialogue_def Let_def strip_nonempty_trimmed)

lemma spoken_trimmed: "p \<in> set (spoken ls) \<Longrightarrow> \<not> untrimmed p"
  by (auto simp: spoken_def said_in_trimmed)

lemma read_lines_unlabelled: "\<not> labelled ls \<Longrightarrow> \<exists>e. read_lines uuid5 series ls speakers parts styled = Inl e"
proof (induction ls arbitrary: speakers parts styled)
  case (Cons l ls)
  show ?case
  proof (cases "speaker_label l")
    case (Some p)
    then have "\<not> labelled ls" using Cons.prems by (auto simp: labelled_def)
    with Some Cons.IH show ?thesis
      by (cases p) (auto simp: Let_def bindE_eq_Inl candidate_post_init_def split: prod.split)
  qed simp
qed (simp add: labelled_def)

lemma read_lines_labelled:
  "labelled ls \<Longrightarrow> \<forall>c \<in> set speakers. name_ok (sc_name c) \<Longrightarrow> distinct (map sc_name speakers) \<Longrightarrow>
     \<exists>cs styled'. read_lines uuid5 series ls speakers parts styled = Inr (cs, parts @ spoken ls, styled')
       \<and> (\<forall>c \<in> set cs. name_ok (sc_name c)) \<and> distinct (map sc_name cs)
       \<and> sc_name ` set cs = sc_name ` set speakers \<union> speakers_in ls"
proof (induction ls arbitrary: speakers parts styled)
  case (Cons l ls)
  obtain label said where l: "speaker_label l = Some (label, said)" using Cons.prems(1) by (auto simp: labelled_def)
  have rest: "labelled ls" using Cons.prems(1) by (simp add: labelled_def)
  let ?name = "normalize_speaker_name label"
  obtain removed where d: "canonicalize_dialogue said = (said_in l, removed)"
    using l by (cases "canonicalize_dialogue said") (simp add: said_in_def)
  have n: "name_in l = ?name" using l by (simp add: name_in_def)
  have ok: "name_ok ?name" by (rule normalized_name_ok [OF l])
  show ?case
  proof (cases "said_in l = []")
    case True
    then show ?thesis
      using Cons.IH [OF rest Cons.prems(2,3), of parts "styled \<or> removed"] l d
      by (auto simp: spoken_def speakers_in_def)
  next
    case said: False
    show ?thesis
    proof (cases "list_ex (\<lambda>c. sc_name c = ?name) speakers")
      case True
      then have "?name \<in> sc_name ` set speakers" by (force simp: list_ex_iff)
      then have "sc_name ` set speakers \<union> speakers_in ls = sc_name ` set speakers \<union> speakers_in (l # ls)"
        using said n by (auto simp: speakers_in_def)
      then show ?thesis
        using Cons.IH [OF rest Cons.prems(2,3), of "parts @ [said_in l]" "styled \<or> removed"] l d said True
        by (simp add: spoken_def)
    next
      case False
      let ?c = "\<lparr>sc_speaker_id = speaker_id uuid5 series ?name, sc_name = ?name, sc_confidence = 1\<rparr>"
      have c: "candidate_post_init ?c = Inr ?c" using ok by (simp add: candidate_post_init_def name_ok_def)
      have "\<forall>x \<in> set (speakers @ [?c]). name_ok (sc_name x)" "distinct (map sc_name (speakers @ [?c]))"
        using Cons.prems ok False by (auto simp: list_ex_iff)
      from Cons.IH [OF rest this, of "parts @ [said_in l]" "styled \<or> removed"] obtain cs styled' where
        cs: "read_lines uuid5 series ls (speakers @ [?c]) (parts @ [said_in l]) (styled \<or> removed)
          = Inr (cs, (parts @ [said_in l]) @ spoken ls, styled')"
        "\<forall>c \<in> set cs. name_ok (sc_name c)" "distinct (map sc_name cs)"
        "sc_name ` set cs = sc_name ` set (speakers @ [?c]) \<union> speakers_in ls" by blast
      have "sc_name ` set cs = sc_name ` set speakers \<union> speakers_in (l # ls)"
        unfolding cs(4) using said n by (simp add: speakers_in_Cons)
      moreover have "read_lines uuid5 series (l # ls) speakers parts styled = Inr (cs, parts @ spoken (l # ls), styled')"
        using l d said False c cs(1) by (simp add: spoken_def)
      ultimately show ?thesis using cs(2,3) by (intro exI conjI)
    qed
  qed
qed (simp add: spoken_def speakers_in_def)

section \<open>Importing\<close>

text \<open>What the parser guarantees of a cue.\<close>

definition cue_timed :: "parsed_cue \<Rightarrow> bool" where
  "cue_timed c \<longleftrightarrow> 1 \<le> pc_number c \<and> 0 \<le> pc_start_ms c \<and> pc_start_ms c < pc_end_ms c \<and> pc_lines c \<noteq> []"

lemma timestamp_shape_parts:
  assumes "timestamp_shape t"
  shows "\<exists>a b c d e f g h i. t = [a, b, CHR '':'', c, d, CHR '':'', e, f, CHR '','', g, h, i]
    \<and> list_all is_digit [a, b, c, d, e, f, g, h, i]"
proof -
  have "length t = 12" using list_all2_lengthD [OF assms [unfolded timestamp_shape_def]] by simp
  then have "\<exists>a b p c d q e f r g h i. t = [a, b, p, c, d, q, e, f, r, g, h, i]"
    by (auto simp: length_Suc_conv eval_nat_numeral)
  then obtain a b p c d q e f r g h i where t: "t = [a, b, p, c, d, q, e, f, r, g, h, i]" by blast
  then show ?thesis using assms unfolding timestamp_shape_def t by simp
qed

lemma int_or_raise_numeral: "numeral_text s \<Longrightarrow> length s \<le> 4300 \<Longrightarrow> \<exists>n. int_or_raise s = Inr (int n)"
  by (simp add: int_or_raise_def py_int_numeral)

lemma timestamp_ms_nonneg:
  assumes "timestamp_shape t" and "timestamp_ms t = Inr v"
  shows "0 \<le> v"
proof -
  obtain a b c d e f g h i where t: "t = [a, b, CHR '':'', c, d, CHR '':'', e, f, CHR '','', g, h, i]"
    and digit: "list_all is_digit [a, b, c, d, e, f, g, h, i]"
    using timestamp_shape_parts [OF assms(1)] by blast
  have no: "is_digit x \<Longrightarrow> x \<noteq> CHR '':'' \<and> x \<noteq> CHR '',''" for x using digit_facts [of x] by simp
  have num: "\<forall>x \<in> set s. is_digit x \<Longrightarrow> s \<noteq> [] \<Longrightarrow> length s \<le> 3 \<Longrightarrow> \<exists>n. int_or_raise s = Inr (int n)" for s
    by (rule int_or_raise_numeral) (simp_all add: numeral_text_def)
  obtain n1 n2 n3 n4 where "int_or_raise [a, b] = Inr (int n1)" "int_or_raise [c, d] = Inr (int n2)"
    "int_or_raise [e, f] = Inr (int n3)" "int_or_raise [g, h, i] = Inr (int n4)"
    using num [of "[a, b]"] num [of "[c, d]"] num [of "[e, f]"] num [of "[g, h, i]"] digit by auto
  then show ?thesis
    using assms(2) digit no unfolding t by (simp add: timestamp_ms_def split: if_splits)
qed

lemma timecode_shapes: "timecode s = Some (a, b) \<Longrightarrow> timestamp_shape a \<and> timestamp_shape b"
  by (auto simp: timecode_def Let_def split: if_splits)

lemma parse_cue_timed:
  assumes "parse_cue block = Inr c"
  shows "cue_timed c"
proof -
  obtain l ls where lines: "splitlines block = l # ls" using assms by (auto simp: parse_cue_def split: list.splits)
  obtain n where n: "parse_cue_number l = Inr n" using assms lines by (auto simp: parse_cue_def bindE_eq_Inr)
  obtain tl texts where ls: "ls = tl # texts" using assms lines n by (auto simp: parse_cue_def split: list.splits)
  obtain start until where tc: "timecode (strip tl) = Some (start, until)"
    using assms lines n ls by (auto simp: parse_cue_def split: option.splits)
  obtain a b where ab: "timestamp_ms start = Inr a" "timestamp_ms until = Inr b"
    using assms lines n ls tc by (auto simp: parse_cue_def bindE_eq_Inr)
  have c: "a < b \<and> filter (\<lambda>l. l \<noteq> []) (map strip texts) \<noteq> []
      \<and> c = \<lparr>pc_number = n, pc_start_ms = a, pc_end_ms = b, pc_lines = filter (\<lambda>l. l \<noteq> []) (map strip texts)\<rparr>"
    using assms lines n ls tc ab by (simp add: parse_cue_def Let_def split: if_splits)
  have "1 \<le> n" using n by (auto simp: parse_cue_number_def split: option.splits if_splits)
  moreover have "0 \<le> a" using timestamp_ms_nonneg timecode_shapes [OF tc] ab(1) by blast
  ultimately show ?thesis using c by (simp add: cue_timed_def)
qed

lemma parse_blocks_timed: "parse_blocks bs = Inr cs \<Longrightarrow> \<forall>c \<in> set cs. cue_timed c"
  by (induction bs arbitrary: cs) (auto simp: bindE_eq_Inr parse_cue_timed split: if_splits)

definition segment_for :: "uuid \<Rightarrow> episode_ref \<Rightarrow> language \<Rightarrow> rights_status \<Rightarrow> parsed_cue \<Rightarrow> transcript_segment \<Rightarrow> bool" where
  "segment_for version e lang rights c s \<longleftrightarrow> segment_ok s
     \<and> ts_version_id s = version \<and> ts_episode s = e \<and> ts_language s = lang \<and> ts_rights s = rights
     \<and> ts_start_ms s = pc_start_ms c \<and> ts_end_ms s = pc_end_ms c
     \<and> ts_text s = join CHR '' '' (spoken (pc_lines c)) \<and> sc_name ` set (ts_speakers s) = speakers_in (pc_lines c)"

lemma to_segment_labelled:
  assumes "cue_timed c" and "labelled (pc_lines c)"
  shows "if spoken (pc_lines c) = [] then to_transcript_segment uuid5 version e lang rights c = Inr None
    else \<exists>s. to_transcript_segment uuid5 version e lang rights c = Inr (Some s) \<and> segment_for version e lang rights c s"
proof -
  obtain cs styled where r: "read_lines uuid5 (ref_series_id e) (pc_lines c) [] [] False = Inr (cs, spoken (pc_lines c), styled)"
    and cs: "\<forall>x \<in> set cs. name_ok (sc_name x)" "distinct (map sc_name cs)" "sc_name ` set cs = speakers_in (pc_lines c)"
    using read_lines_labelled [OF assms(2), of "[]" uuid5 "ref_series_id e" "[]" False] by auto
  show ?thesis
  proof (cases "spoken (pc_lines c) = []")
    case True
    with r show ?thesis by (simp add: to_transcript_segment_def)
  next
    case False
    let ?txt = "join CHR '' '' (spoken (pc_lines c))"
    let ?s = "\<lparr>ts_segment_id = transcript_segment_id uuid5 version (ref_episode_id e) (pc_number c) (pc_start_ms c) (pc_end_ms c) ?txt,
      ts_version_id = version, ts_episode = e, ts_start_ms = pc_start_ms c, ts_end_ms = pc_end_ms c,
      ts_text = ?txt, ts_language = lang, ts_rights = rights, ts_style_removed = styled, ts_speakers = cs\<rparr>"
    have "\<not> untrimmed ?txt" by (rule join_trimmed [OF False]) (simp add: spoken_trimmed)
    then have ok: "segment_ok ?s"
      using assms(1) distinct_casefold_names [OF cs(1,2)] by (simp add: segment_ok_iff cue_timed_def)
    then have "to_transcript_segment uuid5 version e lang rights c = Inr (Some ?s)"
      using r False by (simp add: to_transcript_segment_def Let_def segment_ok_def)
    with ok cs(3) False show ?thesis by (simp add: segment_for_def)
  qed
qed

lemma to_segment_unlabelled:
  "\<not> labelled (pc_lines c) \<Longrightarrow> \<exists>err. to_transcript_segment uuid5 version e lang rights c = Inl err"
  using read_lines_unlabelled [of "pc_lines c" uuid5 "ref_series_id e" "[]" "[]" False]
  by (auto simp: to_transcript_segment_def)

lemma each_segment_labelled:
  "\<forall>c \<in> set cs. cue_timed c \<and> labelled (pc_lines c) \<Longrightarrow>
     \<exists>mapped. each_segment (to_transcript_segment uuid5 version e lang rights) cs = Inr mapped
       \<and> list_all2 (segment_for version e lang rights) (filter (\<lambda>c. spoken (pc_lines c) \<noteq> []) cs)
           (List.map_filter (\<lambda>s. s) mapped)"
proof (induction cs)
  case (Cons c cs)
  then obtain mapped where "each_segment (to_transcript_segment uuid5 version e lang rights) cs = Inr mapped"
    "list_all2 (segment_for version e lang rights) (filter (\<lambda>c. spoken (pc_lines c) \<noteq> []) cs) (List.map_filter (\<lambda>s. s) mapped)"
    by auto
  then show ?case
    using to_segment_labelled [of c uuid5 version e lang rights] Cons.prems
    by (cases "spoken (pc_lines c) = []") (auto simp: map_filter_simps)
qed (simp add: map_filter_simps)

lemma each_segment_unlabelled:
  "\<exists>c \<in> set cs. \<not> labelled (pc_lines c) \<Longrightarrow> \<exists>err. each_segment (to_transcript_segment uuid5 version e lang rights) cs = Inl err"
proof (induction cs)
  case (Cons c cs)
  show ?case
  proof (cases "labelled (pc_lines c)")
    case True
    then obtain err where "each_segment (to_transcript_segment uuid5 version e lang rights) cs = Inl err" using Cons by auto
    then show ?thesis by (cases "to_transcript_segment uuid5 version e lang rights c") auto
  next
    case False
    then show ?thesis using to_segment_unlabelled [of c uuid5 version e lang rights] by auto
  qed
qed simp

lemma length_filter_split: "length (filter P xs) + length (filter (\<lambda>x. \<not> P x) xs) = length xs"
  by (induction xs) auto

lemma srt_import:
  "case ingest_finalized_srt_text uuid5 src path version e lang rights of
     Inl err \<Rightarrow> parse_srt src = Inl err
       \<or> (\<exists>cues. parse_srt src = Inr cues \<and> (\<exists>c \<in> set cues. \<not> labelled (pc_lines c)))
   | Inr (ss, report) \<Rightarrow> \<exists>cues. parse_srt src = Inr cues \<and> (\<forall>c \<in> set cues. labelled (pc_lines c))
       \<and> list_all2 (segment_for version e lang rights) (filter (\<lambda>c. spoken (pc_lines c) \<noteq> []) cues) ss
       \<and> ir_cue_count report = length cues \<and> ir_segment_count report = length ss
       \<and> ir_skipped report = int (length (filter (\<lambda>c. spoken (pc_lines c) = []) cues))"
proof (cases "parse_srt src")
  case (Inr cues)
  let ?f = "to_transcript_segment uuid5 version e lang rights"
  have timed: "\<forall>c \<in> set cues. cue_timed c" using parse_blocks_timed Inr by (simp add: parse_srt_def)
  show ?thesis
  proof (cases "\<forall>c \<in> set cues. labelled (pc_lines c)")
    case True
    then obtain mapped where m: "each_segment ?f cues = Inr mapped"
      "list_all2 (segment_for version e lang rights) (filter (\<lambda>c. spoken (pc_lines c) \<noteq> []) cues)
         (List.map_filter (\<lambda>s. s) mapped)"
      using each_segment_labelled [of cues uuid5 version e lang rights] timed by auto
    have "length (filter (\<lambda>c. spoken (pc_lines c) = []) cues) + length (List.map_filter (\<lambda>s. s) mapped) = length cues"
      using length_filter_split [of "\<lambda>c. spoken (pc_lines c) = []" cues] list_all2_lengthD [OF m(2)] by simp
    then show ?thesis
      using Inr True m by (auto simp: ingest_finalized_srt_text_def Let_def build_report_def)
  next
    case False
    then obtain err where "each_segment ?f cues = Inl err"
      using each_segment_unlabelled [of cues uuid5 version e lang rights] by blast
    with Inr False show ?thesis by (auto simp: ingest_finalized_srt_text_def)
  qed
qed (simp add: ingest_finalized_srt_text_def)

text \<open>
  The contract of a canonicaliser, on which the ingestion service relies: valid segments of the version
  and the episode it was asked for.  What the service returns and stores then fits its command.
\<close>

locale segment_canonicaliser =
  fixes canonicalize :: "'r canonicaliser"
  assumes fits: "canonicalize raw path version e lang rights = Inr (ss, report) \<Longrightarrow> s \<in> set ss \<Longrightarrow>
      segment_ok s \<and> ts_version_id s = version \<and> ts_episode s = e"
begin

lemma ingested_segments_fit:
  assumes "governed belongs_to d" and "ingest_reviewed_subtitle sha uuid5 read canonicalize now c d = (Inr out, d')"
    and "s \<in> set (sbr_segments out)"
  shows "segment_ok s \<and> ts_version_id s = sv_version_id (sbr_version out) \<and> ts_episode s = sbc_episode c"
  using ingest_subtitle_outcome [OF assms(1,2)] assms(3) by (auto simp: new_subtitle_def dest: fits)

end

lemma srt_segments_fit:
  assumes "ingest_finalized_srt_text uuid5 src path version e lang rights = Inr (ss, report)" and "s \<in> set ss"
  shows "segment_ok s \<and> ts_version_id s = version \<and> ts_episode s = e"
proof -
  obtain cs where "list_all2 (segment_for version e lang rights) cs ss"
    using srt_import [of src version e lang rights uuid5 path] assms(1) by auto
  then obtain c where "segment_for version e lang rights c s" using assms(2) by (metis in_set_conv_nth list_all2_conv_all_nth)
  then show ?thesis by (simp add: segment_for_def)
qed

interpretation srt: segment_canonicaliser "ingest_finalized_srt_text uuid5" for uuid5
  by unfold_locales (rule srt_segments_fit)

section \<open>Properties\<close>

text \<open>
  C15: parsing reads back what is printed.  Any list of cues with positive numbers, times below one
  hundred hours in order, and dialogue lines without surrounding space or line breaks is recovered
  exactly, in order, from its rendering as SRT text: no cue is merged, split or dropped, and no number,
  time or line is altered.
\<close>

theorem srt_round_trip:
  assumes "\<forall>c \<in> set cues. cue_ok c"
  shows "parse_srt (print_srt cues) = Inr cues"
  by (rule parse_print [OF assms])

definition demo_srt_cue :: parsed_cue where
  "demo_srt_cue = \<lparr>pc_number = 12, pc_start_ms = 3723004, pc_end_ms = 3724000,
     pc_lines = [''Ann Lee: <i>Hi</i>  there'', ''Bob: [waves]'']\<rparr>"

lemma demo_srt_cue_ok: "cue_ok demo_srt_cue"
  unfolding cue_ok_def plain_line_def by code_simp

definition demo_srt :: string where
  "demo_srt = ''12'' @ LF # ''01:02:03,004 --> 01:02:04,000'' @ LF # ''Ann Lee: <i>Hi</i>  there'' @ LF # ''Bob: [waves]''"

lemma print_demo_srt: "print_srt [demo_srt_cue] = demo_srt"
proof -
  have two: "padded 2 n = [hex_chars ! (n div 10 mod 10), hex_chars ! (n mod 10)]" for n
    by (simp add: padded_def numeral_2_eq_2)
  have three: "padded 3 n = [hex_chars ! (n div 10 div 10 mod 10), hex_chars ! (n div 10 mod 10), hex_chars ! (n mod 10)]" for n
    by (simp add: padded_def numeral_3_eq_3)
  have "stamp 3723004 = ''01:02:03,004''" "stamp 3724000 = ''01:02:04,000''"
    by (simp_all add: stamp_def Let_def two three hex_chars_def)
  moreover have "int_str 12 = ''12''" by (simp add: int_str_def decimal_def digits10.simps hex_chars_def)
  ultimately show ?thesis
    by (simp add: print_srt_def print_cue_def time_line_def demo_srt_cue_def demo_srt_def)
qed

theorem srt_round_trip_witness:
  "print_srt [demo_srt_cue] = demo_srt \<and> parse_srt demo_srt = Inr [demo_srt_cue]"
  using srt_round_trip [of "[demo_srt_cue]"] demo_srt_cue_ok print_demo_srt by simp

text \<open>
  C30: an import of subtitles takes all of a file or none of it.  It fails only if the file does not
  parse or some dialogue line has no verified speaker label; no constructor can refuse what was parsed.
  Otherwise there is one valid segment, in order, for each cue in which something is said, with the
  version, episode, language, rights and times given, the dialogue without styles joined in order, and
  exactly the speakers of that dialogue; and the report counts the cues, the segments and the cues skipped.
\<close>

theorem srt_import_complete:
  "case ingest_finalized_srt_text uuid5 src path version e lang rights of
     Inl err \<Rightarrow> parse_srt src = Inl err
       \<or> (\<exists>cues. parse_srt src = Inr cues \<and> (\<exists>c \<in> set cues. \<not> labelled (pc_lines c)))
   | Inr (ss, report) \<Rightarrow> \<exists>cues. parse_srt src = Inr cues \<and> (\<forall>c \<in> set cues. labelled (pc_lines c))
       \<and> list_all2 (segment_for version e lang rights) (filter (\<lambda>c. spoken (pc_lines c) \<noteq> []) cues) ss
       \<and> ir_cue_count report = length cues \<and> ir_segment_count report = length ss
       \<and> ir_skipped report = int (length (filter (\<lambda>c. spoken (pc_lines c) = []) cues))"
  by (rule srt_import)

theorem srt_import_complete_witness:
  "\<exists>s report. ingest_finalized_srt_text (\<lambda>_. 5) demo_srt ''a.srt'' 9 (demo_ref 1) ENGLISH Rights_ALLOWED = Inr ([s], report)
     \<and> ts_text s = ''Hi there [waves]'' \<and> sc_name ` set (ts_speakers s) = {''ANN LEE'', ''BOB''}
     \<and> ir_skipped report = 0"
proof -
  let ?c = demo_srt_cue
  have p: "parse_srt demo_srt = Inr [?c]"
    using parse_print [of "[?c]"] demo_srt_cue_ok print_demo_srt by simp
  have labels: "speaker_label ''Ann Lee: <i>Hi</i>  there'' = Some (''Ann Lee'', ''<i>Hi</i>  there'')"
    "speaker_label ''Bob: [waves]'' = Some (''Bob'', ''[waves]'')" by code_simp+
  have "canonicalize_dialogue ''<i>Hi</i>  there'' = (''Hi there'', True)" "canonicalize_dialogue ''[waves]'' = (''[waves]'', False)"
    by (simp_all add: canonicalize_dialogue_def strip_styles.simps squeeze.simps is_space_def strip_def lstrip_def)
  then have said: "said_in ''Ann Lee: <i>Hi</i>  there'' = ''Hi there''" "said_in ''Bob: [waves]'' = ''[waves]''"
    by (simp_all add: said_in_def labels)
  have "normalize_speaker_name ''Ann Lee'' = ''ANN LEE''" "normalize_speaker_name ''Bob'' = ''BOB''" by code_simp+
  then have names: "name_in ''Ann Lee: <i>Hi</i>  there'' = ''ANN LEE''" "name_in ''Bob: [waves]'' = ''BOB''"
    by (simp_all add: name_in_def labels)
  have l: "labelled (pc_lines ?c)" by (simp add: labelled_def demo_srt_cue_def labels)
  have s: "spoken (pc_lines ?c) = [''Hi there'', ''[waves]'']" by (simp add: spoken_def demo_srt_cue_def said)
  have n: "speakers_in (pc_lines ?c) = {''ANN LEE'', ''BOB''}"
    by (simp add: demo_srt_cue_def speakers_in_Cons said names) (simp add: speakers_in_def)
  from srt_import_complete [where ?uuid5.0 = "\<lambda>_. 5" and src = demo_srt and path = "''a.srt''" and version = 9
      and e = "demo_ref 1" and lang = ENGLISH and rights = Rights_ALLOWED]
  obtain ss report where r: "ingest_finalized_srt_text (\<lambda>_. 5) demo_srt ''a.srt'' 9 (demo_ref 1) ENGLISH Rights_ALLOWED = Inr (ss, report)"
    and a: "list_all2 (segment_for 9 (demo_ref 1) ENGLISH Rights_ALLOWED) (filter (\<lambda>c. spoken (pc_lines c) \<noteq> []) [?c]) ss"
    and k: "ir_skipped report = int (length (filter (\<lambda>c. spoken (pc_lines c) = []) [?c]))"
    using p l by (auto split: sum.splits prod.splits)
  obtain x where x: "ss = [x]" "segment_for 9 (demo_ref 1) ENGLISH Rights_ALLOWED ?c x"
    using a s by (auto simp: list_all2_Cons1)
  have "ts_text x = ''Hi there [waves]''" using x(2) s by (simp add: segment_for_def)
  moreover have "sc_name ` set (ts_speakers x) = {''ANN LEE'', ''BOB''}" using x(2) n by (simp add: segment_for_def)
  ultimately show ?thesis using r x(1) k s by simp
qed

end
