(* ===== verification/Subtitle_Alignment.thy ===== *)
theory Subtitle_Alignment
  imports Transcript_Srt
begin

text \<open>
  Alignment of subtitle lines with the dialogue of a script (\<open>ingestion/subtitle_alignment/matching.py\<close>,
  \<open>text.py\<close>, \<open>models.py\<close>): similarity scores and the dynamic program that labels each line.
  \<open>unicodedata\<close>'s normalisation and the two fuzzy ratios are parameters; scores are rationals.
\<close>

section \<open>Scores\<close>

text \<open>\<open>re.sub(r"[^a-z0-9]+", " ", s)\<close>\<close>

function collapse_other :: "string \<Rightarrow> string" where
  "collapse_other s =
     (if s = [] then []
      else if token_char (hd s) then hd s # collapse_other (tl s)
      else CHR '' '' # collapse_other (dropWhile (\<lambda>c. \<not> token_char c) s))"
  by pat_completeness auto

lemma dropWhile_other_shorter: "s \<noteq> [] \<Longrightarrow> \<not> token_char (hd s) \<Longrightarrow> length (dropWhile (\<lambda>c. \<not> token_char c) s) < length s"
  using length_dropWhile_le [of "\<lambda>c. \<not> token_char c" "tl s"] by (cases s) auto

termination collapse_other
  by (relation "measure length") (auto simp: dropWhile_other_shorter)

definition normalize_text :: "(string \<Rightarrow> string) \<Rightarrow> (char \<Rightarrow> bool) \<Rightarrow> string \<Rightarrow> string" where
  "normalize_text nfkd combining v = strip (collapse_other (filter (\<lambda>c. \<not> combining c) (casefold (nfkd v))))"

definition is_infix :: "string \<Rightarrow> string \<Rightarrow> bool" where
  "is_infix x y = list_ex (\<lambda>i. take (length x) (drop i y) = x) [0..<length y + 1]"

definition match_scores :: "(string \<Rightarrow> string) \<Rightarrow> (string \<Rightarrow> string \<Rightarrow> rat) \<Rightarrow> (string \<Rightarrow> string \<Rightarrow> rat) \<Rightarrow> string \<Rightarrow> string
    \<Rightarrow> rat \<times> rat" where
  "match_scores norm_txt ratio partial_ratio subtitle script =
     (let a = norm_txt subtitle; b = norm_txt script
      in if length a < 3 \<or> b = [] then (0, 0)
         else if is_infix a b then (100, ratio a b)
         else (max (partial_ratio a b) (ratio a b), ratio a b))"

definition score_match :: "(string \<Rightarrow> string) \<Rightarrow> (string \<Rightarrow> string \<Rightarrow> rat) \<Rightarrow> (string \<Rightarrow> string \<Rightarrow> rat) \<Rightarrow> string \<Rightarrow> string \<Rightarrow> rat" where
  "score_match norm_txt ratio partial_ratio subtitle script = fst (match_scores norm_txt ratio partial_ratio subtitle script)"

section \<open>Lines and matches\<close>

record script_dialogue =
  sg_episode :: "nat \<times> nat"
  sg_speaker :: string
  sg_text :: string
  sg_order :: nat

record dialogue_line =
  dl_cue_number :: int
  dl_line_number :: nat
  dl_text :: string
  dl_match_text :: string
  dl_has_label :: bool

record alignment_match =
  am_dialogue :: script_dialogue
  am_score :: rat
  am_margin :: rat

definition DEFAULT_SKIP_PENALTY :: rat where "DEFAULT_SKIP_PENALTY = 40"
definition MINIMUM_MATCH_FLOOR :: rat where "MINIMUM_MATCH_FLOOR = 65"

section \<open>The table\<close>

datatype align_step = Match_next | Match_repeat | Skip_script | Skip_subtitle

type_synonym cell = "rat \<times> align_step option"

text \<open>\<open>max(candidates, key=...)\<close> takes the first of the largest.\<close>

fun first_max :: "(rat \<times> 'a) \<Rightarrow> (rat \<times> 'a) list \<Rightarrow> rat \<times> 'a" where
  "first_max m [] = m"
| "first_max m (c # cs) = first_max (if fst c > fst m then c else m) cs"

definition best_step :: "rat \<Rightarrow> rat \<Rightarrow> rat \<Rightarrow> rat \<Rightarrow> rat \<Rightarrow> rat \<Rightarrow> cell" where
  "best_step pen flr score diagonal up left =
     first_max (left - pen, Some Skip_script)
       ((up - pen, Some Skip_subtitle)
        # (if score \<ge> flr then [(diagonal + score, Some Match_next), (up + score, Some Match_repeat)] else []))"

fun first_row :: "rat \<Rightarrow> rat \<Rightarrow> nat \<Rightarrow> cell list" where
  "first_row pen v 0 = []"
| "first_row pen v (Suc n) = (v - pen, Some Skip_script) # first_row pen (v - pen) n"

text \<open>A row from the scores of its subtitle line, the row above and the cell to the left.\<close>

fun fill_row :: "rat \<Rightarrow> rat \<Rightarrow> rat list \<Rightarrow> rat \<Rightarrow> rat list \<Rightarrow> rat \<Rightarrow> cell list" where
  "fill_row pen flr (s # scores) diagonal (up # ups) left =
     (let c = best_step pen flr s diagonal up left in c # fill_row pen flr scores up ups (fst c))"
| "fill_row pen flr _ _ _ _ = []"

definition next_row :: "rat \<Rightarrow> rat \<Rightarrow> rat list \<Rightarrow> cell list \<Rightarrow> cell list" where
  "next_row pen flr scores up =
     (let c = (fst (hd up) - pen, Some Skip_subtitle)
      in c # fill_row pen flr scores (fst (hd up)) (map fst (tl up)) (fst c))"

fun rows_from :: "rat \<Rightarrow> rat \<Rightarrow> cell list \<Rightarrow> rat list list \<Rightarrow> cell list list" where
  "rows_from pen flr up [] = [up]"
| "rows_from pen flr up (s # scores) = up # rows_from pen flr (next_row pen flr s up) scores"

definition align_table :: "rat \<Rightarrow> rat \<Rightarrow> nat \<Rightarrow> rat list list \<Rightarrow> cell list list" where
  "align_table pen flr script_count scores = rows_from pen flr ((0, None) # first_row pen 0 script_count) scores"

section \<open>Backtracking\<close>

text \<open>
  The loop back from the last cell.  A step that would leave the table counts as the failure of the
  backtrace; it never happens.
\<close>

function backtrack :: "cell list list \<Rightarrow> (nat \<Rightarrow> nat \<Rightarrow> alignment_match) \<Rightarrow> (nat \<Rightarrow> nat) \<Rightarrow> nat \<Rightarrow> nat
    \<Rightarrow> (nat, alignment_match) dict \<Rightarrow> (nat, alignment_match) dict result" where
  "backtrack steps match_at line i j matches =
     (if i = 0 \<and> j = 0 then Inr matches
      else case snd (steps ! i ! j) of
        Some Match_next \<Rightarrow>
          if i = 0 \<or> j = 0 then Inl (RuntimeError STR ''SUBTITLE_ALIGNMENT_BACKTRACE_FAILED'')
          else backtrack steps match_at line (i - 1) (j - 1) (dict_set matches (line (i - 1)) (match_at (i - 1) (j - 1)))
      | Some Match_repeat \<Rightarrow>
          if i = 0 \<or> j = 0 then Inl (RuntimeError STR ''SUBTITLE_ALIGNMENT_BACKTRACE_FAILED'')
          else backtrack steps match_at line (i - 1) j (dict_set matches (line (i - 1)) (match_at (i - 1) (j - 1)))
      | Some Skip_script \<Rightarrow>
          if j = 0 then Inl (RuntimeError STR ''SUBTITLE_ALIGNMENT_BACKTRACE_FAILED'')
          else backtrack steps match_at line i (j - 1) matches
      | Some Skip_subtitle \<Rightarrow>
          if i = 0 then Inl (RuntimeError STR ''SUBTITLE_ALIGNMENT_BACKTRACE_FAILED'')
          else backtrack steps match_at line (i - 1) j matches
      | None \<Rightarrow> Inl (RuntimeError STR ''SUBTITLE_ALIGNMENT_BACKTRACE_FAILED''))"
  by pat_completeness auto

termination backtrack
  by (relation "measure (\<lambda>(steps, match_at, line, i, j, matches). i + j)") auto

declare backtrack.simps [simp del] collapse_other.simps [simp del]

definition accept_floor :: "rat \<Rightarrow> rat option \<Rightarrow> rat" where
  "accept_floor minimum_score match_floor =
     (case match_floor of None \<Rightarrow> max MINIMUM_MATCH_FLOOR (minimum_score - 25) | Some f \<Rightarrow> f)"

definition align_dialogue_lines :: "(string \<Rightarrow> string \<Rightarrow> rat) \<Rightarrow> dialogue_line list \<Rightarrow> script_dialogue list \<Rightarrow> rat \<Rightarrow> rat option \<Rightarrow> rat
    \<Rightarrow> (nat, alignment_match) dict result" where
  "align_dialogue_lines score subtitles script minimum_score match_floor pen =
     (let scores = map (\<lambda>l. map (\<lambda>d. score (dl_text l) (sg_text d)) script) subtitles;
          table = align_table pen (accept_floor minimum_score match_floor) (length script) scores
      in backtrack table
           (\<lambda>i j. \<lparr>am_dialogue = script ! j, am_score = scores ! i ! j, am_margin = 0\<rparr>)
           (\<lambda>i. dl_line_number (subtitles ! i)) (length subtitles) (length script) [])"

section \<open>Cells\<close>

text \<open>The recurrence of the table.\<close>

fun cell_at :: "rat \<Rightarrow> rat \<Rightarrow> (nat \<Rightarrow> nat \<Rightarrow> rat) \<Rightarrow> nat \<Rightarrow> nat \<Rightarrow> cell" where
  "cell_at pen flr S 0 0 = (0, None)"
| "cell_at pen flr S 0 (Suc j) = (fst (cell_at pen flr S 0 j) - pen, Some Skip_script)"
| "cell_at pen flr S (Suc i) 0 = (fst (cell_at pen flr S i 0) - pen, Some Skip_subtitle)"
| "cell_at pen flr S (Suc i) (Suc j) =
     best_step pen flr (S i j) (fst (cell_at pen flr S i j)) (fst (cell_at pen flr S i (Suc j)))
       (fst (cell_at pen flr S (Suc i) j))"

lemma first_row_cells:
  "first_row pen (fst (cell_at pen flr S 0 j)) n = map (cell_at pen flr S 0) [Suc j..<Suc j + n]"
proof (induction n arbitrary: j)
  case (Suc n)
  from Suc.IH [of "Suc j"] show ?case by (simp add: upt_conv_Cons del: upt_Suc)
qed simp

lemma fill_row_cells:
  "fill_row pen flr (map (S i) [j..<j + n]) (fst (cell_at pen flr S i j))
       (map (\<lambda>k. fst (cell_at pen flr S i k)) [Suc j..<Suc j + n]) (fst (cell_at pen flr S (Suc i) j))
     = map (cell_at pen flr S (Suc i)) [Suc j..<Suc j + n]"
proof (induction n arbitrary: j)
  case (Suc n)
  from Suc.IH [of "Suc j"] show ?case by (simp add: upt_conv_Cons Let_def del: upt_Suc)
qed simp

definition row_cells :: "rat \<Rightarrow> rat \<Rightarrow> (nat \<Rightarrow> nat \<Rightarrow> rat) \<Rightarrow> nat \<Rightarrow> nat \<Rightarrow> cell list" where
  "row_cells pen flr S n i = map (cell_at pen flr S i) [0..<Suc n]"

lemma next_row_cells: "next_row pen flr (map (S i) [0..<n]) (row_cells pen flr S n i) = row_cells pen flr S n (Suc i)"
  using fill_row_cells [of pen flr S i 0 n]
  by (simp add: next_row_def row_cells_def Let_def upt_conv_Cons comp_def del: upt_Suc)

lemma rows_from_cells:
  "rows_from pen flr (row_cells pen flr S n i) (map (\<lambda>k. map (S k) [0..<n]) [i..<i + m])
     = map (row_cells pen flr S n) [i..<Suc (i + m)]"
proof (induction m arbitrary: i)
  case (Suc m)
  from Suc.IH [of "Suc i"] show ?case by (simp add: upt_conv_Cons next_row_cells del: upt_Suc)
qed simp

lemma align_table_cells:
  assumes "i \<le> m" and "j \<le> n"
  shows "align_table pen flr n (map (\<lambda>k. map (S k) [0..<n]) [0..<m]) ! i ! j = cell_at pen flr S i j"
proof -
  have "(0, None) # first_row pen 0 n = row_cells pen flr S n 0"
    using first_row_cells [of pen flr S 0 n] by (simp add: row_cells_def upt_conv_Cons del: upt_Suc)
  then have "align_table pen flr n (map (\<lambda>k. map (S k) [0..<n]) [0..<m]) = map (row_cells pen flr S n) [0..<Suc m]"
    using rows_from_cells [of pen flr S n 0 m] by (simp add: align_table_def)
  with assms show ?thesis by (simp add: row_cells_def del: upt_Suc)
qed

section \<open>Alignments\<close>

text \<open>
  The specification: the alignments of the first \<open>i\<close> subtitle lines with the first \<open>j\<close> pieces of
  dialogue, with their value and their matches, the last one first.  A line or a piece of dialogue is
  skipped at a penalty, and a line matches the next piece or the piece the line before it ended at.
\<close>

inductive alignment :: "rat \<Rightarrow> rat \<Rightarrow> (nat \<Rightarrow> nat \<Rightarrow> rat) \<Rightarrow> nat \<Rightarrow> nat \<Rightarrow> rat \<Rightarrow> (nat \<times> nat) list \<Rightarrow> bool"
  for pen flr :: rat and S :: "nat \<Rightarrow> nat \<Rightarrow> rat" where
  Start: "alignment pen flr S 0 0 0 []"
| Script: "alignment pen flr S i j v ps \<Longrightarrow> alignment pen flr S i (Suc j) (v - pen) ps"
| Subtitle: "alignment pen flr S i j v ps \<Longrightarrow> alignment pen flr S (Suc i) j (v - pen) ps"
| Next: "alignment pen flr S i j v ps \<Longrightarrow> flr \<le> S i j \<Longrightarrow> alignment pen flr S (Suc i) (Suc j) (v + S i j) ((i, j) # ps)"
| Again: "alignment pen flr S i (Suc j) v ps \<Longrightarrow> flr \<le> S i j
    \<Longrightarrow> alignment pen flr S (Suc i) (Suc j) (v + S i j) ((i, j) # ps)"

lemma first_max_ge: "fst m \<le> fst (first_max m cs) \<and> (\<forall>c \<in> set cs. fst c \<le> fst (first_max m cs))"
proof (induction cs arbitrary: m)
  case (Cons c cs)
  from Cons.IH [of "if fst c > fst m then c else m"] show ?case by (auto split: if_splits)
qed simp

lemma first_max_in: "first_max m cs \<in> insert m (set cs)"
proof (induction cs arbitrary: m)
  case (Cons c cs)
  from Cons.IH [of "if fst c > fst m then c else m"] show ?case by (auto split: if_splits)
qed simp

lemma best_step_ge:
  "left - pen \<le> fst (best_step pen flr s d up left)" "up - pen \<le> fst (best_step pen flr s d up left)"
  "flr \<le> s \<Longrightarrow> d + s \<le> fst (best_step pen flr s d up left)" "flr \<le> s \<Longrightarrow> up + s \<le> fst (best_step pen flr s d up left)"
  using first_max_ge [of "(left - pen, Some Skip_script)" "(up - pen, Some Skip_subtitle)
      # (if flr \<le> s then [(d + s, Some Match_next), (up + s, Some Match_repeat)] else [])"]
  by (auto simp: best_step_def)

lemma best_step_cases:
  "best_step pen flr s d up left \<in> {(left - pen, Some Skip_script), (up - pen, Some Skip_subtitle)}
     \<or> flr \<le> s \<and> best_step pen flr s d up left \<in> {(d + s, Some Match_next), (up + s, Some Match_repeat)}"
  using first_max_in [of "(left - pen, Some Skip_script)" "(up - pen, Some Skip_subtitle)
      # (if flr \<le> s then [(d + s, Some Match_next), (up + s, Some Match_repeat)] else [])"]
  by (auto simp: best_step_def)

lemma cell_script: "fst (cell_at pen flr S i j) - pen \<le> fst (cell_at pen flr S i (Suc j))"
  by (cases i) (simp_all add: best_step_ge)

lemma cell_subtitle: "fst (cell_at pen flr S i j) - pen \<le> fst (cell_at pen flr S (Suc i) j)"
  by (cases j) (simp_all add: best_step_ge)

lemma cell_next: "flr \<le> S i j \<Longrightarrow> fst (cell_at pen flr S i j) + S i j \<le> fst (cell_at pen flr S (Suc i) (Suc j))"
  by (simp add: best_step_ge)

lemma cell_again:
  "flr \<le> S i j \<Longrightarrow> fst (cell_at pen flr S i (Suc j)) + S i j \<le> fst (cell_at pen flr S (Suc i) (Suc j))"
  by (simp add: best_step_ge)

lemma cell_bounds: "alignment pen flr S i j v ps \<Longrightarrow> v \<le> fst (cell_at pen flr S i j)"
proof (induction rule: alignment.induct)
  case (Script i j v ps)
  then show ?case using cell_script [of pen flr S i j] by linarith
next
  case (Subtitle i j v ps)
  then show ?case using cell_subtitle [of pen flr S i j] by linarith
next
  case (Next i j v ps)
  then show ?case using cell_next [of flr S i j pen] by linarith
next
  case (Again i j v ps)
  then show ?case using cell_again [of flr S i j pen] by linarith
qed simp

text \<open>What the step of a cell says.\<close>

lemma cell_step:
  assumes "\<not> (i = 0 \<and> j = 0)"
  shows "case cell_at pen flr S i j of (v, t) \<Rightarrow>
     (\<exists>j'. t = Some Skip_script \<and> j = Suc j' \<and> v = fst (cell_at pen flr S i j') - pen)
   \<or> (\<exists>i'. t = Some Skip_subtitle \<and> i = Suc i' \<and> v = fst (cell_at pen flr S i' j) - pen)
   \<or> (\<exists>i' j'. t = Some Match_next \<and> i = Suc i' \<and> j = Suc j' \<and> flr \<le> S i' j' \<and> v = fst (cell_at pen flr S i' j') + S i' j')
   \<or> (\<exists>i' j'. t = Some Match_repeat \<and> i = Suc i' \<and> j = Suc j' \<and> flr \<le> S i' j' \<and> v = fst (cell_at pen flr S i' j) + S i' j')"
proof (cases i)
  case 0
  then obtain j' where "j = Suc j'" using assms by (cases j) auto
  with 0 show ?thesis by simp
next
  case i: (Suc i')
  show ?thesis
  proof (cases j)
    case 0
    with i show ?thesis by simp
  next
    case (Suc j')
    then show ?thesis
      using best_step_cases [of pen flr "S i' j'" "fst (cell_at pen flr S i' j')" "fst (cell_at pen flr S i' (Suc j'))" "fst (cell_at pen flr S (Suc i') j')"] i
      by auto
  qed
qed

text \<open>If every score is acceptable and skipping costs something, only the lines of column zero are skipped.\<close>

definition all_match :: "rat \<Rightarrow> rat \<Rightarrow> (nat \<Rightarrow> nat \<Rightarrow> rat) \<Rightarrow> nat \<Rightarrow> nat \<Rightarrow> bool" where
  "all_match pen flr S m n \<longleftrightarrow> 0 < pen \<and> (\<forall>i < m. \<forall>j < n. flr \<le> S i j \<and> 0 \<le> S i j)"

text \<open>Column zero is left at the first line, as soon as it can be.\<close>

lemma second_column_nonneg:
  assumes "all_match pen flr S m n" and "0 < i" and "i \<le> m" and "0 < n"
  shows "0 \<le> fst (cell_at pen flr S i (Suc 0))"
  using assms(2,3)
proof (induction i)
  case (Suc i)
  have S: "flr \<le> S i 0" "0 \<le> S i 0" using assms(1,4) Suc.prems(2) by (auto simp: all_match_def)
  show ?case
  proof (cases i)
    case 0
    have "fst (cell_at pen flr S i 0) + S i 0 \<le> fst (cell_at pen flr S (Suc i) (Suc 0))"
      by (rule cell_next [of flr S i 0 pen, OF S(1)])
    then show ?thesis using S(2) 0 by simp
  next
    case (Suc k)
    then have "0 \<le> fst (cell_at pen flr S i (Suc 0))" using Suc.IH Suc.prems by simp
    moreover have "fst (cell_at pen flr S i (Suc 0)) + S i 0 \<le> fst (cell_at pen flr S (Suc i) (Suc 0))"
      by (rule cell_again [of flr S i 0 pen, OF S(1)])
    ultimately show ?thesis using S(2) by linarith
  qed
qed simp

lemma first_column: "fst (cell_at pen flr S i 0) = - of_nat i * pen"
  by (induction i) (simp_all add: algebra_simps)

lemma all_match_step:
  assumes "all_match pen flr S m n" and "i < m" and "j < n"
  shows "snd (cell_at pen flr S (Suc i) (Suc j)) \<noteq> Some Skip_subtitle"
    "snd (cell_at pen flr S (Suc i) (Suc 0)) \<noteq> Some Skip_script"
    "0 < i \<Longrightarrow> snd (cell_at pen flr S (Suc i) (Suc 0)) \<noteq> Some Match_next"
proof -
  let ?c = "cell_at pen flr S"
  have pen: "0 < pen" and n: "0 < n" using assms by (auto simp: all_match_def)
  have S: "flr \<le> S i j'" "0 \<le> S i j'" if "j' < n" for j' using assms(1,2) that by (auto simp: all_match_def)
  have again: "fst (?c i (Suc j')) + S i j' \<le> fst (?c (Suc i) (Suc j'))" if "j' < n" for j'
    by (rule cell_again [of flr S i j' pen, OF S(1) [OF that]])
  have step: "case ?c (Suc i) (Suc j') of (v, t) \<Rightarrow> (t = Some Skip_script \<longrightarrow> v = fst (?c (Suc i) j') - pen)
      \<and> (t = Some Skip_subtitle \<longrightarrow> v = fst (?c i (Suc j')) - pen)
      \<and> (t = Some Match_next \<longrightarrow> v = fst (?c i j') + S i j')" for j'
    using cell_step [of "Suc i" "Suc j'" pen flr S] by auto
  show "snd (?c (Suc i) (Suc j)) \<noteq> Some Skip_subtitle"
    using step [of j] again [OF assms(3)] S(2) [OF assms(3)] pen by (auto simp: case_prod_unfold simp del: cell_at.simps)
  have below: "fst (?c (Suc k) 0) < 0" for k using pen by (simp add: first_column mult_less_0_iff del: cell_at.simps)
  have top: "0 < k \<Longrightarrow> k \<le> m \<Longrightarrow> 0 \<le> fst (?c k (Suc 0))" for k by (rule second_column_nonneg [OF assms(1) _ _ n])
  show "snd (?c (Suc i) (Suc 0)) \<noteq> Some Skip_script"
    using step [of 0] top [of "Suc i"] below [of i] pen assms(2) by (auto simp: case_prod_unfold simp del: cell_at.simps)
  show "snd (?c (Suc i) (Suc 0)) \<noteq> Some Match_next" if "0 < i"
    using step [of 0] again [OF n] top [of i] below [of "i - 1"] that assms(2)
    by (auto simp: case_prod_unfold simp del: cell_at.simps)
qed

section \<open>The backtrace follows an optimal alignment\<close>

definition add_match :: "(nat \<Rightarrow> nat \<Rightarrow> alignment_match) \<Rightarrow> (nat \<Rightarrow> nat) \<Rightarrow> (nat, alignment_match) dict \<Rightarrow> nat \<times> nat
    \<Rightarrow> (nat, alignment_match) dict" where
  "add_match match_at line d p = dict_set d (line (fst p)) (match_at (fst p) (snd p))"

definition covers :: "rat \<Rightarrow> rat \<Rightarrow> (nat \<Rightarrow> nat \<Rightarrow> rat) \<Rightarrow> nat \<Rightarrow> nat \<Rightarrow> nat \<Rightarrow> nat \<Rightarrow> (nat \<times> nat) list \<Rightarrow> bool" where
  "covers pen flr S m n i j ps \<longleftrightarrow> (all_match pen flr S m n \<and> (j = 0 \<longrightarrow> i = 0) \<longrightarrow> fst ` set ps = {..<i})"

lemma backtrack_follows:
  assumes "\<And>i j. i \<le> m \<Longrightarrow> j \<le> n \<Longrightarrow> tb ! i ! j = cell_at pen flr S i j"
  shows "i \<le> m \<Longrightarrow> j \<le> n \<Longrightarrow> \<exists>ps. alignment pen flr S i j (fst (cell_at pen flr S i j)) ps
    \<and> backtrack tb match_at line i j d = Inr (foldl (add_match match_at line) d ps) \<and> covers pen flr S m n i j ps"
proof (induction "i + j" arbitrary: i j d rule: less_induct)
  case less
  let ?c = "cell_at pen flr S"
  show ?case
  proof (cases "i = 0 \<and> j = 0")
    case True
    have "alignment pen flr S 0 0 0 []" by (rule alignment.Start)
    with True show ?thesis by (intro exI [of _ "[]"]) (simp add: backtrack.simps covers_def)
  next
    case False
    have run: "backtrack tb match_at line i j d = (case snd (?c i j) of
        Some Match_next \<Rightarrow> if i = 0 \<or> j = 0 then Inl (RuntimeError STR ''SUBTITLE_ALIGNMENT_BACKTRACE_FAILED'')
          else backtrack tb match_at line (i - 1) (j - 1) (add_match match_at line d (i - 1, j - 1))
      | Some Match_repeat \<Rightarrow> if i = 0 \<or> j = 0 then Inl (RuntimeError STR ''SUBTITLE_ALIGNMENT_BACKTRACE_FAILED'')
          else backtrack tb match_at line (i - 1) j (add_match match_at line d (i - 1, j - 1))
      | Some Skip_script \<Rightarrow> if j = 0 then Inl (RuntimeError STR ''SUBTITLE_ALIGNMENT_BACKTRACE_FAILED'')
          else backtrack tb match_at line i (j - 1) d
      | Some Skip_subtitle \<Rightarrow> if i = 0 then Inl (RuntimeError STR ''SUBTITLE_ALIGNMENT_BACKTRACE_FAILED'')
          else backtrack tb match_at line (i - 1) j d
      | None \<Rightarrow> Inl (RuntimeError STR ''SUBTITLE_ALIGNMENT_BACKTRACE_FAILED''))"
      using False assms [OF less.prems]
      by (subst backtrack.simps) (simp add: add_match_def cong: option.case_cong align_step.case_cong)
    from cell_step [OF False, of pen flr S] consider
      (script) j' where "snd (?c i j) = Some Skip_script" "j = Suc j'" "fst (?c i j) = fst (?c i j') - pen"
    | (subtitle) i' where "snd (?c i j) = Some Skip_subtitle" "i = Suc i'" "fst (?c i j) = fst (?c i' j) - pen"
    | (nxt) i' j' where "snd (?c i j) = Some Match_next" "i = Suc i'" "j = Suc j'" "flr \<le> S i' j'"
        "fst (?c i j) = fst (?c i' j') + S i' j'"
    | (again) i' j' where "snd (?c i j) = Some Match_repeat" "i = Suc i'" "j = Suc j'" "flr \<le> S i' j'"
        "fst (?c i j) = fst (?c i' j) + S i' j'"
      unfolding case_prod_unfold by blast
    then show ?thesis
    proof cases
      case script
      obtain ps where ps: "alignment pen flr S i j' (fst (?c i j')) ps"
        "backtrack tb match_at line i j' d = Inr (foldl (add_match match_at line) d ps)" "covers pen flr S m n i j' ps"
        using less.hyps [of i j' d] less.prems script(2) by auto
      have "all_match pen flr S m n \<longrightarrow> j' = 0 \<longrightarrow> i = 0"
        using all_match_step(2) [of pen flr S m n "i - 1" 0] script(1,2) less.prems
        by (cases i; cases j') (auto simp del: cell_at.simps)
      then have "covers pen flr S m n i j ps" using ps(3) script(2) by (simp add: covers_def)
      moreover have "alignment pen flr S i j (fst (?c i j)) ps"
        unfolding script(2,3) [symmetric] using alignment.Script [OF ps(1)] script by simp
      ultimately show ?thesis using run script(1,2) ps(2) by auto
    next
      case subtitle
      obtain ps where ps: "alignment pen flr S i' j (fst (?c i' j)) ps"
        "backtrack tb match_at line i' j d = Inr (foldl (add_match match_at line) d ps)"
        using less.hyps [of i' j d] less.prems subtitle(2) by auto
      have "all_match pen flr S m n \<longrightarrow> j = 0"
        using all_match_step(1) [of pen flr S m n i' "j - 1"] subtitle(1,2) less.prems by (cases j) auto
      then have "covers pen flr S m n i j ps" using subtitle(2) by (auto simp: covers_def)
      moreover have "alignment pen flr S i j (fst (?c i j)) ps"
        using alignment.Subtitle [OF ps(1)] subtitle by simp
      ultimately show ?thesis using run subtitle(1,2) ps(2) by auto
    next
      case nxt
      obtain ps where ps: "alignment pen flr S i' j' (fst (?c i' j')) ps"
        "backtrack tb match_at line i' j' (add_match match_at line d (i', j'))
          = Inr (foldl (add_match match_at line) (add_match match_at line d (i', j')) ps)" "covers pen flr S m n i' j' ps"
        using less.hyps [of i' j' "add_match match_at line d (i', j')"] less.prems nxt(2,3) by auto
      have "all_match pen flr S m n \<longrightarrow> j' = 0 \<longrightarrow> i' = 0"
        using all_match_step(3) [of pen flr S m n i' 0] nxt(1-3) less.prems
        by (cases i'; cases j') (auto simp del: cell_at.simps)
      then have "covers pen flr S m n i j ((i', j') # ps)" using ps(3) nxt(2,3) by (auto simp: covers_def lessThan_Suc)
      moreover have "alignment pen flr S i j (fst (?c i j)) ((i', j') # ps)"
        using alignment.Next [OF ps(1) nxt(4)] nxt by simp
      ultimately show ?thesis
        using run nxt(1-3) ps(2) by (intro exI [of _ "(i', j') # ps"]) simp
    next
      case again
      obtain ps where ps: "alignment pen flr S i' j (fst (?c i' j)) ps"
        "backtrack tb match_at line i' j (add_match match_at line d (i', j'))
          = Inr (foldl (add_match match_at line) (add_match match_at line d (i', j')) ps)" "covers pen flr S m n i' j ps"
        using less.hyps [of i' j "add_match match_at line d (i', j')"] less.prems again(2,3) by auto
      have "covers pen flr S m n i j ((i', j') # ps)" using ps(3) again(2,3) by (auto simp: covers_def lessThan_Suc)
      moreover have "alignment pen flr S i j (fst (?c i j)) ((i', j') # ps)"
        using alignment.Again [of pen flr S i' j' "fst (?c i' j)" ps] ps(1) again by simp
      ultimately show ?thesis
        using run again(1-3) ps(2) by (intro exI [of _ "(i', j') # ps"]) simp
    qed
  qed
qed

text \<open>An alignment keeps the order of both sides and uses no line twice.\<close>

lemma alignment_matches:
  "alignment pen flr S i j v ps \<Longrightarrow>
     (\<forall>p \<in> set ps. fst p < i \<and> snd p < j \<and> flr \<le> S (fst p) (snd p))
     \<and> sorted_wrt (\<lambda>p q. fst q < fst p \<and> snd q \<le> snd p) ps"
  by (induction rule: alignment.induct) (auto simp: less_Suc_eq_le intro: less_imp_le)

lemma fold_matches_get:
  assumes "inj_on line (fst ` set ps)" and "distinct (map fst ps)"
  shows "dict_get (foldl (add_match match_at line) d ps) k =
     (case List.find (\<lambda>p. line (fst p) = k) ps of Some p \<Rightarrow> Some (match_at (fst p) (snd p)) | None \<Rightarrow> dict_get d k)"
  using assms
proof (induction ps arbitrary: d)
  case (Cons p ps)
  have no: "line (fst p) = k \<Longrightarrow> List.find (\<lambda>q. line (fst q) = k) ps = None"
    using Cons.prems by (auto simp: find_None inj_on_def)
  have "inj_on line (fst ` set ps)" using Cons.prems(1) by (auto intro: inj_on_subset)
  then show ?case
    using Cons.IH [of "add_match match_at line d p"] Cons.prems(2) no
    by (auto simp: add_match_def dict_get_set split: option.split)
qed simp

definition similarity :: "(string \<Rightarrow> string \<Rightarrow> rat) \<Rightarrow> dialogue_line list \<Rightarrow> script_dialogue list \<Rightarrow> nat \<Rightarrow> nat \<Rightarrow> rat" where
  "similarity score subtitles script i j = score (dl_text (subtitles ! i)) (sg_text (script ! j))"

text \<open>What a line is labelled with, given the matches of an alignment.\<close>

definition label_of :: "(string \<Rightarrow> string \<Rightarrow> rat) \<Rightarrow> dialogue_line list \<Rightarrow> script_dialogue list \<Rightarrow> (nat \<times> nat) list \<Rightarrow> nat
    \<Rightarrow> alignment_match option" where
  "label_of score subtitles script ps i = map_option (\<lambda>j. \<lparr>am_dialogue = script ! j,
     am_score = similarity score subtitles script i j, am_margin = 0\<rparr>) (map_of ps i)"

definition line_labels :: "(string \<Rightarrow> string \<Rightarrow> rat) \<Rightarrow> dialogue_line list \<Rightarrow> script_dialogue list \<Rightarrow> (nat \<times> nat) list
    \<Rightarrow> (nat, alignment_match) dict \<Rightarrow> bool" where
  "line_labels score subtitles script ps found \<longleftrightarrow>
     (\<forall>i < length subtitles. dict_get found (dl_line_number (subtitles ! i)) = label_of score subtitles script ps i)
     \<and> (\<forall>k. k \<notin> dl_line_number ` set subtitles \<longrightarrow> dict_get found k = None)"

lemma find_map_of:
  assumes "inj_on line (insert i (fst ` set ps))"
  shows "List.find (\<lambda>p. line (fst p) = line i) ps = map_option (\<lambda>j. (i, j)) (map_of ps i)"
  using assms
proof (induction ps)
  case (Cons p ps)
  have "line (fst p) = line i \<longleftrightarrow> fst p = i" using inj_on_eq_iff [OF Cons.prems, of "fst p" i] by simp
  moreover have "inj_on line (insert i (fst ` set ps))" by (rule inj_on_subset [OF Cons.prems]) auto
  ultimately show ?case using Cons.IH by (cases p) simp
qed simp

lemma decreasing_distinct: "sorted_wrt (>) (xs :: nat list) \<Longrightarrow> distinct xs"
  by (induction xs) auto

lemma align_lines:
  fixes score :: "string \<Rightarrow> string \<Rightarrow> rat" and minimum_score :: rat
  assumes "distinct (map dl_line_number subtitles)"
    and S: "S = similarity score subtitles script" and flr: "flr = accept_floor minimum_score match_floor"
  shows "\<exists>found best_value ps. align_dialogue_lines score subtitles script minimum_score match_floor pen = Inr found
    \<and> alignment pen flr S (length subtitles) (length script) best_value ps
    \<and> (\<forall>v qs. alignment pen flr S (length subtitles) (length script) v qs \<longrightarrow> v \<le> best_value)
    \<and> covers pen flr S (length subtitles) (length script) (length subtitles) (length script) ps \<and> line_labels score subtitles script ps found"
proof -
  let ?m = "length subtitles" and ?n = "length script"
  let ?scores = "map (\<lambda>l. map (\<lambda>d. score (dl_text l) (sg_text d)) script) subtitles"
  let ?match = "\<lambda>i j. \<lparr>am_dialogue = script ! j, am_score = ?scores ! i ! j, am_margin = 0\<rparr>"
  let ?line = "\<lambda>i. dl_line_number (subtitles ! i)"
  have e: "?scores = map (\<lambda>i. map (S i) [0..<?n]) [0..<?m]"
    by (rule nth_equalityI) (auto simp: S similarity_def intro: nth_equalityI)
  have cells: "align_table pen flr ?n ?scores ! i ! j = cell_at pen flr S i j" if "i \<le> ?m" "j \<le> ?n" for i j
    unfolding e by (rule align_table_cells [OF that])
  obtain ps where ps: "alignment pen flr S ?m ?n (fst (cell_at pen flr S ?m ?n)) ps"
    and run: "backtrack (align_table pen flr ?n ?scores) ?match ?line ?m ?n [] = Inr (foldl (add_match ?match ?line) [] ps)"
    and cov: "covers pen flr S ?m ?n ?m ?n ps"
    using backtrack_follows [of ?m ?n "align_table pen flr ?n ?scores" pen flr S ?m ?n ?match ?line "[]", OF cells] by auto
  note facts = alignment_matches [OF ps]
  have "sorted_wrt (>) (map fst ps)"
    unfolding sorted_wrt_map by (rule sorted_wrt_mono_rel [OF _ conjunct2 [OF facts]]) simp
  then have d: "distinct (map fst ps)" by (rule decreasing_distinct)
  have inj: "inj_on ?line {..<?m}"
    using assms(1) by (auto simp: inj_on_def distinct_conv_nth)
  have in_m: "fst ` set ps \<subseteq> {..<?m}" using facts by auto
  let ?found = "foldl (add_match ?match ?line) [] ps"
  have get: "dict_get ?found k = (case List.find (\<lambda>p. ?line (fst p) = k) ps of Some p \<Rightarrow> Some (?match (fst p) (snd p)) | None \<Rightarrow> None)"
    for k using fold_matches_get [OF inj_on_subset [OF inj in_m] d, of ?match "[]" k]
    by (simp add: dict_get_Nil cong: option.case_cong)
  have one: "dict_get ?found (?line i) = label_of score subtitles script ps i" if i: "i < ?m" for i
  proof -
    have "inj_on ?line (insert i (fst ` set ps))" by (rule inj_on_subset [OF inj]) (use i in_m in auto)
    then have e: "List.find (\<lambda>p. ?line (fst p) = ?line i) ps = map_option (\<lambda>j. (i, j)) (map_of ps i)"
      by (rule find_map_of)
    have "dict_get ?found (?line i) = (case map_of ps i of None \<Rightarrow> None | Some j \<Rightarrow> Some (?match i j))"
      unfolding get e by (cases "map_of ps i") simp_all
    moreover have "map_of ps i = Some j \<Longrightarrow> j < ?n" for j using facts by (force dest: map_of_SomeD)
    ultimately show ?thesis using i by (auto simp: label_of_def similarity_def split: option.split)
  qed
  have none: "dict_get ?found k = None" if "k \<notin> dl_line_number ` set subtitles" for k
  proof -
    have "?line (fst p) \<noteq> k" if "p \<in> set ps" for p using \<open>k \<notin> _\<close> in_m that by force
    then have "List.find (\<lambda>p. ?line (fst p) = k) ps = None" by (simp add: find_None)
    then show ?thesis unfolding get by simp
  qed
  have "align_dialogue_lines score subtitles script minimum_score match_floor pen = Inr ?found"
    using run by (simp add: align_dialogue_lines_def Let_def flr)
  then show ?thesis using ps cov one none cell_bounds unfolding line_labels_def by blast
qed

section \<open>Properties\<close>

text \<open>
  C32: the labelling of subtitles is an optimal alignment.  For lines with distinct numbers the table and
  its backtrace always return, and what they return labels each line with the piece of dialogue (and its
  score) that one and the same alignment gives it, and no other line number: an alignment that keeps
  the order of lines and dialogue, matches no pair below the floor, and whose total of scores less
  penalties no alignment exceeds.  If no pair is below the floor or negative and skipping costs
  something, as in the fallback, every line is labelled as soon as the script has any dialogue.
\<close>

theorem alignment_optimal:
  assumes "distinct (map dl_line_number subtitles)"
  shows "\<exists>found best_value ps. align_dialogue_lines score subtitles script minimum_score match_floor pen = Inr found
    \<and> alignment pen (accept_floor minimum_score match_floor) (similarity score subtitles script)
        (length subtitles) (length script) best_value ps
    \<and> (\<forall>v qs. alignment pen (accept_floor minimum_score match_floor) (similarity score subtitles script)
        (length subtitles) (length script) v qs \<longrightarrow> v \<le> best_value)
    \<and> line_labels score subtitles script ps found
    \<and> sorted_wrt (\<lambda>p q. fst q < fst p \<and> snd q \<le> snd p) ps
    \<and> (\<forall>p \<in> set ps. fst p < length subtitles \<and> snd p < length script
        \<and> accept_floor minimum_score match_floor \<le> similarity score subtitles script (fst p) (snd p))
    \<and> (all_match pen (accept_floor minimum_score match_floor) (similarity score subtitles script)
          (length subtitles) (length script) \<and> script \<noteq> []
        \<longrightarrow> fst ` set ps = {..<length subtitles})"
proof -
  obtain found best_value ps where r: "align_dialogue_lines score subtitles script minimum_score match_floor pen = Inr found"
    and a: "alignment pen (accept_floor minimum_score match_floor) (similarity score subtitles script)
      (length subtitles) (length script) best_value ps"
    and rest: "\<forall>v qs. alignment pen (accept_floor minimum_score match_floor) (similarity score subtitles script)
        (length subtitles) (length script) v qs \<longrightarrow> v \<le> best_value"
      "covers pen (accept_floor minimum_score match_floor) (similarity score subtitles script)
        (length subtitles) (length script) (length subtitles) (length script) ps"
      "line_labels score subtitles script ps found"
    using align_lines [OF assms refl refl, of score script minimum_score match_floor pen] by blast
  have "all_match pen (accept_floor minimum_score match_floor) (similarity score subtitles script)
          (length subtitles) (length script) \<and> script \<noteq> []
      \<longrightarrow> fst ` set ps = {..<length subtitles}" using rest(2) by (simp add: covers_def)
  with r a rest(1,3) alignment_matches [OF a] show ?thesis by blast
qed

definition demo_score :: "string \<Rightarrow> string \<Rightarrow> rat" where
  "demo_score = score_match (normalize_text (\<lambda>s. s) (\<lambda>_. False)) (\<lambda>_ _. 0) (\<lambda>_ _. 0)"

definition demo_line :: "nat \<Rightarrow> string \<Rightarrow> dialogue_line" where
  "demo_line n t = \<lparr>dl_cue_number = 1, dl_line_number = n, dl_text = t, dl_match_text = t, dl_has_label = False\<rparr>"

definition demo_dialogue :: "string \<Rightarrow> string \<Rightarrow> script_dialogue" where
  "demo_dialogue who t = \<lparr>sg_episode = (1, 1), sg_speaker = who, sg_text = t, sg_order = 0\<rparr>"

theorem alignment_optimal_witness:
  "\<exists>found best_value ps. align_dialogue_lines demo_score [demo_line 3 ''Hello!''] [demo_dialogue ''ANN'' ''hello'', demo_dialogue ''BOB'' ''bye'']
      92 None 40 = Inr found \<and> alignment 40 67 (similarity demo_score [demo_line 3 ''Hello!'']
        [demo_dialogue ''ANN'' ''hello'', demo_dialogue ''BOB'' ''bye'']) 1 2 best_value ps
    \<and> dict_get found 3 = Some \<lparr>am_dialogue = demo_dialogue ''ANN'' ''hello'', am_score = 100, am_margin = 0\<rparr>"
proof -
  let ?l = "[demo_line 3 ''Hello!'']" and ?s = "[demo_dialogue ''ANN'' ''hello'', demo_dialogue ''BOB'' ''bye'']"
  have "distinct (map dl_line_number ?l)" by simp
  from alignment_optimal [OF this, of demo_score ?s 92 None 40] obtain found best_value ps where
    r: "align_dialogue_lines demo_score ?l ?s 92 None 40 = Inr found"
    and a: "alignment 40 (accept_floor 92 None) (similarity demo_score ?l ?s) (length ?l) (length ?s) best_value ps"
    by blast
  have f: "accept_floor 92 None = 67" by (simp add: accept_floor_def MINIMUM_MATCH_FLOOR_def)
  have "demo_score ''Hello!'' ''hello'' = 100" "demo_score ''Hello!'' ''bye'' = 0" by code_simp+
  then have "align_dialogue_lines demo_score ?l ?s 92 None 40
      = Inr [(3, \<lparr>am_dialogue = demo_dialogue ''ANN'' ''hello'', am_score = 100, am_margin = 0\<rparr>)]"
    by (simp add: align_dialogue_lines_def Let_def f align_table_def next_row_def best_step_def backtrack.simps
        demo_line_def demo_dialogue_def dict_set_def numeral_2_eq_2)
  with r a show ?thesis unfolding f by (intro exI [of _ found] exI [of _ best_value] exI [of _ ps]) (auto simp: dict_get_def numeral_2_eq_2)
qed

end
