(* ===== verification/Spec2Isabelle.thy ===== *)
theory Spec2Isabelle
  imports Access_Policy Watch_Progress Ingestion_Job Ingestion_Service Identity_Service Media_Workflow Agent_Pool Identifiers Subtitle_Alignment
begin

text \<open>
  Cinegraph answers questions about a television series without revealing what a viewer has not seen,
  and acts on a media server with the viewer's approval.  This development models the logic of its
  Python package \<open>src/src/cinegraph\<close> (paths below are relative to it) and proves what makes that
  logic correct.  It has one theory per component; its properties stand at the end of the theory and are
  numbered C1 to C40 across the development.

  \<^bold>\<open>The program and how its parts interact.\<close>  A profile's \<^emph>\<open>watch state\<close> records what it has watched.
  The \<^emph>\<open>policy\<close> turns the watch state and the entitlement of an account into a retrieval scope: the
  episodes that may be used, wholly or up to a cut-off.  \<^emph>\<open>Ingestion\<close> turns reviewed subtitles and
  summaries into governed sources, which \<^emph>\<open>search\<close> reads under the scope; \<^emph>\<open>chunking\<close> prepares them for
  the vector index.  \<^emph>\<open>Identity sessions\<close> say who is asking.  \<^emph>\<open>Agent jobs\<close> run questions in the
  background over a store, a dispatcher and a conversation; \<^emph>\<open>ingestion jobs\<close> are a queue that workers
  claim under a lease.  \<^emph>\<open>Media actions\<close> are proposed, approved and executed once on a provider, directly
  or through a resumable workflow.  Services reach stores only through ports, which here are arguments
  or records of operations; the in-memory adapters of the code are the stores of the model.

  \<^bold>\<open>Conventions.\<close>  A dataclass is a \<^theory_text>\<open>record\<close> whose constructor is the function that runs
  \<open>__post_init__\<close>; an enum is a \<^theory_text>\<open>datatype\<close> with the source's members.  An exception is a value of
  the type of errors in the left summand of a result, so every raise is a branch.  A method that
  changes state maps the state to a result and the next state; \<open>andThen\<close> sequences such methods and
  keeps the state an exception leaves behind.  Dictionaries are association lists in insertion order,
  as in Python.  Python's integers are \<open>int\<close>; time stamps carry their offset and are compared in
  microseconds.  State machines are inductive step relations, and a property of reachable states is
  proved once through the locale \<open>invariant_system\<close>.

  \<^bold>\<open>Theories.\<close>
  \<^item> \<open>Prelude\<close>: errors, dictionaries, the two sequencing operators, reachability, and the locales
    \<open>invariant_system\<close> and \<open>append_only_log\<close>.  \<open>Text_Format\<close>: numerals, UUIDs and joined keys, each
    with what makes it injective.  \<open>Json_Text\<close>: \<open>json.dumps\<close> for canonical payloads, injective.
    \<open>Enums\<close>: \<open>domain/enums/enum.py\<close>.
  \<^item> \<open>Watch_State\<close> (\<open>domain/models/watch_state\<close>): episode progress, the state of a series and of a
    profile with every operation.  Lemmas: each operation keeps the state valid; marking and unmarking
    (C1, C2).
  \<^item> \<open>Access_Policy\<close> (\<open>domain/policy\<close>, \<open>domain/retrieval\<close>, \<open>domain/models/access\<close>): entitlement, spoiler
    modes, bounded watch states and the scope compiler against an independent description of what may
    be seen (C3, C4, C5).
  \<^item> \<open>Watch_Progress\<close> (\<open>ports\<close>, \<open>adapters/repository/in_memory\<close>, the four marking services): optimistic
    versions, the season catalogue, the event log (C6, C7).
  \<^item> \<open>Ingestion_Job\<close> and \<open>Ingestion_Service\<close> (\<open>domain/models/ingestion_job.py\<close>,
    \<open>application/service/ingestion_job_service.py\<close>, its in-memory unit of work): the life cycle of a job
    and its lease (C9, C10), the queue's invariant, the choice of the next job, back-off and atomicity
    (C11 to C14).
  \<^item> \<open>Unit_Of_Work\<close>: the contract of a transactional store, as a locale.
  \<^item> \<open>Identity_Model\<close> and \<open>Identity_Service\<close> (\<open>domain/models/identity\<close>,
    \<open>application/service/identity_session_service.py\<close>, its in-memory unit of work): accounts, sessions
    and every service call (C17, C18, C19).
  \<^item> \<open>Media_Command\<close>, \<open>Media_Provider\<close>, \<open>Media_Action\<close> and \<open>Media_Workflow\<close> (\<open>domain/models/media_action\<close>,
    \<open>ports/media\<close>, \<open>adapters/media/mock_media_provider.py\<close>, \<open>application/service/media_action_service.py\<close>,
    \<open>adapters/workflow/langgraph/media_action_graph.py\<close>): the digest an approval is bound to (C20), the
    service over any provider that keeps the port's contract (C21, C22, C24), and the workflow as a
    refinement of the service (C25, C26).
  \<^item> \<open>Identifiers\<close> (\<open>common/identifiers\<close>, \<open>common/graph_normalization.py\<close>): the texts that stable
    identifiers hash, shown to run together for no two artefacts (C31).
  \<^item> \<open>Agent_Job\<close>, \<open>Agent_Store\<close>, \<open>Agent_Request\<close>, \<open>Agent_Service\<close> and \<open>Agent_Pool\<close>
    (\<open>application/models/agent_job.py\<close>, \<open>in_memory_agent_job_repository.py\<close>, \<open>config/agent_jobs.py\<close>,
    \<open>application/service/agent_job_service.py\<close>, \<open>ports/agent_jobs\<close>): the job and its log (C27, C28, C29),
    recovery and execution (C33 to C36), the bounded pool with its interleavings (C37, C38).
  \<^item> \<open>Source_Model\<close> and \<open>Source_Store\<close> (\<open>domain/models/source\<close>, \<open>domain/models/transcript\<close>, the in-memory
    source stores, the ingestion and review services): versions and what is served of them (C39, C40).
  \<^item> \<open>Visible_Search\<close> (\<open>domain/retrieval/lexical.py\<close>, the \<open>visible\<close> services): lexical and hybrid search
    (C8, C16).
  \<^item> \<open>Transcript_Chunking\<close> (\<open>transcript_chunking_service.py\<close>, \<open>index_transcript_segments_service.py\<close>): windows
    of segments, maximal within the limits (C23).
  \<^item> \<open>Transcript_Srt\<close> (\<open>ingestion/transcript_srt\<close>): the SRT parser against a printer (C15) and the import
    (C30).  \<open>Subtitle_Alignment\<close> (\<open>ingestion/subtitle_alignment\<close>): the dynamic program against the
    inductive set of all alignments (C32).

  \<^bold>\<open>Interfaces.\<close>  A locale states what a client relies on, and an interpretation shows that the model's
  own definitions keep it:
  \<^item> \<open>watch_progress_port\<close>, \<open>watch_progress_repository\<close>, \<open>season_episode_catalog\<close> and their union
    \<open>watch_services\<close>, by the in-memory adapters;
  \<^item> \<open>unit_of_work\<close>, by the ingestion store and the identity store;
  \<^item> \<open>approval_store\<close>, \<open>media_provider\<close> and \<open>media_service\<close>, by the approval repository and the mock
    provider;
  \<^item> \<open>agent_repository\<close>, by the in-memory agent store behind its port;
  \<^item> \<open>segment_reader\<close>, by the transcript store, and \<open>segment_canonicaliser\<close>, by the SRT import;
  \<^item> \<open>append_only_log\<close>, by the agent event log; \<open>invariant_system\<close>, by the seven state machines: a job
    under its lease, the queue, the identity store, the media actions, the agent store, the pool, the
    transcript store.

  \<^bold>\<open>Parameters.\<close>  What the code calls but does not contain is an argument: \<open>uuid5\<close> and \<open>sha256\<close> (where
  a property needs them not to collide, it says so), Unicode normalisation, clocks (their successive
  readings), random identifiers and tokens, the password hasher, file readers, the encoder and the vector
  index, the media provider, the conversation with the language model, and the two fuzzy ratios.

  \<^bold>\<open>Bounds and termination.\<close>  No definition runs on fuel.  Loops that consume their input are
  functions with a measure; the recovery loop of the agent jobs, which may in principle not end, is a
  \<^theory_text>\<open>partial_function\<close>, and C33 proves that it returns.  Strings are lists of Latin-1 characters, for
  which case folding and white space are written out; finite floats are rationals; instants and
  durations are unbounded microseconds, where \<open>datetime\<close> would overflow after the year 9999.  Threads
  are steps: what a method does between two waits is one step.

  \<^bold>\<open>Not modelled.\<close>
  \<^item> The HTTP interface (\<open>adapters/api\<close>): FastAPI routes and schemas, transport around the services.
  \<^item> SQL persistence (\<open>adapters/persistence\<close>) and Qdrant (\<open>adapters/qdrant\<close>): calls of third-party
    engines; the in-memory adapters of the same ports are modelled instead.
  \<^item> Language model gateways and the LangGraph workflows other than the media action graph: prompts and
    model calls.  Of LangGraph, only what the media action graph declares is used.
  \<^item> The Jellyfin client (\<open>adapters/media/jellyfin_media_provider.py\<close>): an HTTP client behind the modelled
    provider port.
  \<^item> The private speaker review (\<open>ingestion/speaker_review\<close>) and the scripts: file layouts, processes and
    batch uploads over one private corpus.
  \<^item> Around the alignment, the reading of PDF and subtitle files and the labelling service that writes
    its report.
  \<^item> Grounded answers, graph retrieval and recommendations, the Netflix history import, catalogue
    manifests and corpus inventory, retrieval evaluation, telemetry, settings: assembly of evidence for
    models, files of external formats, floating-point metrics and wiring.
\<close>

end
